(* ===== verification/PyBase.thy ===== *)
theory PyBase
  imports Main "HOL-Library.AList"
begin

text \<open>
  Prelude of the development: how the Python values of the program are written in HOL, and
  the generic lemmas the component theories share.

  \<^item> A Python \<open>dict\<close> (or \<open>OrderedDict\<close>) is an association list in insertion order with
    distinct keys: \<open>d[k] = v\<close> is \<^const>\<open>AList.update\<close> (an existing key keeps its place, a
    new one goes to the end), \<open>d.pop(k, None)\<close> is \<^const>\<open>AList.delete\<close>, \<open>d.get(k)\<close> is
    \<^const>\<open>map_of\<close>. \<open>dict_ok\<close> is the invariant of the representation.
  \<^item> A Python \<open>str\<close> is a \<^typ>\<open>string\<close> whose characters are the code points 0 to 255.
  \<^item> An exception is the \<open>Inl\<close> of a sum.
\<close>

type_synonym pystr = string
type_synonym ('k, 'v) pydict = "('k \<times> 'v) list"

abbreviation keys :: "('k, 'v) pydict \<Rightarrow> 'k list" where
  "keys d \<equiv> map fst d"

abbreviation "values" :: "('k, 'v) pydict \<Rightarrow> 'v list" where
  "values d \<equiv> map snd d"

abbreviation dict_ok :: "('k, 'v) pydict \<Rightarrow> bool" where
  "dict_ok d \<equiv> distinct (map fst d)"

text \<open>Membership of a key, as \<open>k in d\<close>.\<close>

definition has_key :: "('k, 'v) pydict \<Rightarrow> 'k \<Rightarrow> bool" where
  "has_key d k \<longleftrightarrow> map_of d k \<noteq> None"

text \<open>The fact collections the component proofs simplify with.\<close>

named_theorems dict_simps "facts about insertion-ordered dictionaries"

lemma has_key_iff [dict_simps]: "has_key d k \<longleftrightarrow> k \<in> set (keys d)"
  by (auto simp: has_key_def map_of_eq_None_iff)

lemma keys_update [dict_simps]:
  "keys (AList.update k v d) = (if k \<in> set (keys d) then keys d else keys d @ [k])"
  by (simp add: AList.update_keys)

lemma keys_delete [dict_simps]: "keys (AList.delete k d) = removeAll k (keys d)"
  by (rule AList.delete_keys)

lemma dict_ok_update [intro]: "dict_ok d \<Longrightarrow> dict_ok (AList.update k v d)"
  by (simp add: AList.update_keys)

lemma dict_ok_delete [intro]: "dict_ok d \<Longrightarrow> dict_ok (AList.delete k d)"
  by (simp add: AList.delete_keys distinct_removeAll)

lemma update_new [dict_simps]: "k \<notin> set (keys d) \<Longrightarrow> AList.update k v d = d @ [(k, v)]"
  by (induction d) auto

lemma length_update [dict_simps]:
  "length (AList.update k v d) = (if k \<in> set (keys d) then length d else Suc (length d))"
  by (induction d) auto

lemma length_update_le: "length (AList.update k v d) \<le> Suc (length d)"
  by (simp add: length_update)

lemma map_of_update_iff [dict_simps]:
  "map_of (AList.update k v d) k' = (if k' = k then Some v else map_of d k')"
  by (simp add: AList.update_conv')

lemma map_of_delete_iff [dict_simps]:
  "map_of (AList.delete k d) k' = (if k' = k then None else map_of d k')"
  by (simp add: AList.delete_conv')

lemma set_update_subset: "set (AList.update k v d) \<subseteq> insert (k, v) (set d)"
  by (induction d) auto

lemma set_delete_subset: "set (AList.delete k d) \<subseteq> set d"
  by (simp add: AList.delete_eq)

lemma delete_filter: "AList.delete k d = filter (\<lambda>kv. fst kv \<noteq> k) d"
  by (induction d) auto

lemma set_delete: "set (AList.delete k d) = {p \<in> set d. fst p \<noteq> k}"
  by (auto simp: delete_filter)

lemma map_of_map_apsnd [dict_simps]: "map_of (map (apsnd f) d) k = map_option f (map_of d k)"
  by (induction d) auto

lemma map_of_fold_delete [dict_simps]:
  "map_of (fold AList.delete ks d) k = (if k \<in> set ks then None else map_of d k)"
  by (induction ks arbitrary: d) (auto simp: map_of_delete_iff)

lemma map_of_delete_filter:
  assumes "dict_ok d"
  shows "map_of (fold AList.delete (map fst (filter (\<lambda>(k, v). P v) d)) d) k =
           (case map_of d k of None \<Rightarrow> None | Some v \<Rightarrow> if P v then None else Some v)"
proof -
  have "k \<in> set (map fst (filter (\<lambda>(k, v). P v) d)) \<longleftrightarrow> (\<exists>v. map_of d k = Some v \<and> P v)"
    using assms by force
  then show ?thesis
    unfolding map_of_fold_delete by (auto split: option.splits)
qed

lemma find_SomeD: "find P xs = Some v \<Longrightarrow> v \<in> set xs \<and> P v"
  by (induction xs) (auto split: if_splits)

text \<open>A step that returns the first error of a list of checks, as a loop that raises does.\<close>

fun check_all :: "('a \<Rightarrow> 'e option) \<Rightarrow> 'a list \<Rightarrow> 'e option" where
  "check_all f [] = None"
| "check_all f (x # xs) = (case f x of Some e \<Rightarrow> Some e | None \<Rightarrow> check_all f xs)"

lemma check_all_None: "check_all f xs = None \<longleftrightarrow> (\<forall>x \<in> set xs. f x = None)"
  by (induction xs) (auto split: option.splits)

lemma check_all_Some: "check_all f xs = Some e \<Longrightarrow> \<exists>x \<in> set xs. f x = Some e"
  by (induction xs) (auto split: option.splits)

text \<open>Folding a function that keeps a predicate keeps it.\<close>

lemma fold_invariant:
  assumes "P s" and "\<And>x s. x \<in> set xs \<Longrightarrow> P s \<Longrightarrow> P (f x s)"
  shows "P (fold f xs s)"
  using assms by (induction xs arbitrary: s) auto

lemma fold_commute_abs:
  assumes "P s" and "\<And>x s. P s \<Longrightarrow> P (f x s)" and "\<And>x s. P s \<Longrightarrow> abs (f x s) = g x (abs s)"
  shows "abs (fold f xs s) = fold g xs (abs s)"
  using assms by (induction xs arbitrary: s) auto

lemma update_snoc: "k \<notin> set (keys d) \<Longrightarrow> AList.update k v (d @ [(k, x)]) = d @ [(k, v)]"
  by (induction d) auto

end
