(* ===== verification/Ingress.thy ===== *)
theory Ingress
  imports PyBase
begin

text \<open>
  The pipeline ingress of \<^verbatim>\<open>src/lightrag/kg/pipeline_ingress.py\<close>: the channels through which
  producers tell the document pipeline of a workspace that there is work.

  Both back ends are here: \<open>mailbox\<close> (\<^verbatim>\<open>PipelineIngressMailbox\<close>, the Manager side, one lock
  around every operation) with the \<open>hub\<close> that keeps one per namespace, and \<open>aio_ingress\<close>
  (\<^verbatim>\<open>AsyncioPipelineIngress\<close>, one event loop, with the \<open>work_event\<close> its waiters sleep on).
  Every operation runs under the lock, or without an \<open>await\<close>, so each is one atomic step;
  \<open>Condition.notify_all\<close> has no effect on the state and is not modelled.
\<close>

subsection \<open>Messages and publish results\<close>

datatype msg_kind = Document | Rescan

record pi_message =
  kind :: msg_kind
  doc_id :: "pystr option"
  retry_failed :: bool
  request_id :: "pystr option"

datatype publish_result = ACCEPTED | ALREADY_TERMINAL | CAPACITY_EXCEEDED

datatype terminal_state = MANUAL_RETRY_ACKED | MANUAL_RETRY_CANCELLED_BY_CLEAR

text \<open>The three \<open>ValueError\<close>s of the publisher, and the rejected request id.\<close>

datatype ingress_error = BadDocument | ControlFieldsOnDocument | EmptyRequestId | BadManualMessage

definition terminal_capacity_default :: int where
  "terminal_capacity_default = 4096"

definition document_capacity_default :: int where
  "document_capacity_default = 4096"

definition DEFAULT_MAX_UNACKED_MANUAL_RETRIES :: int where
  "DEFAULT_MAX_UNACKED_MANUAL_RETRIES = 64"

text \<open>Python's truth value of an optional string: \<open>None\<close> and the empty string are false.\<close>

definition truthy_str :: "pystr option \<Rightarrow> bool" where
  "truthy_str x = (case x of None \<Rightarrow> False | Some s \<Rightarrow> s \<noteq> [])"

definition validate_document_message :: "pi_message \<Rightarrow> ingress_error option" where
  "validate_document_message m =
     (if kind m \<noteq> Document \<or> \<not> truthy_str (doc_id m) then Some BadDocument
      else if retry_failed m \<or> request_id m \<noteq> None then Some ControlFieldsOnDocument
      else None)"

definition validate_manual_request :: "pystr \<Rightarrow> pi_message \<Rightarrow> ingress_error option" where
  "validate_manual_request rid m =
     (if rid = [] then Some EmptyRequestId
      else if kind m \<noteq> Rescan \<or> \<not> retry_failed m \<or> request_id m \<noteq> Some rid
           then Some BadManualMessage
      else None)"

subsection \<open>Terminal request ids, a map with first-in first-out eviction\<close>

record terminal_ids =
  tcapacity :: nat
  tids :: "(pystr, terminal_state) pydict"

definition new_terminal_ids :: "int \<Rightarrow> terminal_ids" where
  "new_terminal_ids capacity = \<lparr>tcapacity = nat (max 1 capacity), tids = []\<rparr>"

text \<open>The eviction loop: \<open>popitem(last=False)\<close> while the map is over its capacity.\<close>

fun evict_oldest :: "nat \<Rightarrow> ('k, 'v) pydict \<Rightarrow> ('k, 'v) pydict" where
  "evict_oldest cap [] = []"
| "evict_oldest cap (x # xs) = (if cap < length (x # xs) then evict_oldest cap xs else x # xs)"

definition terminal_add :: "pystr \<Rightarrow> terminal_state \<Rightarrow> terminal_ids \<Rightarrow> terminal_ids" where
  "terminal_add rid st t =
     (if has_key (tids t) rid then t
      else t\<lparr>tids := evict_oldest (tcapacity t) (AList.update rid st (tids t))\<rparr>)"

definition terminal_contains :: "terminal_ids \<Rightarrow> pystr \<Rightarrow> bool" where
  "terminal_contains t rid = has_key (tids t) rid"

definition terminal_get :: "terminal_ids \<Rightarrow> pystr \<Rightarrow> terminal_state option" where
  "terminal_get t rid = map_of (tids t) rid"

definition terminal_len :: "terminal_ids \<Rightarrow> nat" where
  "terminal_len t = length (tids t)"

subsection \<open>The mailbox\<close>

record mailbox =
  document_capacity :: nat
  manual_capacity :: nat
  documents :: "pi_message list"
  document_overflows :: nat
  auto_rescan_pending :: bool
  manual_retries :: "(pystr, pi_message) pydict"
  terminals :: terminal_ids

text \<open>\<open>env_bound\<close> is the value of \<open>MAX_UNACKED_MANUAL_RETRIES\<close>, read as an integer
  (\<open>None\<close>: unset or not an integer).\<close>

definition manual_channel_capacity :: "int option \<Rightarrow> int" where
  "manual_channel_capacity env_bound =
     (case env_bound of None \<Rightarrow> DEFAULT_MAX_UNACKED_MANUAL_RETRIES | Some n \<Rightarrow> n)"

definition new_mailbox :: "int option \<Rightarrow> int \<Rightarrow> int option \<Rightarrow> mailbox" where
  "new_mailbox env_bound dcap mcap =
     \<lparr>document_capacity = nat (max 1 dcap),
      manual_capacity =
        nat (max 1 (case mcap of None \<Rightarrow> manual_channel_capacity env_bound | Some n \<Rightarrow> n)),
      documents = [], document_overflows = 0, auto_rescan_pending = False,
      manual_retries = [], terminals = new_terminal_ids terminal_capacity_default\<rparr>"

definition put_document_locked :: "pi_message \<Rightarrow> mailbox \<Rightarrow> mailbox" where
  "put_document_locked m b =
     (if document_capacity b \<le> length (documents b)
      then b\<lparr>document_overflows := document_overflows b + 1, auto_rescan_pending := True\<rparr>
      else b\<lparr>documents := documents b @ [m]\<rparr>)"

definition mb_put_document :: "pi_message \<Rightarrow> mailbox \<Rightarrow> ingress_error + mailbox" where
  "mb_put_document m b =
     (case validate_document_message m of
        Some e \<Rightarrow> Inl e
      | None \<Rightarrow> Inr (put_document_locked m b))"

definition mb_put_documents :: "pi_message list \<Rightarrow> mailbox \<Rightarrow> ingress_error + mailbox" where
  "mb_put_documents ms b =
     (case check_all validate_document_message ms of
        Some e \<Rightarrow> Inl e
      | None \<Rightarrow> Inr (fold put_document_locked ms b))"

definition mb_request_auto_rescan :: "mailbox \<Rightarrow> mailbox" where
  "mb_request_auto_rescan b = b\<lparr>auto_rescan_pending := True\<rparr>"

definition mb_request_manual_retry ::
    "pystr \<Rightarrow> pi_message \<Rightarrow> mailbox \<Rightarrow> ingress_error + (publish_result \<times> mailbox)" where
  "mb_request_manual_retry rid m b =
     (case validate_manual_request rid m of
        Some e \<Rightarrow> Inl e
      | None \<Rightarrow>
          if terminal_contains (terminals b) rid then Inr (ALREADY_TERMINAL, b)
          else if \<not> has_key (manual_retries b) rid then
            if manual_capacity b \<le> length (manual_retries b) then Inr (CAPACITY_EXCEEDED, b)
            else Inr (ACCEPTED, b\<lparr>manual_retries := AList.update rid m (manual_retries b)\<rparr>)
          else Inr (ACCEPTED, b))"

definition mb_consume_auto_rescan :: "mailbox \<Rightarrow> bool \<times> mailbox" where
  "mb_consume_auto_rescan b = (auto_rescan_pending b, b\<lparr>auto_rescan_pending := False\<rparr>)"

definition mb_drain_documents :: "int option \<Rightarrow> mailbox \<Rightarrow> pi_message list \<times> mailbox" where
  "mb_drain_documents limit b =
     (case limit of
        None \<Rightarrow> (documents b, b\<lparr>documents := []\<rparr>)
      | Some l \<Rightarrow>
          if int (length (documents b)) \<le> l then (documents b, b\<lparr>documents := []\<rparr>)
          else (take (nat (max 0 l)) (documents b),
                b\<lparr>documents := drop (nat (max 0 l)) (documents b)\<rparr>))"

definition mb_peek_next_manual_retry :: "mailbox \<Rightarrow> pi_message option" where
  "mb_peek_next_manual_retry b =
     (case values (manual_retries b) of [] \<Rightarrow> None | m # _ \<Rightarrow> Some m)"

definition mb_snapshot_manual_retries :: "mailbox \<Rightarrow> pi_message list" where
  "mb_snapshot_manual_retries b = values (manual_retries b)"

definition mb_ack_manual_retry :: "pystr \<Rightarrow> mailbox \<Rightarrow> bool \<times> mailbox" where
  "mb_ack_manual_retry rid b =
     (True, b\<lparr>manual_retries := AList.delete rid (manual_retries b),
              terminals := terminal_add rid MANUAL_RETRY_ACKED (terminals b)\<rparr>)"

definition cancel_pending :: "(pystr, pi_message) pydict \<Rightarrow> terminal_ids \<Rightarrow> terminal_ids" where
  "cancel_pending pending t =
     fold (\<lambda>rid. terminal_add rid MANUAL_RETRY_CANCELLED_BY_CLEAR) (keys pending) t"

definition mb_cancel_manual_retries :: "mailbox \<Rightarrow> nat \<times> mailbox" where
  "mb_cancel_manual_retries b =
     (length (manual_retries b),
      b\<lparr>terminals := cancel_pending (manual_retries b) (terminals b), manual_retries := []\<rparr>)"

definition mb_clear :: "mailbox \<Rightarrow> mailbox" where
  "mb_clear b =
     b\<lparr>terminals := cancel_pending (manual_retries b) (terminals b), manual_retries := [],
       documents := [], auto_rescan_pending := False\<rparr>"

definition mb_has_work :: "mailbox \<Rightarrow> bool" where
  "mb_has_work b \<longleftrightarrow> documents b \<noteq> [] \<or> auto_rescan_pending b \<or> manual_retries b \<noteq> []"

record ingress_counts =
  n_documents :: nat
  n_document_overflows :: nat
  c_auto_rescan_pending :: bool
  n_manual_retries :: nat
  n_manual_retries_capacity :: nat
  n_terminal_manual_request_ids :: nat

definition mb_counts :: "mailbox \<Rightarrow> ingress_counts" where
  "mb_counts b =
     \<lparr>n_documents = length (documents b), n_document_overflows = document_overflows b,
      c_auto_rescan_pending = auto_rescan_pending b,
      n_manual_retries = length (manual_retries b),
      n_manual_retries_capacity = manual_capacity b,
      n_terminal_manual_request_ids = terminal_len (terminals b)\<rparr>"

subsection \<open>The hub: one mailbox per namespace, created on first use\<close>

type_synonym hub = "(pystr, mailbox) pydict"

definition hub_mailbox :: "int option \<Rightarrow> pystr \<Rightarrow> hub \<Rightarrow> mailbox \<times> hub" where
  "hub_mailbox env ns h =
     (case map_of h ns of
        Some b \<Rightarrow> (b, h)
      | None \<Rightarrow>
          let b = new_mailbox env document_capacity_default None in (b, AList.update ns b h))"

text \<open>One remote call: look the mailbox up, run one of its operations, keep its new state. A
  mailbox created for a call that raises stays in the map.\<close>

definition hub_call ::
    "int option \<Rightarrow> pystr \<Rightarrow> (mailbox \<Rightarrow> ingress_error + ('r \<times> mailbox)) \<Rightarrow> hub
       \<Rightarrow> (ingress_error + 'r) \<times> hub" where
  "hub_call env ns f h =
     (case hub_mailbox env ns h of (b, h1) \<Rightarrow>
        (case f b of
           Inl e \<Rightarrow> (Inl e, h1)
         | Inr (r, b') \<Rightarrow> (Inr r, AList.update ns b' h1)))"

definition hub_put_document ::
    "int option \<Rightarrow> pystr \<Rightarrow> pi_message \<Rightarrow> hub \<Rightarrow> (ingress_error + unit) \<times> hub" where
  "hub_put_document env ns m = hub_call env ns (\<lambda>b. map_sum id (Pair ()) (mb_put_document m b))"

definition hub_put_documents ::
    "int option \<Rightarrow> pystr \<Rightarrow> pi_message list \<Rightarrow> hub \<Rightarrow> (ingress_error + unit) \<times> hub" where
  "hub_put_documents env ns ms =
     hub_call env ns (\<lambda>b. map_sum id (Pair ()) (mb_put_documents ms b))"

definition hub_request_auto_rescan ::
    "int option \<Rightarrow> pystr \<Rightarrow> hub \<Rightarrow> (ingress_error + unit) \<times> hub" where
  "hub_request_auto_rescan env ns = hub_call env ns (\<lambda>b. Inr ((), mb_request_auto_rescan b))"

definition hub_request_manual_retry ::
    "int option \<Rightarrow> pystr \<Rightarrow> pystr \<Rightarrow> pi_message \<Rightarrow> hub
       \<Rightarrow> (ingress_error + publish_result) \<times> hub" where
  "hub_request_manual_retry env ns rid m = hub_call env ns (mb_request_manual_retry rid m)"

definition hub_consume_auto_rescan ::
    "int option \<Rightarrow> pystr \<Rightarrow> hub \<Rightarrow> (ingress_error + bool) \<times> hub" where
  "hub_consume_auto_rescan env ns = hub_call env ns (\<lambda>b. Inr (mb_consume_auto_rescan b))"

definition hub_drain_documents ::
    "int option \<Rightarrow> pystr \<Rightarrow> int option \<Rightarrow> hub \<Rightarrow> (ingress_error + pi_message list) \<times> hub" where
  "hub_drain_documents env ns limit = hub_call env ns (\<lambda>b. Inr (mb_drain_documents limit b))"

definition hub_peek_next_manual_retry ::
    "int option \<Rightarrow> pystr \<Rightarrow> hub \<Rightarrow> (ingress_error + pi_message option) \<times> hub" where
  "hub_peek_next_manual_retry env ns =
     hub_call env ns (\<lambda>b. Inr (mb_peek_next_manual_retry b, b))"

definition hub_snapshot_manual_retries ::
    "int option \<Rightarrow> pystr \<Rightarrow> hub \<Rightarrow> (ingress_error + pi_message list) \<times> hub" where
  "hub_snapshot_manual_retries env ns =
     hub_call env ns (\<lambda>b. Inr (mb_snapshot_manual_retries b, b))"

definition hub_ack_manual_retry ::
    "int option \<Rightarrow> pystr \<Rightarrow> pystr \<Rightarrow> hub \<Rightarrow> (ingress_error + bool) \<times> hub" where
  "hub_ack_manual_retry env ns rid = hub_call env ns (\<lambda>b. Inr (mb_ack_manual_retry rid b))"

definition hub_cancel_manual_retries ::
    "int option \<Rightarrow> pystr \<Rightarrow> hub \<Rightarrow> (ingress_error + nat) \<times> hub" where
  "hub_cancel_manual_retries env ns = hub_call env ns (\<lambda>b. Inr (mb_cancel_manual_retries b))"

definition hub_clear :: "int option \<Rightarrow> pystr \<Rightarrow> hub \<Rightarrow> (ingress_error + unit) \<times> hub" where
  "hub_clear env ns = hub_call env ns (\<lambda>b. Inr ((), mb_clear b))"

definition hub_has_work :: "int option \<Rightarrow> pystr \<Rightarrow> hub \<Rightarrow> (ingress_error + bool) \<times> hub" where
  "hub_has_work env ns = hub_call env ns (\<lambda>b. Inr (mb_has_work b, b))"

definition hub_counts ::
    "int option \<Rightarrow> pystr \<Rightarrow> hub \<Rightarrow> (ingress_error + ingress_counts) \<times> hub" where
  "hub_counts env ns = hub_call env ns (\<lambda>b. Inr (mb_counts b, b))"

subsection \<open>The single-process ingress\<close>

text \<open>\<open>owning_loop\<close> is the identity of the event loop the queue and the event belong to.\<close>

record aio_ingress =
  owning_loop :: nat
  aio_document_capacity :: nat
  aio_manual_capacity :: nat
  document_messages :: "pi_message list"
  aio_document_overflows :: nat
  aio_auto_rescan_pending :: bool
  aio_manual_retries :: "(pystr, pi_message) pydict"
  aio_terminals :: terminal_ids
  work_event :: bool

definition new_aio :: "nat \<Rightarrow> int option \<Rightarrow> int \<Rightarrow> int option \<Rightarrow> aio_ingress" where
  "new_aio loop env_bound dcap mcap =
     \<lparr>owning_loop = loop,
      aio_document_capacity = nat (max 1 dcap),
      aio_manual_capacity =
        nat (max 1 (case mcap of None \<Rightarrow> manual_channel_capacity env_bound | Some n \<Rightarrow> n)),
      document_messages = [], aio_document_overflows = 0, aio_auto_rescan_pending = False,
      aio_manual_retries = [], aio_terminals = new_terminal_ids terminal_capacity_default,
      work_event = False\<rparr>"

definition aio_has_work :: "aio_ingress \<Rightarrow> bool" where
  "aio_has_work s \<longleftrightarrow>
     document_messages s \<noteq> [] \<or> aio_auto_rescan_pending s \<or> aio_manual_retries s \<noteq> []"

definition maybe_clear_event :: "aio_ingress \<Rightarrow> aio_ingress" where
  "maybe_clear_event s = (if aio_has_work s then s else s\<lparr>work_event := False\<rparr>)"

definition rebind_to_current_loop :: "nat \<Rightarrow> aio_ingress \<Rightarrow> aio_ingress" where
  "rebind_to_current_loop loop s =
     (let s1 = s\<lparr>owning_loop := loop, document_messages := fold (\<lambda>m q. q @ [m]) (document_messages s) [],
                 work_event := False\<rparr>
      in if aio_has_work s1 then s1\<lparr>work_event := True\<rparr> else s1)"

text \<open>\<open>put_document\<close> after its validation.\<close>

definition aio_enqueue :: "pi_message \<Rightarrow> aio_ingress \<Rightarrow> aio_ingress" where
  "aio_enqueue m s =
     (if aio_document_capacity s \<le> length (document_messages s)
      then s\<lparr>aio_document_overflows := aio_document_overflows s + 1,
             aio_auto_rescan_pending := True, work_event := True\<rparr>
      else s\<lparr>document_messages := document_messages s @ [m], work_event := True\<rparr>)"

definition aio_put_document :: "pi_message \<Rightarrow> aio_ingress \<Rightarrow> ingress_error + aio_ingress" where
  "aio_put_document m s =
     (case validate_document_message m of Some e \<Rightarrow> Inl e | None \<Rightarrow> Inr (aio_enqueue m s))"

text \<open>The batch validates every message first, then calls \<open>put_document\<close> for each.\<close>

fun aio_put_each :: "pi_message list \<Rightarrow> aio_ingress \<Rightarrow> ingress_error + aio_ingress" where
  "aio_put_each [] s = Inr s"
| "aio_put_each (m # ms) s =
     (case aio_put_document m s of Inl e \<Rightarrow> Inl e | Inr s' \<Rightarrow> aio_put_each ms s')"

definition aio_put_documents ::
    "pi_message list \<Rightarrow> aio_ingress \<Rightarrow> ingress_error + aio_ingress" where
  "aio_put_documents ms s =
     (case check_all validate_document_message ms of
        Some e \<Rightarrow> Inl e
      | None \<Rightarrow> aio_put_each ms s)"

definition aio_request_auto_rescan :: "aio_ingress \<Rightarrow> aio_ingress" where
  "aio_request_auto_rescan s = s\<lparr>aio_auto_rescan_pending := True, work_event := True\<rparr>"

definition aio_request_manual_retry ::
    "pystr \<Rightarrow> pi_message \<Rightarrow> aio_ingress \<Rightarrow> ingress_error + (publish_result \<times> aio_ingress)" where
  "aio_request_manual_retry rid m s =
     (case validate_manual_request rid m of
        Some e \<Rightarrow> Inl e
      | None \<Rightarrow>
          if terminal_contains (aio_terminals s) rid then Inr (ALREADY_TERMINAL, s)
          else if \<not> has_key (aio_manual_retries s) rid then
            if aio_manual_capacity s \<le> length (aio_manual_retries s)
            then Inr (CAPACITY_EXCEEDED, s)
            else Inr (ACCEPTED,
                      s\<lparr>aio_manual_retries := AList.update rid m (aio_manual_retries s),
                        work_event := True\<rparr>)
          else Inr (ACCEPTED, s))"

definition aio_consume_auto_rescan :: "aio_ingress \<Rightarrow> bool \<times> aio_ingress" where
  "aio_consume_auto_rescan s =
     (aio_auto_rescan_pending s, maybe_clear_event (s\<lparr>aio_auto_rescan_pending := False\<rparr>))"

text \<open>\<open>get_document\<close> awaits the queue: \<open>None\<close> is a call that would still be waiting.\<close>

definition aio_get_document :: "aio_ingress \<Rightarrow> (pi_message \<times> aio_ingress) option" where
  "aio_get_document s =
     (case document_messages s of
        [] \<Rightarrow> None
      | m # ms \<Rightarrow> Some (m, maybe_clear_event (s\<lparr>document_messages := ms\<rparr>)))"

text \<open>The drain loop: the messages drained so far and the queue.\<close>

fun drain_loop ::
    "int option \<Rightarrow> pi_message list \<Rightarrow> pi_message list \<Rightarrow> pi_message list \<times> pi_message list" where
  "drain_loop limit drained [] = (drained, [])"
| "drain_loop limit drained (m # q) =
     (if (case limit of None \<Rightarrow> True | Some l \<Rightarrow> int (length drained) < l)
      then drain_loop limit (drained @ [m]) q
      else (drained, m # q))"

definition aio_drain_documents ::
    "int option \<Rightarrow> aio_ingress \<Rightarrow> pi_message list \<times> aio_ingress" where
  "aio_drain_documents limit s =
     (case drain_loop limit [] (document_messages s) of
        (drained, q) \<Rightarrow> (drained, maybe_clear_event (s\<lparr>document_messages := q\<rparr>)))"

definition aio_peek_next_manual_retry :: "aio_ingress \<Rightarrow> pi_message option" where
  "aio_peek_next_manual_retry s =
     (case values (aio_manual_retries s) of [] \<Rightarrow> None | m # _ \<Rightarrow> Some m)"

definition aio_snapshot_manual_retries :: "aio_ingress \<Rightarrow> pi_message list" where
  "aio_snapshot_manual_retries s = values (aio_manual_retries s)"

definition aio_ack_manual_retry :: "pystr \<Rightarrow> aio_ingress \<Rightarrow> bool \<times> aio_ingress" where
  "aio_ack_manual_retry rid s =
     (True, maybe_clear_event
        (s\<lparr>aio_manual_retries := AList.delete rid (aio_manual_retries s),
           aio_terminals := terminal_add rid MANUAL_RETRY_ACKED (aio_terminals s)\<rparr>))"

definition aio_cancel_manual_retries :: "aio_ingress \<Rightarrow> nat \<times> aio_ingress" where
  "aio_cancel_manual_retries s =
     (length (aio_manual_retries s),
      maybe_clear_event
        (s\<lparr>aio_terminals := cancel_pending (aio_manual_retries s) (aio_terminals s),
           aio_manual_retries := []\<rparr>))"

definition aio_clear :: "aio_ingress \<Rightarrow> aio_ingress" where
  "aio_clear s =
     (let s1 = s\<lparr>aio_terminals := cancel_pending (aio_manual_retries s) (aio_terminals s),
                 aio_manual_retries := []\<rparr>;
          s2 = snd (aio_drain_documents None s1)
      in maybe_clear_event (s2\<lparr>aio_auto_rescan_pending := False\<rparr>))"

definition aio_counts :: "aio_ingress \<Rightarrow> ingress_counts" where
  "aio_counts s =
     \<lparr>n_documents = length (document_messages s), n_document_overflows = aio_document_overflows s,
      c_auto_rescan_pending = aio_auto_rescan_pending s,
      n_manual_retries = length (aio_manual_retries s),
      n_manual_retries_capacity = aio_manual_capacity s,
      n_terminal_manual_request_ids = terminal_len (aio_terminals s)\<rparr>"

text \<open>One turn of the loop of \<open>wait_for_items\<close>: whether the waiter returns, and the state in
  which it goes to sleep on \<open>work_event\<close> otherwise.\<close>

definition aio_wait_turn :: "aio_ingress \<Rightarrow> bool \<times> aio_ingress" where
  "aio_wait_turn s =
     (if aio_has_work s then (True, s)
      else let s1 = s\<lparr>work_event := False\<rparr> in (aio_has_work s1, s1))"

end
