(* ===== verification/IngressLaws.thy ===== *)
theory IngressLaws
  imports Ingress "HOL-Library.Sublist"
begin

text \<open>
  What the ingress channels of \<^verbatim>\<open>pipeline_ingress.py\<close> promise. The invariant of a mailbox is
  \<open>mailbox_ok\<close>; \<open>ingress_op\<close> names the operations of the \<^verbatim>\<open>PipelineIngress\<close> protocol, and the
  locale \<open>ingress_backend\<close> is the contract of a back end: it answers every operation as the
  mailbox does. Both back ends interpret it.
\<close>

subsection \<open>Terminal ids\<close>

definition terminal_ok :: "terminal_ids \<Rightarrow> bool" where
  "terminal_ok t \<longleftrightarrow> 0 < tcapacity t \<and> dict_ok (tids t) \<and> length (tids t) \<le> tcapacity t"

lemma evict_oldest_drop: "evict_oldest cap xs = drop (length xs - cap) xs"
proof (induction xs)
  case (Cons x xs)
  then show ?case by (auto simp: Suc_diff_le)
qed simp

lemma dict_ok_drop: "dict_ok xs \<Longrightarrow> dict_ok (drop n xs)"
  by (simp add: drop_map [symmetric])

lemma terminal_ok_new: "terminal_ok (new_terminal_ids c)"
  by (simp add: terminal_ok_def new_terminal_ids_def)

lemma tcapacity_add [simp]: "tcapacity (terminal_add rid st t) = tcapacity t"
  by (simp add: terminal_add_def)

lemma terminal_ok_add: "terminal_ok t \<Longrightarrow> terminal_ok (terminal_add rid st t)"
  by (auto simp: terminal_ok_def terminal_add_def evict_oldest_drop length_update
      simp del: drop_append intro!: dict_ok_drop dict_ok_update)

text \<open>What an addition does to the list of ids: nothing for a known id, otherwise it is appended
  and at most one id, the oldest, leaves.\<close>

lemma terminal_add_new:
  assumes "terminal_ok t" and "\<not> terminal_contains t rid"
  shows "tids (terminal_add rid st t)
           = (if length (tids t) < tcapacity t then tids t @ [(rid, st)]
              else tl (tids t) @ [(rid, st)])"
proof -
  have new: "rid \<notin> set (keys (tids t))"
    using assms(2) by (simp add: terminal_contains_def has_key_iff)
  have "length (tids t) \<le> tcapacity t" "0 < tcapacity t"
    using assms(1) by (simp_all add: terminal_ok_def)
  with new show ?thesis
    by (cases "tids t")
       (auto simp: terminal_add_def has_key_iff update_new evict_oldest_drop)
qed

lemma terminal_add_known: "terminal_contains t rid \<Longrightarrow> terminal_add rid st t = t"
  by (simp add: terminal_contains_def terminal_add_def)

lemma terminal_add_self:
  assumes "terminal_ok t"
  shows "terminal_contains (terminal_add rid st t) rid"
proof (cases "terminal_contains t rid")
  case True
  then show ?thesis by (simp add: terminal_add_known)
next
  case False
  then show ?thesis
    using terminal_add_new [OF assms False, of st] by (auto simp: terminal_contains_def has_key_iff)
qed

lemma terminal_add_subset:
  "set (keys (tids (terminal_add rid st t))) \<subseteq> insert rid (set (keys (tids t)))"
proof -
  have "set (keys (drop n (AList.update rid st (tids t)))) \<subseteq> insert rid (set (keys (tids t)))" for n
  proof -
    have "set (keys (drop n (AList.update rid st (tids t))))
            \<subseteq> set (keys (AList.update rid st (tids t)))"
      by (metis drop_map set_drop_subset)
    then show ?thesis by (auto simp: AList.update_keys split: if_splits)
  qed
  then show ?thesis by (auto simp: terminal_add_def evict_oldest_drop)
qed

text \<open>The position of an id in the eviction order: how many ids are at least as young.\<close>

definition younger :: "terminal_ids \<Rightarrow> pystr \<Rightarrow> nat" where
  "younger t rid = length (dropWhile (\<lambda>kv. fst kv \<noteq> rid) (tids t))"

lemma younger_pos: "0 < younger t rid \<longleftrightarrow> terminal_contains t rid"
  by (force simp: younger_def terminal_contains_def has_key_iff dropWhile_eq_Nil_conv)

lemma dropWhile_append_hit:
  "\<exists>x \<in> set xs. \<not> P x \<Longrightarrow> dropWhile P (xs @ ys) = dropWhile P xs @ ys"
  by (induction xs) auto

lemma terminal_add_keeps:
  assumes ok: "terminal_ok t" and c: "map_of (tids t) rid = Some st"
    and room: "younger t rid < tcapacity t"
  shows "map_of (tids (terminal_add rid' st' t)) rid = Some st
         \<and> younger (terminal_add rid' st' t) rid \<le> Suc (younger t rid)"
proof (cases "terminal_contains t rid'")
  case True
  then show ?thesis using c by (simp add: terminal_add_known)
next
  case False
  have ne: "rid' \<noteq> rid"
    using False c by (auto simp: terminal_contains_def has_key_def)
  have mem: "\<exists>kv \<in> set (tids t). \<not> fst kv \<noteq> rid"
    using c by (force dest: map_of_SomeD)
  show ?thesis
  proof (cases "length (tids t) < tcapacity t")
    case True
    then show ?thesis
      using c ne mem
      by (simp add: terminal_add_new [OF ok False] younger_def dropWhile_append_hit map_add_def
          split: option.splits)
  next
    case full: False
    then have len: "length (tids t) = tcapacity t"
      using ok by (simp add: terminal_ok_def)
    obtain kv rest where t: "tids t = kv # rest"
      using mem by (cases "tids t") auto
    have "fst kv \<noteq> rid"
      using room len t by (auto simp: younger_def)
    then have "map_of rest rid = Some st" "\<exists>kv \<in> set rest. \<not> fst kv \<noteq> rid"
      using c mem t by (auto split: if_splits)
    then show ?thesis
      using \<open>fst kv \<noteq> rid\<close> ne full t
      by (simp add: terminal_add_new [OF ok False] younger_def dropWhile_append_hit map_add_def)
  qed
qed

lemma younger_new:
  assumes "terminal_ok t" and "\<not> terminal_contains t rid"
  shows "map_of (tids (terminal_add rid st t)) rid = Some st
         \<and> younger (terminal_add rid st t) rid = 1"
proof -
  have "rid \<notin> set (keys (tids t))"
    using assms(2) by (simp add: terminal_contains_def has_key_iff)
  then have a: "\<forall>kv \<in> set (tids t). fst kv \<noteq> rid" by force
  then have b: "\<forall>kv \<in> set (tl (tids t)). fst kv \<noteq> rid"
    by (cases "tids t") auto
  have drop: "dropWhile P (xs @ [y]) = [y]" if "\<forall>x \<in> set xs. P x" "\<not> P y"
    for P :: "pystr \<times> terminal_state \<Rightarrow> bool" and xs y
    using that by (induction xs) auto
  have "map_of (xs @ [(rid, st)]) rid = Some st" if "\<forall>kv \<in> set xs. fst kv \<noteq> rid" for xs
    using that by (induction xs) auto
  with a b show ?thesis
    by (simp add: terminal_add_new [OF assms] younger_def drop)
qed

lemma terminal_adds_keep:
  assumes "terminal_ok t" and "map_of (tids t) rid = Some st"
    and "younger t rid + length xs \<le> tcapacity t"
  shows "map_of (tids (fold (\<lambda>(r, s). terminal_add r s) xs t)) rid = Some st"
  using assms
proof (induction xs arbitrary: t)
  case (Cons x xs)
  obtain r s where x: "x = (r, s)" by force
  have "map_of (tids (terminal_add r s t)) rid = Some st"
    and "younger (terminal_add r s t) rid \<le> Suc (younger t rid)"
    using terminal_add_keeps [OF Cons.prems(1,2)] Cons.prems(3) by auto
  then show ?case
    using Cons.IH [of "terminal_add r s t"] Cons.prems terminal_ok_add x by auto
qed simp

subsection \<open>The invariant of a mailbox\<close>

definition mailbox_ok :: "mailbox \<Rightarrow> bool" where
  "mailbox_ok b \<longleftrightarrow>
     terminal_ok (terminals b) \<and> dict_ok (manual_retries b)
     \<and> length (documents b) \<le> document_capacity b
     \<and> length (manual_retries b) \<le> manual_capacity b
     \<and> set (keys (manual_retries b)) \<inter> set (keys (tids (terminals b))) = {}
     \<and> (\<forall>m \<in> set (documents b). validate_document_message m = None)
     \<and> (\<forall>(rid, m) \<in> set (manual_retries b). validate_manual_request rid m = None)"

lemma mailbox_okD:
  assumes "mailbox_ok b"
  shows "terminal_ok (terminals b)" and "dict_ok (manual_retries b)"
    and "length (documents b) \<le> document_capacity b"
    and "length (manual_retries b) \<le> manual_capacity b"
    and "set (keys (manual_retries b)) \<inter> set (keys (tids (terminals b))) = {}"
    and "\<forall>m \<in> set (documents b). validate_document_message m = None"
    and "\<forall>(rid, m) \<in> set (manual_retries b). validate_manual_request rid m = None"
  using assms by (simp_all add: mailbox_ok_def)

lemma mailbox_ok_new: "mailbox_ok (new_mailbox env dc mc)"
  by (simp add: mailbox_ok_def new_mailbox_def terminal_ok_new)

lemma terminal_ok_cancel: "terminal_ok t \<Longrightarrow> terminal_ok (cancel_pending p t)"
  unfolding cancel_pending_def by (rule fold_invariant) (auto intro: terminal_ok_add)

lemma mailbox_ok_put_locked:
  "mailbox_ok b \<Longrightarrow> validate_document_message m = None \<Longrightarrow> mailbox_ok (put_document_locked m b)"
  by (auto simp: mailbox_ok_def put_document_locked_def)

lemma mailbox_ok_put_fold:
  "mailbox_ok b \<Longrightarrow> \<forall>m \<in> set ms. validate_document_message m = None
     \<Longrightarrow> mailbox_ok (fold put_document_locked ms b)"
  by (rule fold_invariant) (auto intro: mailbox_ok_put_locked)

lemma mailbox_ok_drain: "mailbox_ok b \<Longrightarrow> mailbox_ok (snd (mb_drain_documents l b))"
  by (auto simp: mailbox_ok_def mb_drain_documents_def split: option.splits dest: in_set_dropD)

lemma mailbox_ok_request:
  assumes "mailbox_ok b" and "mb_request_manual_retry rid m b = Inr (r, b')"
  shows "mailbox_ok b'"
proof -
  note d = mailbox_okD [OF assms(1)]
  consider "b' = b"
    | "validate_manual_request rid m = None" "rid \<notin> set (keys (tids (terminals b)))"
      "rid \<notin> set (keys (manual_retries b))" "length (manual_retries b) < manual_capacity b"
      "b' = b\<lparr>manual_retries := manual_retries b @ [(rid, m)]\<rparr>"
    using assms(2)
    by (auto simp: mb_request_manual_retry_def terminal_contains_def has_key_iff update_new
        split: option.splits if_splits)
  then show ?thesis
  proof cases
    case 2
    then show ?thesis using d by (simp add: mailbox_ok_def)
  qed (use assms(1) in simp)
qed

lemma mailbox_ok_ack:
  assumes "mailbox_ok b"
  shows "mailbox_ok (snd (mb_ack_manual_retry rid b))"
proof -
  note d = mailbox_okD [OF assms]
  have "length (AList.delete rid (manual_retries b)) \<le> manual_capacity b"
    by (rule le_trans [OF AList.length_delete_le d(4)])
  moreover have "set (keys (AList.delete rid (manual_retries b)))
        \<inter> set (keys (tids (terminal_add rid MANUAL_RETRY_ACKED (terminals b)))) = {}"
    using d(5) terminal_add_subset [of rid MANUAL_RETRY_ACKED "terminals b"]
    unfolding keys_delete set_removeAll by blast
  moreover have "\<forall>(r, m) \<in> set (AList.delete rid (manual_retries b)).
        validate_manual_request r m = None"
    using d(7) by (auto simp: set_delete)
  ultimately show ?thesis
    using d(1,2,3,6) dict_ok_delete [OF d(2), of rid]
    unfolding mailbox_ok_def mb_ack_manual_retry_def by (simp add: terminal_ok_add)
qed

lemma mailbox_ok_cancel: "mailbox_ok b \<Longrightarrow> mailbox_ok (snd (mb_cancel_manual_retries b))"
  by (simp add: mailbox_ok_def mb_cancel_manual_retries_def terminal_ok_cancel)

lemma mailbox_ok_clear: "mailbox_ok b \<Longrightarrow> mailbox_ok (mb_clear b)"
  by (simp add: mailbox_ok_def mb_clear_def terminal_ok_cancel)

lemmas mailbox_ok_ops = mailbox_ok_put_locked mailbox_ok_put_fold mailbox_ok_drain
  mailbox_ok_ack mailbox_ok_cancel mailbox_ok_clear

subsection \<open>The protocol: operations, answers, runs\<close>

datatype ingress_op =
    PutDocument pi_message
  | PutDocuments "pi_message list"
  | RequestAutoRescan
  | RequestManualRetry pystr pi_message
  | ConsumeAutoRescan
  | DrainDocuments "int option"
  | HasWork
  | PeekNextManualRetry
  | SnapshotManualRetries
  | AckManualRetry pystr
  | CancelManualRetries
  | Clear
  | Counts

datatype ingress_answer =
    Raised ingress_error
  | NoValue
  | Truth bool
  | Published publish_result
  | Messages "pi_message list"
  | MaybeMessage "pi_message option"
  | Amount nat
  | CountsOf ingress_counts

fun mb_do :: "ingress_op \<Rightarrow> mailbox \<Rightarrow> ingress_answer \<times> mailbox" where
  "mb_do (PutDocument m) b =
     (case mb_put_document m b of Inl e \<Rightarrow> (Raised e, b) | Inr b' \<Rightarrow> (NoValue, b'))"
| "mb_do (PutDocuments ms) b =
     (case mb_put_documents ms b of Inl e \<Rightarrow> (Raised e, b) | Inr b' \<Rightarrow> (NoValue, b'))"
| "mb_do RequestAutoRescan b = (NoValue, mb_request_auto_rescan b)"
| "mb_do (RequestManualRetry rid m) b =
     (case mb_request_manual_retry rid m b of
        Inl e \<Rightarrow> (Raised e, b) | Inr (r, b') \<Rightarrow> (Published r, b'))"
| "mb_do ConsumeAutoRescan b = apfst Truth (mb_consume_auto_rescan b)"
| "mb_do (DrainDocuments l) b = apfst Messages (mb_drain_documents l b)"
| "mb_do HasWork b = (Truth (mb_has_work b), b)"
| "mb_do PeekNextManualRetry b = (MaybeMessage (mb_peek_next_manual_retry b), b)"
| "mb_do SnapshotManualRetries b = (Messages (mb_snapshot_manual_retries b), b)"
| "mb_do (AckManualRetry rid) b = apfst Truth (mb_ack_manual_retry rid b)"
| "mb_do CancelManualRetries b = apfst Amount (mb_cancel_manual_retries b)"
| "mb_do Clear b = (NoValue, mb_clear b)"
| "mb_do Counts b = (CountsOf (mb_counts b), b)"

fun aio_do :: "ingress_op \<Rightarrow> aio_ingress \<Rightarrow> ingress_answer \<times> aio_ingress" where
  "aio_do (PutDocument m) s =
     (case aio_put_document m s of Inl e \<Rightarrow> (Raised e, s) | Inr s' \<Rightarrow> (NoValue, s'))"
| "aio_do (PutDocuments ms) s =
     (case aio_put_documents ms s of Inl e \<Rightarrow> (Raised e, s) | Inr s' \<Rightarrow> (NoValue, s'))"
| "aio_do RequestAutoRescan s = (NoValue, aio_request_auto_rescan s)"
| "aio_do (RequestManualRetry rid m) s =
     (case aio_request_manual_retry rid m s of
        Inl e \<Rightarrow> (Raised e, s) | Inr (r, s') \<Rightarrow> (Published r, s'))"
| "aio_do ConsumeAutoRescan s = apfst Truth (aio_consume_auto_rescan s)"
| "aio_do (DrainDocuments l) s = apfst Messages (aio_drain_documents l s)"
| "aio_do HasWork s = (Truth (aio_has_work s), s)"
| "aio_do PeekNextManualRetry s = (MaybeMessage (aio_peek_next_manual_retry s), s)"
| "aio_do SnapshotManualRetries s = (Messages (aio_snapshot_manual_retries s), s)"
| "aio_do (AckManualRetry rid) s = apfst Truth (aio_ack_manual_retry rid s)"
| "aio_do CancelManualRetries s = apfst Amount (aio_cancel_manual_retries s)"
| "aio_do Clear s = (NoValue, aio_clear s)"
| "aio_do Counts s = (CountsOf (aio_counts s), s)"

fun run_ops :: "('op \<Rightarrow> 's \<Rightarrow> 'out \<times> 's) \<Rightarrow> 'op list \<Rightarrow> 's \<Rightarrow> 'out list \<times> 's" where
  "run_ops f [] s = ([], s)"
| "run_ops f (x # xs) s =
     (case f x s of (out, s') \<Rightarrow> apfst (Cons out) (run_ops f xs s'))"

lemma run_ops_invariant:
  assumes "\<And>x s. x \<in> set xs \<Longrightarrow> P s \<Longrightarrow> P (snd (f x s))" and "P s"
  shows "P (snd (run_ops f xs s))"
  using assms
proof (induction xs arbitrary: s)
  case (Cons x xs)
  have "P (snd (f x s))" using Cons.prems by simp
  then have "P (snd (run_ops f xs (snd (f x s))))" using Cons.IH Cons.prems(1) by simp
  then show ?case by (simp add: case_prod_beta)
qed simp

lemma mailbox_ok_do: "mailbox_ok b \<Longrightarrow> mailbox_ok (snd (mb_do op b))"
proof (cases op)
  case (RequestManualRetry rid m)
  assume "mailbox_ok b"
  then show ?thesis
    using RequestManualRetry mailbox_ok_request [of b rid m] by (auto split: sum.splits)
qed (auto simp: mailbox_ok_ops mb_put_document_def mb_put_documents_def check_all_None
       mb_request_auto_rescan_def mb_consume_auto_rescan_def split: option.splits,
     auto simp: mailbox_ok_def)

text \<open>
  The contract of a back end: seen through \<open>view\<close>, it answers every operation of the protocol
  as the mailbox does and changes in the same way. Clients of the protocol rely on nothing
  else, so what holds of runs of the mailbox holds of runs of any back end.
\<close>

locale ingress_backend =
  fixes do_op :: "ingress_op \<Rightarrow> 's \<Rightarrow> ingress_answer \<times> 's"
    and view :: "'s \<Rightarrow> mailbox"
    and ok :: "'s \<Rightarrow> bool"
  assumes answer: "ok s \<Longrightarrow> fst (do_op op s) = fst (mb_do op (view s))"
    and change: "ok s \<Longrightarrow> view (snd (do_op op s)) = snd (mb_do op (view s))"
    and keeps: "ok s \<Longrightarrow> ok (snd (do_op op s))"
    and view_ok: "ok s \<Longrightarrow> mailbox_ok (view s)"
begin

lemma run_answers: "ok s \<Longrightarrow> fst (run_ops do_op ops s) = fst (run_ops mb_do ops (view s))"
  by (induction ops arbitrary: s) (simp_all add: case_prod_beta answer change keeps)

lemma run_view: "ok s \<Longrightarrow> view (snd (run_ops do_op ops s)) = snd (run_ops mb_do ops (view s))"
  by (induction ops arbitrary: s) (simp_all add: case_prod_beta change keeps)

lemma run_ok: "ok s \<Longrightarrow> ok (snd (run_ops do_op ops s))"
  by (induction ops arbitrary: s) (simp_all add: case_prod_beta keeps)

lemma run_mailbox_ok: "ok s \<Longrightarrow> mailbox_ok (view (snd (run_ops do_op ops s)))"
  by (rule view_ok [OF run_ok])

end

interpretation mbx: ingress_backend mb_do id mailbox_ok
  by unfold_locales (simp_all add: mailbox_ok_do)

subsection \<open>The single-process ingress meets the contract\<close>

definition aio_view :: "aio_ingress \<Rightarrow> mailbox" where
  "aio_view s =
     \<lparr>document_capacity = aio_document_capacity s, manual_capacity = aio_manual_capacity s,
      documents = document_messages s, document_overflows = aio_document_overflows s,
      auto_rescan_pending = aio_auto_rescan_pending s, manual_retries = aio_manual_retries s,
      terminals = aio_terminals s\<rparr>"

definition event_ok :: "aio_ingress \<Rightarrow> bool" where
  "event_ok s \<longleftrightarrow> (aio_has_work s \<longrightarrow> work_event s)"

definition aio_ok :: "aio_ingress \<Rightarrow> bool" where
  "aio_ok s \<longleftrightarrow> mailbox_ok (aio_view s) \<and> event_ok s"

lemma view_maybe_clear [simp]: "aio_view (maybe_clear_event s) = aio_view s"
  by (simp add: maybe_clear_event_def aio_view_def)

lemma has_work_view: "aio_has_work s = mb_has_work (aio_view s)"
  by (simp add: aio_has_work_def mb_has_work_def aio_view_def)

lemma event_ok_maybe_clear: "work_event s \<or> event_ok s \<Longrightarrow> event_ok (maybe_clear_event s)"
  by (auto simp: maybe_clear_event_def event_ok_def aio_has_work_def)

lemma event_ok_less_work:
  "event_ok s \<Longrightarrow> aio_has_work s \<or> \<not> aio_has_work s' \<Longrightarrow> work_event s' = work_event s
     \<Longrightarrow> event_ok (maybe_clear_event s')"
  by (auto simp: maybe_clear_event_def event_ok_def aio_has_work_def)

lemma aio_enqueue_view: "aio_view (aio_enqueue m s) = put_document_locked m (aio_view s)"
  by (simp add: aio_enqueue_def put_document_locked_def aio_view_def)

lemma aio_put_each_valid:
  "\<forall>m \<in> set ms. validate_document_message m = None
     \<Longrightarrow> aio_put_each ms s = Inr (fold aio_enqueue ms s)"
  by (induction ms arbitrary: s) (simp_all add: aio_put_document_def)

lemma fold_enqueue_view:
  "aio_view (fold aio_enqueue ms s) = fold put_document_locked ms (aio_view s)"
  by (induction ms arbitrary: s) (simp_all add: aio_enqueue_view)

lemma fold_enqueue_event: "event_ok s \<Longrightarrow> event_ok (fold aio_enqueue ms s)"
  by (rule fold_invariant) (simp_all add: aio_enqueue_def event_ok_def)

lemma drain_loop_None: "drain_loop None dr q = (dr @ q, [])"
  by (induction q arbitrary: dr) simp_all

lemma drain_loop_Some:
  "drain_loop (Some l) dr q = (dr @ take (nat (l - int (length dr))) q,
                               drop (nat (l - int (length dr))) q)"
proof (induction q arbitrary: dr)
  case (Cons m q)
  show ?case
  proof (cases "int (length dr) < l")
    case True
    then have "nat (l - int (length dr)) = Suc (nat (l - int (length (dr @ [m]))))"
      by simp
    then show ?thesis using True Cons.IH [of "dr @ [m]"] by simp
  qed simp
qed simp

lemma drain_view:
  "apsnd aio_view (aio_drain_documents limit s) = mb_drain_documents limit (aio_view s)"
proof (cases limit)
  case None
  then show ?thesis
    by (simp add: aio_drain_documents_def mb_drain_documents_def drain_loop_None)
       (simp add: aio_view_def)
next
  case (Some l)
  have "nat (max 0 l) = nat l" by simp
  then show ?thesis using Some
    by (simp add: aio_drain_documents_def mb_drain_documents_def drain_loop_Some)
       (simp add: aio_view_def)
qed

lemma request_view:
  "map_sum id (apsnd aio_view) (aio_request_manual_retry rid m s)
     = mb_request_manual_retry rid m (aio_view s)"
  by (simp add: aio_request_manual_retry_def mb_request_manual_retry_def aio_view_def
      split: option.splits)

lemma clear_view: "aio_view (aio_clear s) = mb_clear (aio_view s)"
  by (simp add: aio_clear_def aio_drain_documents_def drain_loop_None Let_def mb_clear_def
      maybe_clear_event_def aio_view_def)

lemma aio_do_view: "apsnd aio_view (aio_do op s) = mb_do op (aio_view s)"
proof (cases op)
  case (PutDocument m)
  then show ?thesis
    by (simp add: aio_put_document_def mb_put_document_def aio_enqueue_view split: option.splits)
next
  case (PutDocuments ms)
  then show ?thesis
    using check_all_None [of validate_document_message ms]
    by (cases "check_all validate_document_message ms")
       (simp_all add: aio_put_documents_def mb_put_documents_def aio_put_each_valid
          fold_enqueue_view)
next
  case (RequestManualRetry rid m)
  then show ?thesis
    by (simp add: request_view [symmetric] split: sum.splits prod.splits)
next
  case (DrainDocuments l)
  then show ?thesis
    using drain_view [of l s] by (simp add: prod_eq_iff)
next
  case Clear
  then show ?thesis by (simp add: clear_view)
qed (simp_all add: aio_request_auto_rescan_def mb_request_auto_rescan_def
       aio_consume_auto_rescan_def mb_consume_auto_rescan_def has_work_view
       aio_peek_next_manual_retry_def mb_peek_next_manual_retry_def
       aio_snapshot_manual_retries_def mb_snapshot_manual_retries_def
       aio_ack_manual_retry_def mb_ack_manual_retry_def
       aio_cancel_manual_retries_def mb_cancel_manual_retries_def aio_counts_def mb_counts_def,
     simp_all add: aio_view_def)

lemma aio_do_event:
  assumes "event_ok s"
  shows "event_ok (snd (aio_do op s))"
proof (cases op)
  case (PutDocuments ms)
  then show ?thesis
    using assms check_all_None [of validate_document_message ms]
    by (cases "check_all validate_document_message ms")
       (simp_all add: aio_put_documents_def aio_put_each_valid fold_enqueue_event)
next
  case (DrainDocuments l)
  have "set (snd (drain_loop l [] q)) \<subseteq> set q" for q
    by (cases l) (simp_all add: drain_loop_None drain_loop_Some set_drop_subset)
  then have "document_messages s = [] \<Longrightarrow> snd (drain_loop l [] (document_messages s)) = []"
    by (metis empty_iff list.set(1) set_empty subset_empty)
  then show ?thesis
    using assms DrainDocuments
    by (auto simp: aio_drain_documents_def case_prod_beta aio_has_work_def
        intro!: event_ok_less_work [OF assms])
next
  case Clear
  then show ?thesis
    by (simp add: aio_clear_def aio_drain_documents_def drain_loop_None Let_def
        maybe_clear_event_def aio_has_work_def event_ok_def)
qed (use assms in \<open>auto simp: aio_put_document_def aio_enqueue_def aio_request_auto_rescan_def
       aio_request_manual_retry_def aio_consume_auto_rescan_def aio_ack_manual_retry_def
       aio_cancel_manual_retries_def aio_has_work_def event_ok_def maybe_clear_event_def
       split: option.splits\<close>)

interpretation aio: ingress_backend aio_do aio_view aio_ok
proof unfold_locales
  fix s op assume ok: "aio_ok s"
  show "fst (aio_do op s) = fst (mb_do op (aio_view s))"
    using aio_do_view [of op s] by (metis fst_apsnd)
  show ch: "aio_view (snd (aio_do op s)) = snd (mb_do op (aio_view s))"
    using aio_do_view [of op s] by (metis snd_apsnd)
  show "aio_ok (snd (aio_do op s))"
    using ok ch by (simp add: aio_ok_def mailbox_ok_do aio_do_event)
  show "mailbox_ok (aio_view s)"
    using ok by (simp add: aio_ok_def)
qed

lemma aio_ok_new: "aio_ok (new_aio loop env dc mc)"
  by (simp add: aio_ok_def event_ok_def aio_has_work_def new_aio_def mailbox_ok_def aio_view_def
      terminal_ok_new)

lemma aio_view_new: "aio_view (new_aio loop env dc mc) = new_mailbox env dc mc"
  by (simp add: aio_view_def new_aio_def new_mailbox_def)

lemma fold_snoc: "fold (\<lambda>m q. q @ [m]) xs ys = ys @ xs"
  by (induction xs arbitrary: ys) simp_all

lemma rebind_view: "aio_view (rebind_to_current_loop loop s) = aio_view s"
  by (simp add: rebind_to_current_loop_def Let_def fold_snoc aio_view_def)

lemma rebind_event: "event_ok (rebind_to_current_loop loop s)"
  by (simp add: rebind_to_current_loop_def Let_def event_ok_def aio_has_work_def)

subsection \<open>Capacities, positions and tombstones along a run\<close>

lemma caps_put_fold:
  "document_capacity (fold put_document_locked ms b) = document_capacity b
   \<and> manual_capacity (fold put_document_locked ms b) = manual_capacity b
   \<and> manual_retries (fold put_document_locked ms b) = manual_retries b
   \<and> terminals (fold put_document_locked ms b) = terminals b"
  by (induction ms arbitrary: b) (simp_all add: put_document_locked_def)

lemma tcapacity_fold [simp]:
  "tcapacity (fold (\<lambda>(r, s). terminal_add r s) xs t) = tcapacity t"
  by (induction xs arbitrary: t) (auto simp: case_prod_beta)

lemma cancel_pending_fold:
  "cancel_pending p t
     = fold (\<lambda>(r, s). terminal_add r s) (map (\<lambda>r. (r, MANUAL_RETRY_CANCELLED_BY_CLEAR)) (keys p)) t"
  by (simp add: cancel_pending_def fold_map comp_def)

definition retired_ids :: "ingress_op \<Rightarrow> mailbox \<Rightarrow> (pystr \<times> terminal_state) list" where
  "retired_ids op b =
     (case op of
        AckManualRetry rid \<Rightarrow> [(rid, MANUAL_RETRY_ACKED)]
      | CancelManualRetries \<Rightarrow>
          map (\<lambda>r. (r, MANUAL_RETRY_CANCELLED_BY_CLEAR)) (keys (manual_retries b))
      | Clear \<Rightarrow> map (\<lambda>r. (r, MANUAL_RETRY_CANCELLED_BY_CLEAR)) (keys (manual_retries b))
      | _ \<Rightarrow> [])"

lemma mb_do_frame:
  "document_capacity (snd (mb_do op b)) = document_capacity b
   \<and> manual_capacity (snd (mb_do op b)) = manual_capacity b
   \<and> terminals (snd (mb_do op b)) = fold (\<lambda>(r, s). terminal_add r s) (retired_ids op b) (terminals b)"
  by (cases op)
     (auto simp: mb_put_document_def mb_put_documents_def caps_put_fold put_document_locked_def
        mb_request_auto_rescan_def mb_request_manual_retry_def mb_consume_auto_rescan_def
        mb_drain_documents_def mb_ack_manual_retry_def mb_cancel_manual_retries_def mb_clear_def
        cancel_pending_fold retired_ids_def split: option.splits)

fun retired_in_run :: "ingress_op list \<Rightarrow> mailbox \<Rightarrow> (pystr \<times> terminal_state) list" where
  "retired_in_run [] b = []"
| "retired_in_run (x # xs) b = retired_ids x b @ retired_in_run xs (snd (mb_do x b))"

lemma run_frame:
  "document_capacity (snd (run_ops mb_do ops b)) = document_capacity b
   \<and> manual_capacity (snd (run_ops mb_do ops b)) = manual_capacity b
   \<and> terminals (snd (run_ops mb_do ops b))
       = fold (\<lambda>(r, s). terminal_add r s) (retired_in_run ops b) (terminals b)"
  by (induction ops arbitrary: b) (simp_all add: case_prod_beta mb_do_frame)

definition retires :: "pystr \<Rightarrow> ingress_op \<Rightarrow> bool" where
  "retires rid op \<longleftrightarrow> op = AckManualRetry rid \<or> op = CancelManualRetries \<or> op = Clear"

text \<open>The requests that will be served before \<open>rid\<close>.\<close>

definition ahead_of :: "pystr \<Rightarrow> mailbox \<Rightarrow> pystr list" where
  "ahead_of rid b = takeWhile (\<lambda>k. k \<noteq> rid) (keys (manual_retries b))"

lemma subseq_takeWhile_removeAll:
  "x \<noteq> y \<Longrightarrow> subseq (takeWhile (\<lambda>k. k \<noteq> y) (removeAll x ks)) (takeWhile (\<lambda>k. k \<noteq> y) ks)"
  by (induction ks) auto

lemma takeWhile_append_hit:
  "y \<in> set ks \<Longrightarrow> takeWhile (\<lambda>k. k \<noteq> y) (ks @ zs) = takeWhile (\<lambda>k. k \<noteq> y) ks"
  by (induction ks) auto

lemma request_retries:
  "manual_retries (snd (mb_do (RequestManualRetry r msg) b)) = manual_retries b
   \<or> \<not> has_key (manual_retries b) r
     \<and> manual_retries (snd (mb_do (RequestManualRetry r msg) b)) = manual_retries b @ [(r, msg)]"
  by (simp add: mb_request_manual_retry_def has_key_iff update_new split: option.splits)

lemma mb_do_pending:
  assumes "map_of (manual_retries b) rid = Some m" and "\<not> retires rid op"
  shows "map_of (manual_retries (snd (mb_do op b))) rid = Some m
         \<and> subseq (ahead_of rid (snd (mb_do op b))) (ahead_of rid b)"
proof -
  have mem: "rid \<in> set (keys (manual_retries b))"
    using assms(1) by (metis has_key_def has_key_iff option.distinct(1))
  show ?thesis
  proof (cases op)
    case (RequestManualRetry r msg)
    consider "manual_retries (snd (mb_do op b)) = manual_retries b"
      | "\<not> has_key (manual_retries b) r"
        "manual_retries (snd (mb_do op b)) = manual_retries b @ [(r, msg)]"
      using RequestManualRetry request_retries [of r msg b] by blast
    then show ?thesis
    proof cases
      case 1
      then show ?thesis using assms by (simp add: ahead_of_def)
    next
      case 2
      then show ?thesis using assms mem by (auto simp: ahead_of_def takeWhile_append_hit map_add_def)
    qed
  next
    case (AckManualRetry r)
    then have "r \<noteq> rid" using assms(2) by (simp add: retires_def)
    then show ?thesis
      using AckManualRetry assms(1)
      by (simp add: mb_ack_manual_retry_def ahead_of_def keys_delete subseq_takeWhile_removeAll)
  qed (use assms in \<open>auto simp: retires_def ahead_of_def mb_put_document_def mb_put_documents_def
        caps_put_fold put_document_locked_def mb_request_auto_rescan_def mb_consume_auto_rescan_def
        mb_drain_documents_def split: option.splits\<close>)
qed

lemma run_pending:
  assumes "map_of (manual_retries b) rid = Some m" and "\<forall>op \<in> set ops. \<not> retires rid op"
  shows "map_of (manual_retries (snd (run_ops mb_do ops b))) rid = Some m
         \<and> subseq (ahead_of rid (snd (run_ops mb_do ops b))) (ahead_of rid b)"
  using assms
proof (induction ops arbitrary: b)
  case (Cons x xs)
  note step = mb_do_pending [OF Cons.prems(1), of x]
  have "map_of (manual_retries (snd (mb_do x b))) rid = Some m"
    and s: "subseq (ahead_of rid (snd (mb_do x b))) (ahead_of rid b)"
    using step Cons.prems(2) by auto
  then show ?case
    using Cons.IH [of "snd (mb_do x b)"] Cons.prems(2) subseq_order.trans [OF _ s]
    by (auto simp: case_prod_beta)
qed simp

lemma peek_nothing_ahead:
  assumes "map_of (manual_retries b) rid = Some m" and "ahead_of rid b = []"
  shows "mb_peek_next_manual_retry b = Some m"
  using assms
  by (cases "manual_retries b")
     (auto simp: mb_peek_next_manual_retry_def ahead_of_def split: if_splits)

text \<open>The states of the single-process ingress: reachable by the protocol, by the feeder's
  \<open>get_document\<close>, by a rebind to another loop and by the turns of a waiter.\<close>

inductive aio_reach :: "aio_ingress \<Rightarrow> bool" where
  start: "aio_reach (new_aio loop env dc mc)"
| operation: "aio_reach s \<Longrightarrow> aio_reach (snd (aio_do op s))"
| get: "aio_reach s \<Longrightarrow> aio_get_document s = Some (m, s') \<Longrightarrow> aio_reach s'"
| rebind: "aio_reach s \<Longrightarrow> aio_reach (rebind_to_current_loop loop s)"
| wait_turn: "aio_reach s \<Longrightarrow> aio_reach (snd (aio_wait_turn s))"

lemma aio_get_step:
  assumes "aio_get_document s = Some (m, s')"
  shows "document_messages s = m # tl (document_messages s)"
    and "s' = maybe_clear_event (s\<lparr>document_messages := tl (document_messages s)\<rparr>)"
  using assms by (auto simp: aio_get_document_def split: list.splits)

lemma aio_get_view:
  assumes "aio_get_document s = Some (m, s')"
  shows "aio_view s' = (aio_view s)\<lparr>documents := tl (documents (aio_view s))\<rparr>"
proof -
  have "aio_view s' = aio_view (s\<lparr>document_messages := tl (document_messages s)\<rparr>)"
    using aio_get_step(2) [OF assms] by simp
  then show ?thesis by (simp add: aio_view_def)
qed

lemma mailbox_ok_tl: "mailbox_ok b \<Longrightarrow> mailbox_ok (b\<lparr>documents := tl (documents b)\<rparr>)"
  by (cases "documents b") (simp_all add: mailbox_ok_def)

lemma aio_get_ok:
  assumes "aio_ok s" and "aio_get_document s = Some (m, s')"
  shows "aio_ok s'"
proof -
  have "event_ok s'"
    unfolding aio_get_step(2) [OF assms(2)]
    using assms(1) aio_get_step(1) [OF assms(2)]
    by (intro event_ok_maybe_clear disjI1) (auto simp: aio_ok_def event_ok_def aio_has_work_def)
  then show ?thesis
    using assms(1) mailbox_ok_tl by (simp add: aio_ok_def aio_get_view [OF assms(2)])
qed

lemma aio_reach_ok: "aio_reach s \<Longrightarrow> aio_ok s"
proof (induction rule: aio_reach.induct)
  case (rebind s loop)
  then show ?case by (simp add: aio_ok_def rebind_view rebind_event)
next
  case (wait_turn s)
  then show ?case
    by (auto simp: aio_ok_def aio_wait_turn_def Let_def event_ok_def aio_has_work_def aio_view_def)
qed (auto intro: aio_ok_new aio.keeps aio_get_ok)

subsection \<open>The hub keeps its namespaces apart\<close>

definition hub_ok :: "hub \<Rightarrow> bool" where
  "hub_ok h \<longleftrightarrow> dict_ok h \<and> (\<forall>b \<in> set (values h). mailbox_ok b)"

lemma map_of_ok: "hub_ok h \<Longrightarrow> map_of h ns = Some b \<Longrightarrow> mailbox_ok b"
  by (force simp: hub_ok_def dest: map_of_SomeD)

lemma hub_ok_update: "hub_ok h \<Longrightarrow> mailbox_ok b \<Longrightarrow> hub_ok (AList.update ns b h)"
  using set_update_subset [of ns b h] by (auto simp: hub_ok_def dict_ok_update)

lemma hub_mailbox_spec:
  assumes "hub_mailbox env ns h = (b, h1)"
  shows "map_of h1 ns = Some b" and "ns' \<noteq> ns \<Longrightarrow> map_of h1 ns' = map_of h ns'"
    and "hub_ok h \<Longrightarrow> hub_ok h1 \<and> mailbox_ok b"
  using assms
  by (auto simp: hub_mailbox_def Let_def map_of_update_iff hub_ok_update mailbox_ok_new
      split: option.splits intro: map_of_ok)

lemma hub_call_other:
  "ns' \<noteq> ns \<Longrightarrow> map_of (snd (hub_call env ns f h)) ns' = map_of h ns'"
  by (auto simp: hub_call_def map_of_update_iff hub_mailbox_spec(2)
      split: prod.splits sum.splits)

lemma hub_call_ok:
  assumes "hub_ok h" and "\<And>b r b'. mailbox_ok b \<Longrightarrow> f b = Inr (r, b') \<Longrightarrow> mailbox_ok b'"
  shows "hub_ok (snd (hub_call env ns f h))"
proof -
  obtain b h1 where h: "hub_mailbox env ns h = (b, h1)" by force
  have "hub_ok h1" "mailbox_ok b" using hub_mailbox_spec(3) [OF h] assms(1) by simp_all
  then show ?thesis
    using h assms(2) by (auto simp: hub_call_def hub_ok_update split: sum.splits)
qed

text \<open>A request through the hub, as the mailbox of its namespace answers it.\<close>

definition hub_do ::
    "int option \<Rightarrow> pystr \<Rightarrow> ingress_op \<Rightarrow> hub \<Rightarrow> ingress_answer \<times> hub" where
  "hub_do env ns op h =
     (case op of
        PutDocument m \<Rightarrow> apfst (case_sum Raised (\<lambda>_. NoValue)) (hub_put_document env ns m h)
      | PutDocuments ms \<Rightarrow> apfst (case_sum Raised (\<lambda>_. NoValue)) (hub_put_documents env ns ms h)
      | RequestAutoRescan \<Rightarrow> apfst (case_sum Raised (\<lambda>_. NoValue)) (hub_request_auto_rescan env ns h)
      | RequestManualRetry rid m \<Rightarrow>
          apfst (case_sum Raised Published) (hub_request_manual_retry env ns rid m h)
      | ConsumeAutoRescan \<Rightarrow> apfst (case_sum Raised Truth) (hub_consume_auto_rescan env ns h)
      | DrainDocuments l \<Rightarrow> apfst (case_sum Raised Messages) (hub_drain_documents env ns l h)
      | HasWork \<Rightarrow> apfst (case_sum Raised Truth) (hub_has_work env ns h)
      | PeekNextManualRetry \<Rightarrow>
          apfst (case_sum Raised MaybeMessage) (hub_peek_next_manual_retry env ns h)
      | SnapshotManualRetries \<Rightarrow>
          apfst (case_sum Raised Messages) (hub_snapshot_manual_retries env ns h)
      | AckManualRetry rid \<Rightarrow> apfst (case_sum Raised Truth) (hub_ack_manual_retry env ns rid h)
      | CancelManualRetries \<Rightarrow> apfst (case_sum Raised Amount) (hub_cancel_manual_retries env ns h)
      | Clear \<Rightarrow> apfst (case_sum Raised (\<lambda>_. NoValue)) (hub_clear env ns h)
      | Counts \<Rightarrow> apfst (case_sum Raised CountsOf) (hub_counts env ns h))"

lemmas hub_ops = hub_put_document_def hub_put_documents_def hub_request_auto_rescan_def
  hub_request_manual_retry_def hub_consume_auto_rescan_def hub_drain_documents_def
  hub_has_work_def hub_peek_next_manual_retry_def hub_snapshot_manual_retries_def
  hub_ack_manual_retry_def hub_cancel_manual_retries_def hub_clear_def hub_counts_def

lemma hub_do_other: "ns' \<noteq> ns \<Longrightarrow> map_of (snd (hub_do env ns op h)) ns' = map_of h ns'"
  by (cases op) (simp_all add: hub_do_def hub_ops hub_call_other)

definition mailbox_of :: "int option \<Rightarrow> pystr \<Rightarrow> hub \<Rightarrow> mailbox" where
  "mailbox_of env ns h = fst (hub_mailbox env ns h)"

lemma hub_do_own:
  "fst (hub_do env ns op h) = fst (mb_do op (mailbox_of env ns h))
   \<and> map_of (snd (hub_do env ns op h)) ns = Some (snd (mb_do op (mailbox_of env ns h)))"
proof -
  obtain b h1 where h: "hub_mailbox env ns h = (b, h1)" by force
  note m = hub_mailbox_spec(1) [OF h]
  show ?thesis
    by (cases op)
       (auto simp: hub_do_def hub_ops hub_call_def mailbox_of_def h m map_of_update_iff
          case_prod_beta split: sum.splits)
qed

lemma mailbox_of_other:
  "map_of h' ns = map_of h ns \<Longrightarrow> mailbox_of env ns h' = mailbox_of env ns h"
  by (simp add: mailbox_of_def hub_mailbox_def Let_def split: option.splits)

lemma mailbox_of_Some: "map_of h ns = Some b \<Longrightarrow> mailbox_of env ns h = b"
  by (simp add: mailbox_of_def hub_mailbox_def)

subsection \<open>Properties\<close>

text \<open>C23. The two back ends of the ingress are interchangeable: for every sequence of protocol
  operations, invalid messages included, the single-process ingress gives exactly the answers
  the Manager's mailbox gives (results, refusals, errors, drained messages, counts).\<close>

theorem ingress_backends_agree:
  "fst (run_ops aio_do ops (new_aio loop env dcap mcap))
     = fst (run_ops mb_do ops (new_mailbox env dcap mcap))"
  using aio.run_answers [OF aio_ok_new] by (simp add: aio_view_new)

text \<open>C24. Whatever is asked of a mailbox, its channels stay within their bounds, it holds only
  messages that pass validation, and no request id is both pending and retired.\<close>

theorem mailbox_invariant:
  "let b = snd (run_ops mb_do ops (new_mailbox env dcap mcap)) in
     length (documents b) \<le> nat (max 1 dcap)
     \<and> length (manual_retries b)
         \<le> nat (max 1 (case mcap of None \<Rightarrow> manual_channel_capacity env | Some n \<Rightarrow> n))
     \<and> terminal_len (terminals b) \<le> 4096
     \<and> \<not> (has_key (manual_retries b) rid \<and> terminal_contains (terminals b) rid)
     \<and> list_all (\<lambda>m. validate_document_message m = None) (documents b)
     \<and> list_all (\<lambda>(rid, m). validate_manual_request rid m = None) (manual_retries b)"
proof -
  define b where b: "b = snd (run_ops mb_do ops (new_mailbox env dcap mcap))"
  have ok: "mailbox_ok b"
    using mbx.run_mailbox_ok mailbox_ok_new b by simp
  have caps: "document_capacity b = nat (max 1 dcap)"
      "manual_capacity b = manual_capacity (new_mailbox env dcap mcap)"
      "tcapacity (terminals b) = 4096"
    using run_frame [of ops "new_mailbox env dcap mcap"] b
    by (simp_all add: new_mailbox_def new_terminal_ids_def terminal_capacity_default_def)
  note d = mailbox_okD [OF ok]
  have "length (manual_retries b)
          \<le> nat (max 1 (case mcap of None \<Rightarrow> manual_channel_capacity env | Some n \<Rightarrow> n))"
    using d(4) caps by (simp add: new_mailbox_def)
  moreover have "terminal_len (terminals b) \<le> 4096"
    using d(1) caps by (simp add: terminal_ok_def terminal_len_def)
  moreover have "\<not> (has_key (manual_retries b) rid \<and> terminal_contains (terminals b) rid)"
    using d(5) by (auto simp: has_key_iff terminal_contains_def)
  ultimately show ?thesis
    using d(3,6,7) caps by (simp add: list_all_iff flip: b)
qed

text \<open>An accepted manual retry is never lost or overtaken: until it is acknowledged or the
  channel is cancelled or cleared, it stays pending with its message, and the requests ahead of
  it only become fewer, in the same order; with none ahead it is the next one served.\<close>

theorem manual_retry_sticky:
  assumes "map_of (manual_retries b) rid = Some m"
    and "\<forall>op \<in> set ops. \<not> retires rid op"
    and "b' = snd (run_ops mb_do ops b)"
  shows "map_of (manual_retries b') rid = Some m \<and> subseq (ahead_of rid b') (ahead_of rid b)
         \<and> (ahead_of rid b' = [] \<longrightarrow> mb_peek_next_manual_retry b' = Some m)"
  using run_pending [OF assms(1,2)] peek_nothing_ahead assms(3) by blast

definition doc_msg :: "pystr \<Rightarrow> pi_message" where
  "doc_msg d = \<lparr>kind = Document, doc_id = Some d, retry_failed = False, request_id = None\<rparr>"

definition retry_msg :: "pystr \<Rightarrow> pi_message" where
  "retry_msg r = \<lparr>kind = Rescan, doc_id = None, retry_failed = True, request_id = Some r\<rparr>"

theorem manual_retry_sticky_witness:
  "mb_peek_next_manual_retry
     (snd (run_ops mb_do [AckManualRetry ''r1'', PutDocument (doc_msg ''d'')]
        (snd (run_ops mb_do [RequestManualRetry ''r1'' (retry_msg ''r1''),
                             RequestManualRetry ''r2'' (retry_msg ''r2'')]
               (new_mailbox None 1 None))))) = Some (retry_msg ''r2'')"
proof -
  let ?b = "snd (run_ops mb_do [RequestManualRetry ''r1'' (retry_msg ''r1''),
                                RequestManualRetry ''r2'' (retry_msg ''r2'')]
                 (new_mailbox None 1 None))"
  let ?ops = "[AckManualRetry ''r1'', PutDocument (doc_msg ''d'')]"
  note defs = mb_request_manual_retry_def validate_manual_request_def retry_msg_def
    terminal_contains_def has_key_def new_mailbox_def new_terminal_ids_def
    manual_channel_capacity_def DEFAULT_MAX_UNACKED_MANUAL_RETRIES_def
  have 1: "map_of (manual_retries ?b) ''r2'' = Some (retry_msg ''r2'')"
    by (simp add: defs)
  have 2: "\<forall>op \<in> set ?ops. \<not> retires ''r2'' op"
    by (simp add: retires_def)
  have "ahead_of ''r2'' (snd (run_ops mb_do ?ops ?b)) = []"
    by (simp add: defs ahead_of_def mb_ack_manual_retry_def mb_put_document_def
        validate_document_message_def doc_msg_def truthy_str_def put_document_locked_def)
  then show ?thesis
    using manual_retry_sticky [OF 1 2 refl] by blast
qed

text \<open>Replays of a retired request are refused: once a request id has been acknowledged, and
  while fewer ids than the capacity of the window (4096) have been retired after it, publishing
  it again answers \<open>ALREADY_TERMINAL\<close> and changes nothing, and a later clear does not overwrite
  its recorded state.\<close>

theorem retired_request_refused:
  assumes "mailbox_ok b" and "\<not> terminal_contains (terminals b) rid"
    and "b1 = snd (mb_ack_manual_retry rid b)" and "b2 = snd (run_ops mb_do ops b1)"
    and "length (retired_in_run ops b1) < tcapacity (terminals b)"
    and "validate_manual_request rid m = None"
  shows "mb_request_manual_retry rid m b2 = Inr (ALREADY_TERMINAL, b2)
         \<and> terminal_get (terminals b2) rid = Some MANUAL_RETRY_ACKED"
proof -
  have t1: "terminals b1 = terminal_add rid MANUAL_RETRY_ACKED (terminals b)"
    using assms(3) by (simp add: mb_ack_manual_retry_def)
  note ok = mailbox_okD(1) [OF assms(1)]
  have y: "map_of (tids (terminals b1)) rid = Some MANUAL_RETRY_ACKED \<and> younger (terminals b1) rid = 1"
    unfolding t1 by (rule younger_new [OF ok assms(2)])
  have "map_of (tids (terminals b2)) rid = Some MANUAL_RETRY_ACKED"
    using terminal_adds_keep [of "terminals b1" rid] y assms(4,5) ok run_frame [of ops b1]
    by (simp add: t1 terminal_ok_add)
  then show ?thesis
    using assms(6)
    by (simp add: mb_request_manual_retry_def terminal_contains_def has_key_def terminal_get_def)
qed

theorem retired_request_refused_witness:
  "fst (projr (mb_request_manual_retry ''r'' (retry_msg ''r'')
     (snd (run_ops mb_do [Clear] (snd (mb_ack_manual_retry ''r'' (new_mailbox None 1 None)))))))
     = ALREADY_TERMINAL"
proof -
  have a: "\<not> terminal_contains (terminals (new_mailbox None 1 None)) ''r''"
    by (simp add: terminal_contains_def has_key_def new_mailbox_def new_terminal_ids_def)
  have b: "length (retired_in_run [Clear] (snd (mb_ack_manual_retry ''r'' (new_mailbox None 1 None))))
       < tcapacity (terminals (new_mailbox None 1 None))"
    by (simp add: retired_ids_def mb_ack_manual_retry_def new_mailbox_def new_terminal_ids_def
        terminal_capacity_default_def)
  have c: "validate_manual_request ''r'' (retry_msg ''r'') = None"
    by (simp add: validate_manual_request_def retry_msg_def)
  note h = retired_request_refused [OF mailbox_ok_new a refl refl b c]
  show ?thesis by (simp only: h [THEN conjunct1] sum.sel fst_conv)
qed

text \<open>C25. No wake-up is lost in the single-process ingress: in every reachable state with work,
  \<open>work_event\<close> is set, and a waiter goes to sleep only in a state without work, in which any
  operation that brings work sets the event.\<close>

theorem no_lost_wakeup:
  assumes "aio_reach s"
  shows "(aio_has_work s \<longrightarrow> work_event s) \<and> fst (aio_wait_turn s) = aio_has_work s
         \<and> (aio_has_work (snd (aio_do op (snd (aio_wait_turn s))))
              \<longrightarrow> work_event (snd (aio_do op (snd (aio_wait_turn s)))))"
proof -
  have "event_ok t" if "aio_reach t" for t
    using aio_reach_ok [OF that] by (simp add: aio_ok_def)
  then show ?thesis
    using assms aio_reach.operation [OF aio_reach.wait_turn [OF assms]]
    by (auto simp: event_ok_def aio_wait_turn_def Let_def aio_has_work_def)
qed

theorem no_lost_wakeup_witness:
  "work_event (snd (aio_do RequestAutoRescan (snd (aio_wait_turn (new_aio 0 None 1 None)))))"
proof -
  have "aio_has_work (snd (aio_do RequestAutoRescan (snd (aio_wait_turn (new_aio 0 None 1 None)))))"
    by (simp add: aio_request_auto_rescan_def aio_has_work_def)
  then show ?thesis
    using no_lost_wakeup [OF aio_reach.start] by blast
qed

text \<open>The hub serves each workspace from its own mailbox: an operation on one namespace
  answers and changes that namespace as its mailbox does (a new one on first use), and no other
  namespace sees it.\<close>

theorem hub_isolates_namespaces:
  "fst (hub_do env ns op h) = fst (mb_do op (mailbox_of env ns h))
   \<and> mailbox_of env ns (snd (hub_do env ns op h)) = snd (mb_do op (mailbox_of env ns h))
   \<and> (ns' = ns \<or> map_of (snd (hub_do env ns op h)) ns' = map_of h ns')"
  using hub_do_own [of env ns op h] hub_do_other [of ns' ns env op h]
  by (auto simp: mailbox_of_Some)

end
