(* ===== verification/PyText.thy ===== *)
theory PyText
  imports PyBase Complex_Main "HOL-Library.Char_ord" "HOL-Library.List_Lexorder"
    "HOL-Library.Product_Lexorder"
begin

text \<open>
  The operations of Python's \<open>str\<close> (and \<open>bytes\<close>) that the program uses, on strings of the code
  points 0 to 255 (ASCII and Latin-1, which holds the accented letters of the program's
  Spanish texts), and the order Python sorts them in (by code point, lexicographically: the
  instances of \<^theory_text>\<open>Char_ord\<close> and \<^theory_text>\<open>List_Lexorder\<close>; tuples by
  \<^theory_text>\<open>Product_Lexorder\<close>).
\<close>

abbreviation code :: "char \<Rightarrow> nat" where
  "code c \<equiv> of_char c"

subsection \<open>UTF-8\<close>

definition utf8_char :: "char \<Rightarrow> nat list" where
  "utf8_char c = (let n = code c in if n < 128 then [n] else [192 + n div 64, 128 + n mod 64])"

definition utf8_encode :: "pystr \<Rightarrow> nat list" where
  "utf8_encode s = concat (map utf8_char s)"

text \<open>\<open>decode("utf-8", errors="ignore")\<close>, on bytes whose characters are in the range: bytes that
  are no character are skipped.\<close>

fun utf8_decode_ignore :: "nat list \<Rightarrow> pystr" where
  "utf8_decode_ignore [] = []"
| "utf8_decode_ignore [b] = (if b < 128 then [char_of b] else [])"
| "utf8_decode_ignore (b # c # bs) =
     (if b < 128 then char_of b # utf8_decode_ignore (c # bs)
      else if 194 \<le> b \<and> b \<le> 195 \<and> 128 \<le> c \<and> c < 192
           then char_of ((b - 192) * 64 + (c - 128)) # utf8_decode_ignore bs
      else utf8_decode_ignore (c # bs))"

lemma code_lt: "code c < (256::nat)"
  by simp

lemma utf8_encode_simps [simp]:
  "utf8_encode [] = []" "utf8_encode (c # s) = utf8_char c @ utf8_encode s"
  "utf8_encode (s @ t) = utf8_encode s @ utf8_encode t"
  by (simp_all add: utf8_encode_def)

lemma utf8_decode_char:
  assumes "128 \<le> code c"
  shows "utf8_decode_ignore (utf8_char c @ bs) = c # utf8_decode_ignore bs"
proof -
  have lt: "code c < 256" by (rule code_lt)
  have "2 \<le> code c div 64" "code c div 64 \<le> 3" using assms lt by linarith+
  then have d: "code c div 64 \<in> {2, 3}" by auto
  have "(192 + code c div 64 - 192) * 64 + (128 + code c mod 64 - 128) = code c"
    by simp
  then show ?thesis
    using assms d by (auto simp: utf8_char_def Let_def)
qed

lemma utf8_decode_encode: "utf8_decode_ignore (utf8_encode s @ bs) = s @ utf8_decode_ignore bs"
proof (induction s)
  case (Cons c s)
  show ?case
  proof (cases "code c < 128")
    case True
    have "utf8_decode_ignore (code c # xs) = c # utf8_decode_ignore xs" for xs
      using True by (cases xs) simp_all
    then show ?thesis using True Cons.IH by (simp add: utf8_char_def)
  next
    case False
    then show ?thesis using utf8_decode_char [of c] Cons.IH by simp
  qed
qed simp

text \<open>Clipping the encoding and decoding it again keeps whole characters only: a prefix that
  fits.\<close>

lemma utf8_clip:
  "\<exists>k. utf8_decode_ignore (take n (utf8_encode s)) = take k s
       \<and> length (utf8_encode (take k s)) \<le> n"
proof (induction s arbitrary: n)
  case (Cons c s)
  show ?case
  proof (cases "length (utf8_char c) \<le> n")
    case True
    obtain k where k: "utf8_decode_ignore (take (n - length (utf8_char c)) (utf8_encode s)) = take k s"
        "length (utf8_encode (take k s)) \<le> n - length (utf8_char c)"
      using Cons.IH by blast
    have "utf8_decode_ignore (take n (utf8_encode (c # s)))
            = c # utf8_decode_ignore (take (n - length (utf8_char c)) (utf8_encode s))"
      using utf8_decode_encode [of "[c]"] True by simp
    then show ?thesis
      using k True by (intro exI [of _ "Suc k"]) simp
  next
    case False
    then have "take n (utf8_encode (c # s)) = take n (utf8_char c)" by simp
    moreover have "utf8_decode_ignore (take n (utf8_char c)) = []"
      using False by (cases n) (auto simp: utf8_char_def Let_def not_less_eq_eq split: if_splits)
    ultimately have "utf8_decode_ignore (take n (utf8_encode (c # s))) = []"
      by (simp only:)
    then show ?thesis by (intro exI [of _ 0]) (simp only: take_0, simp)
  qed
qed simp

subsection \<open>\<open>str\<close> methods\<close>

definition isspace :: "char \<Rightarrow> bool" where
  "isspace c \<longleftrightarrow> (let n = (code c :: nat) in
     (9 \<le> n \<and> n \<le> 13) \<or> (28 \<le> n \<and> n \<le> 32) \<or> n = 133 \<or> n = 160)"

definition lstrip :: "pystr \<Rightarrow> pystr" where
  "lstrip s = dropWhile isspace s"

definition rstrip :: "pystr \<Rightarrow> pystr" where
  "rstrip s = rev (dropWhile isspace (rev s))"

definition strip :: "pystr \<Rightarrow> pystr" where
  "strip s = rstrip (lstrip s)"

text \<open>\<open>s.strip(c)\<close> of one character, \<open>s.lstrip(c)\<close>.\<close>

definition lstrip_char :: "char \<Rightarrow> pystr \<Rightarrow> pystr" where
  "lstrip_char c s = dropWhile (\<lambda>x. x = c) s"

definition strip_char :: "char \<Rightarrow> pystr \<Rightarrow> pystr" where
  "strip_char c s = rev (dropWhile (\<lambda>x. x = c) (rev (dropWhile (\<lambda>x. x = c) s)))"

definition lower_char :: "char \<Rightarrow> char" where
  "lower_char c = (let n = code c in
     if (65 \<le> n \<and> n \<le> 90) \<or> (192 \<le> n \<and> n \<le> 222 \<and> n \<noteq> 215) then char_of (n + 32) else c)"

definition lower :: "pystr \<Rightarrow> pystr" where
  "lower s = map lower_char s"

text \<open>\<open>upper\<close>; the two letters whose capital is outside the range (\<open>0xB5\<close>, \<open>0xFF\<close>) are left as they are.\<close>

definition upper_char :: "char \<Rightarrow> pystr" where
  "upper_char c = (let n = code c in
     if (97 \<le> n \<and> n \<le> 122) \<or> (224 \<le> n \<and> n \<le> 254 \<and> n \<noteq> 247) then [char_of (n - 32)]
     else if n = 223 then ''SS'' else [c])"

definition upper :: "pystr \<Rightarrow> pystr" where
  "upper s = concat (map upper_char s)"

definition replace_char :: "char \<Rightarrow> char \<Rightarrow> pystr \<Rightarrow> pystr" where
  "replace_char a b s = map (\<lambda>c. if c = a then b else c) s"

definition startswith :: "pystr \<Rightarrow> pystr \<Rightarrow> bool" where
  "startswith s p \<longleftrightarrow> take (length p) s = p"

definition endswith :: "pystr \<Rightarrow> pystr \<Rightarrow> bool" where
  "endswith s p \<longleftrightarrow> startswith (rev s) (rev p)"

fun contains :: "pystr \<Rightarrow> pystr \<Rightarrow> bool" where
  "contains [] p \<longleftrightarrow> p = []"
| "contains (c # s) p \<longleftrightarrow> startswith (c # s) p \<or> contains s p"

text \<open>\<open>s.split(c)\<close>; \<open>s.rsplit(c, 1)[-1]\<close> is its last part.\<close>

fun split_on :: "char \<Rightarrow> pystr \<Rightarrow> pystr list" where
  "split_on c [] = [[]]"
| "split_on c (x # xs) =
     (if x = c then [] # split_on c xs
      else case split_on c xs of [] \<Rightarrow> [[x]] | y # ys \<Rightarrow> (x # y) # ys)"

text \<open>\<open>s.split(m)\<close> of a string: the part read so far is reversed.\<close>

function split_str_loop :: "pystr \<Rightarrow> pystr \<Rightarrow> pystr \<Rightarrow> pystr list" where
  "split_str_loop m acc [] = [rev acc]"
| "split_str_loop m acc (c # s) =
     (if startswith (c # s) m then rev acc # split_str_loop m [] (drop (length m - 1) s)
      else split_str_loop m (c # acc) s)"
  by pat_completeness auto
termination by (relation "measure (\<lambda>(m, acc, s). length s)") auto

definition split_str :: "pystr \<Rightarrow> pystr \<Rightarrow> pystr list" where
  "split_str m s = split_str_loop m [] s"

fun join :: "pystr \<Rightarrow> pystr list \<Rightarrow> pystr" where
  "join sep [] = []"
| "join sep [x] = x"
| "join sep (x # y # ys) = x @ sep @ join sep (y # ys)"

definition is_linebreak :: "char \<Rightarrow> bool" where
  "is_linebreak c \<longleftrightarrow> (let n = (code c :: nat) in (10 \<le> n \<and> n \<le> 13) \<or> (28 \<le> n \<and> n \<le> 30) \<or> n = 133)"

definition LF :: char where "LF = CHR 10"
definition CR :: char where "CR = CHR 13"

text \<open>\<open>splitlines\<close>: the part read so far is reversed.\<close>

fun splitlines_loop :: "pystr \<Rightarrow> pystr \<Rightarrow> pystr list" where
  "splitlines_loop acc [] = (if acc = [] then [] else [rev acc])"
| "splitlines_loop acc [c] = (if is_linebreak c then [rev acc] else [rev (c # acc)])"
| "splitlines_loop acc (c # d # s) =
     (if is_linebreak c
      then rev acc # (if c = CR \<and> d = LF then splitlines_loop [] s else splitlines_loop [] (d # s))
      else splitlines_loop (c # acc) (d # s))"

definition splitlines :: "pystr \<Rightarrow> pystr list" where
  "splitlines s = splitlines_loop [] s"

text \<open>What text mode does to line ends when it reads.\<close>

fun universal_newlines :: "pystr \<Rightarrow> pystr" where
  "universal_newlines [] = []"
| "universal_newlines [c] = (if c = CR then [LF] else [c])"
| "universal_newlines (c # d # s) =
     (if c = CR then (if d = LF then LF # universal_newlines s else LF # universal_newlines (d # s))
      else c # universal_newlines (d # s))"

subsubsection \<open>Facts\<close>

named_theorems str_simps "facts about strings"

lemma lower_char_idem [simp]: "lower_char (lower_char c) = lower_char c"
proof -
  have "code c < (256::nat)" by (rule code_lt)
  then show ?thesis by (auto simp: lower_char_def Let_def)
qed

lemma lower_idem [simp]: "lower (lower s) = lower s"
  by (simp add: lower_def)

lemma lower_simps [simp]: "lower [] = []" "lower (s @ t) = lower s @ lower t" "length (lower s) = length s"
  "lower s = [] \<longleftrightarrow> s = []"
  by (simp_all add: lower_def)

lemma strip_char_clean:
  "s = [] \<or> (hd s \<noteq> c \<and> last s \<noteq> c) \<Longrightarrow> strip_char c s = s"
proof -
  assume a: "s = [] \<or> (hd s \<noteq> c \<and> last s \<noteq> c)"
  then have "dropWhile (\<lambda>x. x = c) s = s" by (cases s) auto
  moreover have "dropWhile (\<lambda>x. x = c) (rev s) = rev s" using a by (cases s rule: rev_cases) auto
  ultimately show ?thesis by (simp add: strip_char_def)
qed

lemma rdrop_hd: "t = rev (dropWhile P (rev s)) \<Longrightarrow> t \<noteq> [] \<Longrightarrow> hd t = hd s \<and> \<not> P (last t)"
proof -
  assume t: "t = rev (dropWhile P (rev s))" "t \<noteq> []"
  have "rev s = takeWhile P (rev s) @ dropWhile P (rev s)" by simp
  then have "s = t @ rev (takeWhile P (rev s))" using t(1) by (metis rev_append rev_rev_ident)
  then have "hd t = hd s" using t(2) by (metis hd_append2)
  moreover have "last t = hd (dropWhile P (rev s))" using t by (simp add: last_rev)
  ultimately show ?thesis using t hd_dropWhile [of P "rev s"] by simp
qed

lemma trim_ends:
  assumes "t = rev (dropWhile P (rev (dropWhile P s)))" "t \<noteq> []"
  shows "\<not> P (hd t) \<and> \<not> P (last t)"
proof -
  have "dropWhile P s \<noteq> []" using assms by (metis dropWhile.simps(1) rev.simps(1))
  then have "\<not> P (hd (dropWhile P s))" by (rule hd_dropWhile)
  then show ?thesis using rdrop_hd [OF assms] by simp
qed

lemma strip_char_ends:
  "strip_char c s \<noteq> [] \<Longrightarrow> hd (strip_char c s) \<noteq> c \<and> last (strip_char c s) \<noteq> c"
  by (rule trim_ends [OF strip_char_def])

lemma set_strip_char: "set (strip_char c s) \<subseteq> set s"
  unfolding strip_char_def by (metis set_dropWhileD set_rev subsetI)

lemma length_strip_char: "length (strip_char c s) \<le> length s"
  unfolding strip_char_def
  by (metis length_dropWhile_le length_rev order_trans)

lemma set_strip: "set (strip s) \<subseteq> set s"
  unfolding strip_def rstrip_def lstrip_def by (metis set_dropWhileD set_rev subsetI)

lemma rstrip_eq: "s = [] \<or> \<not> isspace (last s) \<Longrightarrow> rstrip s = s"
  by (cases s rule: rev_cases) (auto simp: rstrip_def)

lemma lstrip_eq: "s = [] \<or> \<not> isspace (hd s) \<Longrightarrow> lstrip s = s"
  by (cases s) (auto simp: lstrip_def)

lemma strip_ends: "strip s \<noteq> [] \<Longrightarrow> \<not> isspace (hd (strip s)) \<and> \<not> isspace (last (strip s))"
  by (rule trim_ends [of _ isspace s]) (simp_all add: strip_def rstrip_def lstrip_def)

lemma strip_idem [simp]: "strip (strip s) = strip s"
  using strip_ends [of s] lstrip_eq [of "strip s"] rstrip_eq [of "strip s"]
  by (cases "strip s = []") (simp_all add: strip_def)

lemma strip_eq: "s = [] \<or> \<not> isspace (hd s) \<and> \<not> isspace (last s) \<Longrightarrow> strip s = s"
  using lstrip_eq [of s] rstrip_eq [of s] by (auto simp: strip_def)

lemma startswith_append [simp]: "startswith (p @ s) p"
  by (simp add: startswith_def)

lemma startswith_iff: "startswith s p \<longleftrightarrow> (\<exists>t. s = p @ t)"
  unfolding startswith_def by (metis append_take_drop_id append_eq_conv_conj)

lemma split_on_nonempty [simp]: "split_on c s \<noteq> []"
  by (induction s) (auto split: list.splits)

lemma split_on_append: "split_on c (s @ c # t) = split_on c s @ split_on c t"
  by (induction s) (auto split: list.splits)

lemma split_on_none: "c \<notin> set s \<Longrightarrow> split_on c s = [s]"
  by (induction s) auto

end
