(* ===== verification/ScanJobs.thy ===== *)
theory ScanJobs
  imports PyText
begin

text \<open>
  The bounded store of scan jobs of \<^verbatim>\<open>src/lightrag/kg/scan_job_store.py\<close>
  (\<^verbatim>\<open>AsyncioScanJobStore\<close>): records with a lease, an owner token and a version, updated by
  compare-and-set, within bounds on every part of a record. Each operation takes the time
  \<open>now\<close> the injected clock gives it; times are exact numbers of seconds.
\<close>

type_synonym seconds = rat

subsection \<open>Constants, statuses and results\<close>

definition SCAN_JOB_COUNTER_VALUE_MAX :: int where
  "SCAN_JOB_COUNTER_VALUE_MAX = 2 ^ 53"

definition SAMPLE_BUCKETS :: "pystr list" where
  "SAMPLE_BUCKETS = [''processed'', ''warning'', ''error'']"

datatype scan_status = RUNNING | COMPLETED | FAILED | CANCELLED | ABANDONED

fun status_value :: "scan_status \<Rightarrow> pystr" where
  "status_value RUNNING = ''running''"
| "status_value COMPLETED = ''completed''"
| "status_value FAILED = ''failed''"
| "status_value CANCELLED = ''cancelled''"
| "status_value ABANDONED = ''abandoned''"

definition STATUS_MAX_BYTES :: nat where
  "STATUS_MAX_BYTES =
     Max (set (map (\<lambda>s. length (utf8_encode (status_value s)))
                [RUNNING, COMPLETED, FAILED, CANCELLED, ABANDONED]))"

definition terminal_status :: "scan_status \<Rightarrow> bool" where
  "terminal_status s \<longleftrightarrow> s \<in> {COMPLETED, FAILED, CANCELLED, ABANDONED}"

datatype create_outcome = ACCEPTED | ALREADY_EXISTS | CAPACITY_EXCEEDED | INVALID_IDENTIFIER

datatype update_conflict = NOT_FOUND | OWNER | VERSION | TERMINAL | INVALID_STATUS

definition key_bytes :: "pystr \<Rightarrow> nat" where
  "key_bytes k = length (utf8_encode k)"

definition cap_sample :: "pystr \<Rightarrow> nat \<Rightarrow> pystr \<times> bool" where
  "cap_sample text max_bytes =
     (let raw = utf8_encode text in
      if length raw \<le> max_bytes then (text, False)
      else (utf8_decode_ignore (take max_bytes raw), True))"

subsection \<open>Records\<close>

record sample_bucket =
  items :: "pystr list"
  truncated :: bool
  dropped :: nat

definition bucket_bytes :: "sample_bucket \<Rightarrow> nat" where
  "bucket_bytes b = sum_list (map (\<lambda>s. length (utf8_encode s)) (items b))"

record scan_job =
  track_id :: pystr
  job_workspace :: pystr
  owner_token :: pystr
  status :: scan_status
  counts :: "(pystr, int) pydict"
  samples :: "(pystr, sample_bucket) pydict"
  created_at :: seconds
  updated_at :: seconds
  lease_expires_at :: seconds
  version :: nat
  message :: pystr
  counters_dropped :: nat

definition approx_bytes :: "scan_job \<Rightarrow> nat" where
  "approx_bytes r =
     sum_list (map (\<lambda>k. key_bytes k + 8) (keys (counts r)))
     + sum_list (map bucket_bytes (values (samples r)))
     + (STATUS_MAX_BYTES
        + sum_list (map key_bytes [track_id r, job_workspace r, owner_token r, message r]))
     + 128"

text \<open>The snapshot without the owner token.\<close>

record public_job =
  p_track_id :: pystr
  p_status :: pystr
  p_counts :: "(pystr, int) pydict"
  p_counters_dropped :: nat
  p_samples :: "(pystr, sample_bucket) pydict"
  p_created_at :: seconds
  p_updated_at :: seconds
  p_version :: nat
  p_message :: pystr

definition to_public :: "scan_job \<Rightarrow> public_job" where
  "to_public r =
     \<lparr>p_track_id = track_id r, p_status = status_value (status r), p_counts = counts r,
      p_counters_dropped = counters_dropped r, p_samples = samples r,
      p_created_at = created_at r, p_updated_at = updated_at r, p_version = version r,
      p_message = message r\<rparr>"

text \<open>The message of a refused create: which identifier is too long for which cap, or the size
  of the empty record and the ceiling.\<close>

datatype create_message =
    NoMessage
  | IdentifierTooLong pystr nat
  | EmptyRecordTooBig nat nat

record create_result =
  outcome :: create_outcome
  created_record :: "public_job option"
  create_msg :: create_message

record update_result =
  ok :: bool
  conflict :: "update_conflict option"
  result_record :: "public_job option"

definition new_samples :: "(pystr, sample_bucket) pydict" where
  "new_samples = map (\<lambda>b. (b, \<lparr>items = [], truncated = False, dropped = 0\<rparr>)) SAMPLE_BUCKETS"

subsection \<open>The store\<close>

record scan_store =
  workspace :: pystr
  capacity :: nat
  sample_limit :: nat
  sample_max_bytes :: nat
  record_max_bytes :: nat
  max_counter_keys :: nat
  counter_key_max_bytes :: nat
  counter_value_max :: int
  identifier_max_bytes :: nat
  lease_seconds :: seconds
  ttl_seconds :: seconds
  jobs :: "(pystr, scan_job) pydict"

definition new_store ::
    "pystr \<Rightarrow> int \<Rightarrow> int \<Rightarrow> int \<Rightarrow> int \<Rightarrow> int \<Rightarrow> int \<Rightarrow> int \<Rightarrow> int \<Rightarrow> seconds \<Rightarrow> seconds \<Rightarrow> scan_store" where
  "new_store ws cap slimit smax rmax ckeys ckmax cvmax imax lease ttl =
     \<lparr>workspace = ws, capacity = nat (max 1 cap), sample_limit = nat (max 0 slimit),
      sample_max_bytes = nat (max 1 smax), record_max_bytes = nat (max 1 rmax),
      max_counter_keys = nat (max 1 ckeys), counter_key_max_bytes = nat (max 1 ckmax),
      counter_value_max = max 1 cvmax, identifier_max_bytes = nat (max 1 imax),
      lease_seconds = lease, ttl_seconds = ttl, jobs = []\<rparr>"

definition default_store :: "pystr \<Rightarrow> scan_store" where
  "default_store ws = new_store ws 128 20 512 65536 32 64 SCAN_JOB_COUNTER_VALUE_MAX 128 60 3600"

definition fit_message :: "scan_store \<Rightarrow> scan_job \<Rightarrow> pystr \<Rightarrow> pystr" where
  "fit_message st r msg =
     (let remaining = int (record_max_bytes st) - (int (approx_bytes r) - int (key_bytes (message r)));
          budget = min (int (sample_max_bytes st)) remaining
      in if budget \<le> 0 then [] else fst (cap_sample msg (nat budget)))"

definition lease_expired_message :: pystr where
  "lease_expired_message = ''Lease expired: owner presumed dead; job abandoned.''"

definition maybe_abandon :: "scan_store \<Rightarrow> seconds \<Rightarrow> scan_job \<Rightarrow> scan_job" where
  "maybe_abandon st now r =
     (if status r = RUNNING \<and> lease_expires_at r \<le> now
      then let r1 = r\<lparr>status := ABANDONED, updated_at := now, version := version r + 1\<rparr>
           in r1\<lparr>message := fit_message st r1 lease_expired_message\<rparr>
      else r)"

definition reap :: "seconds \<Rightarrow> scan_store \<Rightarrow> scan_store" where
  "reap now st =
     (let abandoned = map (apsnd (maybe_abandon st now)) (jobs st);
          expired = map fst (filter (\<lambda>(tid, r). terminal_status (status r)
                                       \<and> ttl_seconds st \<le> now - updated_at r) abandoned)
      in st\<lparr>jobs := fold AList.delete expired abandoned\<rparr>)"

definition evict_one_terminal :: "scan_store \<Rightarrow> bool \<times> scan_store" where
  "evict_one_terminal st =
     (case sort (map (\<lambda>(tid, r). (updated_at r, tid))
                   (filter (\<lambda>(tid, r). terminal_status (status r)) (jobs st))) of
        [] \<Rightarrow> (False, st)
      | oldest # _ \<Rightarrow> (True, st\<lparr>jobs := AList.delete (snd oldest) (jobs st)\<rparr>))"

definition created :: "create_outcome \<Rightarrow> public_job option \<Rightarrow> create_message \<Rightarrow> create_result" where
  "created out r msg = \<lparr>outcome = out, created_record = r, create_msg = msg\<rparr>"

fun too_long_identifier :: "nat \<Rightarrow> (pystr \<times> pystr) list \<Rightarrow> pystr option" where
  "too_long_identifier limit [] = None"
| "too_long_identifier limit ((label, v) # xs) =
     (if limit < key_bytes v then Some label else too_long_identifier limit xs)"

definition scan_create ::
    "seconds \<Rightarrow> pystr \<Rightarrow> pystr \<Rightarrow> scan_store \<Rightarrow> create_result \<times> scan_store" where
  "scan_create now tid owner st =
     (case too_long_identifier (identifier_max_bytes st)
             [(''track_id'', tid), (''owner_token'', owner)] of
        Some label \<Rightarrow>
          (created INVALID_IDENTIFIER None (IdentifierTooLong label (identifier_max_bytes st)), st)
      | None \<Rightarrow>
          let st1 = reap now st in
          (case map_of (jobs st1) tid of
             Some existing \<Rightarrow> (created ALREADY_EXISTS (Some (to_public existing)) NoMessage, st1)
           | None \<Rightarrow>
               let r = \<lparr>track_id = tid, job_workspace = workspace st1, owner_token = owner,
                        status = RUNNING, counts = [], samples = new_samples,
                        created_at = now, updated_at = now,
                        lease_expires_at = now + lease_seconds st1, version = 1,
                        message = [], counters_dropped = 0\<rparr>;
                   base_bytes = approx_bytes r in
               if record_max_bytes st1 < base_bytes
               then (created INVALID_IDENTIFIER None
                       (EmptyRecordTooBig base_bytes (record_max_bytes st1)), st1)
               else
                 (case (if capacity st1 \<le> length (jobs st1) then evict_one_terminal st1
                        else (True, st1)) of
                    (False, st2) \<Rightarrow> (created CAPACITY_EXCEEDED None NoMessage, st2)
                  | (True, st2) \<Rightarrow>
                      (created ACCEPTED (Some (to_public r)) NoMessage,
                       st2\<lparr>jobs := AList.update tid r (jobs st2)\<rparr>))))"

text \<open>A counter delta as it arrives: an \<open>int\<close>, a \<open>bool\<close> (a subclass of \<open>int\<close> in Python) or
  anything else.\<close>

datatype delta = DInt int | DBool bool | DOther

definition apply_delta :: "scan_store \<Rightarrow> pystr \<times> delta \<Rightarrow> scan_job \<Rightarrow> scan_job" where
  "apply_delta st kd r =
     (case kd of (k, d) \<Rightarrow>
        (case d of
           DInt n \<Rightarrow>
             if counter_value_max st < \<bar>n\<bar> then r\<lparr>counters_dropped := counters_dropped r + 1\<rparr>
             else (case map_of (counts r) k of
                Some old \<Rightarrow>
                  if counter_value_max st < \<bar>old + n\<bar>
                  then r\<lparr>counters_dropped := counters_dropped r + 1\<rparr>
                  else r\<lparr>counts := AList.update k (old + n) (counts r)\<rparr>
              | None \<Rightarrow>
                  if counter_key_max_bytes st < key_bytes k
                     \<or> max_counter_keys st \<le> length (counts r)
                     \<or> record_max_bytes st < approx_bytes r + key_bytes k + 8
                  then r\<lparr>counters_dropped := counters_dropped r + 1\<rparr>
                  else r\<lparr>counts := AList.update k n (counts r)\<rparr>)
         | _ \<Rightarrow> r))"

definition apply_sample :: "scan_store \<Rightarrow> (pystr \<times> pystr) option \<Rightarrow> scan_job \<Rightarrow> scan_job" where
  "apply_sample st sample r =
     (case sample of
        None \<Rightarrow> r
      | Some (bucket_name, text) \<Rightarrow>
          (case map_of (samples r) bucket_name of
             None \<Rightarrow> r
           | Some b \<Rightarrow>
               let (capped, was_truncated) = cap_sample text (sample_max_bytes st);
                   would_add = length (utf8_encode capped);
                   b' = (if sample_limit st \<le> length (items b) then b\<lparr>dropped := dropped b + 1\<rparr>
                         else if record_max_bytes st < approx_bytes r + would_add
                         then b\<lparr>dropped := dropped b + 1\<rparr>
                         else b\<lparr>items := items b @ [capped],
                                truncated := truncated b \<or> was_truncated\<rparr>)
               in r\<lparr>samples := AList.update bucket_name b' (samples r)\<rparr>))"

definition refused :: "update_conflict \<Rightarrow> public_job option \<Rightarrow> update_result" where
  "refused c r = \<lparr>ok = False, conflict = Some c, result_record = r\<rparr>"

definition put_job :: "pystr \<Rightarrow> scan_job \<Rightarrow> scan_store \<Rightarrow> scan_store" where
  "put_job tid r st = st\<lparr>jobs := AList.update tid r (jobs st)\<rparr>"

definition scan_update ::
    "seconds \<Rightarrow> pystr \<Rightarrow> pystr \<Rightarrow> (pystr, delta) pydict \<Rightarrow> (pystr \<times> pystr) option \<Rightarrow> int
       \<Rightarrow> scan_store \<Rightarrow> update_result \<times> scan_store" where
  "scan_update now tid owner deltas sample expected st =
     (case map_of (jobs st) tid of
        None \<Rightarrow> (refused NOT_FOUND None, st)
      | Some r0 \<Rightarrow>
          let r = maybe_abandon st now r0; st1 = put_job tid r st in
          if owner_token r \<noteq> owner then (refused OWNER None, st1)
          else if status r \<noteq> RUNNING then (refused TERMINAL (Some (to_public r)), st1)
          else if int (version r) \<noteq> expected then (refused VERSION (Some (to_public r)), st1)
          else
            let r1 = fold (apply_delta st) deltas r;
                r2 = apply_sample st sample r1;
                r3 = r2\<lparr>version := version r2 + 1, updated_at := now,
                        lease_expires_at := now + lease_seconds st\<rparr>
            in (\<lparr>ok = True, conflict = None, result_record = Some (to_public r3)\<rparr>,
                put_job tid r3 st1))"

definition scan_set_status ::
    "seconds \<Rightarrow> pystr \<Rightarrow> pystr \<Rightarrow> scan_status \<Rightarrow> int \<Rightarrow> pystr \<Rightarrow> scan_store
       \<Rightarrow> update_result \<times> scan_store" where
  "scan_set_status now tid owner new_status expected msg st =
     (if \<not> terminal_status new_status then (refused INVALID_STATUS None, st)
      else case map_of (jobs st) tid of
        None \<Rightarrow> (refused NOT_FOUND None, st)
      | Some r0 \<Rightarrow>
          let r = maybe_abandon st now r0; st1 = put_job tid r st in
          if owner_token r \<noteq> owner then (refused OWNER None, st1)
          else if status r \<noteq> RUNNING then (refused TERMINAL (Some (to_public r)), st1)
          else if int (version r) \<noteq> expected then (refused VERSION (Some (to_public r)), st1)
          else
            let r1 = r\<lparr>status := new_status, updated_at := now, version := version r + 1\<rparr>;
                r2 = (if msg \<noteq> [] then r1\<lparr>message := fit_message st r1 msg\<rparr> else r1)
            in (\<lparr>ok = True, conflict = None, result_record = Some (to_public r2)\<rparr>,
                put_job tid r2 st1))"

definition scan_get :: "seconds \<Rightarrow> pystr \<Rightarrow> scan_store \<Rightarrow> public_job option \<times> scan_store" where
  "scan_get now tid st =
     (case map_of (jobs st) tid of
        None \<Rightarrow> (None, st)
      | Some r0 \<Rightarrow> let r = maybe_abandon st now r0 in (Some (to_public r), put_job tid r st))"

definition scan_cancel ::
    "seconds \<Rightarrow> pystr \<Rightarrow> pystr \<Rightarrow> pystr \<Rightarrow> scan_store \<Rightarrow> update_result \<times> scan_store" where
  "scan_cancel now tid owner msg st =
     (case map_of (jobs st) tid of
        None \<Rightarrow> (refused NOT_FOUND None, st)
      | Some r0 \<Rightarrow>
          let r = maybe_abandon st now r0; st1 = put_job tid r st in
          if owner_token r \<noteq> owner then (refused OWNER None, st1)
          else if status r \<noteq> RUNNING
          then (\<lparr>ok = True, conflict = Some TERMINAL, result_record = Some (to_public r)\<rparr>, st1)
          else
            let r1 = r\<lparr>status := CANCELLED, updated_at := now, version := version r + 1\<rparr>;
                r2 = (if msg \<noteq> [] then r1\<lparr>message := fit_message st r1 msg\<rparr> else r1)
            in (\<lparr>ok = True, conflict = None, result_record = Some (to_public r2)\<rparr>,
                put_job tid r2 st1))"

definition scan_remove_terminal :: "pystr \<Rightarrow> scan_store \<Rightarrow> bool \<times> scan_store" where
  "scan_remove_terminal tid st =
     (case map_of (jobs st) tid of
        None \<Rightarrow> (False, st)
      | Some r \<Rightarrow>
          if \<not> terminal_status (status r) then (False, st)
          else (True, st\<lparr>jobs := AList.delete tid (jobs st)\<rparr>))"

definition scan_snapshot :: "seconds \<Rightarrow> scan_store \<Rightarrow> public_job list \<times> scan_store" where
  "scan_snapshot now st =
     (let st1 = reap now st in (map to_public (values (jobs st1)), st1))"

end
