(* ===== verification/ScanJobsLaws.thy ===== *)
theory ScanJobsLaws
  imports ScanJobs
begin

text \<open>
  What the scan job store keeps: every bound of a record on every path (\<open>store_ok\<close>), the
  finality of terminal statuses, the compare-and-set discipline of its writers and the safety
  of running jobs from eviction.
\<close>

subsection \<open>Sizes\<close>

lemma cap_sample_fits: "key_bytes (fst (cap_sample text n)) \<le> n"
proof (cases "length (utf8_encode text) \<le> n")
  case True
  then show ?thesis by (simp add: cap_sample_def key_bytes_def Let_def)
next
  case False
  obtain k where "utf8_decode_ignore (take n (utf8_encode text)) = take k text"
      "length (utf8_encode (take k text)) \<le> n"
    using utf8_clip by blast
  with False show ?thesis by (simp add: cap_sample_def key_bytes_def Let_def)
qed

lemma approx_frame [simp]:
  "approx_bytes (r\<lparr>status := s\<rparr>) = approx_bytes r"
  "approx_bytes (r\<lparr>updated_at := t\<rparr>) = approx_bytes r"
  "approx_bytes (r\<lparr>lease_expires_at := t\<rparr>) = approx_bytes r"
  "approx_bytes (r\<lparr>version := v\<rparr>) = approx_bytes r"
  "approx_bytes (r\<lparr>counters_dropped := n\<rparr>) = approx_bytes r"
  by (simp_all add: approx_bytes_def)

lemma approx_message:
  "approx_bytes (r\<lparr>message := m\<rparr>) + key_bytes (message r) = approx_bytes r + key_bytes m"
  by (simp add: approx_bytes_def)

lemma message_le_approx: "key_bytes (message r) \<le> approx_bytes r"
  by (simp add: approx_bytes_def)

lemma approx_counts:
  "approx_bytes (r\<lparr>counts := AList.update k v (counts r)\<rparr>)
     = approx_bytes r + (if k \<in> set (keys (counts r)) then 0 else key_bytes k + 8)"
  by (simp add: approx_bytes_def AList.update_keys)

lemma sum_values_update:
  "map_of d k = Some v \<Longrightarrow> dict_ok d \<Longrightarrow>
     sum_list (map f (values (AList.update k v' d))) + f v = sum_list (map f (values d)) + (f v' :: nat)"
proof (induction d)
  case (Cons x d)
  show ?case
  proof (cases "fst x = k")
    case True
    then have "snd x = v" using Cons.prems(1) by (simp split: if_splits prod.splits)
    then show ?thesis using True by (cases x) simp
  next
    case False
    then show ?thesis using Cons by (cases x) (simp split: if_splits)
  qed
qed simp

lemma approx_samples:
  assumes "map_of (samples r) k = Some b" and "dict_ok (samples r)"
  shows "approx_bytes (r\<lparr>samples := AList.update k b' (samples r)\<rparr>) + bucket_bytes b
           = approx_bytes r + bucket_bytes b'"
  using sum_values_update [OF assms, of bucket_bytes b'] by (simp add: approx_bytes_def)

subsection \<open>The invariant of a record and of the store\<close>

definition bucket_ok :: "scan_store \<Rightarrow> sample_bucket \<Rightarrow> bool" where
  "bucket_ok st b \<longleftrightarrow>
     length (items b) \<le> sample_limit st \<and> (\<forall>s \<in> set (items b). key_bytes s \<le> sample_max_bytes st)"

definition job_ok :: "scan_store \<Rightarrow> pystr \<Rightarrow> scan_job \<Rightarrow> bool" where
  "job_ok st tid r \<longleftrightarrow>
     track_id r = tid \<and> approx_bytes r \<le> record_max_bytes st
     \<and> key_bytes (message r) \<le> sample_max_bytes st
     \<and> dict_ok (counts r) \<and> length (counts r) \<le> max_counter_keys st
     \<and> (\<forall>(k, v) \<in> set (counts r). key_bytes k \<le> counter_key_max_bytes st \<and> \<bar>v\<bar> \<le> counter_value_max st)
     \<and> keys (samples r) = SAMPLE_BUCKETS \<and> (\<forall>b \<in> set (values (samples r)). bucket_ok st b)"

definition store_ok :: "scan_store \<Rightarrow> bool" where
  "store_ok st \<longleftrightarrow>
     0 < capacity st \<and> 0 \<le> counter_value_max st \<and> dict_ok (jobs st) \<and> length (jobs st) \<le> capacity st
     \<and> (\<forall>(tid, r) \<in> set (jobs st). job_ok st tid r)"

lemma job_ok_config [simp]: "job_ok (st\<lparr>jobs := js\<rparr>) tid r = job_ok st tid r"
  by (simp add: job_ok_def bucket_ok_def)

lemma dict_ok_samples: "job_ok st tid r \<Longrightarrow> dict_ok (samples r)"
  by (simp add: job_ok_def SAMPLE_BUCKETS_def)

lemma job_ok_frame [simp]:
  "job_ok st tid (r\<lparr>status := s\<rparr>) = job_ok st tid r"
  "job_ok st tid (r\<lparr>updated_at := t\<rparr>) = job_ok st tid r"
  "job_ok st tid (r\<lparr>lease_expires_at := t\<rparr>) = job_ok st tid r"
  "job_ok st tid (r\<lparr>version := v\<rparr>) = job_ok st tid r"
  "job_ok st tid (r\<lparr>counters_dropped := n\<rparr>) = job_ok st tid r"
  by (simp_all add: job_ok_def)

lemma fit_message_fits:
  assumes "approx_bytes r \<le> record_max_bytes st"
  shows "approx_bytes (r\<lparr>message := fit_message st r m\<rparr>) \<le> record_max_bytes st"
    and "key_bytes (fit_message st r m) \<le> sample_max_bytes st"
proof -
  define rem where "rem = int (record_max_bytes st) - (int (approx_bytes r) - int (key_bytes (message r)))"
  define bud where "bud = min (int (sample_max_bytes st)) rem"
  have f: "fit_message st r m = (if bud \<le> 0 then [] else fst (cap_sample m (nat bud)))"
    by (simp add: fit_message_def Let_def bud_def rem_def)
  have k: "int (key_bytes (fit_message st r m)) \<le> max 0 bud"
    using cap_sample_fits [of m "nat bud"]
    by (cases "bud \<le> 0") (simp_all add: f key_bytes_def le_nat_iff)
  have "0 \<le> rem" using assms message_le_approx [of r] by (simp add: rem_def)
  then show "approx_bytes (r\<lparr>message := fit_message st r m\<rparr>) \<le> record_max_bytes st"
    using k approx_message [where r = r and m = "fit_message st r m"] unfolding bud_def rem_def by linarith
  show "key_bytes (fit_message st r m) \<le> sample_max_bytes st"
    using k unfolding bud_def by linarith
qed

lemma job_ok_message:
  assumes "job_ok st tid r"
  shows "job_ok st tid (r\<lparr>message := fit_message st r m\<rparr>)"
  using assms fit_message_fits [of r st m] by (auto simp: job_ok_def)

lemma job_ok_abandon: "job_ok st tid r \<Longrightarrow> job_ok st tid (maybe_abandon st now r)"
  by (simp add: maybe_abandon_def Let_def job_ok_message)

lemma job_ok_delta:
  assumes "job_ok st tid r"
  shows "job_ok st tid (apply_delta st kd r)"
proof -
  obtain k d where kd: "kd = (k, d)" by force
  show ?thesis
  proof (cases d)
    case (DInt n)
    show ?thesis
    proof (cases "map_of (counts r) k")
      case None
      then have new: "k \<notin> set (keys (counts r))" by (simp add: map_of_eq_None_iff)
      have "approx_bytes (r\<lparr>counts := counts r @ [(k, n)]\<rparr>) = approx_bytes r + key_bytes k + 8"
        using approx_counts [where r = r and k = k and v = n] new update_new [OF new, of n] by simp
      then show ?thesis
        using assms kd DInt None new
        by (auto simp: apply_delta_def job_ok_def update_new simp del: set_map image_set)
    next
      case (Some old)
      have mem: "k \<in> set (keys (counts r))" and kb: "key_bytes k \<le> counter_key_max_bytes st"
        using Some assms by (force simp: job_ok_def dest!: map_of_SomeD)+
      have sub: "set (AList.update k (old + n) (counts r)) \<subseteq> insert (k, old + n) (set (counts r))"
        by (rule set_update_subset)
      have len: "length (AList.update k (old + n) (counts r)) = length (counts r)"
        using mem by (simp add: length_update)
      show ?thesis
        using assms kd DInt Some mem kb sub len
        by (auto simp: apply_delta_def job_ok_def approx_counts dict_ok_update
            simp del: set_map image_set)
    qed
  qed (use assms kd in \<open>simp_all add: apply_delta_def\<close>)
qed

lemma keys_update_same: "k \<in> set (keys d) \<Longrightarrow> keys (AList.update k v d) = keys d"
  by (simp add: AList.update_keys)

lemma values_update_subset: "set (values (AList.update k v d)) \<subseteq> insert v (set (values d))"
  using set_update_subset [of k v d] by force

lemma job_ok_sample:
  assumes ok: "job_ok st tid r"
  shows "job_ok st tid (apply_sample st sample r)"
proof (cases sample)
  case None
  then show ?thesis using ok by (simp add: apply_sample_def)
next
  case (Some bt)
  obtain bn tx where bt: "bt = (bn, tx)" by force
  show ?thesis
  proof (cases "map_of (samples r) bn")
    case None
    then show ?thesis using ok Some bt by (simp add: apply_sample_def)
  next
    case (Some b)
    obtain cp tr where c: "cap_sample tx (sample_max_bytes st) = (cp, tr)" by force
    have fits: "key_bytes cp \<le> sample_max_bytes st"
      using cap_sample_fits [of tx "sample_max_bytes st"] c by simp
    have "b \<in> set (values (samples r))" using Some by (force dest: map_of_SomeD)
    then have bok: "bucket_ok st b" using ok unfolding job_ok_def by blast
    have bn: "bn \<in> set (keys (samples r))" using Some by (force dest: map_of_SomeD)
    define b' where "b' = (if sample_limit st \<le> length (items b) then b\<lparr>dropped := dropped b + 1\<rparr>
         else if record_max_bytes st < approx_bytes r + key_bytes cp then b\<lparr>dropped := dropped b + 1\<rparr>
         else b\<lparr>items := items b @ [cp], truncated := truncated b \<or> tr\<rparr>)"
    have res: "apply_sample st sample r = r\<lparr>samples := AList.update bn b' (samples r)\<rparr>"
      using \<open>sample = Some bt\<close> bt Some c
      by (simp add: apply_sample_def b'_def key_bytes_def Let_def)
    have b'ok: "bucket_ok st b'"
      using bok fits by (auto simp: b'_def bucket_ok_def)
    have "approx_bytes (apply_sample st sample r) \<le> record_max_bytes st"
      using approx_samples [OF Some dict_ok_samples [OF ok], where b' = b'] ok
      unfolding res by (auto simp: b'_def bucket_bytes_def key_bytes_def job_ok_def split: if_splits)
    moreover have "keys (samples (apply_sample st sample r)) = SAMPLE_BUCKETS"
      using ok bn by (simp add: res keys_update_same job_ok_def)
    moreover have "\<forall>x \<in> set (values (samples (apply_sample st sample r))). bucket_ok st x"
    proof -
      have "samples (apply_sample st sample r) = AList.update bn b' (samples r)" by (simp add: res)
      then show ?thesis
        using values_update_subset [of bn b' "samples r"] b'ok ok unfolding job_ok_def by (auto simp del: set_map)
    qed
    ultimately show ?thesis
      using ok by (simp add: job_ok_def res)
  qed
qed

subsection \<open>Every operation keeps the invariant\<close>

lemma store_okD:
  "store_ok st \<Longrightarrow> map_of (jobs st) tid = Some r \<Longrightarrow> job_ok st tid r"
  by (force simp: store_ok_def dest: map_of_SomeD)

lemma put_job_config [simp]:
  "job_ok (put_job t q st) tid r = job_ok st tid r"
  "maybe_abandon (put_job t q st) = maybe_abandon st"
  "lease_seconds (put_job t q st) = lease_seconds st"
  "jobs (put_job t q st) = AList.update t q (jobs st)"
  by (simp_all add: put_job_def maybe_abandon_def fit_message_def fun_eq_iff)

lemma store_ok_put:
  assumes "store_ok st" and "tid \<in> set (keys (jobs st))" and "job_ok st tid r"
  shows "store_ok (put_job tid r st)"
  using assms set_update_subset [of tid r "jobs st"]
  by (auto simp: store_ok_def put_job_def dict_ok_update length_update simp del: set_map)

lemma mem_keys: "map_of d k = Some v \<Longrightarrow> k \<in> set (keys d)"
  by (force dest: map_of_SomeD)

lemma store_ok_put_found:
  assumes "store_ok st" and "map_of (jobs st) tid = Some r0" and "job_ok st tid r"
  shows "store_ok (put_job tid r st)"
  by (rule store_ok_put [OF assms(1) mem_keys [OF assms(2)] assms(3)])

lemma fold_delete_subset: "set (fold AList.delete ks d) \<subseteq> set d"
  by (induction ks arbitrary: d) (auto dest: subsetD [OF set_delete_subset])

lemma fold_delete_ok:
  "dict_ok d \<Longrightarrow> dict_ok (fold AList.delete ks d) \<and> length (fold AList.delete ks d) \<le> length d"
proof (induction ks arbitrary: d)
  case (Cons k ks)
  then show ?case
    using Cons.IH [OF dict_ok_delete [OF Cons.prems], of k] AList.length_delete_le [of k d]
    by simp
qed simp

lemma store_ok_shrink:
  assumes "store_ok st" and "set js \<subseteq> set (jobs st)" and "dict_ok js"
    and "length js \<le> length (jobs st)"
  shows "store_ok (st\<lparr>jobs := js\<rparr>)"
  using assms by (auto simp: store_ok_def)

lemma store_ok_abandon_all:
  assumes "store_ok st"
  shows "store_ok (st\<lparr>jobs := map (apsnd (maybe_abandon st now)) (jobs st)\<rparr>)"
  using assms by (auto simp: store_ok_def comp_def job_ok_abandon)

lemma store_ok_reap:
  assumes "store_ok st"
  shows "store_ok (reap now st)"
proof -
  let ?js = "map (apsnd (maybe_abandon st now)) (jobs st)"
  have a: "store_ok (st\<lparr>jobs := ?js\<rparr>)" by (rule store_ok_abandon_all [OF assms])
  then have d: "dict_ok ?js" by (simp add: store_ok_def)
  show ?thesis
    using store_ok_shrink [OF a, of "fold AList.delete ks ?js" for ks]
      fold_delete_subset [of _ ?js] fold_delete_ok [OF d]
    by (auto simp: reap_def Let_def)
qed

lemma evict_one_cases:
  assumes "evict_one_terminal st = (b, st')"
  obtains (none) "\<not> b" "st' = st" "\<forall>(t, r) \<in> set (jobs st). \<not> terminal_status (status r)"
  | (one) t r where "b" "(t, r) \<in> set (jobs st)" "terminal_status (status r)"
      "st' = st\<lparr>jobs := AList.delete t (jobs st)\<rparr>"
proof -
  define ts where "ts = filter (\<lambda>(tid, r). terminal_status (status r)) (jobs st)"
  define so where "so = sort (map (\<lambda>(tid, r). (updated_at r, tid)) ts)"
  have e: "evict_one_terminal st = (case so of [] \<Rightarrow> (False, st)
      | oldest # _ \<Rightarrow> (True, st\<lparr>jobs := AList.delete (snd oldest) (jobs st)\<rparr>))"
    by (simp add: evict_one_terminal_def so_def ts_def)
  show ?thesis
  proof (cases so)
    case Nil
    have "length so = length ts" by (simp add: so_def)
    then have "ts = []" using Nil by simp
    then have "\<forall>(t, r) \<in> set (jobs st). \<not> terminal_status (status r)"
      by (auto simp: ts_def filter_empty_conv)
    then show ?thesis using assms e Nil none by simp
  next
    case (Cons ol os)
    have "set so = set (map (\<lambda>(tid, r). (updated_at r, tid)) ts)" by (simp add: so_def)
    then have "ol \<in> set (map (\<lambda>(tid, r). (updated_at r, tid)) ts)" using Cons by auto
    then obtain t r where "(t, r) \<in> set (jobs st)" "terminal_status (status r)" "snd ol = t"
      by (auto simp: ts_def)
    then show ?thesis using assms e Cons one by simp
  qed
qed

lemma store_ok_evict: "store_ok st \<Longrightarrow> store_ok (snd (evict_one_terminal st))"
proof (cases "evict_one_terminal st")
  case (Pair b st')
  assume ok: "store_ok st"
  from Pair show ?thesis
  proof (cases rule: evict_one_cases)
    case none
    then show ?thesis using ok Pair by simp
  next
    case (one t r)
    then show ?thesis
      using Pair store_ok_shrink [OF ok set_delete_subset dict_ok_delete AList.length_delete_le] ok
      by (simp add: store_ok_def)
  qed
qed

subsection \<open>Operations and runs\<close>

datatype scan_op =
    OpCreate seconds pystr pystr
  | OpUpdate seconds pystr pystr "(pystr, delta) pydict" "(pystr \<times> pystr) option" int
  | OpSetStatus seconds pystr pystr scan_status int pystr
  | OpGet seconds pystr
  | OpCancel seconds pystr pystr pystr
  | OpRemoveTerminal pystr
  | OpSnapshot seconds

fun scan_do :: "scan_op \<Rightarrow> scan_store \<Rightarrow> scan_store" where
  "scan_do (OpCreate now tid ow) st = snd (scan_create now tid ow st)"
| "scan_do (OpUpdate now tid ow ds s v) st = snd (scan_update now tid ow ds s v st)"
| "scan_do (OpSetStatus now tid ow new v m) st = snd (scan_set_status now tid ow new v m st)"
| "scan_do (OpGet now tid) st = snd (scan_get now tid st)"
| "scan_do (OpCancel now tid ow m) st = snd (scan_cancel now tid ow m st)"
| "scan_do (OpRemoveTerminal tid) st = snd (scan_remove_terminal tid st)"
| "scan_do (OpSnapshot now) st = snd (scan_snapshot now st)"

lemma new_job_ok:
  assumes "approx_bytes r \<le> record_max_bytes st" and "track_id r = tid" and "counts r = []"
    and "samples r = new_samples" and "message r = []"
  shows "job_ok st tid r"
  using assms
  by (auto simp: job_ok_def new_samples_def SAMPLE_BUCKETS_def bucket_ok_def key_bytes_def)

lemma reap_config [simp]:
  "capacity (reap now st) = capacity st" "record_max_bytes (reap now st) = record_max_bytes st"
  "lease_seconds (reap now st) = lease_seconds st"
  by (simp_all add: reap_def Let_def)

lemma evict_config: "snd (evict_one_terminal st) = st\<lparr>jobs := jobs (snd (evict_one_terminal st))\<rparr>"
  by (simp add: evict_one_terminal_def split: list.splits)

lemma length_evict:
  assumes "evict_one_terminal st = (True, st')" and "store_ok st"
  shows "length (jobs st') < length (jobs st)"
  using assms(1)
proof (cases rule: evict_one_cases)
  case (one t r)
  then show ?thesis
    by (auto simp: delete_filter intro!: length_filter_less)
qed simp

lemma store_ok_create: "store_ok st \<Longrightarrow> store_ok (snd (scan_create now tid ow st))"
proof -
  assume "store_ok st"
  then have ok1: "store_ok (reap now st)" by (rule store_ok_reap)
  let ?st1 = "reap now st"
  let ?r = "\<lparr>track_id = tid, job_workspace = workspace ?st1, owner_token = ow,
              status = RUNNING, counts = [], samples = new_samples, created_at = now,
              updated_at = now, lease_expires_at = now + lease_seconds ?st1, version = 1,
              message = [], counters_dropped = 0\<rparr>"
  show ?thesis
  proof (cases "too_long_identifier (identifier_max_bytes st) [(''track_id'', tid), (''owner_token'', ow)] = None
      \<and> map_of (jobs ?st1) tid = None \<and> approx_bytes ?r \<le> record_max_bytes ?st1")
    case False
    then show ?thesis
      using \<open>store_ok st\<close> ok1
      by (auto simp: scan_create_def Let_def split: option.splits simp del: reap_config)
  next
    case True
    obtain b st2 where e: "(if capacity ?st1 \<le> length (jobs ?st1) then evict_one_terminal ?st1
                            else (True, ?st1)) = (b, st2)" by force
    have ok2: "store_ok st2" and conf: "st2 = ?st1\<lparr>jobs := jobs st2\<rparr>"
      using e ok1 store_ok_evict [OF ok1] evict_config [of ?st1] by (auto split: if_splits)
    show ?thesis
    proof (cases b)
      case False
      then show ?thesis
        using True e ok2 by (simp add: scan_create_def Let_def)
    next
      case True': True
      have "capacity st2 = capacity ?st1" using conf by (metis scan_store.select_convs(2) scan_store.surjective scan_store.update_convs(12))
      then have len: "length (jobs st2) < capacity st2"
        using e True' ok1 length_evict [of ?st1 st2] by (auto simp: store_ok_def split: if_splits)
      have "record_max_bytes st2 = record_max_bytes ?st1" using conf by (metis scan_store.select_convs(5) scan_store.surjective scan_store.update_convs(12))
      then have "job_ok st2 tid ?r"
        using True by (intro new_job_ok) simp_all
      moreover have "jobs (st2\<lparr>jobs := AList.update tid ?r (jobs st2)\<rparr>) = AList.update tid ?r (jobs st2)"
        by simp
      ultimately have "store_ok (st2\<lparr>jobs := AList.update tid ?r (jobs st2)\<rparr>)"
        using ok2 len set_update_subset [of tid ?r "jobs st2"] length_update_le [of tid ?r "jobs st2"]
        by (auto simp: store_ok_def dict_ok_update simp del: set_map)
      then show ?thesis
        using True True' e by (simp add: scan_create_def Let_def)
    qed
  qed
qed

text \<open>What the writers do to the record they find, the abandonment included.\<close>

lemma job_ok_fold_delta: "job_ok st tid r \<Longrightarrow> job_ok st tid (fold (apply_delta st) ds r)"
  by (rule fold_invariant) (auto intro: job_ok_delta)

lemmas writer_defs = scan_update_def scan_set_status_def scan_get_def scan_cancel_def

lemma store_ok_abandoned:
  assumes "store_ok st" and "map_of (jobs st) tid = Some r0"
  shows "job_ok st tid (maybe_abandon st now r0)"
    and "store_ok (put_job tid (maybe_abandon st now r0) st)"
    and "job_ok st tid r \<Longrightarrow> store_ok (put_job tid r (put_job tid (maybe_abandon st now r0) st))"
proof -
  show j: "job_ok st tid (maybe_abandon st now r0)"
    by (rule job_ok_abandon [OF store_okD [OF assms]])
  show p: "store_ok (put_job tid (maybe_abandon st now r0) st)"
    by (rule store_ok_put_found [OF assms j])
  show "job_ok st tid r \<Longrightarrow> store_ok (put_job tid r (put_job tid (maybe_abandon st now r0) st))"
    by (rule store_ok_put_found [OF p]) (simp_all add: map_of_update_iff)
qed

lemma store_ok_do: "store_ok st \<Longrightarrow> store_ok (scan_do op st)"
proof (cases op)
  case (OpUpdate now tid ow ds s v)
  assume ok: "store_ok st"
  show ?thesis
  proof (cases "map_of (jobs st) tid")
    case (Some r0)
    note ab = store_ok_abandoned [OF ok Some, where now = now]
    have "job_ok st tid (apply_sample st s (fold (apply_delta st) ds (maybe_abandon st now r0)))"
      by (intro job_ok_sample job_ok_fold_delta ab(1))
    then show ?thesis
      using ab(2,3) Some OpUpdate by (simp add: scan_update_def Let_def)
  qed (use ok OpUpdate in \<open>simp add: scan_update_def\<close>)
next
  case (OpSetStatus now tid ow new v m)
  assume ok: "store_ok st"
  show ?thesis
  proof (cases "map_of (jobs st) tid")
    case (Some r0)
    note ab = store_ok_abandoned [OF ok Some, where now = now]
    then show ?thesis
      using ok Some OpSetStatus job_ok_message by (simp add: scan_set_status_def Let_def)
  qed (use ok OpSetStatus in \<open>simp add: scan_set_status_def\<close>)
next
  case (OpGet now tid)
  assume ok: "store_ok st"
  then show ?thesis
    using store_ok_abandoned(2) [OF ok] OpGet
    by (simp add: scan_get_def Let_def split: option.splits)
next
  case (OpCancel now tid ow m)
  assume ok: "store_ok st"
  show ?thesis
  proof (cases "map_of (jobs st) tid")
    case (Some r0)
    note ab = store_ok_abandoned [OF ok Some, where now = now]
    then show ?thesis
      using ok Some OpCancel job_ok_message by (simp add: scan_cancel_def Let_def)
  qed (use ok OpCancel in \<open>simp add: scan_cancel_def\<close>)
next
  case (OpRemoveTerminal tid)
  assume ok: "store_ok st"
  then have "store_ok (st\<lparr>jobs := AList.delete tid (jobs st)\<rparr>)"
    by (intro store_ok_shrink set_delete_subset dict_ok_delete AList.length_delete_le)
       (simp_all add: store_ok_def)
  then show ?thesis using ok OpRemoveTerminal
    by (simp add: scan_remove_terminal_def split: option.splits)
qed (simp_all add: store_ok_create scan_snapshot_def Let_def store_ok_reap)

lemma store_ok_new: "store_ok (new_store ws a b c d e f g h i j)"
  by (simp add: store_ok_def new_store_def max_def)

subsection \<open>What happens to one job\<close>

lemma reap_job:
  assumes "dict_ok (jobs st)"
  shows "map_of (jobs (reap now st)) tid =
    (case map_of (jobs st) tid of
       None \<Rightarrow> None
     | Some r0 \<Rightarrow>
         let r = maybe_abandon st now r0 in
         if terminal_status (status r) \<and> ttl_seconds st \<le> now - updated_at r then None else Some r)"
proof -
  let ?js = "map (apsnd (maybe_abandon st now)) (jobs st)"
  let ?P = "\<lambda>r. terminal_status (status r) \<and> ttl_seconds st \<le> now - updated_at r"
  have m: "map_of ?js tid = map_option (maybe_abandon st now) (map_of (jobs st) tid)"
    by (rule map_of_map_apsnd)
  have d: "dict_ok ?js" using assms by (simp add: comp_def)
  have "jobs (reap now st) = fold AList.delete (map fst (filter (\<lambda>(tid, r). ?P r) ?js)) ?js"
    by (simp add: reap_def Let_def)
  then show ?thesis
    unfolding map_of_delete_filter [OF d, of ?P] m
    by (simp add: map_of_delete_filter [OF d, of ?P] m Let_def split: option.splits del: map_map)
qed

lemma abandon_terminal [simp]: "terminal_status (status r) \<Longrightarrow> maybe_abandon st now r = r"
  by (auto simp: maybe_abandon_def terminal_status_def)

lemma abandon_frame:
  "track_id (maybe_abandon st now r) = track_id r"
  "owner_token (maybe_abandon st now r) = owner_token r"
  "version r \<le> version (maybe_abandon st now r)"
  by (simp_all add: maybe_abandon_def Let_def)

lemma abandon_leased: "now < lease_expires_at r \<Longrightarrow> maybe_abandon st now r = r"
  by (simp add: maybe_abandon_def)

lemma not_running: "status r \<noteq> RUNNING \<longleftrightarrow> terminal_status (status r)"
  by (cases "status r") (auto simp: terminal_status_def)

text \<open>The eviction removes a terminal record; what else \<open>create\<close> does to a job of another id.\<close>

lemma evict_other:
  assumes "evict_one_terminal st = (b, st')" and "dict_ok (jobs st)"
  shows "map_of (jobs st') tid = map_of (jobs st) tid
         \<or> (map_of (jobs st') tid = None
             \<and> (\<exists>r. map_of (jobs st) tid = Some r \<and> terminal_status (status r)))"
  using assms(1)
proof (cases rule: evict_one_cases)
  case (one t r)
  then have "map_of (jobs st) t = Some r" using assms(2) by simp
  then show ?thesis using one by (auto simp: map_of_delete_iff)
qed simp

lemma create_job:
  assumes ok: "store_ok st" and "tid \<noteq> t \<or> map_of (jobs (reap now st)) tid \<noteq> None"
  shows "map_of (jobs (snd (scan_create now t ow st))) tid \<in> {map_of (jobs st) tid, map_of (jobs (reap now st)) tid}
    \<or> (map_of (jobs (snd (scan_create now t ow st))) tid = None
        \<and> (\<exists>r. map_of (jobs (reap now st)) tid = Some r \<and> terminal_status (status r)))"
proof (cases "too_long_identifier (identifier_max_bytes st) [(''track_id'', t), (''owner_token'', ow)] = None
      \<and> map_of (jobs (reap now st)) t = None")
  case True
  let ?st1 = "reap now st"
  have d: "dict_ok (jobs ?st1)" using store_ok_reap [OF ok] by (simp add: store_ok_def)
  have ne: "tid \<noteq> t" using True assms(2) by auto
  obtain b st2 where e: "(if capacity ?st1 \<le> length (jobs ?st1) then evict_one_terminal ?st1
                          else (True, ?st1)) = (b, st2)" by force
  have "map_of (jobs st2) tid = map_of (jobs ?st1) tid \<or> (map_of (jobs st2) tid = None
        \<and> (\<exists>r. map_of (jobs ?st1) tid = Some r \<and> terminal_status (status r)))"
    using e evict_other [OF _ d, of b st2 tid] by (auto split: if_splits)
  then show ?thesis
    using True e ne by (cases b) (auto simp: scan_create_def Let_def map_of_update_iff)
qed (auto simp: scan_create_def Let_def split: option.splits)

definition creates :: "pystr \<Rightarrow> scan_op \<Rightarrow> bool" where
  "creates tid op \<longleftrightarrow> (\<exists>now ow. op = OpCreate now tid ow)"

text \<open>Where a record can go in one step: away only once terminal (time to live, eviction,
  removal), otherwise unchanged or advanced with a higher version; a terminal record never
  changes.\<close>

definition advanced :: "scan_job \<Rightarrow> scan_job option \<Rightarrow> bool" where
  "advanced r res \<longleftrightarrow>
     (case res of
        None \<Rightarrow> True
      | Some r' \<Rightarrow> r' = r \<or> status r = RUNNING \<and> version r < version r')"

lemma advanced_refl: "advanced r (Some r)"
  by (simp add: advanced_def)

lemma advancedI: "status r = RUNNING \<Longrightarrow> version r < version r' \<Longrightarrow> advanced r (Some r')"
  by (simp add: advanced_def)

lemma advanced_abandon: "advanced r (Some (maybe_abandon st now r))"
  by (auto simp: advanced_def maybe_abandon_def Let_def)

lemma version_fold_delta: "version (fold (apply_delta st) ds r) = version r"
proof (induction ds arbitrary: r)
  case (Cons x ds)
  have "version (apply_delta st x r) = version r"
    by (simp add: apply_delta_def split: prod.splits delta.splits option.splits)
  then show ?case by (simp add: Cons.IH)
qed simp

lemma version_sample: "version (apply_sample st s r) = version r"
  by (simp add: apply_sample_def Let_def split: option.splits prod.splits)

lemma reap_advanced:
  "dict_ok (jobs st) \<Longrightarrow> map_of (jobs st) tid = Some r
     \<Longrightarrow> advanced r (map_of (jobs (reap now st)) tid)"
  by (auto simp: reap_job Let_def advanced_abandon advanced_def [of r None])

lemma do_advanced:
  assumes ok: "store_ok st" and r: "map_of (jobs st) tid = Some r" and nc: "\<not> creates tid op"
  shows "advanced r (map_of (jobs (scan_do op st)) tid)"
proof -
  have d: "dict_ok (jobs st)" using ok by (simp add: store_ok_def)
  have none: "advanced r None" by (simp add: advanced_def)
  have ran: "status (maybe_abandon st now r) = RUNNING \<Longrightarrow> maybe_abandon st now r = r" for now
    by (auto simp: maybe_abandon_def Let_def split: if_splits)
  show ?thesis
  proof (cases op)
    case (OpCreate now t ow)
    then have "tid \<noteq> t" using nc by (auto simp: creates_def)
    then show ?thesis
      using create_job [OF ok, of tid t now ow] OpCreate r none reap_advanced [OF d r, of now]
        advanced_refl by auto
  next
    case (OpUpdate now t ow ds s v)
    then show ?thesis
      using r ran [of now] advanced_refl [of r] advanced_abandon [of r st now]
      by (auto simp: scan_update_def Let_def map_of_update_iff version_sample
          version_fold_delta advancedI split: option.splits)
  next
    case (OpSetStatus now t ow new v m)
    then show ?thesis
      using r ran [of now] advanced_refl [of r] advanced_abandon [of r st now]
      by (auto simp: scan_set_status_def Let_def map_of_update_iff advancedI
          split: option.splits)
  next
    case (OpGet now t)
    then show ?thesis
      using r advanced_refl [of r] advanced_abandon [of r st now]
      by (auto simp: scan_get_def Let_def map_of_update_iff split: option.splits)
  next
    case (OpCancel now t ow m)
    then show ?thesis
      using r ran [of now] advanced_refl [of r] advanced_abandon [of r st now]
      by (auto simp: scan_cancel_def Let_def map_of_update_iff advancedI
          split: option.splits)
  next
    case (OpRemoveTerminal t)
    then show ?thesis
      using r advanced_refl none
      by (auto simp: scan_remove_terminal_def map_of_delete_iff split: option.splits)
  next
    case (OpSnapshot now)
    then show ?thesis using reap_advanced [OF d r] by (simp add: scan_snapshot_def Let_def)
  qed
qed

lemma advanced_trans:
  "advanced r (Some r') \<Longrightarrow> advanced r' res \<Longrightarrow> advanced r res"
  by (auto simp: advanced_def split: option.splits)

lemma do_gone:
  assumes "store_ok st" and "map_of (jobs st) tid = None" and "\<not> creates tid op"
  shows "map_of (jobs (scan_do op st)) tid = None"
proof (cases op)
  case (OpCreate now t ow)
  have "map_of (jobs (reap now st)) tid = None"
    using assms(1,2) by (simp add: reap_job store_ok_def)
  then show ?thesis
    using create_job [OF assms(1), of tid t now ow] assms(2,3) OpCreate by (auto simp: creates_def)
next
  case (OpSnapshot now)
  then show ?thesis
    using assms(1,2) by (simp add: scan_snapshot_def Let_def reap_job store_ok_def)
qed (use assms(2) in \<open>auto simp: writer_defs scan_remove_terminal_def Let_def map_of_update_iff
       map_of_delete_iff split: option.splits\<close>)

lemma scan_run_ok: "store_ok st \<Longrightarrow> store_ok (fold scan_do ops st)"
  by (rule fold_invariant) (auto intro: store_ok_do)

lemma run_gone:
  "store_ok st \<Longrightarrow> map_of (jobs st) tid = None \<Longrightarrow> \<forall>op \<in> set ops. \<not> creates tid op
     \<Longrightarrow> map_of (jobs (fold scan_do ops st)) tid = None"
  by (induction ops arbitrary: st) (auto simp: do_gone store_ok_do)

lemma run_advanced:
  assumes "store_ok st" and "map_of (jobs st) tid = Some r" and "\<forall>op \<in> set ops. \<not> creates tid op"
  shows "advanced r (map_of (jobs (fold scan_do ops st)) tid)"
  using assms
proof (induction ops arbitrary: st r)
  case Nil
  then show ?case by (simp add: advanced_refl)
next
  case (Cons op ops)
  let ?st = "scan_do op st"
  have ok: "store_ok ?st" by (rule store_ok_do [OF Cons.prems(1)])
  have step: "advanced r (map_of (jobs ?st) tid)"
    using do_advanced Cons.prems by simp
  show ?case
  proof (cases "map_of (jobs ?st) tid")
    case None
    then show ?thesis using run_gone [OF ok] Cons.prems(3) by (simp add: advanced_def)
  next
    case (Some r')
    then show ?thesis using Cons.IH [OF ok Some] step Cons.prems(3) advanced_trans by simp
  qed
qed

lemma update_success:
  assumes "ok (fst (scan_update now tid ow ds s v st))"
  shows "\<exists>r. map_of (jobs (snd (scan_update now tid ow ds s v st))) tid = Some r
             \<and> int (version r) = v + 1"
  using assms
  by (auto simp: scan_update_def Let_def refused_def map_of_update_iff version_sample
      version_fold_delta split: option.splits if_splits)

lemma stale_version_refused:
  assumes "case map_of (jobs st) tid of None \<Rightarrow> True | Some r \<Rightarrow> v < int (version r)"
  shows "\<not> ok (fst (scan_update now tid ow ds s v st))"
    and "\<not> ok (fst (scan_set_status now tid ow new v m st))"
proof -
  have "int (version (maybe_abandon st now r)) \<noteq> v" if "map_of (jobs st) tid = Some r" for r
    using assms that abandon_frame(3) [of r st now] by simp
  then show "\<not> ok (fst (scan_update now tid ow ds s v st))"
    and "\<not> ok (fst (scan_set_status now tid ow new v m st))"
    by (simp_all add: scan_update_def scan_set_status_def Let_def refused_def split: option.splits)
qed

text \<open>When an operation happens, and whether it is the owner's own way to end a job.\<close>

fun op_time :: "scan_op \<Rightarrow> seconds option" where
  "op_time (OpCreate now tid ow) = Some now"
| "op_time (OpUpdate now tid ow ds s v) = Some now"
| "op_time (OpSetStatus now tid ow new v m) = Some now"
| "op_time (OpGet now tid) = Some now"
| "op_time (OpCancel now tid ow m) = Some now"
| "op_time (OpRemoveTerminal tid) = None"
| "op_time (OpSnapshot now) = Some now"

fun ends_job :: "pystr \<Rightarrow> pystr \<Rightarrow> scan_op \<Rightarrow> bool" where
  "ends_job tid ow (OpSetStatus now t o' new v m) = (t = tid \<and> o' = ow)"
| "ends_job tid ow (OpCancel now t o' m) = (t = tid \<and> o' = ow)"
| "ends_job tid ow _ = False"

subsection \<open>Properties\<close>


text \<open>A terminal status is final: a record that is completed, failed, cancelled or abandoned
  is never changed again by any sequence of operations; it can only disappear.\<close>

theorem terminal_job_final:
  assumes "store_ok st" and "map_of (jobs st) tid = Some r" and "terminal_status (status r)"
    and "\<forall>op \<in> set ops. \<not> creates tid op"
  shows "map_of (jobs (fold scan_do ops st)) tid \<in> {None, Some r}"
  using run_advanced [OF assms(1,2,4)] assms(3)
  by (auto simp: advanced_def terminal_status_def split: option.splits)

text \<open>C27. Compare-and-set: once an update made at some version has succeeded, no later update or
  status change at that version succeeds, whatever happens in between, by whatever owner.\<close>

theorem compare_and_set:
  assumes "store_ok st" and "ok (fst (scan_update now tid ow ds s v st))"
    and "\<forall>op \<in> set ops. \<not> creates tid op"
    and "st' = fold scan_do ops (snd (scan_update now tid ow ds s v st))"
  shows "\<not> ok (fst (scan_update now' tid ow' ds' s' v st'))
         \<and> \<not> ok (fst (scan_set_status now' tid ow' new v m st'))"
proof -
  let ?st1 = "snd (scan_update now tid ow ds s v st)"
  obtain r where r: "map_of (jobs ?st1) tid = Some r" "int (version r) = v + 1"
    using update_success [OF assms(2)] by blast
  have ok1: "store_ok ?st1"
    using store_ok_do [OF assms(1), of "OpUpdate now tid ow ds s v"] by simp
  have "case map_of (jobs st') tid of None \<Rightarrow> True | Some r' \<Rightarrow> v < int (version r')"
    using run_advanced [OF ok1 r(1) assms(3)] r(2) assms(4)
    by (auto simp: advanced_def split: option.splits)
  then show ?thesis using stale_version_refused by simp
qed

text \<open>Before its lease expires a running job is ended by its owner only: no other operation,
  neither the capacity eviction nor the reaping, removes it or takes it out of \<open>RUNNING\<close>.\<close>

theorem running_job_safe:
  assumes ok: "store_ok st" and r: "map_of (jobs st) tid = Some r" and run: "status r = RUNNING"
    and lease: "case op_time op of None \<Rightarrow> True | Some now \<Rightarrow> now < lease_expires_at r"
    and "\<not> ends_job tid (owner_token r) op"
  shows "\<exists>r'. map_of (jobs (scan_do op st)) tid = Some r' \<and> status r' = RUNNING
              \<and> owner_token r' = owner_token r"
proof -
  have d: "dict_ok (jobs st)" using ok by (simp add: store_ok_def)
  have nt: "\<not> terminal_status (status r)" using run by (simp add: terminal_status_def)
  have reap: "map_of (jobs (reap now st)) tid = Some r" if "now < lease_expires_at r" for now
    using that by (simp add: reap_job [OF d] r abandon_leased nt Let_def)
  have frame: "status (fold (apply_delta s) ds x) = status x
      \<and> owner_token (fold (apply_delta s) ds x) = owner_token x" for s ds x
  proof (induction ds arbitrary: x)
    case (Cons y ds)
    have "status (apply_delta s y x) = status x \<and> owner_token (apply_delta s y x) = owner_token x"
      by (simp add: apply_delta_def split: prod.splits delta.splits option.splits)
    then show ?case by (simp add: Cons.IH)
  qed simp
  have frame2: "status (apply_sample s sm x) = status x \<and> owner_token (apply_sample s sm x) = owner_token x"
    for s sm x
    by (simp add: apply_sample_def Let_def split: option.splits prod.splits)
  show ?thesis
  proof (cases op)
    case (OpCreate now t ow)
    then have "map_of (jobs (reap now st)) tid = Some r" using lease reap by simp
    then show ?thesis
      using create_job [OF ok, of tid t now ow] OpCreate r run nt by auto
  next
    case (OpUpdate now t ow ds s v)
    then show ?thesis
      using r run lease
      by (auto simp: scan_update_def Let_def map_of_update_iff abandon_leased frame frame2
          split: option.splits)
  next
    case (OpSnapshot now)
    then show ?thesis using lease reap run by (simp add: scan_snapshot_def Let_def)
  qed (use r run lease nt assms(5) in \<open>auto simp: writer_defs scan_remove_terminal_def Let_def
        map_of_update_iff map_of_delete_iff abandon_leased split: option.splits\<close>)
qed

subsection \<open>Witnesses\<close>

text \<open>The facts that evaluate operations on a concrete store.\<close>

lemma STATUS_MAX_BYTES_eq: "STATUS_MAX_BYTES = 9"
  by (simp add: STATUS_MAX_BYTES_def utf8_char_def)

lemmas scan_eval = default_store_def new_store_def SCAN_JOB_COUNTER_VALUE_MAX_def scan_update_def
  scan_create_def scan_cancel_def scan_get_def reap_def new_samples_def SAMPLE_BUCKETS_def
  approx_bytes_def STATUS_MAX_BYTES_eq key_bytes_def utf8_char_def bucket_bytes_def
  apply_delta_def apply_sample_def maybe_abandon_def put_job_def created_def refused_def Let_def

definition demo_store :: scan_store where
  "demo_store = fold scan_do [OpCreate 0 ''t'' ''me'', OpUpdate 1 ''t'' ''me'' [(''seen'', DInt 2)] None 1]
                  (default_store ''w'')"

lemma demo_store_ok: "store_ok demo_store"
  unfolding demo_store_def default_store_def by (rule scan_run_ok [OF store_ok_new])

theorem terminal_job_final_witness:
  "map_option counts (map_of (jobs (scan_do (OpUpdate 3 ''t'' ''me'' [(''seen'', DInt 5)] None 3)
      (scan_do (OpCancel 2 ''t'' ''me'' []) demo_store))) ''t'') \<in> {None, Some [(''seen'', 2)]}"
proof -
  let ?st = "scan_do (OpCancel 2 ''t'' ''me'' []) demo_store"
  let ?op = "OpUpdate 3 ''t'' ''me'' [(''seen'', DInt 5)] None 3"
  have s: "map_option status (map_of (jobs ?st) ''t'') = Some CANCELLED"
    and c: "map_option counts (map_of (jobs ?st) ''t'') = Some [(''seen'', 2)]"
    by (simp_all add: demo_store_def scan_eval)
  then obtain r where r: "map_of (jobs ?st) ''t'' = Some r" "terminal_status (status r)"
      "counts r = [(''seen'', 2)]"
    by (auto simp: terminal_status_def)
  have "map_of (jobs (fold scan_do [?op] ?st)) ''t'' \<in> {None, Some r}"
    by (rule terminal_job_final [OF store_ok_do [OF demo_store_ok] r(1,2)]) (simp add: creates_def)
  then have "map_of (jobs (scan_do ?op ?st)) ''t'' \<in> {None, Some r}"
    by (simp only: fold.simps id_apply comp_apply)
  then show ?thesis using r(3) by (elim insertE) (simp_all del: scan_do.simps)
qed

theorem compare_and_set_witness:
  "\<not> ok (fst (scan_update 4 ''t'' ''me'' [] None 2
      (fold scan_do [OpGet 3 ''t''] (snd (scan_update 2 ''t'' ''me'' [] None 2 demo_store)))))"
proof -
  have a: "ok (fst (scan_update 2 ''t'' ''me'' [] None 2 demo_store))"
    by (simp add: demo_store_def scan_eval)
  have b: "\<forall>op \<in> set [OpGet 3 ''t'']. \<not> creates ''t'' op" by (simp add: creates_def)
  show ?thesis
    using compare_and_set [OF demo_store_ok a b refl] by blast
qed

theorem running_job_safe_witness:
  "\<exists>r'. map_of (jobs (scan_do (OpCreate 60 ''u'' ''you'') demo_store)) ''t'' = Some r'
        \<and> status r' = RUNNING \<and> owner_token r' = ''me''"
proof -
  have s: "map_option (\<lambda>r. (status r, lease_expires_at r, owner_token r)) (map_of (jobs demo_store) ''t'')
             = Some (RUNNING, 61, ''me'')"
    by (simp add: demo_store_def scan_eval)
  then obtain r where r: "map_of (jobs demo_store) ''t'' = Some r" "status r = RUNNING"
      "lease_expires_at r = 61" "owner_token r = ''me''"
    by auto
  then show ?thesis
    using running_job_safe [OF demo_store_ok r(1,2), of "OpCreate 60 ''u'' ''you''"]
    by (simp del: scan_do.simps)
qed

end
