(* ===== verification/LoginLimit.thy ===== *)
theory LoginLimit
  imports PyText
begin

text \<open>
  The login rate limiter of \<^verbatim>\<open>src/lightrag/api/login_rate_limit.py\<close> and the protocol in which
  \<^verbatim>\<open>login\<close> of \<^verbatim>\<open>src/lightrag/api/lightrag_server.py\<close> calls it. Each operation takes the time
  the injected clock gives it; no operation awaits, so each is one atomic step. The table of
  entries is in the order of least recent activity. A warning is kept as its category, its time
  and the number of suppressed ones it reports.
\<close>

type_synonym seconds = rat

record login_entry =
  failures :: "seconds list"
  pending :: nat

datatype alert_category = Lockout | TableFull

record warning =
  w_category :: alert_category
  w_time :: seconds
  w_suppressed :: nat

record limiter =
  max_attempts :: int
  window_seconds :: seconds
  max_tracked_keys :: int
  alert_interval_seconds :: seconds
  entries :: "(pystr, login_entry) pydict"
  alert_last :: "(alert_category, seconds) pydict"
  alert_suppressed :: "(alert_category, nat) pydict"
  warnings :: "warning list"

definition new_entry :: login_entry where
  "new_entry = \<lparr>failures = [], pending = 0\<rparr>"

definition new_limiter :: "int \<Rightarrow> seconds \<Rightarrow> int \<Rightarrow> seconds \<Rightarrow> limiter" where
  "new_limiter attempts window tracked interval =
     \<lparr>max_attempts = attempts, window_seconds = window, max_tracked_keys = tracked,
      alert_interval_seconds = interval, entries = [], alert_last = [], alert_suppressed = [],
      warnings = []\<rparr>"

definition enabled :: "limiter \<Rightarrow> bool" where
  "enabled l \<longleftrightarrow> max_attempts l > 0 \<and> window_seconds l > 0"

text \<open>\<open>OrderedDict.move_to_end\<close>.\<close>

definition move_to_end :: "'k \<Rightarrow> ('k, 'v) pydict \<Rightarrow> ('k, 'v) pydict" where
  "move_to_end k d = (case map_of d k of None \<Rightarrow> d | Some v \<Rightarrow> AList.delete k d @ [(k, v)])"

definition prune :: "limiter \<Rightarrow> seconds \<Rightarrow> login_entry \<Rightarrow> login_entry" where
  "prune l now e =
     (let cutoff = now - window_seconds l
      in e\<lparr>failures := dropWhile (\<lambda>t. t \<le> cutoff) (failures e)\<rparr>)"

definition live_entry :: "pystr \<Rightarrow> seconds \<Rightarrow> limiter \<Rightarrow> login_entry option \<times> limiter" where
  "live_entry key now l =
     (case map_of (entries l) key of
        None \<Rightarrow> (None, l)
      | Some e0 \<Rightarrow>
          let e = prune l now e0 in
          if failures e = [] \<and> pending e = 0
          then (None, l\<lparr>entries := AList.delete key (entries l)\<rparr>)
          else (Some e, l\<lparr>entries := AList.update key e (entries l)\<rparr>))"

definition PENDING_RETRY_AFTER_SECONDS :: seconds where
  "PENDING_RETRY_AFTER_SECONDS = 1"

definition retry_after :: "seconds \<Rightarrow> pystr \<Rightarrow> limiter \<Rightarrow> seconds option \<times> limiter" where
  "retry_after now key l =
     (if \<not> enabled l then (None, l)
      else (case live_entry key now l of
         (None, l1) \<Rightarrow> (None, l1)
       | (Some e, l1) \<Rightarrow>
           let confirmed = int (length (failures e)) in
           if confirmed + int (pending e) < max_attempts l1 then (None, l1)
           else if max_attempts l1 \<le> confirmed
           then (Some (max 0 (window_seconds l1 - (now - hd (failures e)))), l1)
           else (Some PENDING_RETRY_AFTER_SECONDS, l1)))"

definition alert :: "seconds \<Rightarrow> alert_category \<Rightarrow> limiter \<Rightarrow> limiter" where
  "alert now cat l =
     (if (case map_of (alert_last l) cat of
            None \<Rightarrow> False | Some prev \<Rightarrow> now - prev < alert_interval_seconds l)
      then l\<lparr>alert_suppressed := AList.update cat
               ((case map_of (alert_suppressed l) cat of None \<Rightarrow> 0 | Some n \<Rightarrow> n) + 1)
               (alert_suppressed l)\<rparr>
      else let suppressed = (case map_of (alert_suppressed l) cat of None \<Rightarrow> 0 | Some n \<Rightarrow> n)
           in l\<lparr>alert_suppressed := AList.delete cat (alert_suppressed l),
                alert_last := AList.update cat now (alert_last l),
                warnings := warnings l @
                  [\<lparr>w_category = cat, w_time = now, w_suppressed = suppressed\<rparr>]\<rparr>)"

text \<open>The reclaiming loop: it looks at the least recently active key, the first of the table. The
  recursion is over the table, the state holds what is left of it. (The table holds at least one
  key: \<open>max_tracked_keys\<close> is positive, the login route uses the default of 10,000. With a bound of 0
  \<open>next(iter(...))\<close> would raise \<open>StopIteration\<close> on the empty table.)\<close>

fun make_room_loop ::
    "seconds \<Rightarrow> (pystr, login_entry) pydict \<Rightarrow> limiter \<Rightarrow> bool \<times> limiter" where
  "make_room_loop now [] l = (int (length (entries l)) < max_tracked_keys l, l)"
| "make_room_loop now ((key, e0) # rest) l =
     (if int (length (entries l)) < max_tracked_keys l then (True, l)
      else let e = prune l now e0 in
           if failures e \<noteq> [] \<or> pending e > 0
           then (False, alert now TableFull (l\<lparr>entries := (key, e) # rest\<rparr>))
           else make_room_loop now rest (l\<lparr>entries := rest\<rparr>))"

definition make_room :: "seconds \<Rightarrow> limiter \<Rightarrow> bool \<times> limiter" where
  "make_room now l = make_room_loop now (entries l) l"

definition reserve_attempt :: "seconds \<Rightarrow> pystr \<Rightarrow> limiter \<Rightarrow> limiter" where
  "reserve_attempt now key l =
     (if \<not> enabled l then l
      else case live_entry key now l of
         (Some e, l1) \<Rightarrow>
           l1\<lparr>entries := move_to_end key
                (AList.update key (e\<lparr>pending := pending e + 1\<rparr>) (entries l1))\<rparr>
       | (None, l1) \<Rightarrow>
           (case make_room now l1 of
              (False, l2) \<Rightarrow> l2
            | (True, l2) \<Rightarrow>
                l2\<lparr>entries := move_to_end key
                     (AList.update key (new_entry\<lparr>pending := pending new_entry + 1\<rparr>)
                        (AList.update key new_entry (entries l2)))\<rparr>))"

definition release_attempt :: "pystr \<Rightarrow> limiter \<Rightarrow> limiter" where
  "release_attempt key l =
     (case map_of (entries l) key of
        None \<Rightarrow> l
      | Some e \<Rightarrow>
          let e1 = (if pending e > 0 then e\<lparr>pending := pending e - 1\<rparr> else e) in
          if pending e1 = 0 \<and> failures e1 = []
          then l\<lparr>entries := AList.delete key (entries l)\<rparr>
          else l\<lparr>entries := AList.update key e1 (entries l)\<rparr>)"

definition commit_failure :: "seconds \<Rightarrow> pystr \<Rightarrow> limiter \<Rightarrow> limiter" where
  "commit_failure now key l =
     (if \<not> enabled l then l
      else case map_of (entries l) key of
         None \<Rightarrow> l
       | Some e0 \<Rightarrow>
           let e1 = prune l now e0;
               e2 = e1\<lparr>failures := failures e1 @ [now]\<rparr>;
               l1 = l\<lparr>entries := move_to_end key (AList.update key e2 (entries l))\<rparr>
           in if int (length (failures e2)) = max_attempts l1 then alert now Lockout l1 else l1)"

definition reset_failures :: "pystr \<Rightarrow> limiter \<Rightarrow> limiter" where
  "reset_failures key l =
     (case map_of (entries l) key of
        None \<Rightarrow> l
      | Some e \<Rightarrow>
          if pending e = 0 then l\<lparr>entries := AList.delete key (entries l)\<rparr>
          else l\<lparr>entries := AList.update key (e\<lparr>failures := []\<rparr>) (entries l)\<rparr>)"

subsection \<open>The login route\<close>

text \<open>
  What a request does with the limiter: it asks \<open>retry_after\<close> and, if allowed, reserves in
  the same step (there is no \<open>await\<close> between the two calls; the clock may advance); once
  the password has been verified it records the failure, or resets on success; the
  \<open>finally\<close> releases. A request that is cancelled or raises in between only releases.
\<close>

datatype login_event =
    Arrive seconds seconds pystr
  | WrongPassword seconds pystr
  | RightPassword pystr
  | Aborted pystr

definition login_arrive :: "seconds \<Rightarrow> seconds \<Rightarrow> pystr \<Rightarrow> limiter \<Rightarrow> bool \<times> limiter" where
  "login_arrive t1 t2 key l =
     (case retry_after t1 key l of
        (Some wait, l1) \<Rightarrow> (False, l1)
      | (None, l1) \<Rightarrow> (True, reserve_attempt t2 key l1))"

definition login_wrong :: "seconds \<Rightarrow> pystr \<Rightarrow> limiter \<Rightarrow> limiter" where
  "login_wrong t key l = release_attempt key (commit_failure t key l)"

definition login_right :: "pystr \<Rightarrow> limiter \<Rightarrow> limiter" where
  "login_right key l = release_attempt key (reset_failures key l)"

definition login_abort :: "pystr \<Rightarrow> limiter \<Rightarrow> limiter" where
  "login_abort key l = release_attempt key l"

definition handle_login :: "login_event \<Rightarrow> limiter \<Rightarrow> limiter" where
  "handle_login e l =
     (case e of
        Arrive t1 t2 k \<Rightarrow> snd (login_arrive t1 t2 k l)
      | WrongPassword t k \<Rightarrow> login_wrong t k l
      | RightPassword k \<Rightarrow> login_right k l
      | Aborted k \<Rightarrow> login_abort k l)"

text \<open>The events in the order the event loop runs them.\<close>

definition run_logins :: "login_event list \<Rightarrow> limiter \<Rightarrow> limiter" where
  "run_logins es l = fold handle_login es l"

end
