(* ===== verification/LoginLimitLaws.thy ===== *)
theory LoginLimitLaws
  imports LoginLimit
begin

text \<open>
  What the login limiter promises. \<open>live_view\<close> is the abstract state of a key: the failures
  that are still in the window at a time, and the reservations in flight. The laws of the
  operations are stated over it; the locale \<open>attempt_limiter\<close> collects those the login route
  needs, and the safety of the whole protocol is proved from them, for any interleaving of
  requests.
\<close>

subsection \<open>The abstract view of a key\<close>

definition dw :: "seconds \<Rightarrow> seconds list \<Rightarrow> seconds list" where
  "dw c xs = dropWhile (\<lambda>t. t \<le> c) xs"

definition live_view :: "limiter \<Rightarrow> seconds \<Rightarrow> pystr \<Rightarrow> seconds list \<times> nat" where
  "live_view l T k =
     (case map_of (entries l) k of
        None \<Rightarrow> ([], 0)
      | Some e \<Rightarrow> (dw (T - window_seconds l) (failures e), pending e))"

lemma dw_append: "c \<le> c' \<Longrightarrow> dw c' (dw c xs @ ys) = dw c' (xs @ ys)"
  by (induction xs) (auto simp: dw_def)

lemma dw_dw [simp]: "c \<le> c' \<Longrightarrow> dw c' (dw c xs) = dw c' xs"
  using dw_append [of c c' xs "[]"] by simp

lemma dw_Nil [simp]: "dw c [] = []"
  by (simp add: dw_def)

lemma dw_sorted: "sorted xs \<Longrightarrow> dw c xs = filter (\<lambda>t. c < t) xs"
proof (induction xs)
  case (Cons x xs)
  then show ?case by (force simp: dw_def filter_id_conv intro!: filter_True [symmetric])
qed simp

lemma dw_empty_mono: "dw c xs = [] \<Longrightarrow> c \<le> c' \<Longrightarrow> dw c' xs = []"
  by (metis dw_Nil dw_dw)

lemma prune_fields [simp]:
  "failures (prune l now e) = dw (now - window_seconds l) (failures e)"
  "pending (prune l now e) = pending e"
  by (simp_all add: prune_def dw_def Let_def)

text \<open>No operation touches the configuration.\<close>

definition config :: "limiter \<Rightarrow> int \<times> seconds \<times> int \<times> seconds" where
  "config l = (max_attempts l, window_seconds l, max_tracked_keys l, alert_interval_seconds l)"

lemma alert_entries [simp]: "entries (alert now c l) = entries l"
  by (simp add: alert_def Let_def)

lemma alert_config [simp]: "config (alert now c l) = config l"
  by (simp add: alert_def config_def Let_def)

lemma config_entries [simp]: "config (l\<lparr>entries := es\<rparr>) = config l"
  by (simp add: config_def)

lemma config_window: "config l' = config l \<Longrightarrow> window_seconds l' = window_seconds l"
  "config l' = config l \<Longrightarrow> max_attempts l' = max_attempts l"
  "config l' = config l \<Longrightarrow> max_tracked_keys l' = max_tracked_keys l"
  "config l' = config l \<Longrightarrow> enabled l' = enabled l"
  by (simp_all add: config_def enabled_def)

lemma live_view_cong:
  "config l' = config l \<Longrightarrow> map_of (entries l') k = map_of (entries l) k \<Longrightarrow>
     live_view l' T k = live_view l T k"
  by (auto simp: live_view_def config_def split: option.splits)

lemma alert_view [simp]: "live_view (alert now c l) T k = live_view l T k"
  by (rule live_view_cong) simp_all

text \<open>\<open>same_view\<close>: two limiters tell the same of every key from a time on.\<close>

definition same_view :: "seconds \<Rightarrow> limiter \<Rightarrow> limiter \<Rightarrow> bool" where
  "same_view now l l' \<longleftrightarrow>
     config l' = config l \<and> (\<forall>T k. now \<le> T \<longrightarrow> live_view l' T k = live_view l T k)"

lemma same_viewD:
  "same_view now l l' \<Longrightarrow> config l' = config l"
  "same_view now l l' \<Longrightarrow> now \<le> T \<Longrightarrow> live_view l' T k = live_view l T k"
  by (simp_all add: same_view_def)

lemma same_view_refl [simp]: "same_view now l l"
  by (simp add: same_view_def)

lemma same_view_alert [simp]: "same_view now l (alert t c l') = same_view now l l'"
  by (simp add: same_view_def)

lemma same_view_trans: "same_view now l1 l2 \<Longrightarrow> same_view now l2 l3 \<Longrightarrow> same_view now l1 l3"
  by (simp add: same_view_def)

lemma map_of_move_to_end [dict_simps]: "map_of (move_to_end key d) k = map_of d k"
  by (auto simp: move_to_end_def map_add_def map_of_append map_of_delete_iff split: option.splits)

lemma keys_move_to_end: "set (keys (move_to_end key d)) = set (keys d)"
  by (auto simp: move_to_end_def keys_delete dest: map_of_SomeD split: option.splits
        simp del: set_map simp add: map_of_eq_None_iff)
     (metis map_of_SomeD fst_conv image_eqI set_map)+

lemma dict_ok_move_to_end [intro]: "dict_ok d \<Longrightarrow> dict_ok (move_to_end key d)"
  by (auto simp: move_to_end_def AList.delete_keys distinct_removeAll split: option.splits)

subsection \<open>The laws of the operations\<close>

lemma live_entry_config [simp]: "config (snd (live_entry key t l)) = config l"
  by (simp add: live_entry_def Let_def split: option.splits)

lemma live_entry_result:
  "fst (live_entry key t l) = map_of (entries (snd (live_entry key t l))) key"
  by (auto simp: live_entry_def Let_def map_of_delete_iff map_of_update_iff split: option.splits)

lemma live_entry_pruned:
  "(case fst (live_entry key t l) of None \<Rightarrow> ([], 0) | Some e \<Rightarrow> (failures e, pending e))
     = live_view l t key"
  by (auto simp: live_entry_def live_view_def Let_def split: option.splits)

lemma live_entry_view: "same_view t l (snd (live_entry key t l))"
proof -
  have mono: "t - window_seconds l \<le> T - window_seconds l" if "t \<le> T" for T using that by simp
  show ?thesis
    using mono by (auto simp: same_view_def live_entry_def live_view_def Let_def map_of_delete_iff
      map_of_update_iff dw_empty_mono split: option.splits)
qed

lemma live_entry_dict: "dict_ok (entries l) \<Longrightarrow> dict_ok (entries (snd (live_entry key t l)))"
  by (auto simp: live_entry_def Let_def AList.update_keys AList.delete_keys distinct_removeAll
    split: option.splits)

lemma map_of_key: "map_of d k = Some v \<Longrightarrow> k \<in> set (keys d)"
  by (metis map_of_eq_None_iff option.distinct(1) set_map)

lemma live_entry_length: "length (entries (snd (live_entry key t l))) \<le> length (entries l)"
  using length_delete_le by (auto simp: live_entry_def Let_def length_update dest!: map_of_key split: option.splits
    simp del: set_map)

lemma drop_dead_view:
  assumes "entries l = (key, e0) # rest" and "dict_ok (entries l)"
    and dead: "failures (prune l now e0) = []" "pending e0 = 0"
  shows "same_view now l (l\<lparr>entries := rest\<rparr>)"
proof -
  have gone: "map_of rest key = None" using assms(1,2) by (simp add: map_of_eq_None_iff)
  have "dw (T - window_seconds l) (failures e0) = []" if "now \<le> T" for T
    using dead(1) that dw_empty_mono [of "now - window_seconds l"] by simp
  then show ?thesis
    using assms(1) dead(2) gone by (auto simp: same_view_def live_view_def split: option.splits)
qed

lemma keep_front_view:
  assumes "entries l = (key, e0) # rest" and "dict_ok (entries l)"
  shows "same_view now l (l\<lparr>entries := (key, prune l now e0) # rest\<rparr>)"
  using assms by (auto simp: same_view_def live_view_def split: option.splits)

lemma make_room_loop_laws:
  "entries l = es \<Longrightarrow> dict_ok es \<Longrightarrow> make_room_loop now es l = (b, l') \<Longrightarrow>
     same_view now l l' \<and> dict_ok (entries l') \<and> set (keys (entries l')) \<subseteq> set (keys es)
     \<and> length (entries l') \<le> length es
     \<and> (b \<longrightarrow> int (length (entries l')) < max_tracked_keys l)
     \<and> (int (length es) < max_tracked_keys l \<longrightarrow> b)"
proof (induction now es l rule: make_room_loop.induct)
  case (1 now l)
  then show ?case by auto
next
  case (2 now key e0 rest l)
  let ?e = "prune l now e0"
  consider "int (length (entries l)) < max_tracked_keys l"
    | "\<not> int (length (entries l)) < max_tracked_keys l" "failures ?e \<noteq> [] \<or> pending ?e > 0"
    | "\<not> int (length (entries l)) < max_tracked_keys l" "\<not> (failures ?e \<noteq> [] \<or> pending ?e > 0)"
    by argo
  then show ?case
  proof cases
    case 1
    then show ?thesis using 2 by auto
  next
    case b: 2
    then have l': "l' = alert now TableFull (l\<lparr>entries := (key, ?e) # rest\<rparr>)" "\<not> b"
      using 2(4) by (auto simp: Let_def simp del: prune_fields)
    then show ?thesis
      using keep_front_view [of l key e0 rest now] 2(2,3) b(1) by (simp del: prune_fields)
  next
    case c: 3
    have rec: "make_room_loop now rest (l\<lparr>entries := rest\<rparr>) = (b, l')"
      using 2(4) c by (simp add: Let_def del: prune_fields)
    have frame: "same_view now l (l\<lparr>entries := rest\<rparr>)"
      using drop_dead_view [of l key e0 rest now] 2(2,3) c(2) by simp
    have "dict_ok rest" using 2(3) by simp
    then show ?thesis
      using 2(1) [OF c(1) refl c(2) _ _ rec] frame 2(2) c(1)
      by (auto intro: same_view_trans)
  qed
qed

text \<open>A key is known or there is room for one more.\<close>

definition room :: "limiter \<Rightarrow> pystr \<Rightarrow> bool" where
  "room l k \<longleftrightarrow> has_key (entries l) k \<or> int (length (entries l)) < max_tracked_keys l"

lemma retry_after_view:
  "same_view t l (snd (retry_after t k l))"
  "dict_ok (entries l) \<Longrightarrow> dict_ok (entries (snd (retry_after t k l)))"
  "length (entries (snd (retry_after t k l))) \<le> length (entries l)"
proof -
  have c: "snd (retry_after t k l) = l \<or> snd (retry_after t k l) = snd (live_entry k t l)"
    by (auto simp: retry_after_def Let_def split: prod.splits option.splits)
  show "same_view t l (snd (retry_after t k l))"
    using c live_entry_view [of t l k] by auto
  show "dict_ok (entries (snd (retry_after t k l)))" if "dict_ok (entries l)"
    using c live_entry_dict [OF that, of k t] that by auto
  show "length (entries (snd (retry_after t k l))) \<le> length (entries l)"
    using c live_entry_length [of k t l] by auto
qed

text \<open>The answer to a key is a function of its view.\<close>

definition decide :: "int \<Rightarrow> seconds \<Rightarrow> seconds \<Rightarrow> seconds list \<times> nat \<Rightarrow> seconds option" where
  "decide limit window now v =
     (if int (length (fst v)) + int (snd v) < limit then None
      else if limit \<le> int (length (fst v)) then Some (max 0 (window - (now - hd (fst v))))
      else Some PENDING_RETRY_AFTER_SECONDS)"

lemma retry_after_decide:
  "fst (retry_after t k l) =
     (if enabled l then decide (max_attempts l) (window_seconds l) t (live_view l t k) else None)"
proof (cases "enabled l")
  case True
  then have m: "0 < max_attempts l" by (simp add: enabled_def)
  obtain r l1 where le: "live_entry k t l = (r, l1)" by force
  have "config l1 = config l" using live_entry_config [of k t l] le by simp
  then have c: "max_attempts l1 = max_attempts l" "window_seconds l1 = window_seconds l"
    by (simp_all add: config_def)
  show ?thesis
  proof (cases r)
    case None
    have "live_view l t k = ([], 0)"
      using live_entry_pruned [of k t l] le None by simp
    then show ?thesis
      using None le True m by (simp add: retry_after_def decide_def)
  next
    case (Some e)
    then have "live_view l t k = (failures e, pending e)"
      using live_entry_pruned [of k t l] le by simp
    then show ?thesis
      using Some le True c by (simp add: retry_after_def decide_def Let_def)
  qed
qed (simp add: retry_after_def)

lemma touch_view [simp]:
  "live_view (l\<lparr>entries := move_to_end k (AList.update k e (entries l))\<rparr>) T k' =
     (if k' = k then (dw (T - window_seconds l) (failures e), pending e) else live_view l T k')"
  by (auto simp: live_view_def map_of_move_to_end map_of_update_iff split: option.splits)

lemma length_move_to_end:
  assumes "dict_ok d"
  shows "length (move_to_end k d) = length d"
proof (cases "map_of d k")
  case (Some v)
  then have "set (keys (move_to_end k d)) = set (keys d)" by (rule_tac keys_move_to_end)
  moreover have "dict_ok (move_to_end k d)" using assms by blast
  ultimately show ?thesis using assms by (metis distinct_card length_map)
qed (simp add: move_to_end_def)

lemma live_entry_room:
  assumes "dict_ok (entries l)" and "fst (live_entry k t l) = None" and "has_key (entries l) k"
  shows "length (entries (snd (live_entry k t l))) < length (entries l)"
proof -
  obtain e where e: "map_of (entries l) k = Some e" using assms(3) by (auto simp: has_key_def)
  then have "entries (snd (live_entry k t l)) = AList.delete k (entries l)"
    using assms(2) by (simp add: live_entry_def Let_def split: if_splits)
  moreover have "length (AList.delete k (entries l)) < length (entries l)"
    using map_of_SomeD [OF e] by (auto simp: delete_filter intro: length_filter_less)
  ultimately show ?thesis by simp
qed

text \<open>A reservation, without the dictionary: what is written for the key.\<close>

lemma reserve_attempt_cases:
  assumes en: "enabled l" and ok: "dict_ok (entries l)"
    and cap: "int (length (entries l)) \<le> max_tracked_keys l"
  obtains (untracked) l2 where "reserve_attempt t k l = l2" "same_view t l l2" "dict_ok (entries l2)"
      "\<not> room l k" "length (entries l2) \<le> length (entries l)"
    | (tracked) l2 e where "reserve_attempt t k l =
           l2\<lparr>entries := move_to_end k (AList.update k (e\<lparr>pending := Suc (pending e)\<rparr>) (entries l2))\<rparr>"
      "same_view t l l2" "dict_ok (entries l2)" "live_view l t k = (failures e, pending e)"
      "int (length (AList.update k e (entries l2))) \<le> max_tracked_keys l"
proof -
  obtain r l1 where le: "live_entry k t l = (r, l1)" by force
  have l1: "same_view t l l1" "dict_ok (entries l1)" "length (entries l1) \<le> length (entries l)"
      "r = map_of (entries l1) k"
    using live_entry_view [of t l k] live_entry_dict [OF ok, of k t] live_entry_length [of k t l]
      live_entry_result [of k t l] le by simp_all
  show ?thesis
  proof (cases r)
    case (Some e)
    show ?thesis
    proof (rule tracked [where ?l2.0 = l1 and e = e])
      show "live_view l t k = (failures e, pending e)"
        using live_entry_pruned [of k t l] le Some by simp
      have "length (AList.update k e (entries l1)) = length (entries l1)"
        using Some l1(4) map_of_key [of "entries l1" k e] by (simp add: length_update del: set_map)
      then show "int (length (AList.update k e (entries l1))) \<le>
          max_tracked_keys l"
        using l1(3) cap by simp
    qed (use Some le en l1 in \<open>simp_all add: reserve_attempt_def\<close>)
  next
    case None
    obtain b l2 where mr: "make_room t l1 = (b, l2)" by force
    have l2: "same_view t l1 l2" "dict_ok (entries l2)" "set (keys (entries l2)) \<subseteq> set (keys (entries l1))"
        "length (entries l2) \<le> length (entries l1)"
        "b \<Longrightarrow> int (length (entries l2)) < max_tracked_keys l1"
        "int (length (entries l1)) < max_tracked_keys l1 \<Longrightarrow> b"
      using make_room_loop_laws [OF refl l1(2)] mr unfolding make_room_def by blast+
    have sv: "same_view t l l2" using l1(1) l2(1) by (rule same_view_trans)
    have new: "k \<notin> set (keys (entries l2))"
      using None l1(4) l2(3) by (auto simp: map_of_eq_None_iff)
    have mt: "max_tracked_keys l1 = max_tracked_keys l"
      by (rule config_window(3) [OF same_viewD(1) [OF l1(1)]])
    have view: "live_view l t k = ([], 0)"
      using live_entry_pruned [of k t l] le None by simp
    show ?thesis
    proof (cases b)
      case True
      show ?thesis
      proof (rule tracked [where ?l2.0 = l2 and e = new_entry])
        show "reserve_attempt t k l = l2\<lparr>entries :=
            move_to_end k (AList.update k (new_entry\<lparr>pending := Suc (pending new_entry)\<rparr>) (entries l2))\<rparr>"
          using True None le en mr by (simp add: reserve_attempt_def)
        show "int (length (AList.update k new_entry (entries l2))) \<le>
            max_tracked_keys l"
          using l2(5) True new mt by (simp add: length_update del: set_map)
      qed (use sv l2(2) view in \<open>simp_all add: new_entry_def\<close>)
    next
      case False
      then have full: "\<not> int (length (entries l1)) < max_tracked_keys l" using l2(6) mt by auto
      have "\<not> room l k"
        using live_entry_room [OF ok, of k t] le None cap full l1(3) by (auto simp: room_def)
      then show ?thesis
        using False None le en mr sv l2(2,4) l1(3) by (intro untracked [where ?l2.0 = l2]) (simp_all add: reserve_attempt_def)
    qed
  qed
qed

lemma live_view_later:
  "t \<le> T \<Longrightarrow> live_view l T k = apfst (dw (T - window_seconds l)) (live_view l t k)"
  by (auto simp: live_view_def split: option.splits)

lemma reserve_attempt_laws:
  assumes "enabled l" and ok: "dict_ok (entries l)"
    and cap: "int (length (entries l)) \<le> max_tracked_keys l"
  shows "config (reserve_attempt t k l) = config l \<and> dict_ok (entries (reserve_attempt t k l))
         \<and> int (length (entries (reserve_attempt t k l))) \<le> max_tracked_keys l
         \<and> (\<forall>T\<ge>t. \<forall>k'. k' \<noteq> k \<longrightarrow> live_view (reserve_attempt t k l) T k' = live_view l T k')
         \<and> (\<forall>T\<ge>t. room l k \<longrightarrow>
               live_view (reserve_attempt t k l) T k = apsnd Suc (live_view l T k))"
  using assms
proof (cases rule: reserve_attempt_cases [where t = t and k = k])
  case (untracked l2)
  then show ?thesis using same_viewD [OF untracked(2)] cap by simp
next
  case (tracked l2 e)
  have c: "config l2 = config l" "window_seconds l2 = window_seconds l"
    using same_viewD(1) [OF tracked(2)] by (simp_all add: config_def)
  have len: "length (move_to_end k (AList.update k e' (entries l2))) = length (AList.update k e (entries l2))" for e'
    using tracked(3) by (simp add: length_move_to_end dict_ok_update length_update)
  have e: "dw (T - window_seconds l) (failures e) = fst (live_view l T k)" "pending e = snd (live_view l T k)"
    if "t \<le> T" for T
    using live_view_later [OF that, of l k] tracked(4) by simp_all
  have d: "dict_ok (move_to_end k (AList.update k e' (entries l2)))" for e'
    using tracked(3) by blast
  show ?thesis
    using tracked(1,5) c len d e same_viewD(2) [OF tracked(2)] by (simp add: prod_eq_iff)
qed

text \<open>The other operations.\<close>

lemma put_view:
  "live_view (l\<lparr>entries := AList.update k e (entries l)\<rparr>) T k' =
     (if k' = k then (dw (T - window_seconds l) (failures e), pending e) else live_view l T k')"
  "live_view (l\<lparr>entries := AList.delete k (entries l)\<rparr>) T k' =
     (if k' = k then ([], 0) else live_view l T k')"
  by (auto simp: live_view_def map_of_update_iff map_of_delete_iff split: option.splits)

lemma release_attempt_view:
  "live_view (release_attempt k l) T k' =
     (if k' = k then apsnd (\<lambda>n. n - 1) (live_view l T k) else live_view l T k')"
  by (cases "map_of (entries l) k")
     (auto simp: release_attempt_def Let_def put_view, auto simp: live_view_def)

lemma reset_failures_view:
  "live_view (reset_failures k l) T k' =
     (if k' = k then ([], snd (live_view l T k)) else live_view l T k')"
  by (cases "map_of (entries l) k")
     (auto simp: reset_failures_def Let_def put_view, auto simp: live_view_def)

lemma commit_failure_view:
  assumes "t \<le> T"
  shows "live_view (commit_failure t k l) T k' =
     (if k' = k \<and> enabled l \<and> has_key (entries l) k
      then (dw (T - window_seconds l) (fst (live_view l t k) @ [t]), snd (live_view l T k))
      else live_view l T k')"
  using assms
  by (cases "map_of (entries l) k")
     (auto simp: commit_failure_def Let_def has_key_def, auto simp: live_view_def)

lemma login_ops_config [simp]:
  "config (release_attempt k l) = config l" "config (reset_failures k l) = config l"
  "config (commit_failure t k l) = config l"
  by (auto simp: release_attempt_def reset_failures_def commit_failure_def Let_def split: option.splits)

text \<open>The shape of the table: distinct keys, at most \<open>max_tracked_keys\<close> of them, none idle.\<close>

definition idle :: "login_entry \<Rightarrow> bool" where
  "idle e \<longleftrightarrow> failures e = [] \<and> pending e = 0"

definition table_ok :: "limiter \<Rightarrow> bool" where
  "table_ok l \<longleftrightarrow> dict_ok (entries l) \<and> int (length (entries l)) \<le> max_tracked_keys l
     \<and> (\<forall>e \<in> set (values (entries l)). \<not> idle e)"

lemma table_ok_alert [simp]: "table_ok (alert now c l) = table_ok l"
proof -
  have "max_tracked_keys (alert now c l) = max_tracked_keys l"
    by (rule config_window(3)) simp
  then show ?thesis by (simp add: table_ok_def)
qed

lemma values_update: "set (values (AList.update k v d)) \<subseteq> insert v (set (values d))"
  using set_update_subset [of k v d] by force

lemma values_delete: "set (values (AList.delete k d)) \<subseteq> set (values d)"
  using set_delete_subset [of k d] by force

lemma values_move_to_end: "set (values (move_to_end k d)) \<subseteq> set (values d)"
proof (cases "map_of d k")
  case (Some v)
  then have "v \<in> set (values d)" by (force dest: map_of_SomeD)
  then show ?thesis using Some values_delete [of k d] by (simp add: move_to_end_def)
qed (simp add: move_to_end_def)

lemma table_ok_put:
  "table_ok l \<Longrightarrow> \<not> idle e \<Longrightarrow> has_key (entries l) k \<Longrightarrow>
     table_ok (l\<lparr>entries := AList.update k e (entries l)\<rparr>)"
  using values_update [of k e "entries l"]
  by (auto simp: table_ok_def has_key_iff AList.update_keys length_update simp del: set_map)

lemma table_ok_del: "table_ok l \<Longrightarrow> table_ok (l\<lparr>entries := AList.delete k (entries l)\<rparr>)"
  using values_delete [of k "entries l"] length_delete_le [of k "entries l"]
  by (auto simp: table_ok_def AList.delete_keys distinct_removeAll simp del: set_map)

lemma table_ok_move: "table_ok l \<Longrightarrow> table_ok (l\<lparr>entries := move_to_end k (entries l)\<rparr>)"
  using values_move_to_end [of k "entries l"]
  by (auto simp: table_ok_def length_move_to_end simp del: set_map intro: dict_ok_move_to_end)

lemma table_ok_touch:
  assumes "table_ok l" "\<not> idle e" "has_key (entries l) k \<or> int (length (entries l)) < max_tracked_keys l"
  shows "table_ok (l\<lparr>entries := move_to_end k (AList.update k e (entries l))\<rparr>)"
proof -
  have "table_ok (l\<lparr>entries := AList.update k e (entries l)\<rparr>)"
    using assms values_update [of k e "entries l"]
    by (auto simp: table_ok_def has_key_iff AList.update_keys length_update simp del: set_map)
  from table_ok_move [OF this, of k] show ?thesis by simp
qed

lemma table_ok_live_entry: "table_ok l \<Longrightarrow> table_ok (snd (live_entry k t l))"
  by (auto simp: live_entry_def Let_def idle_def has_key_def table_ok_del table_ok_put split: option.splits)

lemma table_ok_make_room_loop:
  "entries l = es \<Longrightarrow> table_ok l \<Longrightarrow> make_room_loop now es l = (b, l') \<Longrightarrow> table_ok l'"
proof (induction now es l rule: make_room_loop.induct)
  case (2 now key e0 rest l)
  have rest: "table_ok (l\<lparr>entries := rest\<rparr>)" using 2(2,3) by (auto simp: table_ok_def)
  have front: "table_ok (l\<lparr>entries := (key, prune l now e0) # rest\<rparr>)"
    if "failures (prune l now e0) \<noteq> [] \<or> pending (prune l now e0) > 0"
    using 2(2,3) that by (auto simp: table_ok_def idle_def)
  show ?case
    using 2 rest front by (auto simp: Let_def simp del: prune_fields split: if_splits)
qed auto

lemma table_ok_reserve:
  assumes "table_ok l" shows "table_ok (reserve_attempt t k l)"
proof -
  obtain r l1 where le: "live_entry k t l = (r, l1)" by force
  have l1: "table_ok l1" "r = map_of (entries l1) k"
    using table_ok_live_entry [OF assms, of k t] live_entry_result [of k t l] le by simp_all
  obtain b l2 where mr: "make_room t l1 = (b, l2)" by force
  have l2: "table_ok l2" "b \<Longrightarrow> int (length (entries l2)) < max_tracked_keys l2"
    using table_ok_make_room_loop [OF refl l1(1)] mr make_room_loop_laws [OF refl, of l1 t b l2] l1(1)
    by (auto simp: make_room_def table_ok_def same_view_def config_def)
  show ?thesis
    using assms l1 l2 le mr
    by (auto simp: reserve_attempt_def idle_def new_entry_def has_key_def split: option.splits bool.splits
      intro!: table_ok_touch)
qed

lemma table_ok_retry: "table_ok l \<Longrightarrow> table_ok (snd (retry_after t k l))"
  using table_ok_live_entry [of l k t]
  by (auto simp: retry_after_def Let_def split: prod.splits option.splits)

lemma table_ok_others:
  assumes "table_ok l"
  shows "table_ok (release_attempt k l)" "table_ok (reset_failures k l)" "table_ok (commit_failure t k l)"
  using assms
    by (auto simp: release_attempt_def reset_failures_def commit_failure_def Let_def idle_def has_key_def
      split: option.splits intro!: table_ok_touch table_ok_put table_ok_del)

lemma table_ok_arrive:
  assumes "table_ok l" shows "table_ok (snd (login_arrive t1 t2 k l))"
proof -
  obtain r l1 where ra: "retry_after t1 k l = (r, l1)" by force
  have "table_ok l1" using table_ok_retry [OF assms, of t1 k] ra by simp
  then show ?thesis using ra by (simp add: login_arrive_def table_ok_reserve split: option.splits)
qed

lemma table_ok_handle: "table_ok l \<Longrightarrow> table_ok (handle_login e l)"
  by (auto simp: handle_login_def table_ok_arrive login_wrong_def login_right_def login_abort_def
    table_ok_others split: login_event.splits)

text \<open>What an arrival does to the views.\<close>

lemma arrive_config [simp]:
  assumes "table_ok l" shows "config (snd (login_arrive t1 t2 k l)) = config l"
proof -
  obtain r l1 where ra: "retry_after t1 k l = (r, l1)" by force
  have l1: "table_ok l1" "config l1 = config l"
    using table_ok_retry [OF assms, of t1 k] ra same_viewD(1) [OF retry_after_view(1), of t1 k l] by simp_all
  have "config (reserve_attempt t2 k l1) = config l1"
    using reserve_attempt_laws [of l1 t2 k] l1(1) by (cases "enabled l1") (auto simp: table_ok_def reserve_attempt_def)
  then show ?thesis using ra l1(2) by (simp add: login_arrive_def split: option.splits)
qed

lemma arrive_refused_view:
  assumes "\<not> fst (login_arrive t1 t2 k l)"
  shows "same_view t1 l (snd (login_arrive t1 t2 k l))"
  using assms retry_after_view(1) [of t1 l k]
  by (auto simp: login_arrive_def split: prod.splits option.splits)

lemma room_after_retry:
  assumes "table_ok l" "room l k"
  shows "room (snd (retry_after t k l)) k"
proof -
  have "snd (retry_after t k l) = l \<or> snd (retry_after t k l) = snd (live_entry k t l)"
    by (auto simp: retry_after_def Let_def split: prod.splits option.splits)
  moreover have "room (snd (live_entry k t l)) k"
  proof (cases "fst (live_entry k t l)")
    case None
    have ok: "dict_ok (entries l)" "int (length (entries l)) \<le> max_tracked_keys l"
      using assms(1) by (simp_all add: table_ok_def)
    have "int (length (entries (snd (live_entry k t l)))) < max_tracked_keys l"
      using live_entry_room [OF ok(1) None] live_entry_length [of k t l] ok(2) assms(2)
      unfolding room_def by linarith
    then show ?thesis
      using config_window(3) [OF live_entry_config, of k t l] by (simp add: room_def)
  next
    case (Some e)
    then show ?thesis using live_entry_result [of k t l] by (simp add: room_def has_key_def)
  qed
  ultimately show ?thesis using assms(2) by auto
qed

lemma arrive_other_view:
  assumes "table_ok l" "k' \<noteq> k" "t1 \<le> T" "t2 \<le> T"
  shows "live_view (snd (login_arrive t1 t2 k l)) T k' = live_view l T k'"
proof -
  obtain r l1 where ra: "retry_after t1 k l = (r, l1)" by force
  have l1: "table_ok l1" "same_view t1 l l1"
    using table_ok_retry [OF assms(1), of t1 k] retry_after_view(1) [of t1 l k] ra by simp_all
  have "live_view (reserve_attempt t2 k l1) T k' = live_view l1 T k'"
    using reserve_attempt_laws [of l1 t2 k] l1(1) assms(2,4)
    by (cases "enabled l1") (auto simp: table_ok_def reserve_attempt_def)
  then show ?thesis
    using ra same_viewD(2) [OF l1(2) assms(3)] by (simp add: login_arrive_def split: option.splits)
qed

lemma arrive_admitted_view:
  assumes "table_ok l" "enabled l" "fst (login_arrive t1 t2 k l)" "room l k" "t1 \<le> t2" "t2 \<le> T"
  shows "live_view (snd (login_arrive t1 t2 k l)) T k = apsnd Suc (live_view l T k)"
proof -
  obtain r l1 where ra: "retry_after t1 k l = (r, l1)" by force
  have l1: "table_ok l1" "same_view t1 l l1" "room l1 k"
    using table_ok_retry [OF assms(1), of t1 k] retry_after_view(1) [of t1 l k] ra
      room_after_retry [OF assms(1,4), of t1] by simp_all
  have en: "enabled l1" using config_window(4) [OF same_viewD(1) [OF l1(2)]] assms(2) by simp
  have "live_view (reserve_attempt t2 k l1) T k = apsnd Suc (live_view l1 T k)"
    using reserve_attempt_laws [OF en, of t2 k] l1(1,3) assms(6) by (auto simp: table_ok_def)
  then show ?thesis
    using ra assms(3,5,6) same_viewD(2) [OF l1(2), of T k] by (auto simp: login_arrive_def split: option.splits)
qed

lemma arrive_admitted_limit:
  assumes "enabled l" "fst (login_arrive t1 t2 k l)"
  shows "int (length (fst (live_view l t1 k)) + snd (live_view l t1 k)) < max_attempts l"
proof -
  have "fst (retry_after t1 k l) = None"
    using assms(2) by (auto simp: login_arrive_def split: prod.splits option.splits)
  then show ?thesis
    using assms(1) by (auto simp: retry_after_decide decide_def split: if_splits)
qed

lemma finish_views:
  "live_view (login_right k l) T k' =
     (if k' = k then ([], snd (live_view l T k) - 1) else live_view l T k')"
  "live_view (login_abort k l) T k' =
     (if k' = k then apsnd (\<lambda>n. n - 1) (live_view l T k) else live_view l T k')"
  "k' \<noteq> k \<Longrightarrow> t \<le> T \<Longrightarrow> live_view (login_wrong t k l) T k' = live_view l T k'"
  by (simp_all add: login_right_def login_abort_def login_wrong_def release_attempt_view
    reset_failures_view commit_failure_view)

lemma login_wrong_view:
  assumes "enabled l" "0 < snd (live_view l t k)" "t \<le> T"
  shows "live_view (login_wrong t k l) T k =
    (dw (T - window_seconds l) (fst (live_view l t k) @ [t]), snd (live_view l t k) - 1)"
proof -
  have "has_key (entries l) k" using assms(2) by (auto simp: live_view_def has_key_def split: option.splits)
  moreover have "snd (live_view l T k) = snd (live_view l t k)" by (simp add: live_view_later [OF assms(3), of l k])
  ultimately show ?thesis
    using assms by (simp add: login_wrong_def release_attempt_view commit_failure_view)
qed

lemma finish_config [simp]:
  "config (login_wrong t k l) = config l" "config (login_right k l) = config l"
  "config (login_abort k l) = config l"
  by (simp_all add: login_wrong_def login_right_def login_abort_def)

lemma table_ok_finish:
  "table_ok l \<Longrightarrow> table_ok (login_wrong t k l)" "table_ok l \<Longrightarrow> table_ok (login_right k l)"
  "table_ok l \<Longrightarrow> table_ok (login_abort k l)"
  by (simp_all add: login_wrong_def login_right_def login_abort_def table_ok_others)

subsection \<open>The contract of the route, and its client\<close>

text \<open>
  What the login route relies on. The client keeps, beside the limiter, the number of password
  checks in flight for each key and the wrong passwords so far with their times (a right password
  forgets those of its key); the locale proves that the two, counted over one window, never
  exceed the limit.
\<close>

definition times :: "pystr \<Rightarrow> (pystr \<times> seconds) list \<Rightarrow> seconds list" where
  "times k ws = map snd (filter (\<lambda>p. fst p = k) ws)"

lemma times_append [simp]:
  "times k (ws @ [(k', t)]) = (if k' = k then times k ws @ [t] else times k ws)"
  by (simp add: times_def)

lemma times_forget:
  "times k (filter (\<lambda>p. fst p \<noteq> k') ws) = (if k' = k then [] else times k ws)"
  by (induction ws) (auto simp: times_def)

locale attempt_limiter =
  fixes valid :: "'l \<Rightarrow> bool" and view :: "'l \<Rightarrow> seconds \<Rightarrow> pystr \<Rightarrow> seconds list \<times> nat"
    and arrive :: "seconds \<Rightarrow> seconds \<Rightarrow> pystr \<Rightarrow> 'l \<Rightarrow> bool \<times> 'l"
    and wrong :: "seconds \<Rightarrow> pystr \<Rightarrow> 'l \<Rightarrow> 'l" and right :: "pystr \<Rightarrow> 'l \<Rightarrow> 'l"
    and abort :: "pystr \<Rightarrow> 'l \<Rightarrow> 'l" and has_room :: "'l \<Rightarrow> pystr \<Rightarrow> bool"
    and limit :: int and window :: seconds
  assumes valid_arrive: "valid l \<Longrightarrow> valid (snd (arrive t1 t2 k l))"
    and valid_finish: "valid l \<Longrightarrow> valid (wrong t k l)" "valid l \<Longrightarrow> valid (right k l)"
      "valid l \<Longrightarrow> valid (abort k l)"
    and refused_view: "valid l \<Longrightarrow> \<not> fst (arrive t1 t2 k l) \<Longrightarrow> t1 \<le> T \<Longrightarrow>
          view (snd (arrive t1 t2 k l)) T k' = view l T k'"
    and admitted_view: "valid l \<Longrightarrow> fst (arrive t1 t2 k l) \<Longrightarrow> has_room l k \<Longrightarrow> t1 \<le> t2 \<Longrightarrow> t2 \<le> T \<Longrightarrow>
          view (snd (arrive t1 t2 k l)) T k' = (if k' = k then apsnd Suc (view l T k) else view l T k')"
    and admitted_limit: "valid l \<Longrightarrow> fst (arrive t1 t2 k l) \<Longrightarrow>
          int (length (fst (view l t1 k)) + snd (view l t1 k)) < limit"
    and wrong_view: "valid l \<Longrightarrow> 0 < snd (view l t k) \<Longrightarrow> t \<le> T \<Longrightarrow>
          view (wrong t k l) T k' =
            (if k' = k then (dw (T - window) (fst (view l t k) @ [t]), snd (view l t k) - 1)
             else view l T k')"
    and right_view: "valid l \<Longrightarrow>
          view (right k l) T k' = (if k' = k then ([], snd (view l T k) - 1) else view l T k')"
    and abort_view: "valid l \<Longrightarrow>
          view (abort k l) T k' = (if k' = k then apsnd (\<lambda>n. n - 1) (view l T k) else view l T k')"
begin

definition tracks :: "'l \<Rightarrow> (pystr \<Rightarrow> nat) \<Rightarrow> (pystr \<times> seconds) list \<Rightarrow> seconds \<Rightarrow> bool" where
  "tracks l running ws now \<longleftrightarrow>
     valid l \<and> (\<forall>k T. now \<le> T \<longrightarrow> view l T k = (dw (T - window) (times k ws), running k))
     \<and> (\<forall>k. sorted (times k ws) \<and> (\<forall>t \<in> set (times k ws). t \<le> now))
     \<and> (\<forall>k. int (length (dw (now - window) (times k ws)) + running k) \<le> limit)"

lemma dw_shorter: "now \<le> T \<Longrightarrow> length (dw (T - window) xs) \<le> length (dw (now - window) xs)"
proof -
  assume "now \<le> T"
  then have "dw (T - window) xs = dw (T - window) (dw (now - window) xs)" by simp
  then show ?thesis by (metis dw_def length_dropWhile_le)
qed

lemma tracks_later:
  assumes "tracks l running ws now" "now \<le> T"
  shows "tracks l running ws T"
proof -
  have "int (length (dw (T - window) (times k ws)) + running k) \<le> limit" for k
    using assms dw_shorter [OF assms(2), of "times k ws"] unfolding tracks_def
    by (smt (verit) of_nat_add of_nat_mono)
  then show ?thesis using assms unfolding tracks_def by (meson order_trans)
qed

lemma tracks_refused:
  assumes "tracks l running ws now" "now \<le> t1" "t1 \<le> t2" "\<not> fst (arrive t1 t2 k l)"
  shows "tracks (snd (arrive t1 t2 k l)) running ws t2"
proof -
  have tr: "tracks l running ws t2"
    using tracks_later [OF assms(1), of t2] assms(2,3) by simp
  have v: "valid l" using assms(1) by (simp add: tracks_def)
  have "view (snd (arrive t1 t2 k l)) T k' = view l T k'" if "t2 \<le> T" for T k'
    by (rule refused_view [OF v assms(4)]) (use assms(3) that in simp)
  then show ?thesis using tr valid_arrive [OF v] unfolding tracks_def by simp
qed

lemma tracks_admitted:
  assumes "tracks l running ws now" "now \<le> t1" "t1 \<le> t2" "fst (arrive t1 t2 k l)" "has_room l k"
  shows "tracks (snd (arrive t1 t2 k l)) (running(k := running k + 1)) ws t2"
proof -
  have tr: "tracks l running ws t2"
    using tracks_later [OF assms(1), of t2] assms(2,3) by simp
  have v: "valid l" using assms(1) by (simp add: tracks_def)
  have "view l t1 k = (dw (t1 - window) (times k ws), running k)"
    using assms(1,2) by (simp add: tracks_def)
  then have lim: "int (length (dw (t1 - window) (times k ws)) + running k) < limit"
    using admitted_limit [OF v assms(4)] by simp
  have "int (length (dw (t2 - window) (times k ws)) + Suc (running k)) \<le> limit"
    using lim dw_shorter [OF assms(3), of "times k ws"] by linarith
  then show ?thesis
    using tr valid_arrive [OF v] admitted_view [OF v assms(4,5,3)] unfolding tracks_def by simp
qed

lemma tracks_wrong:
  assumes "tracks l running ws now" "now \<le> t" "0 < running k"
  shows "tracks (wrong t k l) (running(k := running k - 1)) (ws @ [(k, t)]) t"
proof -
  have tr: "tracks l running ws t" by (rule tracks_later [OF assms(1,2)])
  have v: "valid l" using assms(1) by (simp add: tracks_def)
  have vt: "view l t k = (dw (t - window) (times k ws), running k)"
    using tr by (simp add: tracks_def)
  have vw: "view (wrong t k l) T k' = (dw (T - window) (times k' (ws @ [(k, t)])), (running(k := running k - 1)) k')"
    if "t \<le> T" for T k'
    using wrong_view [OF v _ that, of k k'] vt assms(3) tr that
    by (simp add: dw_append tracks_def)
  have "dw (t - window) (times k ws @ [t]) = dw (t - window) (dw (t - window) (times k ws) @ [t])"
    by (simp add: dw_append)
  then have "length (dw (t - window) (times k ws @ [t])) \<le> length (dw (t - window) (times k ws)) + 1"
    by (metis dw_def length_append_singleton length_dropWhile_le Suc_eq_plus1)
  moreover have "int (length (dw (t - window) (times k ws)) + running k) \<le> limit"
    using tr by (simp add: tracks_def)
  ultimately have "int (length (dw (t - window) (times k ws @ [t])) + (running k - 1)) \<le> limit"
    using assms(3) by linarith
  then show ?thesis
    using tr vw valid_finish(1) [OF v] unfolding tracks_def by (auto simp: sorted_append)
qed

lemma tracks_right:
  assumes "tracks l running ws now" "0 < running k"
  shows "tracks (right k l) (running(k := running k - 1)) (filter (\<lambda>p. fst p \<noteq> k) ws) now"
proof -
  have v: "valid l" and b: "int (length (dw (now - window) (times k ws)) + running k) \<le> limit"
    using assms(1) by (simp_all add: tracks_def)
  have "int (running k - 1) \<le> limit" using b by linarith
  then show ?thesis
    using assms v right_view [OF v] valid_finish(2) [OF v] unfolding tracks_def
    by (simp add: times_forget)
qed

lemma tracks_abort:
  assumes "tracks l running ws now" "0 < running k"
  shows "tracks (abort k l) (running(k := running k - 1)) ws now"
proof -
  have v: "valid l" and b: "int (length (dw (now - window) (times k ws)) + running k) \<le> limit"
    using assms(1) by (simp_all add: tracks_def)
  have "int (length (dw (now - window) (times k ws)) + (running k - 1)) \<le> limit" using b by linarith
  then show ?thesis
    using assms v abort_view [OF v] valid_finish(3) [OF v] unfolding tracks_def by simp
qed

lemma tracks_bound:
  assumes "tracks l running ws now"
  shows "int (length (filter (\<lambda>t. now - window < t) (times k ws)) + running k) \<le> limit"
proof -
  have "dw (now - window) (times k ws) = filter (\<lambda>t. now - window < t) (times k ws)"
    using assms by (intro dw_sorted) (simp add: tracks_def)
  then show ?thesis using assms by (metis tracks_def)
qed

end

subsection \<open>The limiter keeps the contract\<close>

definition limiter_for :: "int \<Rightarrow> seconds \<Rightarrow> limiter \<Rightarrow> bool" where
  "limiter_for limit window l \<longleftrightarrow>
     table_ok l \<and> enabled l \<and> max_attempts l = limit \<and> window_seconds l = window"

lemma limiter_for_config:
  "limiter_for limit window l \<Longrightarrow> config l' = config l \<Longrightarrow> table_ok l' \<Longrightarrow> limiter_for limit window l'"
  by (simp add: limiter_for_def config_def enabled_def)

interpretation rate: attempt_limiter "limiter_for limit window" live_view login_arrive login_wrong
  login_right login_abort room limit window
proof unfold_locales
  fix l t1 t2 t k
  assume v: "limiter_for limit window l"
  then have ok: "table_ok l" by (simp add: limiter_for_def)
  show "limiter_for limit window (snd (login_arrive t1 t2 k l))"
    using v by (rule limiter_for_config) (simp_all add: ok table_ok_arrive)
  show "limiter_for limit window (login_wrong t k l)"
    using v by (rule limiter_for_config) (simp_all add: ok table_ok_finish)
  show "limiter_for limit window (login_right k l)"
    using v by (rule limiter_for_config) (simp_all add: ok table_ok_finish)
  show "limiter_for limit window (login_abort k l)"
    using v by (rule limiter_for_config) (simp_all add: ok table_ok_finish)
next
  fix l t1 t2 T k k'
  assume "limiter_for limit window l" "\<not> fst (login_arrive t1 t2 k l)" "t1 \<le> T"
  then show "live_view (snd (login_arrive t1 t2 k l)) T k' = live_view l T k'"
    using same_viewD(2) [OF arrive_refused_view] by blast
next
  fix l t1 t2 T k k'
  assume "limiter_for limit window l" "fst (login_arrive t1 t2 k l)" "room l k" "t1 \<le> t2" "t2 \<le> T"
  then show "live_view (snd (login_arrive t1 t2 k l)) T k' =
      (if k' = k then apsnd Suc (live_view l T k) else live_view l T k')"
    by (simp add: limiter_for_def arrive_admitted_view arrive_other_view)
next
  fix l t1 t2 k
  assume "limiter_for limit window l" "fst (login_arrive t1 t2 k l)"
  then show "int (length (fst (live_view l t1 k)) + snd (live_view l t1 k)) < limit"
    using arrive_admitted_limit [of l t1 t2 k] by (simp add: limiter_for_def)
next
  fix l t k T k'
  assume "limiter_for limit window l" "0 < snd (live_view l t k)" "t \<le> T"
  then show "live_view (login_wrong t k l) T k' =
      (if k' = k then (dw (T - window) (fst (live_view l t k) @ [t]), snd (live_view l t k) - 1)
       else live_view l T k')"
    using login_wrong_view [of l t k T] finish_views(3) [of k' k t T l] by (auto simp: limiter_for_def)
qed (simp_all add: finish_views)

subsection \<open>Properties\<close>

text \<open>
  All the requests of a process at once: the limiter, the clock, the password checks in flight of
  each key, and the wrong passwords so far. A request arrives whenever it likes and its check ends
  whenever it likes; the clock does not go back.
\<close>

record login_world =
  limiter_of :: limiter
  clock :: seconds
  running :: "pystr \<Rightarrow> nat"
  wrongs :: "(pystr \<times> seconds) list"

inductive login_step :: "login_world \<Rightarrow> login_world \<Rightarrow> bool" where
  Refused: "clock w \<le> t1 \<Longrightarrow> t1 \<le> t2 \<Longrightarrow> login_arrive t1 t2 k (limiter_of w) = (False, l) \<Longrightarrow>
     login_step w (w\<lparr>limiter_of := l, clock := t2\<rparr>)"
| Admitted: "clock w \<le> t1 \<Longrightarrow> t1 \<le> t2 \<Longrightarrow> login_arrive t1 t2 k (limiter_of w) = (True, l) \<Longrightarrow>
     room (limiter_of w) k \<Longrightarrow>
     login_step w (w\<lparr>limiter_of := l, clock := t2, running := (running w)(k := running w k + 1)\<rparr>)"
| Wrong: "clock w \<le> t \<Longrightarrow> 0 < running w k \<Longrightarrow>
     login_step w (w\<lparr>limiter_of := login_wrong t k (limiter_of w), clock := t,
       running := (running w)(k := running w k - 1), wrongs := wrongs w @ [(k, t)]\<rparr>)"
| Right: "0 < running w k \<Longrightarrow>
     login_step w (w\<lparr>limiter_of := login_right k (limiter_of w),
       running := (running w)(k := running w k - 1),
       wrongs := filter (\<lambda>p. fst p \<noteq> k) (wrongs w)\<rparr>)"
| Abort: "0 < running w k \<Longrightarrow>
     login_step w (w\<lparr>limiter_of := login_abort k (limiter_of w),
       running := (running w)(k := running w k - 1)\<rparr>)"

definition start_world :: "limiter \<Rightarrow> seconds \<Rightarrow> login_world" where
  "start_world l now = \<lparr>limiter_of = l, clock = now, running = (\<lambda>_. 0), wrongs = []\<rparr>"

definition world_ok :: "int \<Rightarrow> seconds \<Rightarrow> login_world \<Rightarrow> bool" where
  "world_ok limit window w \<longleftrightarrow>
     rate.tracks limit window (limiter_of w) (running w) (wrongs w) (clock w)"

lemma login_step_ok:
  "login_step w w' \<Longrightarrow> world_ok limit window w \<Longrightarrow> world_ok limit window w'"
proof (induction rule: login_step.induct)
  case (Refused w t1 t2 k l)
  then show ?case using rate.tracks_refused [of limit window "limiter_of w" "running w" "wrongs w" "clock w" t1 t2 k] by (auto simp: world_ok_def)
next
  case (Admitted w t1 t2 k l)
  then show ?case
    using rate.tracks_admitted [of limit window "limiter_of w" "running w" "wrongs w" "clock w" t1 t2 k]
    by (auto simp: world_ok_def)
next
  case (Wrong w t k)
  then show ?case using rate.tracks_wrong by (simp add: world_ok_def)
next
  case (Right w k)
  then show ?case using rate.tracks_right by (simp add: world_ok_def)
next
  case (Abort w k)
  then show ?case using rate.tracks_abort by (simp add: world_ok_def)
qed

lemma start_world_ok:
  assumes "0 < attempts" "0 < window" "0 < tracked"
  shows "world_ok attempts window (start_world (new_limiter attempts window tracked interval) now)"
  using assms by (simp add: world_ok_def rate.tracks_def start_world_def limiter_for_def table_ok_def
    enabled_def new_limiter_def live_view_def times_def)


lemmas login_eval =
  login_arrive_def retry_after_def reserve_attempt_def live_entry_def make_room_def login_wrong_def
  login_right_def login_abort_def commit_failure_def reset_failures_def release_attempt_def alert_def
  new_limiter_def new_entry_def enabled_def prune_def move_to_end_def start_world_def room_def has_key_def
  Let_def


text \<open>The key an event is about, and the times it reads.\<close>

definition event_key :: "login_event \<Rightarrow> pystr" where
  "event_key e = (case e of Arrive t1 t2 k \<Rightarrow> k | WrongPassword t k \<Rightarrow> k | RightPassword k \<Rightarrow> k | Aborted k \<Rightarrow> k)"

definition event_by :: "seconds \<Rightarrow> login_event \<Rightarrow> bool" where
  "event_by T e = (case e of Arrive t1 t2 k \<Rightarrow> t1 \<le> T \<and> t2 \<le> T | WrongPassword t k \<Rightarrow> t \<le> T | _ \<Rightarrow> True)"

lemma handle_other_key:
  assumes "table_ok l" "event_key e \<noteq> k" "event_by T e"
  shows "live_view (handle_login e l) T k = live_view l T k \<and> config (handle_login e l) = config l"
  using assms
  by (cases e) (auto simp: handle_login_def event_key_def event_by_def arrive_other_view finish_views)

lemma run_other_keys:
  assumes "table_ok l" "list_all (\<lambda>e. event_key e \<noteq> k \<and> event_by T e) es"
  shows "live_view (run_logins es l) T k = live_view l T k \<and> config (run_logins es l) = config l"
  using assms
proof (induction es arbitrary: l)
  case (Cons e es)
  then show ?case
    using Cons.IH [OF table_ok_handle [OF Cons.prems(1), of e]] handle_other_key [OF Cons.prems(1), of e k T]
    by (simp add: run_logins_def)
qed (simp add: run_logins_def)

text \<open>A lockout cannot be flushed. Whatever the requests of other keys do, however many they are and
  even when they overfill the table, they never change the answer (allowed, or the seconds to
  wait) a key gets at a later time.\<close>

theorem other_keys_never_unlock:
  assumes "table_ok l" "list_all (\<lambda>e. event_key e \<noteq> k \<and> event_by T e) es"
  shows "fst (retry_after T k (run_logins es l)) = fst (retry_after T k l)"
  using run_other_keys [OF assms] by (simp add: retry_after_decide config_def enabled_def)

text \<open>One attempt, a table of one key: \<open>a\<close> is locked at 1; \<open>b\<close> and \<open>c\<close> try at 2; \<open>a\<close> still waits.\<close>

theorem other_keys_never_unlock_witness:
  "let l = run_logins [Arrive 0 0 ''a'', WrongPassword 1 ''a''] (new_limiter 1 10 1 60);
       es = [Arrive 2 2 ''b'', WrongPassword 2 ''b'', Arrive 2 2 ''c'', RightPassword ''c''] in
     fst (retry_after 3 ''a'' (run_logins es l)) = fst (retry_after 3 ''a'' l)
     \<and> fst (retry_after 3 ''a'' l) = Some 8"
proof -
  let ?l = "run_logins [Arrive 0 0 ''a'', WrongPassword 1 ''a''] (new_limiter 1 10 1 60)"
  let ?es = "[Arrive 2 2 ''b'', WrongPassword 2 ''b'', Arrive 2 2 ''c'', RightPassword ''c'']"
  have "table_ok ?l"
    unfolding run_logins_def by (simp add: table_ok_handle) (intro table_ok_handle, simp add: table_ok_def new_limiter_def)
  moreover have "list_all (\<lambda>e. event_key e \<noteq> ''a'' \<and> event_by 3 e) ?es"
    by (simp add: event_key_def event_by_def)
  moreover have "fst (retry_after 3 ''a'' ?l) = Some 8"
    by (simp add: run_logins_def handle_login_def login_eval)
  ultimately show ?thesis using other_keys_never_unlock [of ?l "''a''" 3 ?es] by (simp only: Let_def)
qed

text \<open>The table stays bounded and clean: after any events, its keys are distinct and at most
  \<open>max_tracked_keys\<close>, and no entry is without a failure and without a reservation (so the entries
  left over are those the window has not aged out).\<close>

theorem login_table_bounded:
  "0 \<le> tracked \<Longrightarrow> table_ok (run_logins es (new_limiter attempts window tracked interval))"
proof (induction es rule: rev_induct)
  case Nil
  then show ?case by (simp add: run_logins_def table_ok_def new_limiter_def)
next
  case (snoc e es)
  then show ?case by (simp add: run_logins_def table_ok_handle)
qed

theorem login_table_bounded_witness:
  "length (entries (run_logins [Arrive 0 0 ''a'', Arrive 0 0 ''b''] (new_limiter 5 300 1 60))) \<le> 1"
  using login_table_bounded [of 1 "[Arrive 0 0 ''a'', Arrive 0 0 ''b'']" 5 300 60]
  by (simp add: table_ok_def run_logins_def handle_login_def login_eval)

subsection \<open>Alerts\<close>

fun spaced :: "seconds \<Rightarrow> seconds list \<Rightarrow> bool" where
  "spaced d (t1 # t2 # ts) \<longleftrightarrow> d \<le> t2 - t1 \<and> spaced d (t2 # ts)"
| "spaced d ts \<longleftrightarrow> True"

lemma spaced_snoc: "spaced d (ts @ [t]) \<longleftrightarrow> spaced d ts \<and> (ts = [] \<or> d \<le> t - last ts)"
  by (induction d ts rule: spaced.induct) auto

definition raise_alerts :: "(seconds \<times> alert_category) list \<Rightarrow> limiter \<Rightarrow> limiter" where
  "raise_alerts as l = fold (\<lambda>(t, c). alert t c) as l"

definition of_category :: "alert_category \<Rightarrow> limiter \<Rightarrow> warning list" where
  "of_category c l = filter (\<lambda>w. w_category w = c) (warnings l)"

definition held_back :: "alert_category \<Rightarrow> limiter \<Rightarrow> nat" where
  "held_back c l = (case map_of (alert_suppressed l) c of None \<Rightarrow> 0 | Some n \<Rightarrow> n)"

definition category_inv :: "alert_category \<Rightarrow> seconds \<Rightarrow> (seconds \<times> alert_category) list \<Rightarrow> limiter \<Rightarrow> bool" where
  "category_inv c d as l \<longleftrightarrow> alert_interval_seconds l = d \<and> spaced d (map w_time (of_category c l))
     \<and> map_of (alert_last l) c = (if of_category c l = [] then None else Some (w_time (last (of_category c l))))
     \<and> sum_list (map (\<lambda>w. Suc (w_suppressed w)) (of_category c l)) + held_back c l
         = length (filter (\<lambda>a. snd a = c) as)"

lemma alert_fields:
  defines "hold \<equiv> (\<lambda>t c l. case map_of (alert_last l) c of None \<Rightarrow> False | Some prev \<Rightarrow> t - prev < alert_interval_seconds l)"
  shows "of_category c' (alert t c l) = (if c' = c \<and> \<not> hold t c l
           then of_category c l @ [\<lparr>w_category = c, w_time = t, w_suppressed = held_back c l\<rparr>]
           else of_category c' l)"
    and "map_of (alert_last (alert t c l)) c' =
           (if c' = c \<and> \<not> hold t c l then Some t else map_of (alert_last l) c')"
    and "held_back c' (alert t c l) =
           (if c' = c then if hold t c l then Suc (held_back c l) else 0 else held_back c' l)"
  by (auto simp: hold_def alert_def of_category_def held_back_def Let_def map_of_update_iff map_of_delete_iff
    split: option.splits)

lemma category_inv_step:
  assumes "category_inv c' d as l"
  shows "category_inv c' d (as @ [(t, c)]) (alert t c l)"
proof -
  have i: "alert_interval_seconds (alert t c l) = alert_interval_seconds l"
    by (simp add: alert_def Let_def)
  show ?thesis
  proof (cases "c' = c")
    case False
    then show ?thesis using assms i by (simp add: category_inv_def alert_fields)
  next
    case True
    then show ?thesis using assms i
      by (cases "of_category c l = []") (auto simp: category_inv_def alert_fields spaced_snoc last_map)
  qed
qed

text \<open>The alert throttle. For any alerts raised: two warnings of one category that follow each other are
  at least \<open>alert_interval_seconds\<close> apart, and none is lost from the count: the warnings, the
  suppressed ones they report and those still held back add up to the alerts raised.\<close>

theorem alerts_throttled:
  "let l = raise_alerts as (new_limiter attempts window tracked interval) in
     spaced interval (map w_time (of_category c l))
     \<and> sum_list (map (\<lambda>w. Suc (w_suppressed w)) (of_category c l)) + held_back c l
         = length (filter (\<lambda>a. snd a = c) as)"
proof -
  have "category_inv c interval as (raise_alerts as (new_limiter attempts window tracked interval))"
  proof (induction as rule: rev_induct)
    case Nil
    then show ?case
      by (simp add: category_inv_def raise_alerts_def new_limiter_def of_category_def held_back_def)
  next
    case (snoc a as)
    then show ?case using category_inv_step [of c interval as _ "fst a" "snd a"]
      by (simp add: raise_alerts_def case_prod_beta)
  qed
  then show ?thesis by (simp add: category_inv_def Let_def)
qed

text \<open>
  The comment of \<open>_make_room\<close> ("once the front key is live every remaining key is too") does not
  hold: a request that only releases (cancelled, or an error in the check) moves its key to the end with the failures it had. Here
  \<open>b\<close> fails at 10, and \<open>a\<close>, which failed at 0, is at the end; at 301 the entry of \<open>a\<close> is dead, that of
  \<open>b\<close> is live and at the front, and \<open>c\<close> is refused a place in the table of two.
\<close>

lemma live_front_dead_rest:
  "let l = run_logins [Arrive 0 0 ''a'', WrongPassword 0 ''a'', Arrive 10 10 ''b'', WrongPassword 10 ''b'',
               Arrive 20 20 ''a'', Aborted ''a''] (new_limiter 5 300 2 60) in
     keys (entries l) = [''b'', ''a''] \<and> live_view l 301 ''b'' = ([10], 0) \<and> live_view l 301 ''a'' = ([], 0)
     \<and> \<not> has_key (entries (reserve_attempt 301 ''c'' l)) ''c''"
  by (simp add: run_logins_def handle_login_def login_eval live_view_def dw_def)

end
