(* ===== verification/Snapshot.thy ===== *)
theory Snapshot
  imports PyBase
begin

text \<open>
  The file half of the cross-process fence of the file-backed stores
  (\<^verbatim>\<open>src/lightrag/kg/file_fingerprint.py\<close>) and the per-write ordering token of their redo logs
  (\<^verbatim>\<open>src/lightrag/kg/write_seq.py\<close>). What \<open>os.stat\<close> answers, the multiprocess flag and the
  clock are arguments. A path is its position: the paths are given in publication order, the
  commit marker last.
\<close>

subsection \<open>Fingerprints\<close>

datatype stat_result = Stat (stat_mtime: int) (stat_size: nat) | NotFound | StatError

type_synonym fingerprint = "(int \<times> nat) option list"

datatype sampled = UNREADABLE | Sampled fingerprint

definition fence_enabled :: "bool \<Rightarrow> bool" where
  "fence_enabled is_multiprocess_mode = is_multiprocess_mode"

fun sample_loop :: "('p \<Rightarrow> stat_result) \<Rightarrow> 'p list \<Rightarrow> fingerprint \<Rightarrow> sampled" where
  "sample_loop stat [] fingerprints = Sampled fingerprints"
| "sample_loop stat (p # paths) fingerprints =
     (case stat p of
        NotFound \<Rightarrow> sample_loop stat paths (fingerprints @ [None])
      | StatError \<Rightarrow> UNREADABLE
      | Stat mtime sz \<Rightarrow> sample_loop stat paths (fingerprints @ [Some (mtime, sz)]))"

definition sample :: "('p \<Rightarrow> stat_result) \<Rightarrow> 'p list \<Rightarrow> sampled" where
  "sample stat paths = sample_loop stat paths []"

definition adopted :: "sampled \<Rightarrow> fingerprint option" where
  "adopted s = (case s of UNREADABLE \<Rightarrow> None | Sampled f \<Rightarrow> Some f)"

definition counts_as_a_new_lost_notification :: "sampled \<Rightarrow> fingerprint option \<Rightarrow> bool" where
  "counts_as_a_new_lost_notification s already_counted =
     (case s of UNREADABLE \<Rightarrow> False | Sampled f \<Rightarrow> Some f \<noteq> already_counted)"

text \<open>The sample has at least one path (\<open>*committed, marker = sampled\<close>).\<close>

definition publication_complete :: "fingerprint \<Rightarrow> bool" where
  "publication_complete f =
     (let committed = butlast f in
      case last f of
        None \<Rightarrow> list_all (\<lambda>entry. entry = None) committed
      | Some (marker_mtime, _) \<Rightarrow>
          if list_ex (\<lambda>entry. entry = None) committed then False
          else list_all (\<lambda>entry. fst (the entry) < marker_mtime) committed)"

definition divergence_detected ::
    "bool \<Rightarrow> sampled \<Rightarrow> fingerprint option \<Rightarrow> 'p list \<Rightarrow> bool" where
  "divergence_detected multiprocess s recorded paths =
     (if \<not> fence_enabled multiprocess then False
      else case s of
        UNREADABLE \<Rightarrow> False
      | Sampled f \<Rightarrow>
          if Some f = recorded then False
          else if 1 < length paths \<and> \<not> publication_complete f then False
          else True)"

definition peer_commit_detected ::
    "bool \<Rightarrow> ('p \<Rightarrow> stat_result) \<Rightarrow> 'p list \<Rightarrow> fingerprint option \<Rightarrow> bool" where
  "peer_commit_detected multiprocess stat paths recorded =
     (if \<not> fence_enabled multiprocess then False
      else divergence_detected multiprocess (sample stat paths) recorded paths)"

subsection \<open>Write tokens\<close>

text \<open>\<open>_last_seq\<close> is the state; the reading of the clock is the argument.\<close>

definition next_write_seq :: "int \<Rightarrow> int \<Rightarrow> int \<times> int" where
  "next_write_seq time_ns last_seq =
     (let seq = max time_ns (last_seq + 1) in (seq, seq))"

text \<open>What the comparison reads of a row: its token, if it has one, and its creation second, 0 when
  it has none.\<close>

record stored_row =
  write_seq :: "int option"
  created_at :: int

definition row_is_strictly_newer :: "stored_row option \<Rightarrow> stored_row \<Rightarrow> bool" where
  "row_is_strictly_newer candidate reference =
     (case candidate of
        None \<Rightarrow> False
      | Some c \<Rightarrow>
          (case (write_seq c, write_seq reference) of
             (Some cs, Some rs) \<Rightarrow> cs > rs
           | _ \<Rightarrow> created_at c > created_at reference))"

end
