(* ===== verification/SnapshotLaws.thy ===== *)
theory SnapshotLaws
  imports Snapshot
begin

text \<open>
  Why the fence of \<^theory_text>\<open>Snapshot\<close> never adopts a torn set of files, and the order of write
  tokens. The publication is modelled as a step relation: files renamed one at a time in order,
  attempts abandoned and started again at any point, files removed, a clock that never goes back
  but may stand still (one tick of the file system).
\<close>

lemma sample_loop_readable:
  "sample_loop stat ps acc = Sampled f \<Longrightarrow>
     f = acc @ map (\<lambda>p. case stat p of Stat m s \<Rightarrow> Some (m, s) | _ \<Rightarrow> None) ps
     \<and> (\<forall>p \<in> set ps. stat p \<noteq> StatError)"
proof (induction ps arbitrary: acc)
  case (Cons p ps)
  show ?case
  proof (cases "stat p")
    case (Stat m z)
    then show ?thesis using Cons.IH [of "acc @ [Some (m, z)]"] Cons.prems by simp
  next
    case NotFound
    then show ?thesis using Cons.IH [of "acc @ [None]"] Cons.prems by simp
  next
    case StatError
    then show ?thesis using Cons.prems by simp
  qed
qed simp

lemma sample_loop_unreadable:
  "sample_loop stat ps acc = UNREADABLE \<longleftrightarrow> (\<exists>p \<in> set ps. stat p = StatError)"
  by (induction ps arbitrary: acc) (auto split: stat_result.splits)

subsection \<open>Publication\<close>

text \<open>A file: the generation it belongs to, its time and its size.\<close>

record published_file =
  generation :: nat
  mtime :: int
  bytes :: nat

text \<open>The directory: the paths \<open>0\<close> to \<open>marker\<close>, the current attempt and how far it is.\<close>

record publication =
  files :: "nat \<Rightarrow> published_file option"
  marker :: nat
  fs_clock :: int
  attempt :: nat
  progress :: nat

inductive publish_step :: "publication \<Rightarrow> publication \<Rightarrow> bool" where
  tick: "fs_clock w \<le> t \<Longrightarrow> publish_step w (w\<lparr>fs_clock := t\<rparr>)"
| begin_attempt: "publish_step w (w\<lparr>attempt := Suc (attempt w), progress := 0\<rparr>)"
| rename: "progress w \<le> marker w \<Longrightarrow>
     publish_step w (w\<lparr>files := (files w)(progress w :=
         Some \<lparr>generation = attempt w, mtime = fs_clock w, bytes = n\<rparr>),
       progress := Suc (progress w)\<rparr>)"
| remove: "publish_step w (w\<lparr>files := (files w)(i := None)\<rparr>)"

definition disk_stat :: "publication \<Rightarrow> nat \<Rightarrow> stat_result" where
  "disk_stat w i = (case files w i of None \<Rightarrow> NotFound | Some p \<Rightarrow> Stat (mtime p) (bytes p))"

definition disk_paths :: "publication \<Rightarrow> nat list" where
  "disk_paths w = [0..<Suc (marker w)]"

definition publication_inv :: "publication \<Rightarrow> bool" where
  "publication_inv w \<longleftrightarrow>
     (\<forall>i p. files w i = Some p \<longrightarrow> mtime p \<le> fs_clock w)
     \<and> (\<forall>i p. i < progress w \<longrightarrow> files w i = Some p \<longrightarrow> generation p = attempt w)
     \<and> (\<forall>i p m. i < marker w \<longrightarrow> files w i = Some p \<longrightarrow> files w (marker w) = Some m \<longrightarrow>
          generation p = generation m \<or> mtime m \<le> mtime p)"

definition new_publication :: "nat \<Rightarrow> publication" where
  "new_publication n =
     \<lparr>files = (\<lambda>_. None), marker = n, fs_clock = 0, attempt = 0, progress = 0\<rparr>"

lemma publication_inv_step: "publish_step w w' \<Longrightarrow> publication_inv w \<Longrightarrow> publication_inv w'"
proof (induction rule: publish_step.induct)
  case (tick w t)
  then show ?case by (fastforce simp: publication_inv_def)
next
  case (begin_attempt w)
  then show ?case by (simp add: publication_inv_def)
next
  case (rename w n)
  then show ?case by (auto simp: publication_inv_def less_Suc_eq)
next
  case (remove w i)
  then show ?case by (auto simp: publication_inv_def)
qed

definition one_generation :: "publication \<Rightarrow> bool" where
  "one_generation w \<longleftrightarrow>
     list_all (\<lambda>i. files w i = None) (disk_paths w)
     \<or> (\<exists>g. list_all (\<lambda>i. \<exists>p. files w i = Some p \<and> generation p = g) (disk_paths w))"

lemma sample_disk:
  "sample (disk_stat w) (disk_paths w) =
     Sampled (map (\<lambda>i. map_option (\<lambda>p. (mtime p, bytes p)) (files w i)) (disk_paths w))"
proof (cases "sample (disk_stat w) (disk_paths w)")
  case UNREADABLE
  then show ?thesis
    by (auto simp: sample_def sample_loop_unreadable disk_stat_def split: option.splits)
next
  case (Sampled f)
  then show ?thesis
    using sample_loop_readable [of "disk_stat w" "disk_paths w" "[]" f]
    by (auto simp: sample_def disk_stat_def split: option.splits)
qed

lemma complete_one_generation:
  assumes inv: "publication_inv w"
    and complete: "publication_complete (map (\<lambda>i. map_option (\<lambda>p. (mtime p, bytes p)) (files w i)) (disk_paths w))"
  shows "one_generation w"
proof (cases "files w (marker w)")
  case None
  then show ?thesis using complete
    by (simp add: publication_complete_def disk_paths_def one_generation_def list_all_iff Let_def)
next
  case (Some m)
  then have "\<exists>p. files w i = Some p \<and> mtime p < mtime m" if "i < marker w" for i
    using complete that
    by (cases "files w i") (auto simp: publication_complete_def disk_paths_def list_all_iff list_ex_iff Let_def dest!: bspec [of _ _ i] split: if_splits)
  then have "\<exists>p. files w i = Some p \<and> generation p = generation m" if "i < marker w" for i
    using inv that Some by (fastforce simp: publication_inv_def)
  then show ?thesis using Some by (auto simp: one_generation_def disk_paths_def list_all_iff)
qed

text \<open>C33. The fence never takes a torn publication for a commit. However a writer's renames, crashes,
  retries and removals interleave with this reader, and however coarse the file system's clock is:
  if \<open>peer_commit_detected\<close> reports a commit of a store of several files, the files on disk are all
  of one generation, or all absent.\<close>

theorem torn_publication_never_adopted:
  assumes "publish_step\<^sup>*\<^sup>* (new_publication n) w" "0 < n"
    and "peer_commit_detected multiprocess (disk_stat w) (disk_paths w) recorded"
  shows "one_generation w"
proof -
  have "publication_inv w" using assms(1)
  proof (induction rule: rtranclp_induct)
    case base
    then show ?case by (simp add: publication_inv_def new_publication_def)
  qed (rule publication_inv_step)
  moreover have "marker w = n" using assms(1)
    by (induction rule: rtranclp_induct) (auto simp: new_publication_def elim: publish_step.cases)
  ultimately show ?thesis
    using assms(2,3) complete_one_generation [of w] sample_disk [of w]
    by (auto simp: peer_commit_detected_def divergence_detected_def disk_paths_def split: if_splits)
qed

text \<open>A first publication of two files, at ticks 1 and 2, seen by a reader that recorded nothing.\<close>

definition two_files :: publication where
  "two_files = (new_publication 1)\<lparr>
     files := (\<lambda>_. None)(0 := Some \<lparr>generation = 0, mtime = 1, bytes = 10\<rparr>,
                          1 := Some \<lparr>generation = 0, mtime = 2, bytes = 20\<rparr>),
     fs_clock := 2, progress := 2\<rparr>"

lemma two_files_reached: "publish_step\<^sup>*\<^sup>* (new_publication 1) two_files"
proof -
  let ?f0 = "(\<lambda>_. None) :: nat \<Rightarrow> published_file option"
  let ?a = "\<lparr>generation = 0, mtime = 1, bytes = 10\<rparr>" and ?b = "\<lparr>generation = 0, mtime = 2, bytes = 20\<rparr>"
  let ?w = "\<lambda>f t p. \<lparr>files = f, marker = 1, fs_clock = t, attempt = 0, progress = p\<rparr> :: publication"
  have 1: "publish_step (?w ?f0 0 0) (?w ?f0 1 0)"
    using tick [of "?w ?f0 0 0" 1] by simp
  have 2: "publish_step (?w ?f0 1 0) (?w (?f0(0 := Some ?a)) 1 1)"
    using rename [of "?w ?f0 1 0" 10] by simp
  have 3: "publish_step (?w (?f0(0 := Some ?a)) 1 1) (?w (?f0(0 := Some ?a)) 2 1)"
    using tick [of "?w (?f0(0 := Some ?a)) 1 1" 2] by simp
  have 4: "publish_step (?w (?f0(0 := Some ?a)) 2 1) (?w (?f0(0 := Some ?a, 1 := Some ?b)) 2 2)"
    using rename [of "?w (?f0(0 := Some ?a)) 2 1" 20] by (simp add: numeral_2_eq_2)
  have "publish_step\<^sup>*\<^sup>* (?w ?f0 0 0) (?w (?f0(0 := Some ?a, 1 := Some ?b)) 2 2)"
    using 1 2 3 4 by (meson rtranclp.rtrancl_refl rtranclp.rtrancl_into_rtrancl)
  then show ?thesis by (simp add: new_publication_def two_files_def)
qed

theorem torn_publication_never_adopted_witness:
  "peer_commit_detected True (disk_stat two_files) (disk_paths two_files) None \<and> one_generation two_files"
proof -
  have d: "peer_commit_detected True (disk_stat two_files) (disk_paths two_files) None"
    by (simp add: peer_commit_detected_def fence_enabled_def divergence_detected_def sample_def disk_stat_def
      disk_paths_def two_files_def new_publication_def publication_complete_def upt_rec)
  then show ?thesis using torn_publication_never_adopted [OF two_files_reached _ d] by simp
qed

subsection \<open>Write tokens\<close>

fun stamp_all :: "int list \<Rightarrow> int \<Rightarrow> int list \<times> int" where
  "stamp_all [] last_seq = ([], last_seq)"
| "stamp_all (t # ts) last_seq =
     (let (seq, l1) = next_write_seq t last_seq; (seqs, l2) = stamp_all ts l1 in (seq # seqs, l2))"

lemma stamp_all_bounds:
  "stamp_all ts l = (seqs, l') \<Longrightarrow> sorted_wrt (<) (l # seqs) \<and> length seqs = length ts \<and> list_all2 (\<le>) ts seqs"
proof (induction ts arbitrary: l seqs)
  case (Cons t ts)
  then obtain seqs1 where seqs: "seqs = max t (l + 1) # seqs1"
      and rest: "stamp_all ts (max t (l + 1)) = (seqs1, l')"
    by (auto simp: next_write_seq_def Let_def split: prod.splits)
  from Cons.IH [OF rest] have "sorted_wrt (<) (max t (l + 1) # seqs1)" "length seqs1 = length ts"
      "list_all2 (\<le>) ts seqs1" by blast+
  moreover have "l < max t (l + 1)" by simp
  ultimately show ?case using seqs by auto
qed simp

definition written :: "int \<Rightarrow> int \<Rightarrow> stored_row" where
  "written seq created = \<lparr>write_seq = Some seq, created_at = created\<rparr>"

text \<open>The tokens of one process order its writes, whatever its clock does (stands still, steps
  back): the tokens are strictly increasing and never behind the clock, and a row stamped later is
  strictly newer than one stamped earlier, and not the other way round, whatever their whole
  seconds say.\<close>

theorem tokens_order_writes:
  assumes "i < j" "j < length ts"
  shows "let seqs = fst (stamp_all ts last_seq) in
     ts ! i \<le> seqs ! i \<and> seqs ! i < seqs ! j
     \<and> row_is_strictly_newer (Some (written (seqs ! j) c1)) (written (seqs ! i) c2)
     \<and> \<not> row_is_strictly_newer (Some (written (seqs ! i) c2)) (written (seqs ! j) c1)"
proof -
  obtain seqs l' where s: "stamp_all ts last_seq = (seqs, l')" by force
  have b: "sorted_wrt (<) seqs" "length seqs = length ts" "list_all2 (\<le>) ts seqs"
    using stamp_all_bounds [OF s] by simp_all
  have "seqs ! i < seqs ! j" by (rule sorted_wrt_nth_less [OF b(1) assms(1)]) (simp add: b(2) assms(2))
  moreover have "ts ! i \<le> seqs ! i" by (rule list_all2_nthD [OF b(3)]) (use assms in simp)
  ultimately have "seqs ! i < seqs ! j" "ts ! i \<le> seqs ! i" by blast+
  then show ?thesis using s by (simp add: row_is_strictly_newer_def written_def)
qed

text \<open>A clock that reads 100, then 7, then 7 again: tokens 100, 101, 102.\<close>

theorem tokens_order_writes_witness:
  "let seqs = fst (stamp_all [100, 7, 7] 0) in
     seqs = [100, 101, 102]
     \<and> row_is_strictly_newer (Some (written (seqs ! 2) 3)) (written (seqs ! 1) 9)"
  using tokens_order_writes [of 1 2 "[100, 7, 7]" 0 3 9]
  by (simp add: next_write_seq_def Let_def numeral_2_eq_2)

text \<open>Rows without a token fall back to whole seconds; "strictly newer" is never symmetric.\<close>

lemma newer_asym:
  "row_is_strictly_newer (Some a) b \<Longrightarrow> \<not> row_is_strictly_newer (Some b) a"
  by (auto simp: row_is_strictly_newer_def split: option.splits)

lemma newer_legacy:
  "write_seq a = None \<or> write_seq b = None \<Longrightarrow>
     row_is_strictly_newer (Some a) b \<longleftrightarrow> created_at b < created_at a"
  by (auto simp: row_is_strictly_newer_def split: option.splits)

end
