(* ===== verification/Registry.thy ===== *)
theory Registry
  imports PyJson
begin

text \<open>
  The registry of memories (NEMOs): \<^verbatim>\<open>src/lightrag/api/bimnemo/nemo_registry.py\<close>. The state is the
  index in memory, the id of the default memory, and the two files the registry reads: its index
  file and the document status file of the base. The clock's reading is an argument; writing the
  index may fail (\<open>io_ok\<close>), and then the call raises with the index in memory changed, as in the
  code.
\<close>

definition LEGACY_ID :: pystr where "LEGACY_ID = []"
definition LEGACY_NAME :: pystr where "LEGACY_NAME = ''General''"
definition MAX_ID_LENGTH :: nat where "MAX_ID_LENGTH = 48"
definition MAX_NAME_LENGTH :: nat where "MAX_NAME_LENGTH = 60"
definition REGISTRY_VERSION :: rat where "REGISTRY_VERSION = 1"

text \<open>The messages of \<open>NemoError\<close>, by case, and the exceptions a malformed index raises.\<close>

datatype registry_error =
    NeedsName
  | NameTooLong
  | NoUsableCharacters
  | NameNotAdmitted
  | NameTaken
  | FolderTaken
  | UnknownNemo
  | InvalidId
  | AttributeError
  | TypeError
  | OSError

record nemo =
  nemo_id :: pystr
  nemo_name :: pystr
  created_at :: json
  protected :: bool
  hidden :: bool

datatype json_file = NoFile | UnreadableFile | JsonFile json

record registry =
  nemos :: "(pystr, nemo) pydict"
  default_id :: pystr
  index_file :: json_file
  doc_status_file :: json_file

subsection \<open>Identifiers\<close>

definition is_slug_char :: "char \<Rightarrow> bool" where
  "is_slug_char c \<longleftrightarrow> (let n = (code c :: nat) in
     (65 \<le> n \<and> n \<le> 90) \<or> (97 \<le> n \<and> n \<le> 122) \<or> (48 \<le> n \<and> n \<le> 57) \<or> c = CHR ''_'')"

definition slug_replace :: "pystr \<Rightarrow> pystr" where
  "slug_replace s = map (\<lambda>c. if is_slug_char c then c else CHR ''_'') s"

text \<open>\<open>re.sub(r"_{2,}", "_", s)\<close>.\<close>

fun slug_collapse :: "pystr \<Rightarrow> pystr" where
  "slug_collapse (c # d # s) =
     (if c = CHR ''_'' \<and> d = CHR ''_'' then slug_collapse (d # s) else c # slug_collapse (d # s))"
| "slug_collapse s = s"

definition slugify :: "pystr \<Rightarrow> pystr" where
  "slugify name = take MAX_ID_LENGTH (strip_char CHR ''_'' (slug_collapse (slug_replace (strip name))))"

definition validate_workspace :: "pystr \<Rightarrow> bool" where
  "validate_workspace ws \<longleftrightarrow>
     \<not> (CHR ''/'' \<in> set ws \<or> CHR 92 \<in> set ws \<or> ws = ''.'' \<or> ws = ''..'')"

subsection \<open>Loading\<close>

definition to_payload :: "nemo \<Rightarrow> json" where
  "to_payload n = JObj ([(''id'', JStr (nemo_id n)), (''name'', JStr (nemo_name n)),
     (''created_at'', created_at n), (''protected'', JBool (protected n))]
     @ (if hidden n then [(''hidden'', JBool True)] else []))"

text \<open>One entry of the index file; an entry that is no usable one is skipped.\<close>

definition load_entry :: "json \<Rightarrow> json \<Rightarrow> (pystr, nemo) pydict \<Rightarrow> (pystr, nemo) pydict" where
  "load_entry now entry d =
     (case entry of
        JObj e \<Rightarrow>
          (case (obj_get e ''id'', obj_get e ''name'') of
             (JStr i, JStr name) \<Rightarrow>
               if i \<noteq> [] \<and> slugify i \<noteq> i then d
               else AList.update i
                 \<lparr>nemo_id = i, nemo_name = take MAX_NAME_LENGTH name,
                  created_at = py_or (obj_get e ''created_at'') now,
                  protected = (truthy (obj_get e ''protected'') \<or> i = LEGACY_ID),
                  hidden = (i = LEGACY_ID \<and> truthy (obj_get e ''hidden''))\<rparr> d
           | _ \<Rightarrow> d)
      | _ \<Rightarrow> d)"

definition load_entries :: "json \<Rightarrow> json list \<Rightarrow> (pystr, nemo) pydict \<Rightarrow> (pystr, nemo) pydict" where
  "load_entries now entries d = fold (load_entry now) entries d"

text \<open>What \<open>for entry in ...\<close> iterates over.\<close>

definition iterate :: "json \<Rightarrow> registry_error + json list" where
  "iterate v =
     (case v of
        JList xs \<Rightarrow> Inr xs
      | JStr s \<Rightarrow> Inr (map (\<lambda>c. JStr [c]) s)
      | JObj kvs \<Rightarrow> Inr (map (\<lambda>kv. JStr (fst kv)) kvs)
      | _ \<Rightarrow> Inl TypeError)"

definition is_file :: "json_file \<Rightarrow> bool" where
  "is_file f \<longleftrightarrow> f \<noteq> NoFile"

definition base_con_datos :: "registry \<Rightarrow> bool" where
  "base_con_datos r =
     (case doc_status_file r of
        NoFile \<Rightarrow> False
      | UnreadableFile \<Rightarrow> True
      | JsonFile v \<Rightarrow> truthy v)"

definition ensure_legacy :: "json \<Rightarrow> bool \<Rightarrow> registry \<Rightarrow> registry" where
  "ensure_legacy now oculta r =
     (let r1 = (if has_key (nemos r) LEGACY_ID then r
                else r\<lparr>nemos := AList.update LEGACY_ID
                       \<lparr>nemo_id = LEGACY_ID, nemo_name = LEGACY_NAME, created_at = now,
                        protected = True, hidden = oculta\<rparr> (nemos r)\<rparr>)
      in if has_key (nemos r1) (default_id r1) then r1 else r1\<lparr>default_id := LEGACY_ID\<rparr>)"

definition load :: "json \<Rightarrow> registry \<Rightarrow> (registry_error + unit) \<times> registry" where
  "load now r0 =
     (let r = r0\<lparr>nemos := [], default_id := LEGACY_ID\<rparr>;
          raw = (case index_file r of JsonFile v \<Rightarrow> v | _ \<Rightarrow> JNull);
          nuevo = (\<not> is_file (index_file r) \<and> \<not> base_con_datos r)
      in if truthy raw
         then (case raw of
                 JObj fs \<Rightarrow>
                   (case iterate (py_or (obj_get fs ''nemos'') (JList [])) of
                      Inl e \<Rightarrow> (Inl e, r)
                    | Inr es \<Rightarrow>
                        let r1 = r\<lparr>nemos := load_entries now es (nemos r)\<rparr>;
                            stored = obj_get_or fs ''default'' (JStr LEGACY_ID);
                            r2 = (case stored of
                                    JStr d \<Rightarrow> if has_key (nemos r1) d then r1\<lparr>default_id := d\<rparr> else r1
                                  | _ \<Rightarrow> r1)
                        in (Inr (), ensure_legacy now nuevo r2))
               | _ \<Rightarrow> (Inl AttributeError, r))
         else (Inr (), ensure_legacy now nuevo r))"

subsection \<open>Queries\<close>

definition todas :: "registry \<Rightarrow> nemo list" where
  "todas r =
     (let others = sort_key (\<lambda>n. lower (nemo_name n)) (filter (\<lambda>n. nemo_id n \<noteq> LEGACY_ID) (values (nemos r)))
      in (case map_of (nemos r) LEGACY_ID of None \<Rightarrow> [] | Some b \<Rightarrow> [b]) @ others)"

definition ordered :: "registry \<Rightarrow> nemo list" where
  "ordered r = filter (\<lambda>n. \<not> hidden n) (todas r)"

definition get :: "pystr \<Rightarrow> registry \<Rightarrow> nemo option" where
  "get i r = map_of (nemos r) (if i = [] then LEGACY_ID else i)"

definition default_visible :: "registry \<Rightarrow> registry" where
  "default_visible r =
     (case map_of (nemos r) (default_id r) of
        Some actual \<Rightarrow> if \<not> hidden actual then r
                       else r\<lparr>default_id := (case ordered r of [] \<Rightarrow> LEGACY_ID | v # _ \<Rightarrow> nemo_id v)\<rparr>
      | None \<Rightarrow> r\<lparr>default_id := (case ordered r of [] \<Rightarrow> LEGACY_ID | v # _ \<Rightarrow> nemo_id v)\<rparr>)"

text \<open>\<open>None\<close> is the absence of the header.\<close>

definition resolve :: "pystr option \<Rightarrow> registry \<Rightarrow> registry_error + pystr" where
  "resolve requested r =
     (case requested of
        None \<Rightarrow> Inr (default_id r)
      | Some q \<Rightarrow>
          if q = [] then Inr (default_id r)
          else let candidate = slugify q in
            if has_key (nemos r) candidate then Inr candidate
            else (case find (\<lambda>n. lower (nemo_name n) = lower (strip q)) (values (nemos r)) of
                    Some n \<Rightarrow> Inr (nemo_id n)
                  | None \<Rightarrow> Inl UnknownNemo))"

subsection \<open>Changes\<close>

definition index_payload :: "registry \<Rightarrow> json" where
  "index_payload r = JObj [(''version'', JNum REGISTRY_VERSION), (''default'', JStr (default_id r)),
     (''nemos'', JList (map to_payload (todas r)))]"

definition save :: "bool \<Rightarrow> registry \<Rightarrow> (registry_error + unit) \<times> registry" where
  "save io_ok r =
     (if io_ok then (Inr (), r\<lparr>index_file := JsonFile (index_payload r)\<rparr>) else (Inl OSError, r))"

text \<open>\<open>self.save(); return x\<close>.\<close>

definition save_and_return :: "bool \<Rightarrow> 'a \<Rightarrow> registry \<Rightarrow> (registry_error + 'a) \<times> registry" where
  "save_and_return io_ok x r =
     (case save io_ok r of (Inl e, r1) \<Rightarrow> (Inl e, r1) | (Inr _, r1) \<Rightarrow> (Inr x, r1))"

definition create :: "bool \<Rightarrow> json \<Rightarrow> pystr \<Rightarrow> registry \<Rightarrow> (registry_error + nemo) \<times> registry" where
  "create io_ok now name r =
     (let clean_name = strip name; i = slugify clean_name in
      if clean_name = [] then (Inl NeedsName, r)
      else if MAX_NAME_LENGTH < length clean_name then (Inl NameTooLong, r)
      else if i = [] then (Inl NoUsableCharacters, r)
      else if \<not> validate_workspace i then (Inl NameNotAdmitted, r)
      else if list_ex (\<lambda>n. \<not> hidden n \<and> lower (strip (nemo_name n)) = lower clean_name) (values (nemos r))
           then (Inl NameTaken, r)
      else if list_ex (\<lambda>n. lower (nemo_id n) = lower i) (values (nemos r)) then (Inl FolderTaken, r)
      else let n = \<lparr>nemo_id = i, nemo_name = clean_name, created_at = now, protected = False, hidden = False\<rparr>
           in save_and_return io_ok n (default_visible (r\<lparr>nemos := AList.update i n (nemos r)\<rparr>)))"

definition ensure ::
    "bool \<Rightarrow> json \<Rightarrow> pystr \<Rightarrow> pystr option \<Rightarrow> bool \<Rightarrow> registry \<Rightarrow> (registry_error + nemo) \<times> registry" where
  "ensure io_ok now i name dflt r =
     (if i \<noteq> [] \<and> slugify i \<noteq> i then (Inl InvalidId, r)
      else let nm = (case name of Some s \<Rightarrow> if s \<noteq> [] then s else if i \<noteq> [] then i else LEGACY_NAME
                                | None \<Rightarrow> if i \<noteq> [] then i else LEGACY_NAME);
               fresh = \<lparr>nemo_id = i, nemo_name = take MAX_NAME_LENGTH nm, created_at = now,
                        protected = (i = LEGACY_ID), hidden = False\<rparr>;
               n = (case map_of (nemos r) i of None \<Rightarrow> fresh | Some x \<Rightarrow> x);
               r1 = (case map_of (nemos r) i of
                       None \<Rightarrow> r\<lparr>nemos := AList.update i fresh (nemos r)\<rparr> | Some _ \<Rightarrow> r);
               r2 = (if dflt then r1\<lparr>default_id := i\<rparr> else r1)
           in save_and_return io_ok n (default_visible r2))"

definition rename :: "bool \<Rightarrow> json \<Rightarrow> pystr \<Rightarrow> pystr \<Rightarrow> registry \<Rightarrow> (registry_error + nemo) \<times> registry" where
  "rename io_ok now i new_name r =
     (let clean_name = strip new_name in
      if clean_name = [] then (Inl NeedsName, r)
      else if MAX_NAME_LENGTH < length clean_name then (Inl NameTooLong, r)
      else (case map_of (nemos r) i of
          None \<Rightarrow> (Inl UnknownNemo, r)
        | Some n \<Rightarrow>
            if list_ex (\<lambda>x. nemo_id x \<noteq> i \<and> \<not> hidden x \<and> lower (strip (nemo_name x)) = lower clean_name)
                 (values (nemos r))
            then (Inl NameTaken, r)
            else let renamed = \<lparr>nemo_id = nemo_id n, nemo_name = clean_name,
                                created_at = (if hidden n then now else created_at n),
                                protected = protected n, hidden = False\<rparr>
                 in save_and_return io_ok renamed (r\<lparr>nemos := AList.update i renamed (nemos r)\<rparr>)))"

definition delete :: "bool \<Rightarrow> pystr \<Rightarrow> registry \<Rightarrow> (registry_error + nemo) \<times> registry" where
  "delete io_ok i r =
     (case map_of (nemos r) i of
        None \<Rightarrow> (Inl UnknownNemo, r)
      | Some n \<Rightarrow>
          if hidden n then (Inl UnknownNemo, r)
          else let r1 = (if i = LEGACY_ID
                         then r\<lparr>nemos := AList.update LEGACY_ID
                                \<lparr>nemo_id = LEGACY_ID, nemo_name = LEGACY_NAME, created_at = created_at n,
                                 protected = True, hidden = True\<rparr> (nemos r)\<rparr>
                         else r\<lparr>nemos := AList.delete i (nemos r)\<rparr>);
                   r2 = (if default_id r1 = i then r1\<lparr>default_id := LEGACY_ID\<rparr> else r1)
               in save_and_return io_ok n (default_visible r2))"

definition set_default :: "bool \<Rightarrow> pystr \<Rightarrow> registry \<Rightarrow> (registry_error + unit) \<times> registry" where
  "set_default io_ok i r =
     (if has_key (nemos r) i then save io_ok (r\<lparr>default_id := i\<rparr>) else (Inl UnknownNemo, r))"

definition list_payload :: "registry \<Rightarrow> json" where
  "list_payload r = JObj [(''default'', JStr (default_id r)), (''nemos'', JList (map to_payload (ordered r)))]"

end
