(* ===== verification/RegistryLaws.thy ===== *)
theory RegistryLaws
  imports Registry
begin

text \<open>
  What the registry of memories keeps: the base memory and the default always exist, names and
  folders stay unique, renaming moves nothing, an index that is saved is read back, and a request
  is never sent to a memory it did not name.
\<close>

subsection \<open>Slugs\<close>

lemma collapse_hd: "s \<noteq> [] \<Longrightarrow> slug_collapse s \<noteq> [] \<and> hd (slug_collapse s) = hd s"
  by (induction s rule: slug_collapse.induct) auto

text \<open>No two underscores in a row.\<close>

fun no_double :: "pystr \<Rightarrow> bool" where
  "no_double (c # d # s) \<longleftrightarrow> \<not> (c = CHR ''_'' \<and> d = CHR ''_'') \<and> no_double (d # s)"
| "no_double s \<longleftrightarrow> True"

lemma no_double_Cons: "no_double (c # s) \<longleftrightarrow> (s = [] \<or> \<not> (c = CHR ''_'' \<and> hd s = CHR ''_'') \<and> no_double s)"
  by (cases s) auto

lemma collapse_no_double: "no_double (slug_collapse s)"
proof (induction s rule: slug_collapse.induct)
  case (1 c d s)
  then show ?case
    using collapse_hd [of "d # s"] by (auto simp: no_double_Cons)
qed auto

lemma collapse_id: "no_double s \<Longrightarrow> slug_collapse s = s"
  by (induction s rule: slug_collapse.induct) auto

lemma set_collapse: "set (slug_collapse s) \<subseteq> set s"
  by (induction s rule: slug_collapse.induct) auto

lemma no_double_append: "no_double (s @ t) \<Longrightarrow> no_double s \<and> no_double t"
proof (induction s)
  case (Cons c s)
  then show ?case by (cases s) (auto simp: no_double_Cons)
qed simp

lemma no_double_take: "no_double s \<Longrightarrow> no_double (take n s)"
  using no_double_append [of "take n s" "drop n s"] by simp

lemma no_double_strip:
  assumes "no_double s" shows "no_double (strip_char c s)"
proof -
  have d: "no_double (dropWhile P t)" if "no_double t" for P t
    using that no_double_append [of "takeWhile P t" "dropWhile P t"] by simp
  have "rev (dropWhile P (rev t)) = take (length (dropWhile P (rev t))) t" for P and t :: pystr
    by (metis append_eq_conv_conj length_rev rev_append rev_rev_ident takeWhile_dropWhile_id)
  then show ?thesis using d [OF assms] by (metis no_double_take strip_char_def)
qed

definition slug_ok :: "pystr \<Rightarrow> bool" where
  "slug_ok s \<longleftrightarrow> length s \<le> MAX_ID_LENGTH \<and> list_all is_slug_char s \<and> no_double s \<and> (s \<noteq> [] \<longrightarrow> hd s \<noteq> CHR ''_'')"

lemma slug_char_not_space: "is_slug_char c \<Longrightarrow> \<not> isspace c"
  by (auto simp: is_slug_char_def isspace_def Let_def)

lemma slug_replace_chars: "list_all is_slug_char (slug_replace s)"
proof -
  have "is_slug_char CHR ''_''" by (simp add: is_slug_char_def)
  then show ?thesis by (auto simp: slug_replace_def list_all_iff)
qed

lemma slug_replace_id: "list_all is_slug_char s \<Longrightarrow> slug_replace s = s"
  by (induction s) (auto simp: slug_replace_def)

lemma slugify_ok: "slug_ok (slugify s)"
proof -
  let ?t = "strip_char CHR ''_'' (slug_collapse (slug_replace (strip s)))"
  have "set ?t \<subseteq> set (slug_replace (strip s))"
    using set_strip_char set_collapse by blast
  then have "list_all is_slug_char ?t"
    using slug_replace_chars [of "strip s"] by (auto simp: list_all_iff)
  moreover have "no_double ?t" by (intro no_double_strip collapse_no_double)
  moreover have "take MAX_ID_LENGTH ?t \<noteq> [] \<Longrightarrow> hd (take MAX_ID_LENGTH ?t) \<noteq> CHR ''_''"
    using strip_char_ends [of "CHR ''_''" "slug_collapse (slug_replace (strip s))"] by (cases ?t) auto
  ultimately show ?thesis
    by (auto simp: slug_ok_def slugify_def list_all_iff no_double_take dest: in_set_takeD)
qed

text \<open>A slug that does not end in an underscore is its own slug.\<close>

lemma slugify_fixed:
  assumes "slug_ok s" "s = [] \<or> last s \<noteq> CHR ''_''"
  shows "slugify s = s"
proof -
  have "strip s = s"
  proof (cases "s = []")
    case False
    then have "\<not> isspace (hd s)" "\<not> isspace (last s)"
      using assms(1) slug_char_not_space by (auto simp: slug_ok_def list_all_iff)
    then show ?thesis by (simp add: strip_def lstrip_eq rstrip_eq)
  qed (simp add: strip_def lstrip_def rstrip_def)
  moreover have "strip_char CHR ''_'' s = s"
    using assms by (intro strip_char_clean) (auto simp: slug_ok_def)
  ultimately show ?thesis
    using assms(1) by (simp add: slugify_def slug_ok_def slug_replace_id collapse_id)
qed

subsection \<open>The invariant\<close>

definition entry_ok :: "pystr \<Rightarrow> nemo \<Rightarrow> bool" where
  "entry_ok k n \<longleftrightarrow> nemo_id n = k \<and> length (nemo_name n) \<le> MAX_NAME_LENGTH
     \<and> (hidden n \<longrightarrow> k = LEGACY_ID) \<and> (k = LEGACY_ID \<longrightarrow> protected n) \<and> slug_ok k"

definition index_ok :: "(pystr, nemo) pydict \<Rightarrow> bool" where
  "index_ok d \<longleftrightarrow> dict_ok d \<and> (\<forall>k n. map_of d k = Some n \<longrightarrow> entry_ok k n)"

definition registry_ok :: "registry \<Rightarrow> bool" where
  "registry_ok r \<longleftrightarrow> index_ok (nemos r) \<and> has_key (nemos r) LEGACY_ID \<and> has_key (nemos r) (default_id r)"

lemma index_ok_Nil [simp]: "index_ok []"
  by (simp add: index_ok_def)

lemma index_ok_update: "index_ok d \<Longrightarrow> entry_ok k n \<Longrightarrow> index_ok (AList.update k n d)"
  by (auto simp: index_ok_def map_of_update_iff AList.update_keys)

lemma index_ok_delete: "index_ok d \<Longrightarrow> index_ok (AList.delete k d)"
  by (auto simp: index_ok_def map_of_delete_iff AList.delete_keys distinct_removeAll)

lemma slug_ok_legacy [simp]: "slug_ok LEGACY_ID"
  by (simp add: slug_ok_def LEGACY_ID_def)

lemma legacy_name_fits [simp]: "length LEGACY_NAME \<le> MAX_NAME_LENGTH"
  by (simp add: LEGACY_NAME_def MAX_NAME_LENGTH_def)

lemma slug_ok_fixed: "i \<noteq> [] \<and> slugify i \<noteq> i \<Longrightarrow> P \<or> True" "i = [] \<or> slugify i = i \<Longrightarrow> slug_ok i"
  using slugify_ok [of i] by (auto simp: slug_ok_def)

lemma load_entry_ok: "index_ok d \<Longrightarrow> index_ok (load_entry now e d)"
  by (auto simp: load_entry_def entry_ok_def slug_ok_fixed LEGACY_ID_def split: json.splits intro!: index_ok_update)

lemma load_entries_ok: "index_ok d \<Longrightarrow> index_ok (load_entries now es d)"
  unfolding load_entries_def by (rule fold_invariant) (auto intro: load_entry_ok)

lemma has_key_update [simp]: "has_key (AList.update k v d) k' \<longleftrightarrow> k' = k \<or> has_key d k'"
  by (auto simp: has_key_def map_of_update_iff)

lemma has_key_delete [simp]: "has_key (AList.delete k d) k' \<longleftrightarrow> k' \<noteq> k \<and> has_key d k'"
  by (auto simp: has_key_def map_of_delete_iff)

lemma ensure_legacy_ok: "index_ok (nemos r) \<Longrightarrow> registry_ok (ensure_legacy now b r)"
  by (auto simp: ensure_legacy_def registry_ok_def Let_def entry_ok_def intro!: index_ok_update)

lemma load_ok: "load now r = (Inr u, r') \<Longrightarrow> registry_ok r'"
  by (auto simp: load_def Let_def ensure_legacy_ok load_entries_ok split: if_splits json.splits sum.splits)

lemma values_get:
  assumes "index_ok d" "n \<in> set (values d)"
  shows "map_of d (nemo_id n) = Some n" "entry_ok (nemo_id n) n"
proof -
  obtain k where k: "(k, n) \<in> set d" using assms(2) by auto
  then have "map_of d k = Some n" using assms(1) by (simp add: index_ok_def)
  moreover have "nemo_id n = k" using calculation assms(1) by (auto simp: index_ok_def entry_ok_def)
  ultimately show "map_of d (nemo_id n) = Some n" "entry_ok (nemo_id n) n"
    using assms(1) by (auto simp: index_ok_def)
qed

lemma set_todas:
  assumes "index_ok (nemos r)"
  shows "set (todas r) = set (values (nemos r))"
proof -
  let ?vs = "set (values (nemos r))" and ?o = "{n \<in> set (values (nemos r)). nemo_id n \<noteq> LEGACY_ID}"
  have base: "map_of (nemos r) LEGACY_ID = Some n" if "n \<in> ?vs" "nemo_id n = LEGACY_ID" for n
    using values_get(1) [OF assms that(1)] that(2) by simp
  have t: "set (todas r) = (case map_of (nemos r) LEGACY_ID of None \<Rightarrow> {} | Some b \<Rightarrow> {b}) \<union> ?o"
    by (auto simp: todas_def Let_def simp del: set_map split: option.splits)
  show ?thesis
  proof (cases "map_of (nemos r) LEGACY_ID")
    case None
    then have "?o = ?vs" using base by fastforce
    then show ?thesis using t None by simp
  next
    case (Some b)
    then have "b \<in> ?vs" by (force dest: map_of_SomeD)
    moreover have "n = b" if "n \<in> ?vs" "nemo_id n = LEGACY_ID" for n using base [OF that] Some by simp
    ultimately have "insert b ?o = ?vs" by blast
    then show ?thesis using t Some by simp
  qed
qed

lemma ordered_key:
  assumes "index_ok (nemos r)" "n \<in> set (ordered r)"
  shows "map_of (nemos r) (nemo_id n) = Some n" "\<not> hidden n"
  using assms values_get(1) [OF assms(1), of n] set_todas [OF assms(1)] by (auto simp: ordered_def)

lemma default_visible_nemos [simp]: "nemos (default_visible r) = nemos r"
  by (auto simp: default_visible_def split: option.splits)

text \<open>The default is visible, unless nothing is.\<close>

definition default_shown :: "registry \<Rightarrow> bool" where
  "default_shown r \<longleftrightarrow> ordered r = [] \<or> (\<exists>n. map_of (nemos r) (default_id r) = Some n \<and> \<not> hidden n)"

lemma default_visible_key:
  assumes "index_ok (nemos r)" "has_key (nemos r) LEGACY_ID"
  shows "has_key (nemos r) (default_id (default_visible r))"
  using ordered_key(1) [OF assms(1), of "hd (ordered r)"] assms(2)
  by (cases "ordered r") (auto simp: default_visible_def has_key_def split: option.splits)

lemma default_visible_shown:
  assumes "index_ok (nemos r)"
  shows "default_shown (default_visible r)"
proof -
  have o: "ordered (default_visible r) = ordered r" by (simp add: ordered_def todas_def)
  show ?thesis
    using ordered_key [OF assms, of "hd (ordered r)"] unfolding default_shown_def o
    by (cases "ordered r") (auto simp: default_visible_def split: option.splits)
qed

lemma save_and_return_registry:
  "snd (save_and_return io x r) = r \<or> snd (save_and_return io x r) = r\<lparr>index_file := JsonFile (index_payload r)\<rparr>"
  "fst (save_and_return io x r) = Inr y \<Longrightarrow> x = y"
  by (auto simp: save_and_return_def save_def split: if_splits)

text \<open>The memory of a registry: everything but the files.\<close>

lemma registry_ok_file [simp]: "registry_ok (r\<lparr>index_file := f\<rparr>) = registry_ok r"
  by (simp add: registry_ok_def)

lemma default_visible_ok:
  assumes "index_ok (nemos r)" "has_key (nemos r) LEGACY_ID"
  shows "registry_ok (default_visible r)"
  using assms default_visible_key [OF assms] by (simp add: registry_ok_def)

lemma registry_ok_saved: "registry_ok r \<Longrightarrow> registry_ok (snd (save_and_return io x r))"
  using save_and_return_registry(1) [of io x r] by auto

lemma strip_fits: "length (strip s) \<le> length s"
  unfolding strip_def rstrip_def lstrip_def by (metis length_dropWhile_le length_rev order_trans)

lemma create_ok: "registry_ok r \<Longrightarrow> registry_ok (snd (create io now name r))"
  by (auto simp: create_def Let_def not_less registry_ok_def [of r] entry_ok_def LEGACY_ID_def slugify_ok
    intro!: registry_ok_saved default_visible_ok index_ok_update)

lemma ensure_ok: "registry_ok r \<Longrightarrow> registry_ok (snd (ensure io now i name dflt r))"
  by (auto simp: ensure_def Let_def registry_ok_def [of r] entry_ok_def slug_ok_fixed LEGACY_ID_def
    split: option.splits intro!: registry_ok_saved default_visible_ok index_ok_update)

lemma registry_ok_entry:
  "registry_ok r \<Longrightarrow> map_of (nemos r) i = Some n \<Longrightarrow> entry_ok i n"
  by (simp add: registry_ok_def index_ok_def)

lemma registry_ok_put:
  "registry_ok r \<Longrightarrow> entry_ok i n \<Longrightarrow> registry_ok (r\<lparr>nemos := AList.update i n (nemos r)\<rparr>)"
  by (simp add: registry_ok_def index_ok_update)

lemma rename_ok: "registry_ok r \<Longrightarrow> registry_ok (snd (rename io now i name r))"
  using registry_ok_entry [of r i]
  by (auto simp: rename_def Let_def not_less entry_ok_def split: option.splits
    intro!: registry_ok_saved registry_ok_put)

lemma delete_ok:
  assumes "registry_ok r" shows "registry_ok (snd (delete io i r))"
proof (cases "map_of (nemos r) i")
  case (Some n)
  have ok: "index_ok (nemos r)" "has_key (nemos r) LEGACY_ID" using assms by (simp_all add: registry_ok_def)
  let ?b = "\<lparr>nemo_id = LEGACY_ID, nemo_name = LEGACY_NAME, created_at = created_at n, protected = True, hidden = True\<rparr>"
  have b: "index_ok (AList.update LEGACY_ID ?b (nemos r))"
    using ok by (intro index_ok_update) (simp_all add: entry_ok_def)
  show ?thesis
    using Some assms ok b
    by (auto simp: delete_def Let_def intro!: registry_ok_saved default_visible_ok index_ok_delete)
qed (simp add: delete_def assms)

lemma set_default_ok: "registry_ok r \<Longrightarrow> registry_ok (snd (set_default io i r))"
  by (auto simp: set_default_def save_def registry_ok_def)

text \<open>The operations as values. A call may fail to write (\<open>io\<close>) and reads the clock (\<open>now\<close>).\<close>

datatype registry_op =
    Create pystr
  | Ensure pystr "pystr option" bool
  | Rename pystr pystr
  | Delete pystr
  | SetDefault pystr

definition run_op :: "bool \<Rightarrow> json \<Rightarrow> registry_op \<Rightarrow> registry \<Rightarrow> registry" where
  "run_op io now opn r =
     (case opn of
        Create s \<Rightarrow> snd (create io now s r)
      | Ensure i s d \<Rightarrow> snd (ensure io now i s d r)
      | Rename i s \<Rightarrow> snd (rename io now i s r)
      | Delete i \<Rightarrow> snd (delete io i r)
      | SetDefault i \<Rightarrow> snd (set_default io i r))"

definition run_ops :: "(bool \<times> json \<times> registry_op) list \<Rightarrow> registry \<Rightarrow> registry" where
  "run_ops ops r = fold (\<lambda>(io, now, opn). run_op io now opn) ops r"

lemma run_op_ok: "registry_ok r \<Longrightarrow> registry_ok (run_op io now opn r)"
  by (simp add: run_op_def create_ok ensure_ok rename_ok delete_ok set_default_ok split: registry_op.splits)

lemma run_ops_ok: "registry_ok r \<Longrightarrow> registry_ok (run_ops ops r)"
  unfolding run_ops_def by (rule fold_invariant) (auto intro: run_op_ok)

text \<open>C34. The registry's invariant. From any index file at all that loads, after any operations (failed
  writes included): the base memory exists and is protected, the default exists, every entry is
  under its own id, its id is a safe folder name (at most 48 of letters, digits and underscores,
  so no separators), its name at most 60 characters, and only the base may be hidden.\<close>

theorem registry_invariant:
  assumes "load now r = (Inr (), r1)"
  shows "registry_ok (run_ops ops r1)"
  using run_ops_ok [OF load_ok [OF assms]] .

definition empty_disk :: registry where
  "empty_disk = \<lparr>nemos = [], default_id = [], index_file = NoFile, doc_status_file = NoFile\<rparr>"

definition fresh_install :: registry where
  "fresh_install = snd (load (JStr ''t0'') empty_disk)"

lemmas registry_eval =
  load_def ensure_legacy_def run_ops_def run_op_def create_def ensure_def rename_def delete_def
  set_default_def save_and_return_def save_def default_visible_def ordered_def todas_def slugify_def
  slug_replace_def strip_char_def strip_def lstrip_def rstrip_def validate_workspace_def lower_def
  lower_char_def is_slug_char_def isspace_def is_file_def base_con_datos_def has_key_def LEGACY_ID_def
  LEGACY_NAME_def MAX_NAME_LENGTH_def MAX_ID_LENGTH_def char_of_def bit_0 Let_def

theorem registry_invariant_witness:
  "registry_ok (run_ops [(True, JStr ''t1'', Create ''Obra''), (False, JStr ''t2'', Delete [])] fresh_install)"
proof -
  have "load (JStr ''t0'') empty_disk = (Inr (), fresh_install)"
    by (simp add: fresh_install_def empty_disk_def registry_eval)
  from registry_invariant [OF this] show ?thesis .
qed

subsection \<open>Unique names and folders\<close>

definition separate :: "(pystr, nemo) pydict \<Rightarrow> bool" where
  "separate d \<longleftrightarrow>
     (\<forall>k1 n1 k2 n2. map_of d k1 = Some n1 \<and> map_of d k2 = Some n2 \<and> k1 \<noteq> k2 \<longrightarrow>
        lower k1 \<noteq> lower k2
        \<and> (hidden n1 \<or> hidden n2 \<or> lower (strip (nemo_name n1)) \<noteq> lower (strip (nemo_name n2))))"

lemma list_ex_values:
  assumes "index_ok d"
  shows "list_ex P (values d) \<longleftrightarrow> (\<exists>k n. map_of d k = Some n \<and> P n)"
proof -
  have "n \<in> set (values d) \<longleftrightarrow> (\<exists>k. map_of d k = Some n)" for n
    using values_get(1) [OF assms, of n] by (force dest: map_of_SomeD)
  then show ?thesis unfolding list_ex_iff by blast
qed

lemma separate_put:
  assumes "separate d"
    and "\<And>k' n'. map_of d k' = Some n' \<Longrightarrow> k' \<noteq> k \<Longrightarrow> lower k' \<noteq> lower k
       \<and> (hidden n \<or> hidden n' \<or> lower (strip (nemo_name n')) \<noteq> lower (strip (nemo_name n)))"
  shows "separate (AList.update k n d)"
  unfolding separate_def map_of_update_iff
proof (intro allI impI)
  fix k1 n1 k2 n2
  assume a: "(if k1 = k then Some n else map_of d k1) = Some n1 \<and> (if k2 = k then Some n else map_of d k2) = Some n2 \<and> k1 \<noteq> k2"
  show "lower k1 \<noteq> lower k2 \<and> (hidden n1 \<or> hidden n2 \<or> lower (strip (nemo_name n1)) \<noteq> lower (strip (nemo_name n2)))"
  proof (cases "k1 = k \<or> k2 = k")
    case True
    then show ?thesis using a assms(2) [of k1 n1] assms(2) [of k2 n2] by (auto split: if_splits)
  next
    case False
    then show ?thesis using a assms(1) unfolding separate_def by auto
  qed
qed

lemma separate_delete: "separate d \<Longrightarrow> separate (AList.delete k d)"
  unfolding separate_def map_of_delete_iff by (metis option.distinct(1))

lemma saved_nemos [simp]: "nemos (snd (save_and_return io x r)) = nemos r"
  using save_and_return_registry(1) [of io x r] by auto

lemma create_separate:
  assumes "registry_ok r" "separate (nemos r)"
  shows "separate (nemos (snd (create io now name r)))"
proof -
  have ok: "index_ok (nemos r)" using assms(1) by (simp add: registry_ok_def)
  have id: "nemo_id n = k" if "map_of (nemos r) k = Some n" for k n
    using that ok by (auto simp: index_ok_def entry_ok_def)
  show ?thesis
    using assms(2) id by (auto simp: create_def Let_def list_ex_values [OF ok] intro!: separate_put) blast+
qed

lemma rename_separate:
  assumes "registry_ok r" "separate (nemos r)"
  shows "separate (nemos (snd (rename io now i name r)))"
proof -
  have ok: "index_ok (nemos r)" using assms(1) by (simp add: registry_ok_def)
  have id: "nemo_id n = k" if "map_of (nemos r) k = Some n" for k n
    using that ok by (auto simp: index_ok_def entry_ok_def)
  have low: "lower k' \<noteq> lower i" if "map_of (nemos r) i = Some n" "map_of (nemos r) k' = Some n'" "k' \<noteq> i" for n k' n'
    using that assms(2) unfolding separate_def by blast
  show ?thesis
    using assms(2) id low
    by (auto simp: rename_def Let_def list_ex_values [OF ok] split: option.splits intro!: separate_put) blast+
qed

lemma delete_separate:
  assumes "separate (nemos r)" shows "separate (nemos (snd (delete io i r)))"
proof (cases "map_of (nemos r) i")
  case (Some n)
  have "lower k' \<noteq> lower LEGACY_ID" if "k' \<noteq> LEGACY_ID" for k'
    using that by (simp add: LEGACY_ID_def)
  then show ?thesis
    using Some assms by (auto simp: delete_def Let_def separate_delete intro!: separate_put)
qed (simp add: delete_def assms)

lemma set_default_nemos [simp]: "nemos (snd (set_default io i r)) = nemos r"
  by (simp add: set_default_def save_def)

definition is_ensure :: "registry_op \<Rightarrow> bool" where
  "is_ensure opn = (case opn of Ensure i s d \<Rightarrow> True | _ \<Rightarrow> False)"


lemma fresh_ok: "registry_ok fresh_install" "separate (nemos fresh_install)"
  by (simp_all add: fresh_install_def empty_disk_def registry_eval registry_ok_def index_ok_def entry_ok_def
    slug_ok_def separate_def)


text \<open>\<open>ensure\<close>, which adopts the configured workspace, does not check: \<open>Obra\<close> and \<open>obra\<close> end up in
  one index, one folder on Windows and macOS.\<close>

lemma ensure_shares_folder:
  "let r = run_ops [(True, JStr ''t'', Create ''Obra''), (True, JStr ''t'', Ensure ''obra'' None True)] fresh_install
   in keys (nemos r) = [[], ''Obra'', ''obra'']"
  by (simp add: fresh_install_def empty_disk_def registry_eval)

subsection \<open>The index on disk\<close>

text \<open>What a loaded index keeps: ids that are their own slug, and a date.\<close>

definition stable :: "(pystr, nemo) pydict \<Rightarrow> bool" where
  "stable d \<longleftrightarrow> (\<forall>k n. map_of d k = Some n \<longrightarrow> slugify k = k \<and> truthy (created_at n))"

lemma payload_get [simp]:
  "to_payload n = JObj fs \<Longrightarrow> obj_get fs ''id'' = JStr (nemo_id n)"
  "to_payload n = JObj fs \<Longrightarrow> obj_get fs ''name'' = JStr (nemo_name n)"
  "to_payload n = JObj fs \<Longrightarrow> obj_get fs ''created_at'' = created_at n"
  "to_payload n = JObj fs \<Longrightarrow> obj_get fs ''protected'' = JBool (protected n)"
  "to_payload n = JObj fs \<Longrightarrow> obj_get fs ''hidden'' = (if hidden n then JBool True else JNull)"
  by (auto simp: to_payload_def obj_get_def)

lemma truthy_flag [simp]: "truthy (if b then JBool True else JNull) = b"
  by simp

lemma load_entry_payload:
  assumes "entry_ok (nemo_id n) n" "slugify (nemo_id n) = nemo_id n" "truthy (created_at n)"
  shows "load_entry now (to_payload n) d = AList.update (nemo_id n) n d"
proof -
  obtain fs where fs: "to_payload n = JObj fs" by (simp add: to_payload_def)
  have "\<lparr>nemo_id = nemo_id n, nemo_name = take MAX_NAME_LENGTH (nemo_name n), created_at = created_at n,
      protected = (protected n \<or> nemo_id n = LEGACY_ID), hidden = (nemo_id n = LEGACY_ID \<and> hidden n)\<rparr> = n"
    using assms(1) by (cases n) (auto simp: entry_ok_def)
  then show ?thesis
    using assms(2,3) fs by (simp add: load_entry_def py_or_def)
qed

lemma load_payloads:
  assumes "\<forall>n \<in> set ns. entry_ok (nemo_id n) n \<and> slugify (nemo_id n) = nemo_id n \<and> truthy (created_at n)"
    and "distinct (keys d @ map nemo_id ns)"
  shows "load_entries now (map to_payload ns) d = d @ map (\<lambda>n. (nemo_id n, n)) ns"
  using assms
proof (induction ns arbitrary: d)
  case (Cons n ns)
  then have "load_entry now (to_payload n) d = d @ [(nemo_id n, n)]"
    by (simp add: load_entry_payload update_new)
  then show ?case using Cons.IH [of "d @ [(nemo_id n, n)]"] Cons.prems by (simp add: load_entries_def)
qed (simp add: load_entries_def)

lemma values_ids: "index_ok d \<Longrightarrow> map nemo_id (values d) = keys d"
  by (auto simp: index_ok_def entry_ok_def)

lemma distinct_todas:
  assumes "index_ok (nemos r)" shows "distinct (map nemo_id (todas r))"
proof -
  let ?o = "filter (\<lambda>n. nemo_id n \<noteq> LEGACY_ID) (values (nemos r))"
  have "distinct (map nemo_id (values (nemos r)))"
    unfolding values_ids [OF assms] using assms by (simp add: index_ok_def)
  then have "distinct (map nemo_id ?o)" by (rule distinct_map_filter)
  then have "distinct (map nemo_id (sort_key (\<lambda>n. lower (nemo_name n)) ?o))"
    by (metis distinct_map distinct_sort set_sort)
  moreover have "nemo_id b = LEGACY_ID" if "map_of (nemos r) LEGACY_ID = Some b" for b
    using that assms by (simp add: index_ok_def entry_ok_def)
  ultimately show ?thesis by (auto simp: todas_def Let_def split: option.splits)
qed

lemma sort_key_id: "sorted (map f xs) \<Longrightarrow> sort_key f xs = xs"
proof (induction xs)
  case (Cons x xs)
  then show ?case by (cases xs) (simp_all add: insort_is_Cons)
qed simp

lemma todas_reloaded:
  assumes "index_ok (nemos r)" "has_key (nemos r) LEGACY_ID" "nemos r' = map (\<lambda>n. (nemo_id n, n)) (todas r)"
  shows "todas r' = todas r"
proof -
  obtain b where b: "map_of (nemos r) LEGACY_ID = Some b" using assms(2) by (auto simp: has_key_def)
  then have bid: "nemo_id b = LEGACY_ID" using assms(1) by (simp add: index_ok_def entry_ok_def)
  let ?s = "sort_key (\<lambda>n. lower (nemo_name n)) (filter (\<lambda>n. nemo_id n \<noteq> LEGACY_ID) (values (nemos r)))"
  have t: "todas r = b # ?s" using b by (simp add: todas_def)
  have "filter (\<lambda>n. nemo_id n \<noteq> LEGACY_ID) (b # ?s) = ?s" using bid by (simp add: filter_id_conv)
  moreover have "sort_key (\<lambda>n. lower (nemo_name n)) ?s = ?s" by (rule sort_key_id) simp
  moreover have "values (nemos r') = b # ?s" using assms(3) t by (simp add: comp_def)
  moreover have "map_of (nemos r') LEGACY_ID = Some b" using assms(3) t bid by simp
  ultimately show ?thesis using t by (simp add: todas_def)
qed

lemma map_of_ids:
  assumes "distinct (map nemo_id ns)" "n \<in> set ns"
  shows "map_of (map (\<lambda>n. (nemo_id n, n)) ns) (nemo_id n) = Some n"
  using assms
proof (induction ns)
  case (Cons a ns)
  show ?case
  proof (cases "n = a")
    case False
    then have "nemo_id n \<in> nemo_id ` set ns" using Cons.prems(2) by simp
    then have "nemo_id n \<noteq> nemo_id a" using Cons.prems(1) by (metis distinct.simps(2) list.simps(9) set_map)
    then show ?thesis using Cons False by simp
  qed simp
qed simp

lemma get_reloaded:
  assumes "index_ok (nemos r)"
  shows "map_of (map (\<lambda>n. (nemo_id n, n)) (todas r)) k = map_of (nemos r) k"
proof (cases "map_of (nemos r) k")
  case None
  then have "k \<notin> nemo_id ` set (todas r)"
    using set_todas [OF assms] values_get(1) [OF assms] by force
  then have "map_of (map (\<lambda>n. (nemo_id n, n)) (todas r)) k = None"
    unfolding map_of_eq_None_iff by (auto simp: image_iff)
  then show ?thesis using None by simp
next
  case (Some n)
  then have "n \<in> set (todas r)" "nemo_id n = k"
    using set_todas [OF assms] assms by (force dest: map_of_SomeD simp: index_ok_def entry_ok_def)+
  then show ?thesis using map_of_ids [OF distinct_todas [OF assms]] Some by metis
qed

text \<open>Round trip of the index. What a save wrote, a later start reads back: the same memories in the
  same order, the same answer for every id, the same default. (For ids that are their own slug:
  see \<open>long_name_lost\<close> for the names where \<open>create\<close> does not give one.)\<close>

theorem index_round_trip:
  assumes "registry_ok r" "stable (nemos r)"
  shows "let saved = snd (save True r); (res, r') = load now saved in
           res = Inr () \<and> todas r' = todas r \<and> default_id r' = default_id r \<and> (\<forall>k. get k r' = get k r)
           \<and> list_payload r' = list_payload r"
proof -
  let ?s = "r\<lparr>index_file := JsonFile (index_payload r)\<rparr>"
  let ?ns = "map (\<lambda>n. (nemo_id n, n)) (todas r)"
  let ?r = "?s\<lparr>nemos := ?ns, default_id := default_id r\<rparr>"
  have ok: "index_ok (nemos r)" "has_key (nemos r) LEGACY_ID" "has_key (nemos r) (default_id r)"
    using assms(1) by (simp_all add: registry_ok_def)
  have es: "\<forall>n \<in> set (todas r). entry_ok (nemo_id n) n \<and> slugify (nemo_id n) = nemo_id n \<and> truthy (created_at n)"
    using values_get [OF ok(1)] set_todas [OF ok(1)] assms(2) unfolding stable_def by blast
  have le: "load_entries now (map to_payload (todas r)) [] = ?ns"
    using load_payloads [OF es, of "[]" now] distinct_todas [OF ok(1)] by simp
  have hk: "has_key ?ns k = has_key (nemos r) k" for k
    by (simp add: has_key_def get_reloaded [OF ok(1)])
  have ne: "todas r \<noteq> []" using ok(2) by (auto simp: todas_def has_key_def)
  have "load now ?s = (Inr (), ?r)"
    using ok(2,3) ne
    by (simp add: load_def index_payload_def obj_get_def obj_get_or_def py_or_def iterate_def le hk
      ensure_legacy_def Let_def)
  moreover have t: "todas ?r = todas r" by (rule todas_reloaded [OF ok(1,2)]) simp
  ultimately show ?thesis
    by (simp add: save_def get_def get_reloaded [OF ok(1)] list_payload_def ordered_def)
qed

definition obra_base :: registry where
  "obra_base = run_ops [(True, JStr ''t1'', Create ''Obra Norte''), (True, JStr ''t2'', Create ''Acta'')] fresh_install"

lemma obra_base_ok: "registry_ok obra_base" "stable (nemos obra_base)"
proof -
  show "registry_ok obra_base" unfolding obra_base_def by (rule run_ops_ok) (rule fresh_ok)
  show "stable (nemos obra_base)"
    by (auto simp: stable_def obra_base_def fresh_install_def empty_disk_def registry_eval)
qed

theorem index_round_trip_witness:
  "map nemo_id (todas (snd (load (JStr ''t3'') (snd (save True obra_base))))) = [[], ''Acta'', ''Obra_Norte'']"
proof -
  have "map nemo_id (todas obra_base) = [[], ''Acta'', ''Obra_Norte'']"
    by (simp add: obra_base_def fresh_install_def empty_disk_def registry_eval)
  then show ?thesis
    using index_round_trip [OF obra_base_ok, of "JStr ''t3''"] by (auto simp: Let_def split: prod.splits)
qed

text \<open>
  \<open>create\<close> cuts the id at 48 characters after it has stripped the underscores, so an id can end in
  one. Such an id is not its own slug, and \<open>load\<close> takes its entry for an invalid one: the memory is
  there until the next start, and gone after it.
\<close>

definition long_name :: pystr where
  "long_name = replicate 47 CHR ''a'' @ '' final''"

definition long_id :: pystr where
  "long_id = replicate 47 CHR ''a'' @ ''_''"

lemma long_name_clean: "strip long_name = long_name" "length long_name = 53"
  by (simp_all add: long_name_def strip_def lstrip_eq rstrip_eq isspace_def Let_def)

lemma collapse_as: "slug_collapse (replicate n CHR ''a'' @ CHR ''_'' # CHR ''f'' # s) = replicate n CHR ''a'' @ slug_collapse (CHR ''_'' # CHR ''f'' # s)"
proof (induction n)
  case (Suc n)
  then show ?case by (cases n) auto
qed simp

lemma long_slug: "slugify long_name = long_id"
proof -
  have r: "slug_replace long_name = replicate 47 CHR ''a'' @ ''_final''"
    by (simp add: long_name_def slug_replace_def is_slug_char_def Let_def)
  have c: "slug_collapse (replicate 47 CHR ''a'' @ ''_final'') = replicate 47 CHR ''a'' @ ''_final''"
    by (simp add: collapse_as)
  have "strip_char CHR ''_'' (replicate 47 CHR ''a'' @ ''_final'') = replicate 47 CHR ''a'' @ ''_final''"
    by (rule strip_char_clean) simp
  then show ?thesis
    by (simp only: slugify_def long_name_clean r c) (simp add: MAX_ID_LENGTH_def long_id_def)
qed

lemma length_collapse: "length (slug_collapse s) \<le> length s"
  by (induction s rule: slug_collapse.induct) auto

lemma long_id_unstable: "slugify long_id \<noteq> long_id"
proof
  assume a: "slugify long_id = long_id"
  let ?t = "strip_char CHR ''_'' (slug_collapse (slug_replace (strip long_id)))"
  have "length ?t \<le> length (slug_replace (strip long_id))"
    using length_strip_char length_collapse le_trans by blast
  also have "\<dots> \<le> 48" using strip_fits [of long_id] by (simp add: slug_replace_def long_id_def)
  finally have "?t = long_id" using a by (simp add: slugify_def MAX_ID_LENGTH_def)
  then have "last long_id \<noteq> CHR ''_''"
    using strip_char_ends [of "CHR ''_''" "slug_collapse (slug_replace (strip long_id))"] by (simp add: long_id_def)
  then show False by (simp add: long_id_def)
qed

lemma long_id_facts: "long_id \<noteq> []" "validate_workspace long_id" "[] \<noteq> lower long_id" "long_name \<noteq> []"
  by (simp_all add: long_id_def long_name_def validate_workspace_def eq_commute [of "[]"])

lemma long_name_lost:
  "let (res, r) = create True (JStr ''t'') long_name fresh_install;
       (res2, r') = load (JStr ''t2'') r
   in (\<exists>n. res = Inr n \<and> nemo_id n = long_id) \<and> get long_id r \<noteq> None
      \<and> res2 = Inr () \<and> get long_id r' = None"
proof -
  let ?g = "\<lparr>nemo_id = [], nemo_name = ''General'', created_at = JStr ''t0'', protected = True, hidden = True\<rparr>"
  let ?n = "\<lparr>nemo_id = long_id, nemo_name = long_name, created_at = JStr ''t'', protected = False, hidden = False\<rparr>"
  have fresh: "fresh_install = \<lparr>nemos = [([], ?g)], default_id = [], index_file = NoFile, doc_status_file = NoFile\<rparr>"
    by (simp add: fresh_install_def empty_disk_def registry_eval)
  let ?r = "\<lparr>nemos = [([], ?g), (long_id, ?n)], default_id = long_id, index_file = NoFile, doc_status_file = NoFile\<rparr>"
  let ?f = "?r\<lparr>index_file := JsonFile (index_payload ?r)\<rparr>"
  have c: "create True (JStr ''t'') long_name fresh_install = (Inr ?n, ?f)"
    using long_id_facts
    by (simp add: create_def fresh long_name_clean long_slug MAX_NAME_LENGTH_def save_and_return_def save_def
      default_visible_def ordered_def todas_def LEGACY_ID_def Let_def)
  have g: "slugify [] = []" by (simp add: slugify_def strip_def lstrip_def rstrip_def slug_replace_def strip_char_def)
  have "load (JStr ''t2'') ?f = (Inr (), ?f\<lparr>nemos := [([], ?g)], default_id := []\<rparr>)"
    using long_id_facts long_id_unstable
    by (simp add: load_def index_payload_def todas_def obj_get_def obj_get_or_def py_or_def iterate_def
      load_entries_def load_entry_def to_payload_def ensure_legacy_def has_key_def LEGACY_ID_def
      MAX_NAME_LENGTH_def Let_def)
  then show ?thesis using c long_id_facts by (simp add: get_def LEGACY_ID_def)
qed

subsection \<open>Resolving a request\<close>

lemma find_values:
  assumes "index_ok d" "find P (values d) = Some n"
  shows "map_of d (nemo_id n) = Some n \<and> P n"
proof -
  have "n \<in> set (values d)" "P n" using assms(2) by (metis find_Some_iff nth_mem)+
  then show ?thesis using values_get(1) [OF assms(1)] by blast
qed

text \<open>A request goes to the memory it names or nowhere. An empty request goes to the default; any
  other is answered with an existing memory whose id is the request's slug or whose name is the
  request (stripped, whatever the case), and is refused if there is none. In particular it never
  falls back to the default, and an existing id that is its own slug is answered with itself.\<close>

theorem resolve_exact:
  assumes "registry_ok r"
  shows "case resolve q r of
      Inr i \<Rightarrow> has_key (nemos r) i
        \<and> (if q = None \<or> q = Some [] then i = default_id r
           else \<exists>n. map_of (nemos r) i = Some n \<and>
             (i = slugify (the q) \<or> lower (nemo_name n) = lower (strip (the q))))
    | Inl e \<Rightarrow> e = UnknownNemo \<and> q \<noteq> None \<and> \<not> has_key (nemos r) (slugify (the q))
        \<and> \<not> list_ex (\<lambda>n. lower (nemo_name n) = lower (strip (the q))) (values (nemos r))"
proof (cases q)
  case None
  then show ?thesis using assms by (simp add: resolve_def registry_ok_def)
next
  case (Some s)
  have ok: "index_ok (nemos r)" using assms by (simp add: registry_ok_def)
  show ?thesis
  proof (cases "s = [] \<or> has_key (nemos r) (slugify s)")
    case True
    then show ?thesis using Some assms by (auto simp: resolve_def registry_ok_def has_key_def Let_def)
  next
    case no: False
    show ?thesis
    proof (cases "find (\<lambda>n. lower (nemo_name n) = lower (strip s)) (values (nemos r))")
      case None
      then have "\<not> list_ex (\<lambda>n. lower (nemo_name n) = lower (strip s)) (values (nemos r))"
        by (auto simp: find_None_iff list_ex_iff)
      moreover have "resolve q r = Inl UnknownNemo" unfolding resolve_def \<open>q = Some s\<close> using no None by simp
      ultimately show ?thesis using \<open>q = Some s\<close> no by simp
    next
      case (Some n)
      then show ?thesis using \<open>q = Some s\<close> no find_values [OF ok Some] by (simp add: resolve_def has_key_def)
    qed
  qed
qed

theorem resolve_exact_witness:
  "resolve (Some ''OBRA norte'') obra_base = Inr ''Obra_Norte'' \<and> resolve (Some ''Otra'') obra_base = Inl UnknownNemo
   \<and> has_key (nemos obra_base) ''Obra_Norte''"
proof -
  have a: "resolve (Some ''OBRA norte'') obra_base = Inr ''Obra_Norte''"
    and b: "resolve (Some ''Otra'') obra_base = Inl UnknownNemo"
    by (simp_all add: resolve_def obra_base_def fresh_install_def empty_disk_def registry_eval)
  then show ?thesis using resolve_exact [OF obra_base_ok(1), of "Some ''OBRA norte''"] by simp
qed

text \<open>
  The search by name also meets the hidden base. Here the base was never named (it is hidden, under
  its factory name), the user has a memory called \<open>General\<close>, and \<open>general\<close> is sent to the hidden one.
\<close>

lemma hidden_base_answers:
  "let r = run_ops [(True, JStr ''t'', Create ''General'')] fresh_install
   in map nemo_id (ordered r) = [''General''] \<and> default_id r = ''General'' \<and> resolve (Some ''general'') r = Inr []"
  by (simp add: resolve_def fresh_install_def empty_disk_def registry_eval)

subsection \<open>The default\<close>

definition is_set_default :: "registry_op \<Rightarrow> bool" where
  "is_set_default opn = (case opn of SetDefault i \<Rightarrow> True | _ \<Rightarrow> False)"

lemma default_shown_saved [simp]:
  "default_shown (snd (save_and_return io x r)) = default_shown r"
  using save_and_return_registry(1) [of io x r] by (auto simp: default_shown_def ordered_def todas_def)

lemma put_shown:
  assumes ok: "registry_ok r" and shown: "default_shown r" and n: "\<not> hidden n" "entry_ok i n" "has_key (nemos r) i"
  shows "default_shown (r\<lparr>nemos := AList.update i n (nemos r)\<rparr>)"
proof (cases "default_id r = i")
  case True
  then show ?thesis using n(1) by (simp add: default_shown_def map_of_update_iff)
next
  case False
  obtain m where m: "map_of (nemos r) (default_id r) = Some m"
    using ok by (auto simp: registry_ok_def has_key_def)
  show ?thesis
  proof (cases "hidden m")
    case True
    then have none: "ordered r = []" using shown m by (auto simp: default_shown_def)
    obtain n' where n': "map_of (nemos r) i = Some n'" using n(3) by (auto simp: has_key_def)
    have ix: "index_ok (nemos r)" using ok by (simp add: registry_ok_def)
    have "entry_ok (default_id r) m" "entry_ok i n'" using m n' ix by (simp_all add: index_ok_def)
    then have "\<not> hidden n'" using False True by (auto simp: entry_ok_def)
    moreover have "n' \<in> set (todas r)" using n' set_todas [OF ix] by (force dest: map_of_SomeD)
    ultimately have "n' \<in> set (ordered r)" by (simp add: ordered_def)
    then show ?thesis using none by simp
  next
    case False
    then show ?thesis using m \<open>default_id r \<noteq> i\<close> by (simp add: default_shown_def map_of_update_iff)
  qed
qed

lemma run_op_shown:
  assumes "registry_ok r" "default_shown r" "\<not> is_set_default opn"
  shows "default_shown (run_op io now opn r)"
proof -
  have ok: "index_ok (nemos r)" using assms(1) by (simp add: registry_ok_def)
  have put: "default_shown (default_visible r')" if "nemos r' = AList.update k n (nemos r)" "entry_ok k n" for r' k n
    using that ok by (intro default_visible_shown) (simp add: index_ok_update)
  have same: "default_shown (default_visible r')" if "nemos r' = nemos r" for r'
    using that ok by (intro default_visible_shown) simp
  have del: "default_shown (default_visible r')" if "nemos r' = AList.delete k (nemos r)" for r' k
    using that ok by (intro default_visible_shown) (simp add: index_ok_delete)
  show ?thesis
  proof (cases opn)
    case (Create s)
    then show ?thesis
      using assms(2) by (auto simp: run_op_def create_def Let_def not_less entry_ok_def LEGACY_ID_def slugify_ok
        intro!: put)
  next
    case (Ensure i s d)
    have slug: "i = [] \<or> slugify i = i \<Longrightarrow> slug_ok i" by (rule slug_ok_fixed(2))
    show ?thesis
    proof (cases "map_of (nemos r) i")
      case None
      then show ?thesis using Ensure assms(2) slug
        by (auto simp: run_op_def ensure_def Let_def entry_ok_def LEGACY_ID_def intro!: put)
    next
      case (Some n)
      then show ?thesis using Ensure assms(2)
        by (auto simp: run_op_def ensure_def Let_def intro!: same)
    qed
  next
    case (Rename i s)
    then show ?thesis
      using assms(1,2) registry_ok_entry [OF assms(1), of i]
      by (auto simp: run_op_def rename_def Let_def not_less entry_ok_def has_key_def
        split: option.splits intro!: put_shown)
  next
    case (Delete i)
    have base: "entry_ok LEGACY_ID \<lparr>nemo_id = LEGACY_ID, nemo_name = LEGACY_NAME, created_at = c,
        protected = True, hidden = True\<rparr>" for c by (simp add: entry_ok_def)
    show ?thesis
      using Delete assms(2) base
      by (auto simp: run_op_def delete_def Let_def split: option.splits intro: put del)
  next
    case (SetDefault i)
    then show ?thesis using assms(3) by (simp add: is_set_default_def)
  qed
qed

text \<open>The default is a memory the user can see. It stays so through creations, adoptions, renames and
  deletions, failed ones included: if any memory is visible, the default is.\<close>

theorem default_stays_visible:
  assumes "registry_ok r" "default_shown r" "list_all (\<lambda>(io, now, opn). \<not> is_set_default opn) ops"
  shows "default_shown (run_ops ops r)"
  using assms
proof (induction ops arbitrary: r)
  case (Cons x ops)
  obtain io now opn where x: "x = (io, now, opn)" by (cases x)
  have "default_shown (run_op io now opn r)" using Cons.prems x by (intro run_op_shown) simp_all
  then show ?case
    using Cons.IH [OF run_op_ok [OF Cons.prems(1)], of io now opn] Cons.prems(3) x by (simp add: run_ops_def)
qed (simp add: run_ops_def)

lemma fresh_shown: "default_shown fresh_install"
  by (simp add: default_shown_def fresh_install_def empty_disk_def registry_eval)

theorem default_stays_visible_witness:
  "default_id (run_ops [(True, JStr ''t'', Create ''Obra'')] fresh_install) = ''Obra''
   \<and> default_shown (run_ops [(True, JStr ''t'', Create ''Obra'')] fresh_install)"
proof -
  have "default_id (run_ops [(True, JStr ''t'', Create ''Obra'')] fresh_install) = ''Obra''"
    by (simp add: fresh_install_def empty_disk_def registry_eval)
  then show ?thesis
    using default_stays_visible [OF fresh_ok(1) fresh_shown, of "[(True, JStr ''t'', Create ''Obra'')]"]
    by (simp add: is_set_default_def)
qed

text \<open>\<open>set_default\<close> accepts the hidden base.\<close>

lemma set_default_hidden:
  "let r = run_ops [(True, JStr ''t'', Create ''Obra''), (True, JStr ''t'', SetDefault [])] fresh_install
   in \<not> default_shown r"
  by (simp add: default_shown_def fresh_install_def empty_disk_def registry_eval)

end
