(* ===== verification/Manager.thy ===== *)
theory Manager
  imports PyText
begin

text \<open>
  The open instances of the memories: \<^verbatim>\<open>src/lightrag/api/bimnemo/nemo_manager.py\<close>. An instance is
  named by the number of its construction by the factory; what it does is not modelled. \<open>get\<close> and
  \<open>_close_one\<close> await (the opening and the closing of an instance) while they hold the lock of
  their memory, so each is split at its await: \<open>get_begin\<close> and \<open>get_opened\<close> (or
  \<open>get_failed\<close>), \<open>close_begin\<close> and \<open>close_end\<close>. What runs between two awaits is one
  step; a step that takes a lock is taken when the lock is free.
\<close>

definition DEFAULT_MAX_LIVE :: nat where "DEFAULT_MAX_LIVE = 4"

record nemo_entry =
  inst :: nat
  initialized :: bool

datatype nemo_lock = Free | Opening | Closing nat

record manager =
  max_live :: nat
  entries :: "(pystr, nemo_entry) pydict"
  pinned :: "pystr list"
  locks :: "(pystr, nemo_lock) pydict"
  closed :: bool
  built :: nat

definition new_manager :: "nat \<Rightarrow> nat \<Rightarrow> manager" where
  "new_manager live n = \<lparr>max_live = live, entries = [], pinned = [], locks = [], closed = False, built = n\<rparr>"

definition lock_for :: "pystr \<Rightarrow> manager \<Rightarrow> nemo_lock" where
  "lock_for i m = (case map_of (locks m) i of None \<Rightarrow> Free | Some k \<Rightarrow> k)"

definition set_lock :: "pystr \<Rightarrow> nemo_lock \<Rightarrow> manager \<Rightarrow> manager" where
  "set_lock i k m = m\<lparr>locks := AList.update i k (locks m)\<rparr>"

definition to_end :: "'k \<Rightarrow> ('k, 'v) pydict \<Rightarrow> ('k, 'v) pydict" where
  "to_end k d = (case map_of d k of None \<Rightarrow> d | Some v \<Rightarrow> AList.delete k d @ [(k, v)])"

definition adopt :: "pystr \<Rightarrow> nat \<Rightarrow> bool \<Rightarrow> manager \<Rightarrow> manager" where
  "adopt i x pin m =
     (let m1 = m\<lparr>entries := to_end i (AList.update i \<lparr>inst = x, initialized = True\<rparr> (entries m))\<rparr>
      in if pin then m1\<lparr>pinned := List.insert i (pinned m1)\<rparr> else m1)"

text \<open>The first part of \<open>get\<close>: a closed manager raises, an open instance is ready, any other has to
  be opened, and is built first if it is not there.\<close>

datatype get_outcome = ManagerClosed | Ready nat | MustOpen nat

definition get_begin :: "pystr \<Rightarrow> manager \<Rightarrow> get_outcome \<times> manager" where
  "get_begin i m =
     (if closed m then (ManagerClosed, m)
      else case map_of (entries m) i of
        Some e \<Rightarrow>
          if initialized e then (Ready (inst e), m\<lparr>entries := to_end i (entries m)\<rparr>)
          else (MustOpen (inst e), set_lock i Opening m)
      | None \<Rightarrow>
          (MustOpen (built m),
           set_lock i Opening
             (m\<lparr>entries := AList.update i \<lparr>inst = built m, initialized = False\<rparr> (entries m),
                built := Suc (built m)\<rparr>)))"

definition get_opened :: "pystr \<Rightarrow> manager \<Rightarrow> manager" where
  "get_opened i m =
     (case map_of (entries m) i of
        None \<Rightarrow> set_lock i Free m
      | Some e \<Rightarrow> set_lock i Free
          (m\<lparr>entries := to_end i (AList.update i (e\<lparr>initialized := True\<rparr>) (entries m))\<rparr>))"

definition get_failed :: "pystr \<Rightarrow> manager \<Rightarrow> manager" where
  "get_failed i m = set_lock i Free m"

text \<open>\<open>return self._entries[nemo_id].instance\<close>: None is the \<open>KeyError\<close>.\<close>

definition get_return :: "pystr \<Rightarrow> manager \<Rightarrow> nat option" where
  "get_return i m = map_option inst (map_of (entries m) i)"

definition peek :: "pystr \<Rightarrow> manager \<Rightarrow> nat option" where
  "peek i m =
     (case map_of (entries m) i of
        None \<Rightarrow> None
      | Some e \<Rightarrow> if initialized e then Some (inst e) else None)"

definition live_ids :: "manager \<Rightarrow> pystr list" where
  "live_ids m = map fst (filter (\<lambda>(k, v). initialized v) (entries m))"

text \<open>One turn of \<open>_evict_if_needed\<close>: the memory it closes.\<close>

definition evict_victim :: "pystr \<Rightarrow> manager \<Rightarrow> pystr option" where
  "evict_victim keep m =
     (if int (length (entries m)) - int (length (pinned m)) > int (max_live m)
      then find (\<lambda>k. k \<noteq> keep \<and> k \<notin> set (pinned m)) (keys (entries m))
      else None)"

definition close_begin :: "pystr \<Rightarrow> manager \<Rightarrow> manager" where
  "close_begin i m =
     (if i \<in> set (pinned m)
      then m\<lparr>entries := AList.delete i (entries m), pinned := removeAll i (pinned m)\<rparr>
      else case map_of (entries m) i of
        None \<Rightarrow> m
      | Some e \<Rightarrow>
          let m1 = m\<lparr>entries := AList.delete i (entries m)\<rparr>
          in if initialized e then set_lock i (Closing (inst e)) m1 else m1)"

text \<open>\<open>finalize_storages\<close> has returned, or failed, which is only logged.\<close>

definition close_end :: "pystr \<Rightarrow> manager \<Rightarrow> manager" where
  "close_end i m = set_lock i Free m"

definition close_one :: "pystr \<Rightarrow> manager \<Rightarrow> manager" where
  "close_one i m =
     (let m1 = close_begin i m
      in case lock_for i m1 of Closing x \<Rightarrow> close_end i m1 | _ \<Rightarrow> m1)"

lemma close_begin_entries [simp]: "entries (close_begin i m) = AList.delete i (entries m)"
proof (cases "map_of (entries m) i")
  case None
  then have "i \<notin> set (keys (entries m))" by (simp add: map_of_eq_None_iff)
  then have "AList.delete i (entries m) = entries m" by (simp add: AList.delete_id)
  then show ?thesis using None by (simp add: close_begin_def)
qed (simp add: close_begin_def set_lock_def Let_def)

lemma close_one_entries [simp]: "entries (close_one i m) = AList.delete i (entries m)"
  by (simp add: close_one_def close_end_def set_lock_def Let_def split: nemo_lock.splits)

lemma evict_victim_in: "evict_victim keep m = Some v \<Longrightarrow> v \<in> set (keys (entries m)) \<and> v \<noteq> keep \<and> v \<notin> set (pinned m)"
  using find_SomeD [of _ "keys (entries m)" v]
  by (fastforce simp: evict_victim_def split: if_splits simp del: set_map)

text \<open>The loop of \<open>_evict_if_needed\<close> when no other request runs meanwhile.\<close>

function evict_if_needed :: "pystr \<Rightarrow> manager \<Rightarrow> manager" where
  "evict_if_needed keep m =
     (case evict_victim keep m of
        None \<Rightarrow> m
      | Some v \<Rightarrow> evict_if_needed keep (close_one v m))"
  by pat_completeness auto
termination
proof (relation "measure (\<lambda>(keep, m). length (entries m))")
  fix keep m v
  assume "evict_victim keep m = Some v"
  then have "v \<in> set (keys (entries m))" using evict_victim_in by blast
  then have "length (AList.delete v (entries m)) < length (entries m)"
    by (auto simp: delete_filter intro: length_filter_less)
  then show "((keep, close_one v m), keep, m) \<in> measure (\<lambda>(keep, m). length (entries m))" by simp
qed simp

declare evict_if_needed.simps [simp del]

text \<open>A whole \<open>get\<close> that runs alone, its opening going well.\<close>

definition nemo_get :: "pystr \<Rightarrow> manager \<Rightarrow> nat option \<times> manager" where
  "nemo_get i m =
     (case get_begin i m of
        (ManagerClosed, m1) \<Rightarrow> (None, m1)
      | (Ready x, m1) \<Rightarrow> (Some x, m1)
      | (MustOpen x, m1) \<Rightarrow>
          let m2 = evict_if_needed i (get_opened i m1)
          in (get_return i m2, m2))"

definition close_all :: "manager \<Rightarrow> manager" where
  "close_all m = fold close_one (keys (entries m)) (m\<lparr>closed := True\<rparr>)"

text \<open>\<open>map\<close>: what each memory answered, a failure in its place; of a repeated id the last counts.\<close>

definition map_results :: "pystr list \<Rightarrow> ('e + 'a) list \<Rightarrow> (pystr, 'e + 'a) pydict" where
  "map_results ids results = fold (\<lambda>(i, r) d. AList.update i r d) (zip ids results) []"

end
