(* ===== verification/ManagerLaws.thy ===== *)
theory ManagerLaws
  imports Manager
begin

text \<open>
  What the manager of open memories keeps: one instance of each memory at a time, whatever the
  requests do concurrently, and the bound and the order of the eviction.
\<close>

subsection \<open>Any interleaving\<close>

text \<open>
  The steps of all requests together. A lock is taken when it is free. Beside the manager, the
  instances that exist and are not closed yet, with their memory. Memories are adopted at the
  start only, before requests (\<open>start\<close>).
\<close>

record manager_world =
  mgr :: manager
  open_instances :: "(pystr \<times> nat) list"

definition lock_free :: "pystr \<Rightarrow> manager_world \<Rightarrow> bool" where
  "lock_free i w \<longleftrightarrow> lock_for i (mgr w) = Free"

inductive manager_step :: "manager_world \<Rightarrow> manager_world \<Rightarrow> bool" where
  GetReady: "lock_free i w \<Longrightarrow> get_begin i (mgr w) = (Ready x, m) \<Longrightarrow> manager_step w (w\<lparr>mgr := m\<rparr>)"
| GetBuild: "lock_free i w \<Longrightarrow> map_of (entries (mgr w)) i = None \<Longrightarrow> get_begin i (mgr w) = (MustOpen x, m) \<Longrightarrow>
     manager_step w (w\<lparr>mgr := m, open_instances := (i, x) # open_instances w\<rparr>)"
| GetRetry: "lock_free i w \<Longrightarrow> map_of (entries (mgr w)) i = Some e \<Longrightarrow> get_begin i (mgr w) = (MustOpen x, m) \<Longrightarrow>
     manager_step w (w\<lparr>mgr := m\<rparr>)"
| GetOpened: "lock_for i (mgr w) = Opening \<Longrightarrow> manager_step w (w\<lparr>mgr := get_opened i (mgr w)\<rparr>)"
| GetFailed: "lock_for i (mgr w) = Opening \<Longrightarrow> manager_step w (w\<lparr>mgr := get_failed i (mgr w)\<rparr>)"
| CloseBegin: "lock_free i w \<Longrightarrow> i \<notin> set (pinned (mgr w)) \<Longrightarrow> map_of (entries (mgr w)) i = Some e \<Longrightarrow> initialized e \<Longrightarrow>
     manager_step w (w\<lparr>mgr := close_begin i (mgr w)\<rparr>)"
| CloseDrop: "lock_free i w \<Longrightarrow> i \<notin> set (pinned (mgr w)) \<Longrightarrow> map_of (entries (mgr w)) i = Some e \<Longrightarrow> \<not> initialized e \<Longrightarrow>
     manager_step w (w\<lparr>mgr := close_begin i (mgr w),
       open_instances := removeAll (i, inst e) (open_instances w)\<rparr>)"
| CloseEnd: "lock_for i (mgr w) = Closing x \<Longrightarrow>
     manager_step w (w\<lparr>mgr := close_end i (mgr w), open_instances := removeAll (i, x) (open_instances w)\<rparr>)"
| Shutdown: "manager_step w (w\<lparr>mgr := (mgr w)\<lparr>closed := True\<rparr>\<rparr>)"

text \<open>The instance a memory has: the one in the table, or the one being closed.\<close>

definition holder :: "pystr \<Rightarrow> manager \<Rightarrow> nat option" where
  "holder i m =
     (case map_of (entries m) i of
        Some e \<Rightarrow> Some (inst e)
      | None \<Rightarrow> (case lock_for i m of Closing x \<Rightarrow> Some x | _ \<Rightarrow> None))"

definition manager_inv :: "manager_world \<Rightarrow> bool" where
  "manager_inv w \<longleftrightarrow>
     (\<forall>i x. (i, x) \<in> set (open_instances w) \<longleftrightarrow> holder i (mgr w) = Some x)
     \<and> (\<forall>i x. lock_for i (mgr w) = Closing x \<longrightarrow> map_of (entries (mgr w)) i = None)
     \<and> (\<forall>i. lock_for i (mgr w) = Opening \<longrightarrow> map_of (entries (mgr w)) i \<noteq> None)"

lemma lock_for_set [simp]: "lock_for j (set_lock i k m) = (if j = i then k else lock_for j m)"
  by (simp add: lock_for_def set_lock_def map_of_update_iff)

lemma set_lock_entries [simp]: "entries (set_lock i k m) = entries m"
  by (simp add: set_lock_def)

lemma lock_for_frame [simp]:
  "lock_for i (m\<lparr>entries := es\<rparr>) = lock_for i m" "lock_for i (m\<lparr>closed := c\<rparr>) = lock_for i m"
  "lock_for i (m\<lparr>built := b\<rparr>) = lock_for i m" "lock_for i (m\<lparr>pinned := p\<rparr>) = lock_for i m"
  by (simp_all add: lock_for_def)

lemma map_of_to_end [simp]: "map_of (to_end i d) j = map_of d j"
  by (auto simp: to_end_def map_of_delete_iff map_add_def split: option.splits)

lemma holder_other:
  "map_of (entries m') j = map_of (entries m) j \<Longrightarrow> lock_for j m' = lock_for j m \<Longrightarrow> holder j m' = holder j m"
  by (simp add: holder_def split: option.splits)

lemma manager_step_inv: "manager_step w w' \<Longrightarrow> manager_inv w \<Longrightarrow> manager_inv w'"
proof (induction rule: manager_step.induct)
  case (GetReady i w x m)
  then show ?case
    by (auto simp: get_begin_def manager_inv_def holder_def split: if_splits option.splits)
next
  case (GetBuild i w x m)
  then show ?case
    by (auto simp: get_begin_def manager_inv_def holder_def lock_free_def map_of_update_iff
      split: if_splits option.splits nemo_lock.splits)
next
  case (GetRetry i w e x m)
  then show ?case
    by (auto simp: get_begin_def manager_inv_def holder_def lock_free_def split: if_splits option.splits)
next
  case (GetOpened i w)
  then show ?case
    by (auto simp: get_opened_def manager_inv_def holder_def map_of_update_iff split: option.splits nemo_lock.splits)
next
  case (GetFailed i w)
  then show ?case
    by (auto simp: get_failed_def manager_inv_def holder_def split: option.splits nemo_lock.splits)
next
  case (CloseBegin i w e)
  then show ?case
    by (auto simp: close_begin_def manager_inv_def holder_def lock_free_def map_of_delete_iff Let_def
      split: option.splits nemo_lock.splits)
next
  case (CloseDrop i w e)
  then show ?case
    by (auto simp: close_begin_def manager_inv_def holder_def lock_free_def map_of_delete_iff Let_def
      split: option.splits nemo_lock.splits)
next
  case (CloseEnd i w x)
  then show ?case
    by (auto simp: close_end_def manager_inv_def holder_def split: option.splits nemo_lock.splits)
next
  case (Shutdown w)
  then show ?case by (simp add: manager_inv_def holder_def split: option.splits)
qed

definition start :: "nat \<Rightarrow> nat \<Rightarrow> (pystr \<times> nat \<times> bool) list \<Rightarrow> manager_world" where
  "start live n adopted =
     \<lparr>mgr = fold (\<lambda>(i, x, pin). adopt i x pin) adopted (new_manager live n),
      open_instances = map (\<lambda>(i, x, pin). (i, x)) adopted\<rparr>"

lemma adopt_facts [simp]:
  "map_of (entries (adopt i x pin m)) j = (if j = i then Some \<lparr>inst = x, initialized = True\<rparr> else map_of (entries m) j)"
  "locks (adopt i x pin m) = locks m"
  by (simp_all add: adopt_def Let_def map_of_update_iff)

lemma adopt_fold:
  "distinct (map fst adopted) \<Longrightarrow>
     map_of (entries (fold (\<lambda>(i, x, pin). adopt i x pin) adopted m)) j =
       (case map_of adopted j of Some (x, pin) \<Rightarrow> Some \<lparr>inst = x, initialized = True\<rparr>
        | None \<Rightarrow> map_of (entries m) j)
     \<and> locks (fold (\<lambda>(i, x, pin). adopt i x pin) adopted m) = locks m"
proof (induction adopted arbitrary: m)
  case (Cons a adopted)
  obtain i x pin where a: "a = (i, x, pin)" by (cases a)
  have none: "map_of adopted i = None" using Cons.prems a by (simp add: map_of_eq_None_iff)
  have "distinct (map fst adopted)" using Cons.prems by simp
  from Cons.IH [OF this, of "adopt i x pin m"] show ?case
    using a none by (cases "j = i"; cases "map_of adopted j") (simp_all split: prod.splits)
qed simp

lemma start_inv:
  assumes "distinct (map fst adopted)"
  shows "manager_inv (start live n adopted)"
proof -
  have h: "holder i (mgr (start live n adopted)) = map_option fst (map_of adopted i)" for i
    using adopt_fold [OF assms, of "new_manager live n"]
    by (auto simp: start_def holder_def lock_for_def new_manager_def split: option.splits)
  have "(i, x) \<in> set (open_instances (start live n adopted)) \<longleftrightarrow> (\<exists>pin. map_of adopted i = Some (x, pin))" for i x
    using assms by (force simp: start_def)
  then have "(i, x) \<in> set (open_instances (start live n adopted)) \<longleftrightarrow> holder i (mgr (start live n adopted)) = Some x" for i x
    unfolding h by (cases "map_of adopted i") auto
  moreover have "lock_for i (mgr (start live n adopted)) = Free" for i
    using adopt_fold [OF assms, of "new_manager live n"] by (simp add: start_def lock_for_def new_manager_def)
  ultimately show ?thesis by (simp add: manager_inv_def)
qed



subsection \<open>Eviction\<close>

definition unpinned :: "manager \<Rightarrow> pystr list" where
  "unpinned m = filter (\<lambda>k. k \<notin> set (pinned m)) (keys (entries m))"

definition manager_ok :: "manager \<Rightarrow> bool" where
  "manager_ok m \<longleftrightarrow> dict_ok (entries m) \<and> distinct (pinned m) \<and> set (pinned m) \<subseteq> set (keys (entries m))"

lemma count_unpinned:
  assumes "manager_ok m"
  shows "int (length (entries m)) - int (length (pinned m)) = int (length (unpinned m))"
proof -
  have d: "distinct (keys (entries m))" using assms by (simp add: manager_ok_def)
  have "set (filter (\<lambda>k. k \<in> set (pinned m)) (keys (entries m))) = set (pinned m)"
    using assms by (auto simp: manager_ok_def)
  then have "length (filter (\<lambda>k. k \<in> set (pinned m)) (keys (entries m))) = length (pinned m)"
    using d assms by (metis distinct_card distinct_filter manager_ok_def)
  moreover have "length (filter (\<lambda>k. k \<in> set (pinned m)) (keys (entries m))) + length (unpinned m) = length (keys (entries m))"
    unfolding unpinned_def by (rule sum_length_filter_compl)
  ultimately show ?thesis by simp
qed

lemma close_one_pinned [simp]: "i \<notin> set (pinned m) \<Longrightarrow> pinned (close_one i m) = pinned m"
  by (auto simp: close_one_def close_begin_def close_end_def set_lock_def Let_def split: option.splits nemo_lock.splits)

lemma close_one_max [simp]: "max_live (close_one i m) = max_live m"
  by (auto simp: close_one_def close_begin_def close_end_def set_lock_def Let_def split: option.splits nemo_lock.splits)

lemma manager_ok_close:
  "manager_ok m \<Longrightarrow> i \<notin> set (pinned m) \<Longrightarrow> manager_ok (close_one i m)"
  by (auto simp: manager_ok_def keys_delete distinct_removeAll simp del: set_map)

lemma unpinned_close:
  "i \<notin> set (pinned m) \<Longrightarrow> unpinned (close_one i m) = removeAll i (unpinned m)"
  by (simp add: unpinned_def keys_delete removeAll_filter_not_eq filter_filter conj_commute del: set_map)

lemma find_filter: "find (\<lambda>k. P k \<and> Q k) xs = find P (filter Q xs)"
  by (induction xs) auto

lemma evict_victim_unpinned:
  assumes "manager_ok m"
  shows "evict_victim keep m =
    (if max_live m < length (unpinned m) then find (\<lambda>k. k \<noteq> keep) (unpinned m) else None)"
  using count_unpinned [OF assms] by (simp add: evict_victim_def find_filter unpinned_def)

text \<open>The loop drops the least recently used memories, never the one just asked for.\<close>

lemma evict_drops:
  assumes "manager_ok m" "unpinned m = u @ [keep]"
  shows "unpinned (evict_if_needed keep m) = drop (Suc (length u) - max 1 (max_live m)) (u @ [keep])
     \<and> pinned (evict_if_needed keep m) = pinned m
     \<and> (\<forall>k. k \<in> set (pinned m) \<or> k = keep \<longrightarrow>
          map_of (entries (evict_if_needed keep m)) k = map_of (entries m) k)"
  using assms
proof (induction keep m arbitrary: u rule: evict_if_needed.induct)
  case (1 keep m)
  have d: "distinct (u @ [keep])"
    using 1(2) unfolding 1(3) [symmetric] unpinned_def by (simp add: manager_ok_def)
  show ?case
  proof (cases "max_live m < length (unpinned m) \<and> u \<noteq> []")
    case False
    then have "evict_victim keep m = None"
      using evict_victim_unpinned [OF 1(2), of keep] 1(3) by (cases u) auto
    moreover have "Suc (length u) - max 1 (max_live m) = 0" using False 1(3) by auto
    ultimately show ?thesis using 1(3) by (simp add: evict_if_needed.simps [of keep m])
  next
    case True
    then obtain v u' where u: "u = v # u'" by (cases u) auto
    have v: "evict_victim keep m = Some v"
      using evict_victim_unpinned [OF 1(2), of keep] 1(3) True d by (auto simp: u)
    have np: "v \<notin> set (pinned m)" and vk: "v \<noteq> keep" using evict_victim_in [OF v] by auto
    have next_ok: "manager_ok (close_one v m)" using 1(2) np by (rule manager_ok_close)
    have next_u: "unpinned (close_one v m) = u' @ [keep]"
      using d np 1(3) by (simp add: unpinned_close u removeAll_id)
    have IH: "unpinned (evict_if_needed keep (close_one v m)) = drop (Suc (length u') - max 1 (max_live m)) (u' @ [keep])
       \<and> pinned (evict_if_needed keep (close_one v m)) = pinned m
       \<and> (\<forall>k. k \<in> set (pinned m) \<or> k = keep \<longrightarrow>
            map_of (entries (evict_if_needed keep (close_one v m))) k = map_of (entries (close_one v m)) k)"
      using 1(1) [OF v next_ok next_u] np by simp
    have e: "evict_if_needed keep m = evict_if_needed keep (close_one v m)"
      using v by (simp add: evict_if_needed.simps [of keep m])
    have "Suc (Suc (length u')) - max 1 (max_live m) = Suc (Suc (length u') - max 1 (max_live m))"
      using True 1(3) by (auto simp: u)
    then show ?thesis using IH np vk unfolding e by (auto simp: u map_of_delete_iff)
  qed
qed

lemma to_end_snoc: "k \<notin> set (keys d) \<Longrightarrow> to_end k (d @ [(k, v)]) = d @ [(k, v)]"
proof -
  assume k: "k \<notin> set (keys d)"
  then have "map_of d k = None" by (simp add: map_of_eq_None_iff)
  moreover have "AList.delete k (d @ [(k, v)]) = d"
    using k by (auto simp: delete_filter filter_id_conv)
  ultimately show ?thesis by (simp add: to_end_def map_add_def)
qed

text \<open>The bound on open memories. Opening a memory that is not open closes exactly the least recently
  used ones that are not pinned, as many as needed for at most \<open>max_live\<close> (and the new one) to
  stay open; the pinned ones keep their instance, and the request gets the instance built for it.\<close>

theorem eviction_least_recently_used:
  assumes "manager_ok m" "\<not> closed m" "\<not> has_key (entries m) i"
  shows "let (res, m') = nemo_get i m in
      res = Some (built m)
      \<and> unpinned m' = drop (Suc (length (unpinned m)) - max 1 (max_live m)) (unpinned m @ [i])
      \<and> pinned m' = pinned m
      \<and> list_all (\<lambda>k. map_of (entries m') k = map_of (entries m) k) (pinned m)"
proof -
  have new: "i \<notin> set (keys (entries m))" "map_of (entries m) i = None"
    using assms(3) by (simp_all add: has_key_def map_of_eq_None_iff)
  let ?m1 = "set_lock i Opening (m\<lparr>entries := entries m @ [(i, \<lparr>inst = built m, initialized = False\<rparr>)],
       built := Suc (built m)\<rparr>)"
  have g: "get_begin i m = (MustOpen (built m), ?m1)"
    using assms(2) new by (simp add: get_begin_def update_new del: set_map)
  define m2 where "m2 = get_opened i ?m1"
  have e2: "entries m2 = entries m @ [(i, \<lparr>inst = built m, initialized = True\<rparr>)]"
    using new by (simp add: m2_def get_opened_def map_add_def update_snoc to_end_snoc del: set_map)
  have p2: "pinned m2 = pinned m" "max_live m2 = max_live m"
    using new by (simp_all add: m2_def get_opened_def set_lock_def map_add_def)
  have ip: "i \<notin> set (pinned m)" using assms(1) new(1) by (auto simp: manager_ok_def)
  have ok2: "manager_ok m2"
    using assms(1) new(1) unfolding manager_ok_def e2 p2 by auto
  have u2: "unpinned m2 = unpinned m @ [i]"
    using ip unfolding unpinned_def e2 p2 by simp
  note ev = evict_drops [OF ok2 u2, unfolded p2]
  have "map_of (entries (evict_if_needed i m2)) i = Some \<lparr>inst = built m, initialized = True\<rparr>"
    using ev new(2) e2 by (simp add: map_add_def)
  moreover have "list_all (\<lambda>k. map_of (entries (evict_if_needed i m2)) k = map_of (entries m) k) (pinned m)"
    using ev ip e2 by (auto simp: list_all_iff map_add_def split: option.splits)
  ultimately show ?thesis
    using ev by (simp add: nemo_get_def g m2_def [symmetric] get_return_def Let_def)
qed

text \<open>A bound of two: the base is pinned, \<open>a\<close> and \<open>b\<close> are open, \<open>c\<close> is asked for, \<open>a\<close> closes.\<close>

definition two_open :: manager where
  "two_open = \<lparr>max_live = 2,
     entries = [([], \<lparr>inst = 0, initialized = True\<rparr>), (''a'', \<lparr>inst = 1, initialized = True\<rparr>),
                (''b'', \<lparr>inst = 2, initialized = True\<rparr>)],
     pinned = [[]], locks = [], closed = False, built = 3\<rparr>"

theorem eviction_least_recently_used_witness:
  "let (res, m') = nemo_get ''c'' two_open in res = Some 3 \<and> unpinned m' = [''b'', ''c'']"
proof -
  have ok: "manager_ok two_open" "\<not> closed two_open" "\<not> has_key (entries two_open) ''c''"
    and v: "unpinned two_open = [''a'', ''b'']" "max_live two_open = 2" "built two_open = 3"
    by (simp_all add: two_open_def manager_ok_def has_key_def unpinned_def)
  obtain res m' where g: "nemo_get ''c'' two_open = (res, m')" by (cases "nemo_get ''c'' two_open")
  have "res = Some 3" "unpinned m' = drop (Suc (length [''a'', ''b'']) - max 1 2) ([''a'', ''b''] @ [''c''])"
    using eviction_least_recently_used [OF ok, unfolded g Let_def prod.case v] by blast+
  then show ?thesis unfolding g by simp
qed

text \<open>
  With other requests in between, a \<open>get\<close> can lose the instance it has just opened: while it waits
  for an eviction to close \<open>x\<close>, the request for \<open>b\<close> evicts \<open>a\<close>, and the last line of the request
  for \<open>a\<close> finds no entry (a \<open>KeyError\<close>).
\<close>

lemma get_can_lose_its_entry:
  "let m0 = (new_manager 1 2)\<lparr>entries := [(''x'', \<lparr>inst = 1, initialized = True\<rparr>)]\<rparr>;
       m1 = get_opened ''a'' (snd (get_begin ''a'' m0));
       m2 = close_begin ''x'' m1;
       m3 = get_opened ''b'' (snd (get_begin ''b'' m2));
       m4 = close_end ''a'' (close_begin ''a'' m3);
       m5 = close_end ''x'' m4
   in evict_victim ''a'' m1 = Some ''x'' \<and> evict_victim ''b'' m3 = Some ''a'' \<and> evict_victim ''a'' m5 = None
      \<and> get_return ''a'' m5 = None"
proof -
  let ?e = "\<lambda>n. \<lparr>inst = n, initialized = True\<rparr>"
  let ?m = "\<lambda>es ls n. \<lparr>max_live = 1, entries = es, pinned = [], locks = ls, closed = False, built = n\<rparr> :: manager"
  note ev = get_opened_def get_begin_def close_begin_def close_end_def set_lock_def to_end_def Let_def
  have 0: "(new_manager 1 2)\<lparr>entries := [(''x'', ?e 1)]\<rparr> = ?m [(''x'', ?e 1)] [] 2"
    by (simp add: new_manager_def)
  have 1: "get_opened ''a'' (snd (get_begin ''a'' (?m [(''x'', ?e 1)] [] 2)))
      = ?m [(''x'', ?e 1), (''a'', ?e 2)] [(''a'', Free)] 3" by (simp add: ev)
  have 2: "close_begin ''x'' (?m [(''x'', ?e 1), (''a'', ?e 2)] [(''a'', Free)] 3)
      = ?m [(''a'', ?e 2)] [(''a'', Free), (''x'', Closing 1)] 3" by (simp add: ev)
  have 3: "get_opened ''b'' (snd (get_begin ''b'' (?m [(''a'', ?e 2)] [(''a'', Free), (''x'', Closing 1)] 3)))
      = ?m [(''a'', ?e 2), (''b'', ?e 3)] [(''a'', Free), (''x'', Closing 1), (''b'', Free)] 4" by (simp add: ev)
  have 4: "close_end ''a'' (close_begin ''a'' (?m [(''a'', ?e 2), (''b'', ?e 3)] [(''a'', Free), (''x'', Closing 1), (''b'', Free)] 4))
      = ?m [(''b'', ?e 3)] [(''a'', Free), (''x'', Closing 1), (''b'', Free)] 4" by (simp add: ev)
  have 5: "close_end ''x'' (?m [(''b'', ?e 3)] [(''a'', Free), (''x'', Closing 1), (''b'', Free)] 4)
      = ?m [(''b'', ?e 3)] [(''a'', Free), (''x'', Free), (''b'', Free)] 4" by (simp add: ev)
  show ?thesis unfolding Let_def 0 1 2 3 4 5 by (simp add: evict_victim_def get_return_def)
qed

end
