(* ===== verification/EnvFile.thy ===== *)
theory EnvFile
  imports PyText
begin

text \<open>
  Reading and writing the \<open>.env\<close> file: \<^verbatim>\<open>src/lightrag/api/bimnemo/envfile.py\<close>. The file is its decoded
  text, or absent; the regular expression of an assignment is written out. The backup copy and the
  atomic replacement are two files and the outcome of their writes.
\<close>

definition APPENDED_HEADER :: pystr where
  "APPENDED_HEADER = ''# --- A'' @ [CHR 0xF1] @ ''adido por la configuraci'' @ [CHR 0xF3] @ ''n de BIMNEMO ---''"

definition SECRET_KEYS :: "pystr list" where
  "SECRET_KEYS = [''LLM_BINDING_API_KEY'', ''EMBEDDING_BINDING_API_KEY'', ''RERANK_BINDING_API_KEY'',
     ''AZURE_OPENAI_API_KEY'', ''AZURE_EMBEDDING_API_KEY'', ''LIGHTRAG_API_KEY'', ''TOKEN_SECRET'',
     ''AWS_SECRET_ACCESS_KEY'', ''POSTGRES_PASSWORD'', ''NEO4J_PASSWORD'', ''REDIS_URI'', ''MONGO_URI'']"

definition UNCHANGED :: pystr where
  "UNCHANGED = ''__BIMNEMO_SIN_CAMBIOS__''"

definition DQ :: char where "DQ = CHR 34"
definition SQ :: char where "SQ = CHR 39"
definition BACKSLASH :: char where "BACKSLASH = CHR 92"

definition is_quote :: "char \<Rightarrow> bool" where
  "is_quote c \<longleftrightarrow> c = DQ \<or> c = SQ"

subsection \<open>Lines\<close>

definition ident_start :: "char \<Rightarrow> bool" where
  "ident_start c \<longleftrightarrow> (let n = (code c :: nat) in (65 \<le> n \<and> n \<le> 90) \<or> (97 \<le> n \<and> n \<le> 122) \<or> c = CHR ''_'')"

definition ident_char :: "char \<Rightarrow> bool" where
  "ident_char c \<longleftrightarrow> ident_start c \<or> (let n = (code c :: nat) in 48 \<le> n \<and> n \<le> 57)"

text \<open>The key, the spaces before \<open>=\<close> and what follows it.\<close>

definition match_key :: "pystr \<Rightarrow> (pystr \<times> pystr \<times> pystr) option" where
  "match_key s =
     (if s = [] \<or> \<not> ident_start (hd s) then None
      else let key = takeWhile ident_char s; r = dropWhile ident_char s;
               spacing = takeWhile isspace r; r2 = dropWhile isspace r
           in (case r2 of [] \<Rightarrow> None | c # rest \<Rightarrow> if c = CHR ''='' then Some (key, spacing, rest) else None))"

text \<open>The match of \<open>_ASSIGNMENT\<close>: the indent and the three groups. The optional \<open>export\<close> is tried
  first; without it the same text is matched again as a key.\<close>

definition match_assignment :: "pystr \<Rightarrow> (pystr \<times> pystr \<times> pystr \<times> pystr) option" where
  "match_assignment line =
     (let indent = takeWhile isspace line; r = dropWhile isspace line;
          after = drop 6 r;
          exported = (if startswith r ''export'' \<and> after \<noteq> [] \<and> isspace (hd after)
                      then match_key (dropWhile isspace after) else None)
      in case exported of
           Some (k, sp, v) \<Rightarrow> Some (indent, k, sp, v)
         | None \<Rightarrow> (case match_key r of Some (k, sp, v) \<Rightarrow> Some (indent, k, sp, v) | None \<Rightarrow> None))"

text \<open>The loop of \<open>_strip_inline_comment\<close>: what has been read is reversed in \<open>seen\<close>.\<close>

fun comment_loop :: "pystr \<Rightarrow> char option \<Rightarrow> pystr \<Rightarrow> (pystr \<times> pystr) option" where
  "comment_loop seen qt [] = None"
| "comment_loop seen (Some q) (c # s) = comment_loop (c # seen) (if c = q then None else Some q) s"
| "comment_loop seen None (c # s) =
     (if is_quote c then comment_loop (c # seen) (Some c) s
      else if c = CHR ''#'' \<and> (seen = [] \<or> isspace (hd seen)) then Some (rstrip (rev seen), c # s)
      else comment_loop (c # seen) None s)"

definition strip_inline_comment :: "pystr \<Rightarrow> pystr \<times> pystr" where
  "strip_inline_comment raw =
     (case comment_loop [] None raw of Some r \<Rightarrow> r | None \<Rightarrow> (strip raw, []))"

definition unquote :: "pystr \<Rightarrow> pystr" where
  "unquote v0 =
     (let v = strip v0
      in if 2 \<le> length v \<and> hd v = last v \<and> is_quote (hd v) then butlast (tl v) else v)"

definition escape_value :: "pystr \<Rightarrow> pystr" where
  "escape_value v = concat (map (\<lambda>c. if c = BACKSLASH then [BACKSLASH, BACKSLASH]
                                     else if c = DQ then [BACKSLASH, DQ] else [c]) v)"

definition quote_if_needed :: "pystr \<Rightarrow> pystr" where
  "quote_if_needed v =
     (if v = [] then []
      else if list_ex isspace v \<or> list_ex (\<lambda>c. c = CHR ''#'' \<or> is_quote c) v
      then [DQ] @ escape_value v @ [DQ]
      else v)"

subsection \<open>Reading\<close>

definition read_line :: "pystr \<Rightarrow> (pystr, pystr) pydict \<Rightarrow> (pystr, pystr) pydict" where
  "read_line line d =
     (let stripped = strip line in
      if stripped = [] \<or> startswith stripped ''#'' then d
      else case match_assignment line of
        None \<Rightarrow> d
      | Some (indent, k, sp, rest) \<Rightarrow>
          AList.update k (unquote (fst (strip_inline_comment rest))) d)"

definition read_env_text :: "pystr \<Rightarrow> (pystr, pystr) pydict" where
  "read_env_text text = fold read_line (splitlines text) []"

definition read_env :: "pystr option \<Rightarrow> (pystr, pystr) pydict" where
  "read_env file = (case file of None \<Rightarrow> [] | Some raw \<Rightarrow> read_env_text (universal_newlines raw))"

datatype public_value = Secret bool | Public pystr

definition public_view :: "(pystr, pystr) pydict \<Rightarrow> (pystr, public_value) pydict" where
  "public_view vs = map (\<lambda>(k, v). (k, if k \<in> set SECRET_KEYS then Secret (v \<noteq> []) else Public v)) vs"

definition clave_puesta :: "pystr \<Rightarrow> bool" where
  "clave_puesta valor =
     (let limpio = lower (strip valor)
      in limpio \<noteq> [] \<and> \<not> (startswith limpio ''your_'' \<or> startswith limpio ''your-''))"

subsection \<open>Writing\<close>

text \<open>A line of the file, with what is still to be set.\<close>

definition write_line ::
    "pystr \<Rightarrow> (pystr, pystr option) pydict \<times> pystr list \<times> pystr list
     \<Rightarrow> (pystr, pystr option) pydict \<times> pystr list \<times> pystr list" where
  "write_line line st =
     (case st of (pending, changed, result) \<Rightarrow>
        (case match_assignment line of
           None \<Rightarrow> (pending, changed, result @ [line])
         | Some (indent, k, spacing, rest) \<Rightarrow>
             (case map_of pending k of
                None \<Rightarrow> (pending, changed, result @ [line])
              | Some new_value \<Rightarrow>
                  let comment = snd (strip_inline_comment rest);
                      suffix = (if comment \<noteq> [] then ''  '' @ strip comment else []);
                      new_line = (case new_value of
                          None \<Rightarrow> indent @ ''# '' @ lstrip line
                        | Some v \<Rightarrow> indent @ k @ spacing @ ''='' @ quote_if_needed v @ suffix)
                  in (AList.delete k pending, changed @ [k], result @ [new_line]))))"

definition additions_of :: "(pystr, pystr option) pydict \<Rightarrow> (pystr \<times> pystr) list" where
  "additions_of pending = concat (map (\<lambda>(k, v). case v of None \<Rightarrow> [] | Some x \<Rightarrow> [(k, x)]) pending)"

definition append_additions :: "pystr \<Rightarrow> (pystr \<times> pystr) list \<Rightarrow> pystr list \<Rightarrow> pystr list" where
  "append_additions original additions result =
     (if additions = [] then result
      else let r1 = (if result \<noteq> [] \<and> strip (last result) \<noteq> [] then result @ [[]] else result);
               r2 = (if contains original APPENDED_HEADER then r1 else r1 @ [APPENDED_HEADER])
           in r2 @ map (\<lambda>(k, v). k @ ''='' @ quote_if_needed v) additions)"

text \<open>The new lines of the file and the changed keys. \<open>original\<close> is the text that was read.\<close>

definition write_lines :: "(pystr, pystr option) pydict \<Rightarrow> pystr \<Rightarrow> pystr list \<times> pystr list" where
  "write_lines updates original =
     (case fold write_line (splitlines original) (updates, [], []) of
        (pending, changed, result) \<Rightarrow>
          let additions = additions_of pending
          in (append_additions original additions result, changed @ map fst additions))"

definition effective_updates :: "(pystr, pystr option) pydict \<Rightarrow> (pystr, pystr option) pydict" where
  "effective_updates updates = filter (\<lambda>(k, v). v \<noteq> Some UNCHANGED) updates"

text \<open>The directory: the file and its backup copy.\<close>

record env_dir =
  env_file :: "pystr option"
  env_backup :: "pystr option"

definition atomic_write :: "bool \<Rightarrow> bool \<Rightarrow> pystr \<Rightarrow> env_dir \<Rightarrow> bool \<times> env_dir" where
  "atomic_write copy_ok write_ok content d =
     (let d1 = (case env_file d of
                  None \<Rightarrow> d
                | Some old \<Rightarrow> if copy_ok then d\<lparr>env_backup := Some old\<rparr> else d)
      in if write_ok then (True, d1\<lparr>env_file := Some content\<rparr>) else (False, d1))"

text \<open>The changed keys; None when the write raised.\<close>

definition write_env ::
    "bool \<Rightarrow> bool \<Rightarrow> (pystr, pystr option) pydict \<Rightarrow> env_dir \<Rightarrow> pystr list option \<times> env_dir" where
  "write_env copy_ok write_ok updates0 d =
     (let updates = effective_updates updates0 in
      if updates = [] then (Some [], d)
      else let original = (case env_file d of None \<Rightarrow> [] | Some raw \<Rightarrow> universal_newlines raw);
               trailing_newline = (endswith original [LF] \<or> original = []);
               (result, changed) = write_lines updates original
           in if changed = [] then (Some [], d)
              else let content = join [LF] result @ (if trailing_newline then [LF] else [])
                   in (case atomic_write copy_ok write_ok content d of
                         (True, d1) \<Rightarrow> (Some changed, d1)
                       | (False, d1) \<Rightarrow> (None, d1)))"

end
