(* ===== verification/EnvFileLaws.thy ===== *)
theory EnvFileLaws
  imports EnvFile
begin

text \<open>
  What a write does to the keys of an \<open>.env\<close> file, as a later read sees them: the keys that were not
  named keep their value, the named ones get theirs.
\<close>

subsection \<open>Lines\<close>

definition valid_key :: "pystr \<Rightarrow> bool" where
  "valid_key k \<longleftrightarrow> k \<noteq> [] \<and> ident_start (hd k) \<and> list_all ident_char k"

definition one_line :: "pystr \<Rightarrow> bool" where
  "one_line s \<longleftrightarrow> \<not> list_ex is_linebreak s"

lemma ident_not_space: "ident_char c \<Longrightarrow> \<not> isspace c \<and> c \<noteq> CHR ''='' \<and> c \<noteq> CHR ''#''"
  by (auto simp: ident_char_def ident_start_def isspace_def Let_def)

lemma ident_start_char: "ident_start c \<Longrightarrow> ident_char c"
  by (simp add: ident_char_def)

lemma takeWhile_all: "list_all P xs \<Longrightarrow> ys = [] \<or> \<not> P (hd ys) \<Longrightarrow> takeWhile P (xs @ ys) = xs \<and> dropWhile P (xs @ ys) = ys"
  by (induction xs) (auto simp: takeWhile_eq_Nil_iff dropWhile_eq_self_iff)

lemma match_key_built:
  assumes "valid_key k" "list_all isspace sp"
  shows "match_key (k @ sp @ ''='' @ rest) = Some (k, sp, rest)"
proof -
  have hd: "hd (sp @ ''='' @ rest) \<in> set sp \<union> {CHR ''=''}" by (cases sp) auto
  have nid: "\<not> ident_char (hd (sp @ ''='' @ rest))"
    using hd assms(2) ident_not_space by (auto simp: list_all_iff)
  have k: "takeWhile ident_char (k @ sp @ ''='' @ rest) = k" "dropWhile ident_char (k @ sp @ ''='' @ rest) = sp @ ''='' @ rest"
    using takeWhile_all [of ident_char k "sp @ ''='' @ rest"] assms(1) nid by (simp_all add: valid_key_def)
  have "\<not> isspace CHR ''=''" by (simp add: isspace_def)
  then have sp: "takeWhile isspace (sp @ ''='' @ rest) = sp" "dropWhile isspace (sp @ ''='' @ rest) = ''='' @ rest"
    using takeWhile_all [of isspace sp "''='' @ rest"] assms(2) by simp_all
  show ?thesis using assms(1) k sp by (simp add: match_key_def valid_key_def Let_def)
qed

lemma match_key_shape:
  assumes "match_key s = Some (k, sp, rest)"
  shows "s = k @ sp @ ''='' @ rest \<and> valid_key k \<and> list_all isspace sp"
proof -
  let ?r = "dropWhile ident_char s"
  have s: "s \<noteq> []" "ident_start (hd s)" using assms by (auto simp: match_key_def split: if_splits)
  have m: "k = takeWhile ident_char s" "sp = takeWhile isspace ?r" "dropWhile isspace ?r = CHR ''='' # rest"
    using assms s by (auto simp: match_key_def Let_def split: list.splits if_splits)
  have "s = k @ ?r" using m(1) by simp
  moreover have "?r = sp @ CHR ''='' # rest" using m(2,3) by (metis takeWhile_dropWhile_id)
  moreover have "valid_key k"
    using s m(1) by (cases s) (auto simp: valid_key_def ident_start_char list_all_iff dest: set_takeWhileD)
  moreover have "list_all isspace sp" using m(2) by (auto simp: list_all_iff dest: set_takeWhileD)
  ultimately show ?thesis by (simp only: append_Cons append_Nil)
qed

lemma match_assignment_built:
  assumes "list_all isspace ind" "valid_key k" "list_all isspace sp"
  shows "match_assignment (ind @ k @ sp @ ''='' @ rest) = Some (ind, k, sp, rest)"
proof -
  let ?r = "k @ sp @ ''='' @ rest"
  obtain c k' where k: "k = c # k'" "ident_start c" using assms(2) by (cases k) (auto simp: valid_key_def)
  have nsp: "\<not> isspace c" using ident_start_char [OF k(2)] ident_not_space by blast
  then have ind: "takeWhile isspace (ind @ ?r) = ind" "dropWhile isspace (ind @ ?r) = ?r"
    using takeWhile_all [OF assms(1), of ?r] k by simp_all
  have mk: "match_key ?r = Some (k, sp, rest)" by (rule match_key_built [OF assms(2,3)])
  have no_export: "match_key (dropWhile isspace (drop 6 ?r)) = None"
    if e: "startswith ?r ''export''" "drop 6 ?r \<noteq> []" "isspace (hd (drop 6 ?r))"
  proof -
    obtain a where a: "?r = ''export'' @ a" using e(1) by (auto simp: startswith_iff)
    then have d: "drop 6 ?r = a" by simp
    have "list_all ident_char ''export''" by (simp add: ident_char_def ident_start_def)
    moreover have "\<not> ident_char (hd a)" using e(3) d ident_not_space by auto
    ultimately have x: "takeWhile ident_char ?r = ''export''" "dropWhile ident_char ?r = a"
      using takeWhile_all [of ident_char "''export''" a] unfolding a by blast+
    have h: "hd (sp @ ''='' @ rest) \<in> set sp \<union> {CHR ''=''}" by (cases sp) auto
    have "\<not> ident_char (hd (sp @ ''='' @ rest))"
      using h assms(3) ident_not_space by (auto simp: list_all_iff)
    then have y: "dropWhile ident_char ?r = sp @ ''='' @ rest"
      using takeWhile_all [of ident_char k "sp @ ''='' @ rest"] assms(2) by (simp add: valid_key_def)
    have "\<not> isspace CHR ''=''" by (simp add: isspace_def)
    then have "dropWhile isspace a = ''='' @ rest"
      using takeWhile_all [of isspace sp "''='' @ rest"] assms(3) x(2) y by simp
    then show ?thesis unfolding d by (simp add: match_key_def ident_start_def)
  qed
  define r where "r = ?r"
  show ?thesis
    using ind mk no_export unfolding r_def [symmetric] match_assignment_def Let_def by simp
qed

lemma match_assignment_shape:
  assumes "match_assignment line = Some (ind, k, sp, rest)"
  shows "list_all isspace ind \<and> valid_key k \<and> list_all isspace sp \<and> (\<exists>pre. line = ind @ pre @ k @ sp @ ''='' @ rest)"
proof -
  have i: "ind = takeWhile isspace line"
    and m: "match_key (dropWhile isspace line) = Some (k, sp, rest) \<or>
        match_key (dropWhile isspace (drop 6 (dropWhile isspace line))) = Some (k, sp, rest)"
    using assms by (auto simp: match_assignment_def Let_def split: option.splits if_splits)
  have sub: "\<exists>pre. dropWhile isspace line = pre @ dropWhile isspace (drop 6 (dropWhile isspace line))"
    by (metis append.assoc append_take_drop_id takeWhile_dropWhile_id)
  have "\<exists>pre. dropWhile isspace line = pre @ k @ sp @ ''='' @ rest"
    using m sub match_key_shape by (metis append_Nil)
  moreover have "valid_key k" "list_all isspace sp" using m match_key_shape by blast+
  moreover have "line = ind @ dropWhile isspace line" using i by simp
  moreover have "list_all isspace ind" using i by (auto simp: list_all_iff dest: set_takeWhileD)
  ultimately show ?thesis by metis
qed

text \<open>What a line binds.\<close>

definition line_binding :: "pystr \<Rightarrow> (pystr \<times> pystr) option" where
  "line_binding line =
     (case match_assignment line of
        None \<Rightarrow> None
      | Some (ind, k, sp, rest) \<Rightarrow> Some (k, unquote (fst (strip_inline_comment rest))))"

lemma match_assignment_head:
  assumes "match_assignment line = Some m"
  shows "lstrip line \<noteq> [] \<and> ident_start (hd (lstrip line))"
proof -
  let ?r = "dropWhile isspace line"
  have "startswith ?r ''export'' \<or> (\<exists>x. match_key ?r = Some x)"
    using assms by (auto simp: match_assignment_def Let_def split: option.splits if_splits)
  then show ?thesis
  proof
    assume "startswith ?r ''export''"
    then obtain t where "?r = ''export'' @ t" by (auto simp: startswith_iff)
    then show ?thesis by (simp add: lstrip_def ident_start_def)
  next
    assume "\<exists>x. match_key ?r = Some x"
    then show ?thesis by (auto simp: lstrip_def match_key_def split: if_splits)
  qed
qed

lemma strip_head: "lstrip s \<noteq> [] \<Longrightarrow> strip s \<noteq> [] \<and> hd (strip s) = hd (lstrip s)"
proof -
  assume n: "lstrip s \<noteq> []"
  then have "\<not> isspace (hd (lstrip s))" unfolding lstrip_def by (rule hd_dropWhile)
  then have "\<exists>c \<in> set (rev (lstrip s)). \<not> isspace c" using n by auto
  then have "dropWhile isspace (rev (lstrip s)) \<noteq> []" by (simp add: dropWhile_eq_Nil_conv)
  then have "strip s \<noteq> []" by (simp add: strip_def rstrip_def)
  then show ?thesis using rdrop_hd [of "strip s" isspace "lstrip s"] by (simp add: strip_def rstrip_def)
qed

lemma comment_no_binding:
  assumes "strip line = [] \<or> startswith (strip line) ''#''"
  shows "match_assignment line = None"
proof (rule ccontr)
  assume "match_assignment line \<noteq> None"
  then have h: "lstrip line \<noteq> []" "ident_start (hd (lstrip line))" using match_assignment_head by auto
  then have "strip line \<noteq> []" "ident_start (hd (strip line))" using strip_head by auto
  moreover have "hd (strip line) = CHR ''#''" if "startswith (strip line) ''#''"
    using that by (auto simp: startswith_iff)
  ultimately show False using assms by (auto simp: ident_start_def)
qed

lemma read_line_binding:
  "read_line line d = (case line_binding line of None \<Rightarrow> d | Some (k, v) \<Rightarrow> AList.update k v d)"
  using comment_no_binding [of line]
  by (auto simp: read_line_def line_binding_def Let_def split: option.splits)

text \<open>The last value a list of lines gives a key.\<close>

fun last_value :: "pystr \<Rightarrow> pystr list \<Rightarrow> pystr option \<Rightarrow> pystr option" where
  "last_value k [] r = r"
| "last_value k (l # ls) r =
     last_value k ls (case line_binding l of Some (k', v) \<Rightarrow> if k' = k then Some v else r | None \<Rightarrow> r)"

lemma read_lines_value: "map_of (fold read_line ls d) k = last_value k ls (map_of d k)"
proof (induction ls arbitrary: d)
  case (Cons l ls)
  show ?case unfolding fold_simps Cons.IH o_apply
    by (auto simp: read_line_binding map_of_update_iff split: option.splits)
qed simp

lemma last_value_append: "last_value k (xs @ ys) r = last_value k ys (last_value k xs r)"
  by (induction xs arbitrary: r) auto

subsection \<open>Text and lines\<close>

lemma LF_break [simp]: "is_linebreak LF" "is_linebreak CR" "LF \<noteq> CR" "CR \<noteq> LF"
  by (simp_all add: is_linebreak_def LF_def CR_def)

lemma splitlines_acc: "one_line s \<Longrightarrow> splitlines_loop acc s = (if rev s @ acc = [] then [] else [rev acc @ s])"
proof (induction acc s rule: splitlines_loop.induct)
  case (3 acc c d s)
  then show ?case by (auto simp: one_line_def)
qed (auto simp: one_line_def)

lemma splitlines_line: "one_line s \<Longrightarrow> splitlines_loop acc (s @ LF # t) = (rev acc @ s) # splitlines_loop [] t"
proof (induction s arbitrary: acc)
  case Nil
  then show ?case by (cases t) auto
next
  case (Cons c s)
  have c: "\<not> is_linebreak c" "one_line s" using Cons.prems by (auto simp: one_line_def)
  obtain d u where du: "s @ LF # t = d # u" by (cases "s @ LF # t") auto
  have "splitlines_loop acc ((c # s) @ LF # t) = splitlines_loop (c # acc) (s @ LF # t)"
    using c du by simp
  then show ?case using Cons.IH [OF c(2), of "c # acc"] by simp
qed

lemma splitlines_join_end:
  "list_all one_line ls \<Longrightarrow> ls \<noteq> [] \<Longrightarrow> splitlines (join [LF] ls @ [LF]) = ls"
proof (induction "[LF]" ls rule: join.induct)
  case (2 x)
  then show ?case using splitlines_line [of x "[]" "[]"] by (simp add: splitlines_def)
next
  case (3 x y ys)
  then show ?case using splitlines_line [of x "[]" "join [LF] (y # ys) @ [LF]"]
    by (simp add: splitlines_def)
qed simp

lemma splitlines_join:
  "list_all one_line ls \<Longrightarrow> ls \<noteq> [] \<Longrightarrow>
     splitlines (join [LF] ls) = (if last ls = [] then butlast ls else ls)"
proof (induction "[LF]" ls rule: join.induct)
  case (2 x)
  then show ?case using splitlines_acc [of x "[]"] by (simp add: splitlines_def)
next
  case (3 x y ys)
  then show ?case using splitlines_line [of x "[]" "join [LF] (y # ys)"]
    by (simp add: splitlines_def)
qed simp

lemma last_value_empty_line: "last_value k (if last ls = [] then butlast ls else ls) r = last_value k ls r"
proof (cases "last ls = [] \<and> ls \<noteq> []")
  case True
  then have "ls = butlast ls @ [[]]" by (metis append_butlast_last_id)
  then have "last_value k ls r = last_value k (butlast ls @ [[]]) r" by simp
  also have "\<dots> = last_value k (butlast ls) r"
    by (simp add: last_value_append line_binding_def match_assignment_def match_key_def startswith_def)
  finally show ?thesis using True by simp
qed (cases ls, auto)

lemma universal_id: "CR \<notin> set s \<Longrightarrow> universal_newlines s = s"
  by (induction s rule: universal_newlines.induct) auto

lemma one_line_no_CR: "one_line s \<Longrightarrow> CR \<notin> set s"
  by (auto simp: one_line_def list_ex_iff)

lemma set_join: "set (join sep ls) \<subseteq> set sep \<union> \<Union> (set ` set ls)"
  by (induction sep ls rule: join.induct) auto

text \<open>Reading lines that were joined is reading the lines.\<close>

lemma read_joined:
  assumes "list_all one_line ls" "ls \<noteq> []" "nl = [] \<or> nl = [LF]"
  shows "map_of (read_env (Some (join [LF] ls @ nl))) k = last_value k ls None"
proof -
  have "CR \<notin> set (join [LF] ls @ nl)"
    using assms set_join [of "[LF]" ls] one_line_no_CR by (auto simp: list_all_iff)
  then have "map_of (read_env (Some (join [LF] ls @ nl))) k = last_value k (splitlines (join [LF] ls @ nl)) None"
    by (simp add: read_env_def read_env_text_def universal_id read_lines_value)
  then show ?thesis
    using assms splitlines_join [OF assms(1,2)] splitlines_join_end [OF assms(1,2)] last_value_empty_line [of k ls None]
    by auto
qed

subsection \<open>Written lines\<close>

definition bind_step :: "pystr \<Rightarrow> pystr \<Rightarrow> pystr option \<Rightarrow> pystr option" where
  "bind_step k l r = (case line_binding l of Some (k', v) \<Rightarrow> if k' = k then Some v else r | None \<Rightarrow> r)"

lemma last_value_Cons: "last_value k (l # ls) r = last_value k ls (bind_step k l r)"
  by (simp add: bind_step_def)

declare last_value.simps(2) [simp del]

definition assigned_line :: "pystr \<Rightarrow> pystr \<Rightarrow> pystr \<Rightarrow> pystr \<Rightarrow> pystr \<Rightarrow> pystr" where
  "assigned_line ind k sp v rest =
     ind @ k @ sp @ ''='' @ quote_if_needed v
       @ (if snd (strip_inline_comment rest) \<noteq> [] then ''  '' @ strip (snd (strip_inline_comment rest)) else [])"

definition new_line_of :: "(pystr, pystr option) pydict \<Rightarrow> pystr \<Rightarrow> pystr" where
  "new_line_of p line =
     (case match_assignment line of
        None \<Rightarrow> line
      | Some (ind, k, sp, rest) \<Rightarrow>
          (case map_of p k of
             None \<Rightarrow> line
           | Some None \<Rightarrow> ind @ ''# '' @ lstrip line
           | Some (Some v) \<Rightarrow> assigned_line ind k sp v rest))"

definition key_of :: "pystr \<Rightarrow> pystr option" where
  "key_of line = map_option (\<lambda>(ind, k, sp, rest). k) (match_assignment line)"

definition next_pending :: "(pystr, pystr option) pydict \<Rightarrow> pystr \<Rightarrow> (pystr, pystr option) pydict" where
  "next_pending p line = (case key_of line of None \<Rightarrow> p | Some k \<Rightarrow> if has_key p k then AList.delete k p else p)"

definition next_changed :: "(pystr, pystr option) pydict \<Rightarrow> pystr list \<Rightarrow> pystr \<Rightarrow> pystr list" where
  "next_changed p c line = (case key_of line of None \<Rightarrow> c | Some k \<Rightarrow> if has_key p k then c @ [k] else c)"

lemma write_line_eq:
  "write_line line (p, c, r) = (next_pending p line, next_changed p c line, r @ [new_line_of p line])"
  by (auto simp: write_line_def new_line_of_def key_of_def has_key_def assigned_line_def Let_def
    next_pending_def next_changed_def split: option.splits)

lemma map_of_next_pending:
  "map_of (next_pending p line) k = (if key_of line = Some k then None else map_of p k)"
  by (auto simp: next_pending_def has_key_def map_of_delete_iff split: option.splits)

lemma keys_next_pending: "set (keys (next_pending p line)) \<subseteq> set (keys p)"
  by (auto simp: next_pending_def keys_delete simp del: set_map split: option.splits)

lemma dict_ok_next_pending: "dict_ok p \<Longrightarrow> dict_ok (next_pending p line)"
  by (auto simp: next_pending_def split: option.splits)

lemma bind_step_key: "key_of l \<noteq> Some k \<Longrightarrow> bind_step k l r = r"
  by (auto simp: bind_step_def line_binding_def key_of_def split: option.splits)

lemma key_of_commented:
  assumes "list_all isspace ind" shows "key_of (ind @ ''# '' @ s) = None"
proof -
  have "lstrip (ind @ ''# '' @ s) = ''# '' @ s"
    using takeWhile_all [OF assms, of "''# '' @ s"] by (simp add: lstrip_def isspace_def)
  then have "strip (ind @ ''# '' @ s) \<noteq> [] \<and> hd (strip (ind @ ''# '' @ s)) = CHR ''#''"
    using strip_head [of "ind @ ''# '' @ s"] by simp
  then have "startswith (strip (ind @ ''# '' @ s)) ''#''"
    by (metis append_Cons append_Nil list.collapse startswith_append)
  then show ?thesis by (simp add: key_of_def comment_no_binding)
qed

lemma key_of_assigned:
  assumes "match_assignment line = Some (ind, k, sp, rest)"
  shows "key_of (assigned_line ind k sp v rest') = Some k"
proof -
  have "match_assignment (ind @ k @ sp @ ''='' @ x) = Some (ind, k, sp, x)" for x
    using match_assignment_shape [OF assms] by (intro match_assignment_built) auto
  then show ?thesis unfolding key_of_def assigned_line_def by (simp only: option.map prod.case)
qed

lemma key_of_new_line:
  "key_of (new_line_of p line) =
     (case key_of line of Some k \<Rightarrow> if map_of p k = Some None then None else Some k | None \<Rightarrow> None)"
proof (cases "match_assignment line")
  case (Some m)
  obtain ind k sp rest where m: "m = (ind, k, sp, rest)" by (cases m)
  then have ind: "list_all isspace ind" using Some match_assignment_shape by blast
  show ?thesis
    using Some m key_of_commented [OF ind, of "lstrip line"] key_of_assigned [of line ind k sp rest]
    by (auto simp: new_line_of_def key_of_def split: option.splits)
qed (simp add: new_line_of_def key_of_def)

lemma new_line_other: "\<not> has_key p k \<Longrightarrow> bind_step k (new_line_of p line) r = bind_step k line r"
proof -
  assume k: "\<not> has_key p k"
  show ?thesis
  proof (cases "key_of line = Some k")
    case True
    then have "new_line_of p line = line"
      using k by (auto simp: new_line_of_def key_of_def has_key_def split: option.splits)
    then show ?thesis by simp
  next
    case False
    then have "key_of (new_line_of p line) \<noteq> Some k"
      by (auto simp: key_of_new_line split: option.splits if_splits)
    then show ?thesis using False by (simp add: bind_step_key)
  qed
qed

lemma write_lines_other:
  "\<not> has_key p k \<Longrightarrow> fold write_line ls (p, c, r) = (p', c', r') \<Longrightarrow>
     \<exists>new. r' = r @ new \<and> length new = length ls \<and> (\<forall>a. last_value k new a = last_value k ls a)
       \<and> set (keys p') \<subseteq> set (keys p) \<and> \<not> has_key p' k"
proof (induction ls arbitrary: p c r)
  case (Cons l ls)
  have k1: "\<not> has_key (next_pending p l) k"
    using Cons.prems(1) by (simp add: has_key_def map_of_next_pending)
  have "fold write_line ls (next_pending p l, next_changed p c l, r @ [new_line_of p l]) = (p', c', r')"
    using Cons.prems(2) by (simp add: write_line_eq)
  from Cons.IH [OF k1 this] obtain new where new: "r' = (r @ [new_line_of p l]) @ new" "length new = length ls"
      "\<forall>a. last_value k new a = last_value k ls a" "set (keys p') \<subseteq> set (keys (next_pending p l))" "\<not> has_key p' k"
    by blast
  then show ?case
    using keys_next_pending [of p l] new_line_other [OF Cons.prems(1), of l]
    by (intro exI [of _ "new_line_of p l # new"]) (simp add: last_value_Cons subset_trans del: set_map)
qed simp

lemma write_lines_none:
  "list_all (\<lambda>l. key_of l \<noteq> Some k) ls \<Longrightarrow> fold write_line ls (p, c, r) = (p', c', r') \<Longrightarrow>
     \<exists>new. r' = r @ new \<and> (\<forall>a. last_value k new a = a) \<and> map_of p' k = map_of p k"
proof (induction ls arbitrary: p c r)
  case (Cons l ls)
  have k: "key_of l \<noteq> Some k" "list_all (\<lambda>l. key_of l \<noteq> Some k) ls" using Cons.prems(1) by simp_all
  have "fold write_line ls (next_pending p l, next_changed p c l, r @ [new_line_of p l]) = (p', c', r')"
    using Cons.prems(2) by (simp add: write_line_eq)
  from Cons.IH [OF k(2) this] obtain new where new: "r' = (r @ [new_line_of p l]) @ new"
      "\<forall>a. last_value k new a = a" "map_of p' k = map_of (next_pending p l) k"
    by blast
  have "key_of (new_line_of p l) \<noteq> Some k"
    using k(1) by (auto simp: key_of_new_line split: option.splits if_splits)
  then show ?case
    using new k(1) by (intro exI [of _ "new_line_of p l # new"]) (simp add: last_value_Cons bind_step_key map_of_next_pending)
qed simp

subsection \<open>No line breaks come in\<close>

lemma one_line_iff: "one_line s \<longleftrightarrow> (\<forall>c \<in> set s. \<not> is_linebreak c)"
  by (auto simp: one_line_def list_ex_iff)

lemma splitlines_one_line: "one_line acc \<Longrightarrow> list_all one_line (splitlines_loop acc s)"
proof (induction acc s rule: splitlines_loop.induct)
  case (3 acc c d s)
  have rev_ok: "one_line (rev acc)" using 3(4) by (simp add: one_line_iff)
  show ?case
  proof (cases "is_linebreak c")
    case True
    have nil: "one_line []" by (simp add: one_line_def)
    show ?thesis using True rev_ok 3(1) [OF True _ nil] 3(2) [OF True _ nil] by simp
  next
    case False
    then have "one_line (c # acc)" using 3(4) by (simp add: one_line_def)
    then show ?thesis using False 3(3) [OF False] by simp
  qed
qed (auto simp: one_line_iff)

lemma comment_loop_set: "comment_loop seen qt s = Some (a, b) \<Longrightarrow> set b \<subseteq> set s"
proof (induction seen qt s rule: comment_loop.induct)
  case (2 seen q c s)
  then show ?case by auto
next
  case (3 seen c s)
  then show ?case by (auto split: if_splits)
qed simp

lemma comment_set: "set (snd (strip_inline_comment s)) \<subseteq> set s"
  using comment_loop_set [of "[]" None s] by (auto simp: strip_inline_comment_def split: option.splits)

lemma quote_one_line: "one_line v \<Longrightarrow> one_line (quote_if_needed v)"
  by (auto simp: quote_if_needed_def escape_value_def one_line_iff DQ_def BACKSLASH_def is_linebreak_def
    split: if_splits)

lemma new_line_one_line:
  assumes "one_line line" "\<And>k v. map_of p k = Some (Some v) \<Longrightarrow> key_of line = Some k \<Longrightarrow> one_line v"
  shows "one_line (new_line_of p line)"
proof (cases "match_assignment line")
  case (Some m)
  obtain ind k sp rest where m: "m = (ind, k, sp, rest)" by (cases m)
  obtain pre where l: "line = ind @ pre @ k @ sp @ ''='' @ rest"
    using match_assignment_shape Some m by blast
  have ok: "one_line ind" "one_line k" "one_line sp" "one_line rest" "one_line ''=''" "one_line ''  ''" "one_line ''# ''"
    using assms(1) unfolding l by (auto simp: one_line_iff is_linebreak_def)
  have cm: "one_line (strip (snd (strip_inline_comment rest)))"
    using ok(4) comment_set [of rest] set_strip [of "snd (strip_inline_comment rest)"] by (auto simp: one_line_iff)
  have ls: "one_line (lstrip line)"
    using assms(1) by (auto simp: one_line_iff lstrip_def dest: set_dropWhileD)
  have app: "one_line (x @ y) \<longleftrightarrow> one_line x \<and> one_line y" for x y by (auto simp: one_line_iff)
  have nil: "one_line []" by (simp add: one_line_def)
  have key: "key_of line = Some k" using Some m by (simp add: key_of_def)
  show ?thesis
    using assms(1) assms(2) [of k] key ok cm ls nil Some m quote_one_line
    by (auto simp only: new_line_of_def assigned_line_def app option.case prod.case split: option.splits if_splits)
qed (simp add: new_line_of_def assms(1))

definition values_one_line :: "(pystr, pystr option) pydict \<Rightarrow> bool" where
  "values_one_line p \<longleftrightarrow> (\<forall>k v. map_of p k = Some (Some v) \<longrightarrow> one_line v)"

lemma write_lines_one_line:
  "list_all one_line ls \<Longrightarrow> list_all one_line r \<Longrightarrow> values_one_line p \<Longrightarrow>
     fold write_line ls (p, c, r) = (p', c', r') \<Longrightarrow> list_all one_line r' \<and> values_one_line p'
       \<and> (dict_ok p \<longrightarrow> dict_ok p')"
proof (induction ls arbitrary: p c r)
  case (Cons l ls)
  have v: "values_one_line (next_pending p l)"
    using Cons.prems(3) by (simp add: values_one_line_def map_of_next_pending)
  have n: "one_line (new_line_of p l)"
    using Cons.prems(1,3) by (intro new_line_one_line) (auto simp: values_one_line_def)
  have f: "fold write_line ls (next_pending p l, next_changed p c l, r @ [new_line_of p l]) = (p', c', r')"
    using Cons.prems(4) by (simp add: write_line_eq)
  show ?case
    using Cons.IH [OF _ _ v f] Cons.prems(1,2) n dict_ok_next_pending [of p l] by simp
qed simp

subsection \<open>Additions\<close>

lemma header_facts: "one_line APPENDED_HEADER" "key_of APPENDED_HEADER = None"
proof -
  show "one_line APPENDED_HEADER" by (simp add: APPENDED_HEADER_def one_line_def is_linebreak_def)
  show "key_of APPENDED_HEADER = None"
    using key_of_commented [of "[]" "tl (tl APPENDED_HEADER)"] by (simp add: APPENDED_HEADER_def)
qed

lemma empty_line_key: "key_of [] = None"
  by (simp add: key_of_def comment_no_binding strip_def lstrip_def rstrip_def)

lemma addition_key: "valid_key k \<Longrightarrow> key_of (k @ CHR ''='' # x) = Some k"
  using match_assignment_built [of "[]" k "[]" x] by (simp add: key_of_def)

lemma set_additions: "(k, v) \<in> set (additions_of p) \<longleftrightarrow> (k, Some v) \<in> set p"
  by (force simp: additions_of_def split: option.splits)

definition addition_lines :: "(pystr \<times> pystr) list \<Rightarrow> pystr list" where
  "addition_lines adds = map (\<lambda>(k, v). k @ ''='' @ quote_if_needed v) adds"

lemma append_additions_value:
  "last_value k (append_additions original adds result) a =
     last_value k (addition_lines adds) (last_value k result a)"
proof (cases "adds = []")
  case False
  have e: "bind_step k [] r = r" "bind_step k APPENDED_HEADER r = r" for r
    by (simp_all add: bind_step_key empty_line_key header_facts)
  show ?thesis
    using False by (simp add: append_additions_def addition_lines_def Let_def last_value_append last_value_Cons e)
qed (simp add: append_additions_def addition_lines_def)

lemma addition_lines_other:
  "list_all (\<lambda>(k', v). valid_key k' \<and> k' \<noteq> k) adds \<Longrightarrow> last_value k (addition_lines adds) a = a"
proof (induction adds)
  case (Cons x adds)
  obtain k' v where x: "x = (k', v)" by (cases x)
  then have "key_of (k' @ ''='' @ quote_if_needed v) \<noteq> Some k" using Cons.prems by (simp add: addition_key)
  then show ?case using Cons x by (simp add: addition_lines_def last_value_Cons bind_step_key)
qed (simp add: addition_lines_def)

subsection \<open>The whole write\<close>

definition original_text :: "env_dir \<Rightarrow> pystr" where
  "original_text d = (case env_file d of None \<Rightarrow> [] | Some raw \<Rightarrow> universal_newlines raw)"

lemma read_original: "map_of (read_env (env_file d)) k = last_value k (splitlines (original_text d)) None"
  by (simp add: read_env_def original_text_def read_env_text_def read_lines_value splitlines_def split: option.splits)

text \<open>What a caller may ask for: keys that are identifiers, values on one line.\<close>

definition updates_ok :: "(pystr, pystr option) pydict \<Rightarrow> bool" where
  "updates_ok updates \<longleftrightarrow> dict_ok updates \<and>
     list_all (\<lambda>(k, v). valid_key k \<and> (case v of None \<Rightarrow> True | Some x \<Rightarrow> one_line x)) updates"

lemma effective_ok: "updates_ok u \<Longrightarrow> updates_ok (effective_updates u)"
  by (auto simp: updates_ok_def effective_updates_def list_all_iff distinct_map_filter)

lemma updates_ok_values: "updates_ok u \<Longrightarrow> values_one_line u"
  by (auto simp: updates_ok_def values_one_line_def list_all_iff split: option.splits)

lemma write_lines_result:
  assumes "write_lines u orig = (result, changed)" "updates_ok u"
  obtains p' c' new where "fold write_line (splitlines orig) (u, [], []) = (p', c', new)"
    "result = append_additions orig (additions_of p') new" "changed = c' @ map fst (additions_of p')"
    "list_all one_line new" "values_one_line p'" "dict_ok p'"
proof -
  obtain p' c' new where f: "fold write_line (splitlines orig) (u, [], []) = (p', c', new)"
    by (cases "fold write_line (splitlines orig) (u, [], [])")
  have "list_all one_line (splitlines orig)"
    using splitlines_one_line [of "[]" orig] by (simp add: splitlines_def one_line_def)
  then have "list_all one_line new \<and> values_one_line p' \<and> dict_ok p'"
    using write_lines_one_line [OF _ _ updates_ok_values [OF assms(2)] f] assms(2) by (simp add: updates_ok_def)
  then show ?thesis using that [OF f] assms(1) f by (simp add: write_lines_def Let_def)
qed

lemma addition_line_one: "valid_key k \<Longrightarrow> one_line v \<Longrightarrow> one_line (k @ ''='' @ quote_if_needed v)"
proof -
  assume k: "valid_key k" and v: "one_line v"
  have "\<not> is_linebreak c" if "ident_char c" for c
    using that by (auto simp: ident_char_def ident_start_def is_linebreak_def Let_def)
  then have "one_line k" using k by (simp add: valid_key_def one_line_iff list_all_iff)
  moreover have "one_line ''=''" by (simp add: one_line_def is_linebreak_def)
  ultimately show ?thesis using quote_one_line [OF v] by (auto simp: one_line_iff)
qed

lemma append_additions_one_line:
  assumes "list_all one_line new" "list_all (\<lambda>(k, v). valid_key k \<and> one_line v) adds"
  shows "list_all one_line (append_additions orig adds new)"
proof -
  have "list_all one_line (map (\<lambda>(k, v). k @ ''='' @ quote_if_needed v) adds)"
    using assms(2) addition_line_one by (auto simp: list_all_iff)
  then show ?thesis
    using assms(1) header_facts(1) by (simp add: append_additions_def Let_def one_line_def)
qed

lemma additions_valid:
  assumes "updates_ok u" "values_one_line p'" "set (keys p') \<subseteq> set (keys u)" "dict_ok p'"
  shows "list_all (\<lambda>(k, v). valid_key k \<and> one_line v) (additions_of p')"
proof -
  have "valid_key k \<and> one_line v" if "(k, v) \<in> set (additions_of p')" for k v
  proof
    have in_p: "(k, Some v) \<in> set p'" using that by (simp add: set_additions)
    then show "one_line v" using assms(2,4) by (simp add: values_one_line_def)
    have "k \<in> set (keys u)" using in_p assms(3) by force
    then show "valid_key k" using assms(1) by (auto simp: updates_ok_def list_all_iff)
  qed
  then show ?thesis by (auto simp: list_all_iff)
qed

lemma write_lines_keys:
  "fold write_line ls (p, c, r) = (p', c', r') \<Longrightarrow> set (keys p') \<subseteq> set (keys p)
     \<and> (ls = [] \<longrightarrow> c' = c \<and> r' = r) \<and> (ls \<noteq> [] \<longrightarrow> r' \<noteq> [])"
proof (induction ls arbitrary: p c r)
  case (Cons l ls)
  have f: "fold write_line ls (next_pending p l, next_changed p c l, r @ [new_line_of p l]) = (p', c', r')"
    using Cons.prems by (simp add: write_line_eq)
  show ?case using Cons.IH [OF f] keys_next_pending [of p l] by (cases ls) (auto simp del: set_map)
qed simp

text \<open>The file after a write: as it was, or the lines joined.\<close>

lemma write_env_cases:
  obtains (same) "env_file (snd (write_env co wo u0 d)) = env_file d"
      "wo \<Longrightarrow> snd (write_lines (effective_updates u0) (original_text d)) = []
             \<or> effective_updates u0 = []"
    | (written) result changed nl where "write_lines (effective_updates u0) (original_text d) = (result, changed)"
      "changed \<noteq> []" "nl = [] \<or> nl = [LF]" "env_file (snd (write_env co wo u0 d)) = Some (join [LF] result @ nl)"
proof -
  define e where "e = (if endswith (original_text d) [LF] \<or> original_text d = [] then [LF] else [])"
  obtain result changed where w: "write_lines (effective_updates u0) (original_text d) = (result, changed)" by force
  have "env_file (snd (write_env co wo u0 d)) =
      (if effective_updates u0 = [] \<or> changed = [] \<or> \<not> wo then env_file d else Some (join [LF] result @ e))"
    using w unfolding original_text_def [symmetric] write_env_def Let_def atomic_write_def e_def
    by (auto simp: original_text_def split: option.splits)
  then show ?thesis
    using same written [of result changed e] w by (auto simp: e_def split: if_splits)
qed

text \<open>A write changes the keys it names and no other: whatever the file holds (comments, duplicated
  keys, \<open>export\<close>, odd quoting) and whether the write succeeds or not, every other key reads back
  as before. (The values are on one line and the keys are identifiers: a value with a line break
  would start a new line of the file.)\<close>

theorem other_keys_kept:
  assumes "updates_ok u" "\<not> has_key u k"
  shows "map_of (read_env (env_file (snd (write_env copy_ok write_ok u d)))) k = map_of (read_env (env_file d)) k"
proof (cases rule: write_env_cases [where co = copy_ok and wo = write_ok and ?u0.0 = u and d = d])
  case same
  then show ?thesis by simp
next
  case (written result changed e)
  let ?u = "effective_updates u" and ?ls = "splitlines (original_text d)"
  have ok: "updates_ok ?u" by (rule effective_ok [OF assms(1)])
  have k: "\<not> has_key ?u k"
    using assms(2) by (auto simp: has_key_iff effective_updates_def)
  obtain p' c' new where f: "fold write_line ?ls (?u, [], []) = (p', c', new)"
      and res: "result = append_additions (original_text d) (additions_of p') new" "changed = c' @ map fst (additions_of p')"
      and lines: "list_all one_line new" "values_one_line p'" "dict_ok p'"
    using write_lines_result [OF written(1) ok] by blast
  have kp: "set (keys p') \<subseteq> set (keys ?u)" "?ls = [] \<Longrightarrow> c' = []" "?ls \<noteq> [] \<Longrightarrow> new \<noteq> []"
    using write_lines_keys [OF f] by simp_all
  have new: "last_value k new None = last_value k ?ls None" "\<not> has_key p' k"
    using write_lines_other [OF k f] by auto
  have adds: "list_all (\<lambda>(k, v). valid_key k \<and> one_line v) (additions_of p')"
    by (rule additions_valid [OF ok lines(2) kp(1) lines(3)])
  have ne: "result \<noteq> []"
    using written(2) kp(2,3) res by (auto simp: append_additions_def Let_def)
  have "list_all (\<lambda>(k', v). valid_key k' \<and> k' \<noteq> k) (additions_of p')"
    using adds new(2) by (force simp: list_all_iff set_additions has_key_iff)
  then have "last_value k (addition_lines (additions_of p')) a = a" for a
    by (rule addition_lines_other)
  then have "last_value k result None = last_value k ?ls None"
    using new(1) by (simp add: res(1) append_additions_value)
  then show ?thesis
    using read_joined [OF _ ne written(3)] append_additions_one_line [OF lines(1) adds] written(4)
    by (simp add: read_original res(1))
qed

definition sample_env :: env_dir where
  "sample_env = \<lparr>env_file = Some (''# hola'' @ [LF] @ ''A=1 # x'' @ [LF] @ ''B=dos''), env_backup = None\<rparr>"

lemmas env_eval =
  write_env_def effective_updates_def UNCHANGED_def write_lines_def write_line_def match_assignment_def
  match_key_def ident_start_def ident_char_def isspace_def startswith_def strip_inline_comment_def
  is_quote_def rstrip_def lstrip_def strip_def unquote_def quote_if_needed_def escape_value_def
  additions_of_def append_additions_def endswith_def LF_def CR_def DQ_def SQ_def BACKSLASH_def is_linebreak_def
  splitlines_def atomic_write_def read_env_def read_env_text_def read_line_def Let_def

lemma sample_updates_ok: "updates_ok [(''A'', Some ''2''), (''C'', None)]"
  by (simp add: updates_ok_def valid_key_def one_line_def ident_start_def ident_char_def is_linebreak_def)

theorem other_keys_kept_witness:
  "map_of (read_env (env_file (snd (write_env True True [(''A'', Some ''2''), (''C'', None)] sample_env)))) ''B'' = Some ''dos''"
proof -
  have "map_of (read_env (env_file sample_env)) ''B'' = Some ''dos''"
    by (simp add: sample_env_def env_eval)
  then show ?thesis
    using other_keys_kept [OF sample_updates_ok, of "''B''" True True sample_env] by (simp add: has_key_def)
qed

subsection \<open>The value read back\<close>

text \<open>A value that needs no escape: no double quote, no single quote unless it is quoted, and no
  backslash if it is. (\<open>quote_if_needed\<close> escapes; \<open>unquote\<close> does not undo it: \<open>escapes_not_undone\<close>.)\<close>

definition needs_quotes :: "pystr \<Rightarrow> bool" where
  "needs_quotes v \<longleftrightarrow> v \<noteq> [] \<and> (list_ex isspace v \<or> list_ex (\<lambda>c. c = CHR ''#'' \<or> is_quote c) v)"

definition plain_value :: "pystr \<Rightarrow> bool" where
  "plain_value v \<longleftrightarrow> DQ \<notin> set v \<and> (needs_quotes v \<longrightarrow> BACKSLASH \<notin> set v)"

lemma comment_loop_plain:
  "\<forall>c \<in> set v. \<not> is_quote c \<and> c \<noteq> CHR ''#'' \<Longrightarrow>
     comment_loop seen None (v @ s) = comment_loop (rev v @ seen) None s"
  by (induction v arbitrary: seen) auto

lemma comment_loop_quoted:
  "q \<notin> set v \<Longrightarrow> comment_loop seen (Some q) (v @ q # s) = comment_loop (q # rev v @ seen) None s"
  by (induction v arbitrary: seen) auto

lemma escape_plain: "DQ \<notin> set v \<Longrightarrow> BACKSLASH \<notin> set v \<Longrightarrow> escape_value v = v"
  by (induction v) (auto simp: escape_value_def)

lemma space_facts [simp]: "isspace CHR '' ''" "\<not> is_quote CHR '' ''" "\<not> is_quote CHR ''#''" "is_quote DQ" "\<not> isspace DQ"
  by (simp_all add: isspace_def is_quote_def DQ_def SQ_def)

text \<open>What the comment of a line looks like when it is written again.\<close>

lemma comment_suffix:
  "snd (strip_inline_comment rest) \<noteq> [] \<Longrightarrow> \<exists>cs. strip (snd (strip_inline_comment rest)) = CHR ''#'' # cs"
proof -
  assume n: "snd (strip_inline_comment rest) \<noteq> []"
  have h: "comment_loop seen qt s = Some (a, b) \<Longrightarrow> hd b = CHR ''#'' \<and> b \<noteq> []" for seen qt s a b
    by (induction seen qt s rule: comment_loop.induct) (auto split: if_splits)
  then have "hd (snd (strip_inline_comment rest)) = CHR ''#''"
    using n by (auto simp: strip_inline_comment_def split: option.splits)
  moreover have "\<not> isspace CHR ''#''" by (simp add: isspace_def)
  ultimately have "lstrip (snd (strip_inline_comment rest)) = snd (strip_inline_comment rest)"
    by (intro lstrip_eq) simp
  then have "strip (snd (strip_inline_comment rest)) \<noteq> [] \<and> hd (strip (snd (strip_inline_comment rest))) = CHR ''#''"
    using strip_head [of "snd (strip_inline_comment rest)"] n \<open>hd _ = _\<close> by simp
  then show ?thesis by (metis list.collapse)
qed

lemma value_of_raw:
  assumes "plain_value v" "suffix = [] \<or> (\<exists>cs. suffix = ''  #'' @ cs)"
  shows "unquote (fst (strip_inline_comment (quote_if_needed v @ suffix))) = v"
proof -
  have tail: "\<exists>r. strip_inline_comment (w @ suffix) = (w, r)"
    if loop: "\<And>s. comment_loop [] None (w @ s) = comment_loop (rev w) None s" and ends: "w = [] \<or> \<not> isspace (hd w) \<and> \<not> isspace (last w)" for w
  proof (cases "suffix = []")
    case True
    have "strip w = w" by (rule strip_eq [OF ends])
    then show ?thesis using loop [of "[]"] True by (simp add: strip_inline_comment_def)
  next
    case False
    then obtain cs where cs: "suffix = ''  #'' @ cs" using assms(2) by blast
    have "rstrip (w @ ''  '') = w"
      using ends by (cases w rule: rev_cases) (auto simp: rstrip_def)
    then show ?thesis using loop [of suffix] cs by (simp add: strip_inline_comment_def)
  qed
  show ?thesis
  proof (cases "needs_quotes v")
    case True
    let ?w = "[DQ] @ v @ [DQ]"
    have "quote_if_needed v = ?w"
      using True assms(1) by (auto simp: quote_if_needed_def needs_quotes_def plain_value_def escape_plain)
    moreover have "comment_loop [] None (?w @ s) = comment_loop (rev ?w) None s" for s
      using assms(1) comment_loop_quoted [of DQ v "[DQ]" s] by (simp add: plain_value_def)
    ultimately obtain r where "strip_inline_comment (quote_if_needed v @ suffix) = (?w, r)"
      using tail [of ?w] by auto
    moreover have "strip ?w = ?w" by (simp add: strip_def lstrip_eq rstrip_eq)
    ultimately show ?thesis by (simp add: unquote_def Let_def)
  next
    case False
    then have q: "quote_if_needed v = v" by (auto simp: quote_if_needed_def needs_quotes_def)
    have plain: "\<forall>c \<in> set v. \<not> is_quote c \<and> c \<noteq> CHR ''#'' \<and> \<not> isspace c"
      using False by (auto simp: needs_quotes_def list_ex_iff)
    have ends: "v = [] \<or> \<not> isspace (hd v) \<and> \<not> isspace (last v)" using plain by (cases v) auto
    have "comment_loop [] None (v @ s) = comment_loop (rev v) None s" for s
      using comment_loop_plain [of v "[]" s] plain by simp
    then obtain r where r: "strip_inline_comment (v @ suffix) = (v, r)" using tail [of v] ends by auto
    have "strip v = v" by (rule strip_eq [OF ends])
    moreover have "v = [] \<or> \<not> is_quote (hd v)" using plain by (cases v) auto
    ultimately show ?thesis unfolding q r by (auto simp: unquote_def Let_def)
  qed
qed

lemma assigned_binding:
  assumes "match_assignment line = Some (ind, k, sp, rest)" "plain_value v"
  shows "line_binding (assigned_line ind k sp v rest) = Some (k, v)"
proof -
  let ?s = "if snd (strip_inline_comment rest) \<noteq> [] then ''  '' @ strip (snd (strip_inline_comment rest)) else []"
  have "match_assignment (ind @ k @ sp @ ''='' @ x) = Some (ind, k, sp, x)" for x
    using match_assignment_shape [OF assms(1)] by (intro match_assignment_built) auto
  moreover have "?s = [] \<or> (\<exists>cs. ?s = ''  #'' @ cs)" using comment_suffix [of rest] by auto
  ultimately show ?thesis
    unfolding line_binding_def assigned_line_def using value_of_raw [OF assms(2), of ?s] by (simp only: option.case prod.case)
qed

text \<open>One line of the file binds the key.\<close>

lemma write_lines_once:
  assumes "length (filter (\<lambda>l. key_of l = Some k) ls) = 1" "map_of p k = Some (Some v)" "plain_value v"
    and "fold write_line ls (p, c, r) = (p', c', r')"
  shows "\<exists>new. r' = r @ new \<and> (\<forall>a. last_value k new a = Some v) \<and> map_of p' k = None \<and> k \<in> set c'"
  using assms
proof (induction ls arbitrary: p c r)
  case (Cons l ls)
  have f: "fold write_line ls (next_pending p l, next_changed p c l, r @ [new_line_of p l]) = (p', c', r')"
    using Cons.prems(4) by (simp add: write_line_eq)
  show ?case
  proof (cases "key_of l = Some k")
    case True
    then have none: "list_all (\<lambda>l. key_of l \<noteq> Some k) ls"
      using Cons.prems(1) by (auto simp: list_all_iff filter_empty_conv)
    obtain new where new: "r' = (r @ [new_line_of p l]) @ new" "\<forall>a. last_value k new a = a"
        "map_of p' k = map_of (next_pending p l) k"
      using write_lines_none [OF none f] by blast
    obtain ind sp rest where m: "match_assignment l = Some (ind, k, sp, rest)"
      using True by (auto simp: key_of_def)
    have "bind_step k (new_line_of p l) a = Some v" for a
      using m Cons.prems(2,3) by (simp add: new_line_of_def bind_step_def assigned_binding)
    moreover have "k \<in> set c'"
    proof -
      have "k \<in> set (next_changed p c l)" using True Cons.prems(2) by (simp add: next_changed_def has_key_def)
      moreover have "set c1 \<subseteq> set c2" if "fold write_line xs (p1, c1, r1) = (p2, c2, r2)" for xs p1 c1 r1 p2 c2 r2
        using that by (induction xs arbitrary: p1 c1 r1) (fastforce simp: write_line_eq next_changed_def split: option.splits if_splits)+
      ultimately show ?thesis using f by blast
    qed
    ultimately show ?thesis
      using new True by (intro exI [of _ "new_line_of p l # new"]) (simp add: last_value_Cons map_of_next_pending)
  next
    case False
    have "length (filter (\<lambda>l. key_of l = Some k) ls) = 1" "map_of (next_pending p l) k = Some (Some v)"
      using Cons.prems(1,2) False by (simp_all add: map_of_next_pending)
    from Cons.IH [OF this Cons.prems(3) f] show ?thesis
      by (elim exE) (rule_tac x = "new_line_of p l # new" in exI, simp add: last_value_Cons)
  qed
qed simp

lemma addition_lines_value:
  "dict_ok adds \<Longrightarrow> list_all (\<lambda>(k, v). valid_key k) adds \<Longrightarrow> (k, v) \<in> set adds \<Longrightarrow> plain_value v \<Longrightarrow>
     last_value k (addition_lines adds) a = Some v"
proof (induction adds arbitrary: a)
  case (Cons x adds)
  obtain k' v' where x: "x = (k', v')" by (cases x)
  have valid: "valid_key k'" "list_all (\<lambda>(k, v). valid_key k) adds" using Cons.prems(2) x by auto
  let ?l = "k' @ ''='' @ quote_if_needed v'"
  show ?case
  proof (cases "(k, v) = x")
    case True
    have m: "match_assignment (k @ ''='' @ quote_if_needed v) = Some ([], k, [], quote_if_needed v)"
      using match_assignment_built [of "[]" k "[]"] valid True x by simp
    have "unquote (fst (strip_inline_comment (quote_if_needed v @ []))) = v"
      using Cons.prems(4) by (intro value_of_raw) simp_all
    then have "bind_step k ?l a = Some v" using True x m by (simp add: bind_step_def line_binding_def)
    moreover have "list_all (\<lambda>(k', v). valid_key k' \<and> k' \<noteq> k) adds"
      using valid Cons.prems(1) True x by (force simp: list_all_iff)
    then have "last_value k (addition_lines adds) b = b" for b by (rule addition_lines_other)
    ultimately show ?thesis using x by (simp add: addition_lines_def last_value_Cons)
  next
    case False
    then have "(k, v) \<in> set adds" using Cons.prems(3) by auto
    then show ?thesis using Cons.IH [OF _ valid(2) _ Cons.prems(4)] Cons.prems(1) x
      by (simp add: addition_lines_def last_value_Cons)
  qed
qed simp

lemma dict_ok_additions: "dict_ok p \<Longrightarrow> dict_ok (additions_of p)"
proof (induction p)
  case (Cons x p)
  obtain k v where x: "x = (k, v)" by (cases x)
  have "k \<notin> fst ` set (additions_of p)" using Cons.prems x by (force simp: set_additions)
  moreover have "additions_of (x # p) = (case v of None \<Rightarrow> [] | Some y \<Rightarrow> [(k, y)]) @ additions_of p"
    by (simp add: additions_of_def x)
  ultimately show ?case using Cons by (cases v) simp_all
qed (simp add: additions_of_def)



text \<open>Of a repeated key a read takes the last line, a write changes the first: the saved value has no
  effect.\<close>

lemma repeated_key_not_saved:
  "let d = \<lparr>env_file = Some (''A=1'' @ [LF] @ ''A=2'' @ [LF]), env_backup = None\<rparr>
   in map_of (read_env (env_file (snd (write_env True True [(''A'', Some ''3'')] d)))) ''A'' = Some ''2''"
  by (simp add: env_eval)

text \<open>The escapes of a quoted value are not undone.\<close>

lemma escapes_not_undone:
  "let d = \<lparr>env_file = None, env_backup = None\<rparr>
   in map_of (read_env (env_file (snd (write_env True True [(''A'', Some [CHR ''x'', DQ])] d)))) ''A''
      = Some [CHR ''x'', BACKSLASH, DQ]"
  by (simp add: env_eval APPENDED_HEADER_def)

subsection \<open>Secrets\<close>

text \<open>The public view tells of a secret only whether it is set: files that agree on that, and on the other
  keys, have the same view.\<close>

lemma secrets_not_shown:
  "list_all2 (\<lambda>(k, v) (k', v'). k = k' \<and> (if k \<in> set SECRET_KEYS then (v = []) = (v' = []) else v = v')) d d' \<Longrightarrow>
     public_view d = public_view d'"
  by (induction rule: list_all2_induct) (auto simp: public_view_def)

end
