(* ===== verification/Catalog.thy ===== *)
theory Catalog
  imports PyText
begin

text \<open>
  The catalogue of file types, \<^verbatim>\<open>src/lightrag/api/bimnemo/catalog.py\<close>, and the list of what an
  installation leaves out, \<^verbatim>\<open>src/lightrag/api/bimnemo/reparto.py\<close>. The extension map is built by the
  same registrations in the same order; a repeated extension is an error.
\<close>

record category =
  cat_key :: pystr
  cat_label :: pystr
  cat_icon :: pystr
  cat_color :: pystr

definition Category :: "pystr \<Rightarrow> pystr \<Rightarrow> pystr \<Rightarrow> pystr \<Rightarrow> category" where
  "Category k l i c = \<lparr>cat_key = k, cat_label = l, cat_icon = i, cat_color = c\<rparr>"

definition CATEGORIES :: "category list" where
  "CATEGORIES =
     [Category ''document'' ''Documento'' ''file-text'' ''sky'',
      Category ''spreadsheet'' (''Hoja de c'' @ [CHR 0xE1] @ ''lculo'') ''table'' ''teal'',
      Category ''presentation'' (''Presentaci'' @ [CHR 0xF3] @ ''n'') ''presentation'' ''rose'',
      Category ''data'' ''Datos'' ''database'' ''amber'',
      Category ''text'' (''Texto y c'' @ [CHR 0xF3] @ ''digo'') ''code'' ''slate'']"

definition CATEGORIES_BY_KEY :: "(pystr, category) pydict" where
  "CATEGORIES_BY_KEY = map (\<lambda>c. (cat_key c, c)) CATEGORIES"

definition UNKNOWN :: category where
  "UNKNOWN = Category ''other'' ''Otros'' ''file'' ''slate''"

type_synonym extension_map = "(pystr, pystr) pydict"

definition normalize_registered :: "pystr \<Rightarrow> pystr" where
  "normalize_registered e = lstrip_char CHR ''.'' (lower e)"

text \<open>The error names the extension.\<close>

fun register :: "pystr \<Rightarrow> pystr list \<Rightarrow> extension_map \<Rightarrow> pystr + extension_map" where
  "register k [] m = Inr m"
| "register k (e # es) m =
     (if has_key m (normalize_registered e) then Inl (normalize_registered e)
      else register k es (AList.update (normalize_registered e) k m))"

definition REGISTRATIONS :: "(pystr \<times> pystr list) list" where
  "REGISTRATIONS =
     [(''document'', [''pdf'', ''doc'', ''docx'', ''dotx'', ''odt'', ''rtf'', ''pages'', ''epub'']),
      (''spreadsheet'', [''xlsx'', ''xls'', ''xlsm'', ''xltx'', ''ods'', ''numbers'', ''csv'', ''tsv'']),
      (''presentation'', [''pptx'', ''ppt'', ''potx'', ''odp'', ''key'']),
      (''data'', [''json'', ''jsonl'', ''xml'', ''yaml'', ''yml'', ''sql'', ''db'', ''sqlite'', ''parquet'', ''toml'',
         ''ini'', ''cfg'', ''conf'', ''properties'']),
      (''text'', [''txt'', ''md'', ''mdx'', ''markdown'', ''rst'', ''log'', ''tex'', ''textpack'', ''html'', ''htm'', ''xhtml'',
         ''py'', ''js'', ''ts'', ''tsx'', ''jsx'', ''java'', ''c'', ''h'', ''cpp'', ''hpp'', ''cs'', ''go'', ''rb'', ''rs'',
         ''php'', ''sh'', ''bat'', ''ps1'', ''swift'', ''css'', ''scss'', ''less''])]"

fun register_all :: "(pystr \<times> pystr list) list \<Rightarrow> extension_map \<Rightarrow> pystr + extension_map" where
  "register_all [] m = Inr m"
| "register_all ((k, es) # rs) m =
     (case register k es m of Inl e \<Rightarrow> Inl e | Inr m1 \<Rightarrow> register_all rs m1)"

text \<open>The module's \<open>_EXTENSION_MAP\<close> once it is imported.\<close>

definition EXTENSION_MAP :: extension_map where
  "EXTENSION_MAP = (case register_all REGISTRATIONS [] of Inl e \<Rightarrow> [] | Inr m \<Rightarrow> m)"

definition normalize_extension :: "pystr \<Rightarrow> pystr" where
  "normalize_extension filename =
     (let name = last (split_on CHR ''/'' (replace_char CHR 92 CHR ''/'' filename))
      in if CHR ''.'' \<notin> set name then [] else strip (lower (last (split_on CHR ''.'' name))))"

definition categorize :: "pystr \<Rightarrow> category" where
  "categorize filename =
     (let extension = normalize_extension filename in
      if extension = [] then UNKNOWN
      else case map_of EXTENSION_MAP extension of
        Some k \<Rightarrow> the (map_of CATEGORIES_BY_KEY k)
      | None \<Rightarrow> UNKNOWN)"

definition known_extensions :: "pystr list" where
  "known_extensions = sort (keys EXTENSION_MAP)"

definition categories_payload :: "(pystr \<times> pystr) list list" where
  "categories_payload =
     map (\<lambda>c. [(''key'', cat_key c), (''label'', cat_label c), (''icon'', cat_icon c), (''color'', cat_color c)]) CATEGORIES"

subsection \<open>What an installation leaves out\<close>

definition CARPETAS :: "pystr list" where
  "CARPETAS = [''.claude'', ''.clinerules'', ''.github'', ''assets'', ''README.assets'', ''examples'', ''installer'',
     ''k8s-deploy'', ''lightrag_webui'', ''prompts'', ''reproduce'', ''scripts'', ''tests'']"

definition FICHEROS :: "pystr list" where
  "FICHEROS = [''.dockerignore'', ''.gitattributes'', ''.git-blame-ignore-revs'', ''.gitignore'',
     ''.pre-commit-config.yaml'', ''AGENTS.md'', ''CLAUDE.md'', ''Makefile'', ''MANIFEST.in'', ''SECURITY.md'', ''uv.lock'',
     ''env.docker-compose-full'', ''lightrag.service.example'', ''instalador_bimnemo.md'']"

definition PREFIJOS :: "pystr list" where
  "PREFIJOS = [''docker'', ''Dockerfile'', ''requirements-offline'', ''README-'']"

definition sobra_en_cliente :: "pystr \<Rightarrow> bool" where
  "sobra_en_cliente relativo =
     (let ruta = strip_char CHR ''/'' (replace_char CHR 92 CHR ''/'' relativo) in
      if ruta = [] then False
      else let partes = split_on CHR ''/'' ruta in
        if hd partes \<in> set CARPETAS then True
        else if length partes = 1 then
          (let nombre = hd partes in
           if nombre \<in> set FICHEROS then True
           else if list_ex (\<lambda>p. startswith nombre p) PREFIJOS then True
           else False)
        else False)"

end
