(* ===== verification/CatalogLaws.thy ===== *)
theory CatalogLaws
  imports Catalog
begin

text \<open>
  The catalogue is consistent (the registrations do not clash, so the import does not raise), every
  file has a category and it depends on the last extension only; and the filter of an installation
  sees only the first part of a path, whichever bars it is written with.
\<close>

subsection \<open>Parts of a path\<close>

lemma last_split: "c \<notin> set t \<Longrightarrow> last (split_on c (s @ c # t)) = t"
  by (simp add: split_on_append split_on_none)

subsection \<open>The extension map\<close>

lemma register_distinct:
  "distinct (keys m @ map normalize_registered es) \<Longrightarrow>
     register k es m = Inr (m @ map (\<lambda>e. (normalize_registered e, k)) es)"
proof (induction k es m rule: register.induct)
  case (2 k e es m)
  have no: "\<not> has_key m (normalize_registered e)" using 2(2) by (auto simp: has_key_iff)
  have u: "AList.update (normalize_registered e) k m = m @ [(normalize_registered e, k)]"
    using 2(2) by (intro update_new) auto
  show ?case using 2(1) [OF no] 2(2) no by (simp add: u)
qed simp

lemma register_clash:
  "register k es m = Inr m' \<Longrightarrow> dict_ok m \<Longrightarrow> distinct (keys m @ map normalize_registered es)"
proof (induction k es m rule: register.induct)
  case (2 k e es m)
  have no: "\<not> has_key m (normalize_registered e)" using 2(2) by (auto split: if_splits)
  have r: "register k es (AList.update (normalize_registered e) k m) = Inr m'" using 2(2) no by simp
  have u: "AList.update (normalize_registered e) k m = m @ [(normalize_registered e, k)]"
    using no by (intro update_new) (simp add: has_key_iff)
  show ?case using 2(1) [OF no r] 2(3) no unfolding u by (auto simp: has_key_iff)
qed simp

lemma register_all_distinct:
  "distinct (keys m @ concat (map (\<lambda>(k, es). map normalize_registered es) rs)) \<Longrightarrow>
     register_all rs m = Inr (m @ concat (map (\<lambda>(k, es). map (\<lambda>e. (normalize_registered e, k)) es) rs))"
proof (induction rs m rule: register_all.induct)
  case (2 k es rs m)
  have r: "register k es m = Inr (m @ map (\<lambda>e. (normalize_registered e, k)) es)"
    using 2(2) by (intro register_distinct) auto
  show ?case using 2(1) [OF r] 2(2) r by (simp add: comp_def)
qed simp

lemma registered_lower:
  "list_all (\<lambda>(k, es). list_all (\<lambda>e. normalize_registered e = e) es) REGISTRATIONS"
  by code_simp

lemma registered_distinct: "distinct (concat (map snd REGISTRATIONS))"
  by code_simp

lemma map_registered: "concat (map (\<lambda>(k, es). map normalize_registered es) REGISTRATIONS) = concat (map snd REGISTRATIONS)"
  using registered_lower by (intro arg_cong [where f = concat] map_cong refl) (fastforce simp: list_all_iff intro!: map_idI)

definition registered_pairs :: "extension_map" where
  "registered_pairs = concat (map (\<lambda>(k, es). map (\<lambda>e. (e, k)) es) REGISTRATIONS)"

lemma registrations_ok: "register_all REGISTRATIONS [] = Inr registered_pairs"
proof -
  have "concat (map (\<lambda>(k, es). map (\<lambda>e. (normalize_registered e, k)) es) REGISTRATIONS) = registered_pairs"
    unfolding registered_pairs_def
    using registered_lower by (intro arg_cong [where f = concat] map_cong refl) (auto simp: list_all_iff)
  then show ?thesis
    using register_all_distinct [of "[]" REGISTRATIONS] registered_distinct by (simp add: map_registered)
qed

lemma extension_map_eq: "EXTENSION_MAP = registered_pairs"
  by (simp add: EXTENSION_MAP_def registrations_ok)

lemma keys_registered: "keys registered_pairs = concat (map snd REGISTRATIONS)"
  by (simp add: registered_pairs_def map_concat comp_def case_prod_beta)

lemma registered_categories: "list_all (\<lambda>(k, es). has_key CATEGORIES_BY_KEY k) REGISTRATIONS"
  by code_simp

lemma category_keys: "list_all (\<lambda>(k, c). cat_key c = k) CATEGORIES_BY_KEY"
  by (simp add: CATEGORIES_BY_KEY_def list_all_iff)

definition plain_extension :: "pystr \<Rightarrow> bool" where
  "plain_extension e \<longleftrightarrow> e \<noteq> [] \<and> list_all (\<lambda>c. c \<noteq> CHR ''.'' \<and> c \<noteq> CHR ''/'' \<and> c \<noteq> CHR 92 \<and> \<not> isspace c) e"

lemma registered_plain: "list_all (\<lambda>(k, es). list_all plain_extension es) REGISTRATIONS"
  by code_simp

lemma map_of_registered:
  assumes "map_of registered_pairs e = Some k"
  shows "plain_extension e" "has_key CATEGORIES_BY_KEY k"
proof -
  obtain es where "(k, es) \<in> set REGISTRATIONS" "e \<in> set es"
    using map_of_SomeD [OF assms] by (auto simp: registered_pairs_def)
  then show "plain_extension e" "has_key CATEGORIES_BY_KEY k"
    using registered_plain registered_categories by (auto simp: list_all_iff)
qed

text \<open>The catalogue is consistent. Importing it does not raise: no extension is registered twice; the
  map holds the registered extensions, each with the key of a listed category, the keys of the
  categories are distinct, and none of them is that of the discard category.\<close>

theorem catalog_consistent:
  "register_all REGISTRATIONS [] = Inr EXTENSION_MAP \<and> dict_ok EXTENSION_MAP
   \<and> keys EXTENSION_MAP = concat (map snd REGISTRATIONS)
   \<and> list_all (\<lambda>(e, k). case map_of CATEGORIES_BY_KEY k of Some c \<Rightarrow> cat_key c = k | None \<Rightarrow> False) EXTENSION_MAP
   \<and> dict_ok CATEGORIES_BY_KEY \<and> \<not> has_key CATEGORIES_BY_KEY (cat_key UNKNOWN)"
proof -
  have d: "dict_ok registered_pairs" using registered_distinct by (simp add: keys_registered del: map_map)
  have "case map_of CATEGORIES_BY_KEY k of Some c \<Rightarrow> cat_key c = k | None \<Rightarrow> False" if "(e, k) \<in> set registered_pairs" for e k
  proof -
    have "has_key CATEGORIES_BY_KEY k" using that d map_of_registered(2) by simp
    then show ?thesis using category_keys by (fastforce simp: has_key_def list_all_iff dest: map_of_SomeD)
  qed
  moreover have "dict_ok CATEGORIES_BY_KEY" "\<not> has_key CATEGORIES_BY_KEY (cat_key UNKNOWN)"
    by (simp_all add: CATEGORIES_BY_KEY_def CATEGORIES_def Category_def UNKNOWN_def has_key_def)
  ultimately show ?thesis
    using registrations_ok d keys_registered by (auto simp: extension_map_eq list_all_iff)
qed

subsection \<open>The category of a file\<close>

lemma lower_char_keeps: "lower_char c = d \<Longrightarrow> d \<noteq> CHR ''.'' \<Longrightarrow> d \<noteq> CHR ''/'' \<Longrightarrow> d \<noteq> CHR 92 \<Longrightarrow> \<not> isspace d \<Longrightarrow>
   c \<noteq> CHR ''.'' \<and> c \<noteq> CHR ''/'' \<and> c \<noteq> CHR 92"
  by (auto simp: lower_char_def)

lemma plain_lower: "plain_extension (lower x) \<Longrightarrow> CHR ''.'' \<notin> set x \<and> CHR ''/'' \<notin> set x \<and> CHR 92 \<notin> set x"
  using lower_char_keeps by (fastforce simp: plain_extension_def lower_def list_all_iff)

lemma plain_strip: "plain_extension e \<Longrightarrow> strip e = e"
  by (rule strip_eq) (auto simp: plain_extension_def list_all_iff)

lemma split_last_part: "c \<notin> set t \<Longrightarrow> \<exists>u. last (split_on c (s @ t)) = u @ t"
proof (induction s)
  case (Cons x s)
  then obtain u where u: "last (split_on c (s @ t)) = u @ t" by blast
  show ?case
  proof (cases "split_on c (s @ t)")
    case (Cons y ys)
    then show ?thesis using u by (cases ys) auto
  qed simp
qed (simp add: split_on_none)

lemma normalize_extension_last:
  assumes "CHR ''.'' \<notin> set x" "CHR ''/'' \<notin> set x" "CHR 92 \<notin> set x"
  shows "normalize_extension (pre @ ''.'' @ x) = strip (lower x)"
proof -
  have id: "replace_char CHR 92 CHR ''/'' (''.'' @ x) = ''.'' @ x"
    using assms(3) by (auto simp: replace_char_def intro!: map_idI)
  let ?p = "replace_char CHR 92 CHR ''/'' pre"
  have "replace_char CHR 92 CHR ''/'' (pre @ ''.'' @ x) = ?p @ ''.'' @ x"
    using id by (simp add: replace_char_def)
  moreover obtain u where "last (split_on CHR ''/'' (?p @ ''.'' @ x)) = u @ ''.'' @ x"
    using split_last_part [of "CHR ''/''" "''.'' @ x" ?p] assms(2) by auto
  ultimately show ?thesis
    using last_split [OF assms(1), of u] by (simp add: normalize_extension_def Let_def)
qed

text \<open>The category of a file is that of its last extension, whatever precedes it (folders with
  either bar, other dots, a parser hint) and whatever its case: a registered extension gives its
  category; a name whose extension is not registered, or that has none, gives the discard
  category.\<close>

theorem category_of_last_extension:
  shows "(case map_of EXTENSION_MAP (lower x) of
            Some k \<Rightarrow> map_of CATEGORIES_BY_KEY k = Some (categorize (pre @ ''.'' @ x))
                      \<and> cat_key (categorize (pre @ ''.'' @ x)) = k
          | None \<Rightarrow> True)
         \<and> (has_key EXTENSION_MAP (normalize_extension f) \<or> categorize f = UNKNOWN)"
proof
  show "case map_of EXTENSION_MAP (lower x) of
            Some k \<Rightarrow> map_of CATEGORIES_BY_KEY k = Some (categorize (pre @ ''.'' @ x))
                      \<and> cat_key (categorize (pre @ ''.'' @ x)) = k
          | None \<Rightarrow> True"
  proof (cases "map_of EXTENSION_MAP (lower x)")
    case (Some k)
    then have p: "plain_extension (lower x)" and h: "has_key CATEGORIES_BY_KEY k"
      using map_of_registered [of "lower x" k] by (simp_all add: extension_map_eq)
    obtain c where c: "map_of CATEGORIES_BY_KEY k = Some c" using h by (auto simp: has_key_def)
    have "normalize_extension (pre @ ''.'' @ x) = lower x"
      using normalize_extension_last [of x pre] plain_lower [OF p] plain_strip [OF p] by simp
    then have "categorize (pre @ ''.'' @ x) = c"
      using Some p c by (simp add: categorize_def plain_extension_def)
    moreover have "cat_key c = k" using c category_keys by (auto simp: list_all_iff dest: map_of_SomeD)
    ultimately show ?thesis using Some c by simp
  qed simp
  show "has_key EXTENSION_MAP (normalize_extension f) \<or> categorize f = UNKNOWN"
    by (cases "map_of EXTENSION_MAP (normalize_extension f)") (simp_all add: categorize_def has_key_def Let_def)
qed

subsection \<open>What an installation leaves out\<close>

lemma strip_char_prefix:
  assumes "a \<noteq> []" "c \<notin> set a" "b \<noteq> []" "hd b \<noteq> c"
  shows "\<exists>b'. b' \<noteq> [] \<and> strip_char c (a @ c # b) = a @ c # b'"
proof -
  have a: "dropWhile (\<lambda>x. x = c) (a @ c # b) = a @ c # b" using assms by (cases a) auto
  have "\<exists>x \<in> set (rev b). x \<noteq> c" using assms(3,4) by (cases b) auto
  then have "dropWhile (\<lambda>x. x = c) (rev (a @ c # b)) = dropWhile (\<lambda>x. x = c) (rev b) @ [c] @ rev a"
    by (auto simp: dropWhile_append)
  moreover have "dropWhile (\<lambda>x. x = c) (rev b) \<noteq> []"
    using \<open>\<exists>x \<in> set (rev b). x \<noteq> c\<close> by (simp add: dropWhile_eq_Nil_conv)
  ultimately show ?thesis by (simp add: strip_char_def a)
qed

text \<open>A file inside a folder is left out of an installation exactly when its top folder is one of
  \<open>CARPETAS\<close>, whichever bars the path is written with; and what an installation needs at its root
  (the project file, the sample configuration, the update notes, the read-me) is never left out.\<close>

theorem installation_filter:
  assumes "a \<noteq> []" "CHR ''/'' \<notin> set a" "CHR 92 \<notin> set a" "b \<noteq> []" "hd b \<noteq> CHR ''/''" "hd b \<noteq> CHR 92" "bar = CHR ''/'' \<or> bar = CHR 92"
  shows "(sobra_en_cliente (a @ bar # b) \<longleftrightarrow> a \<in> set CARPETAS)
     \<and> \<not> list_ex sobra_en_cliente [''pyproject.toml'', ''env.example'', ''como_actualizar.md'', ''README.md'']"
proof -
  let ?r = "replace_char CHR 92 CHR ''/''"
  have ra: "?r a = a" using assms(3) by (auto simp: replace_char_def intro!: map_idI)
  have b: "?r b \<noteq> []" "hd (?r b) \<noteq> CHR ''/''" using assms(4-6) by (cases b; simp add: replace_char_def)+
  have "?r (a @ bar # b) = a @ CHR ''/'' # ?r b" using ra assms(7) by (auto simp: replace_char_def)
  moreover obtain b' where b': "b' \<noteq> []" "strip_char CHR ''/'' (a @ CHR ''/'' # ?r b) = a @ CHR ''/'' # b'"
    using strip_char_prefix [OF assms(1,2) b] by blast
  moreover have "split_on CHR ''/'' (a @ CHR ''/'' # b') = a # split_on CHR ''/'' b'"
    by (simp add: split_on_append split_on_none assms(2))
  ultimately have "sobra_en_cliente (a @ bar # b) \<longleftrightarrow> a \<in> set CARPETAS"
    by (simp add: sobra_en_cliente_def Let_def)
  moreover have "\<not> list_ex sobra_en_cliente [''pyproject.toml'', ''env.example'', ''como_actualizar.md'', ''README.md'']"
    by (simp add: sobra_en_cliente_def strip_char_def replace_char_def CARPETAS_def FICHEROS_def PREFIJOS_def startswith_def)
  ultimately show ?thesis by blast
qed

theorem installation_filter_witness:
  "sobra_en_cliente (''tests'' @ CHR 92 # ''a.py'') \<and> \<not> sobra_en_cliente (''docs'' @ CHR ''/'' # ''tests/a.md'')"
  using installation_filter [of "''tests''" "''a.py''" "CHR 92"] installation_filter [of "''docs''" "''tests/a.md''" "CHR ''/''"]
  by (simp add: CARPETAS_def)

end
