(* ===== verification/Attribution.thy ===== *)
theory Attribution
  imports PyText
begin

text \<open>
  The lists of chunk ids that say where an entity or a relation comes from: the merging, limiting
  and updating of \<^verbatim>\<open>src/lightrag/utils.py\<close>, and the keys of the relation rows. An id is a string (the
  coercion of other values, which is logged as a bug, is not modelled).
\<close>

definition GRAPH_FIELD_SEP :: pystr where
  "GRAPH_FIELD_SEP = ''<SEP>''"

definition SOURCE_IDS_LIMIT_METHOD_KEEP :: pystr where
  "SOURCE_IDS_LIMIT_METHOD_KEEP = ''KEEP''"

definition SOURCE_IDS_LIMIT_METHOD_FIFO :: pystr where
  "SOURCE_IDS_LIMIT_METHOD_FIFO = ''FIFO''"

definition DEFAULT_SOURCE_IDS_LIMIT_METHOD :: pystr where
  "DEFAULT_SOURCE_IDS_LIMIT_METHOD = SOURCE_IDS_LIMIT_METHOD_KEEP"

definition normalize_source_ids_limit_method :: "pystr option \<Rightarrow> pystr" where
  "normalize_source_ids_limit_method m =
     (case m of
        None \<Rightarrow> DEFAULT_SOURCE_IDS_LIMIT_METHOD
      | Some s \<Rightarrow>
          if s = [] then DEFAULT_SOURCE_IDS_LIMIT_METHOD
          else let normalized = upper s in
            if normalized = SOURCE_IDS_LIMIT_METHOD_KEEP \<or> normalized = SOURCE_IDS_LIMIT_METHOD_FIFO
            then normalized else DEFAULT_SOURCE_IDS_LIMIT_METHOD)"

text \<open>With one marker, as every caller here has.\<close>

definition split_string_by_multi_markers :: "pystr \<Rightarrow> pystr \<Rightarrow> pystr list" where
  "split_string_by_multi_markers content marker =
     map strip (filter (\<lambda>r. strip r \<noteq> []) (split_str marker content))"

text \<open>The loops of \<open>merge_source_ids\<close>: the fragments of one element, the elements of one sequence.
  The state is \<open>merged\<close>; \<open>seen\<close> is its set.\<close>

definition merge_fragment :: "pystr \<Rightarrow> pystr list \<Rightarrow> pystr list" where
  "merge_fragment sid merged = (if sid \<notin> set merged then merged @ [sid] else merged)"

definition merge_element :: "pystr \<Rightarrow> pystr list \<Rightarrow> pystr list" where
  "merge_element source_id merged =
     (if source_id = [] then merged
      else fold merge_fragment (split_string_by_multi_markers source_id GRAPH_FIELD_SEP) merged)"

definition merge_source_ids :: "pystr list option \<Rightarrow> pystr list option \<Rightarrow> pystr list" where
  "merge_source_ids existing_ids new_ids =
     fold (\<lambda>sq merged. case sq of None \<Rightarrow> merged | Some xs \<Rightarrow> fold merge_element xs merged)
       [existing_ids, new_ids] []"

definition apply_source_ids_limit :: "pystr list \<Rightarrow> int \<Rightarrow> pystr option \<Rightarrow> pystr list" where
  "apply_source_ids_limit source_ids limit meth =
     (if limit \<le> 0 then []
      else if int (length source_ids) \<le> limit then source_ids
      else if normalize_source_ids_limit_method meth = SOURCE_IDS_LIMIT_METHOD_FIFO
      then drop (length source_ids - nat limit) source_ids
      else take (nat limit) source_ids)"

definition compute_incremental_chunk_ids :: "pystr list \<Rightarrow> pystr list \<Rightarrow> pystr list \<Rightarrow> pystr list" where
  "compute_incremental_chunk_ids existing_full old new =
     (let to_remove = set old - set new;
          to_add = set new - set old;
          updated = filter (\<lambda>cid. cid \<noteq> [] \<and> cid \<notin> to_remove) existing_full
      in fold (\<lambda>cid acc. if cid \<noteq> [] \<and> cid \<in> to_add \<and> cid \<notin> set acc then acc @ [cid] else acc) new updated)"

definition subtract_source_ids :: "pystr list \<Rightarrow> pystr list \<Rightarrow> pystr list" where
  "subtract_source_ids source_ids ids_to_remove =
     (if ids_to_remove = [] then filter (\<lambda>i. i \<noteq> []) source_ids
      else filter (\<lambda>i. i \<noteq> [] \<and> i \<notin> set ids_to_remove) source_ids)"

subsection \<open>Relation keys\<close>

definition make_relation_chunk_key :: "pystr \<Rightarrow> pystr \<Rightarrow> pystr" where
  "make_relation_chunk_key src tgt = join GRAPH_FIELD_SEP (sort [src, tgt])"

text \<open>None is the \<open>ValueError\<close>.\<close>

definition parse_relation_chunk_key :: "pystr \<Rightarrow> (pystr \<times> pystr) option" where
  "parse_relation_chunk_key k =
     (case split_str GRAPH_FIELD_SEP k of [a, b] \<Rightarrow> Some (a, b) | _ \<Rightarrow> None)"

end
