(* ===== verification/AttributionLaws.thy ===== *)
theory AttributionLaws
  imports Attribution
begin

text \<open>
  What the lists of chunk ids keep: merging loses no id and repeats none, an update never brings a
  pruned id back, a limit keeps one end, and relation keys identify the pair.
\<close>

subsection \<open>Merging\<close>

text \<open>The fragments of a list of elements, and the first occurrences of a list.\<close>

definition fragments :: "pystr list \<Rightarrow> pystr list" where
  "fragments ids = concat (map (\<lambda>i. split_string_by_multi_markers i GRAPH_FIELD_SEP) ids)"

fun first_seen :: "'a list \<Rightarrow> 'a list \<Rightarrow> 'a list" where
  "first_seen seen [] = []"
| "first_seen seen (x # xs) = (if x \<in> set seen then first_seen seen xs else x # first_seen (x # seen) xs)"

lemma first_seen_set: "set (first_seen seen xs) = set xs - set seen"
  by (induction seen xs rule: first_seen.induct) auto

lemma first_seen_distinct: "distinct (first_seen seen xs)"
  by (induction seen xs rule: first_seen.induct) (auto simp: first_seen_set)

lemma first_seen_cong: "set s = set t \<Longrightarrow> first_seen s xs = first_seen t xs"
proof (induction xs arbitrary: s t)
  case (Cons x xs)
  have "set (x # s) = set (x # t)" using Cons.prems by simp
  then show ?case using Cons.IH [OF Cons.prems] Cons.IH [of "x # s" "x # t"] Cons.prems by simp
qed simp

lemma fold_merge_fragment: "fold merge_fragment fs merged = merged @ first_seen merged fs"
proof (induction fs arbitrary: merged)
  case (Cons f fs)
  then show ?case using first_seen_cong [of "merged @ [f]" "f # merged" fs] by (simp add: merge_fragment_def)
qed simp

lemma split_empty: "split_string_by_multi_markers [] m = []"
  by (simp add: split_string_by_multi_markers_def split_str_def strip_def lstrip_def rstrip_def)

lemma merge_element_eq: "merge_element i merged = fold merge_fragment (split_string_by_multi_markers i GRAPH_FIELD_SEP) merged"
  by (simp add: merge_element_def split_empty)

lemma fold_merge_element: "fold merge_element xs merged = fold merge_fragment (fragments xs) merged"
  by (induction xs arbitrary: merged) (simp_all add: fragments_def merge_element_eq)

definition ids_of :: "pystr list option \<Rightarrow> pystr list" where
  "ids_of s = (case s of None \<Rightarrow> [] | Some xs \<Rightarrow> xs)"

lemma merge_source_ids_eq:
  "merge_source_ids a b = first_seen [] (fragments (ids_of a @ ids_of b))"
proof -
  have "merge_source_ids a b = fold merge_fragment (fragments (ids_of b)) (fold merge_fragment (fragments (ids_of a)) [])"
    by (auto simp: merge_source_ids_def ids_of_def fold_merge_element fragments_def split: option.splits)
  also have "\<dots> = fold merge_fragment (fragments (ids_of a @ ids_of b)) []" by (simp add: fragments_def)
  finally show ?thesis by (simp add: fold_merge_fragment)
qed

text \<open>An id in normal form: no separator, no spaces around it, not empty.\<close>

definition clean_id :: "pystr \<Rightarrow> bool" where
  "clean_id i \<longleftrightarrow> i \<noteq> [] \<and> strip i = i \<and> \<not> contains i GRAPH_FIELD_SEP"

lemma split_str_loop_none: "\<not> contains s m \<Longrightarrow> m \<noteq> [] \<Longrightarrow> split_str_loop m acc s = [rev acc @ s]"
  by (induction m acc s rule: split_str_loop.induct) auto

lemma clean_split: "clean_id i \<Longrightarrow> split_string_by_multi_markers i GRAPH_FIELD_SEP = [i]"
  by (simp add: clean_id_def split_string_by_multi_markers_def split_str_def split_str_loop_none GRAPH_FIELD_SEP_def)

lemma fragments_clean: "list_all clean_id xs \<Longrightarrow> fragments xs = xs"
  by (induction xs) (auto simp: fragments_def clean_split)

lemma first_seen_append: "first_seen seen (xs @ ys) = first_seen seen xs @ first_seen (seen @ xs) ys"
proof (induction seen xs rule: first_seen.induct)
  case (2 seen x xs)
  show ?case
  proof (cases "x \<in> set seen")
    case True
    then show ?thesis using 2(1) first_seen_cong [of "seen @ xs" "seen @ x # xs" ys] by (auto simp: insert_absorb)
  next
    case False
    then show ?thesis using 2(2) first_seen_cong [of "(x # seen) @ xs" "seen @ x # xs" ys] by auto
  qed
qed simp

lemma first_seen_id: "distinct xs \<Longrightarrow> set xs \<inter> set seen = {} \<Longrightarrow> first_seen seen xs = xs"
  by (induction seen xs rule: first_seen.induct) auto

lemma fragments_strip: "x \<in> set (fragments ids) \<Longrightarrow> x \<noteq> [] \<and> strip x = x"
  by (auto simp: fragments_def split_string_by_multi_markers_def)

text \<open>Provenance is neither lost nor repeated. The merged list holds each fragment of both inputs
  exactly once, none empty or with spaces around it; and if the existing list is in normal form,
  it stays in front as it is, the new fragments follow in the order they came.\<close>

theorem merge_keeps_provenance:
  "distinct (merge_source_ids a b)
   \<and> set (merge_source_ids a b) = set (fragments (ids_of a @ ids_of b))
   \<and> list_all (\<lambda>i. i \<noteq> [] \<and> strip i = i) (merge_source_ids a b)
   \<and> merge_source_ids (Some (merge_source_ids a b)) None
       = first_seen [] (fragments (merge_source_ids a b))
   \<and> (if distinct (ids_of a) \<and> list_all clean_id (ids_of a)
      then merge_source_ids a b = ids_of a @ first_seen (ids_of a) (fragments (ids_of b)) else True)"
proof -
  have "merge_source_ids a b = ids_of a @ first_seen (ids_of a) (fragments (ids_of b))"
    if "distinct (ids_of a)" "list_all clean_id (ids_of a)"
  proof -
    have "fragments (ids_of a @ ids_of b) = ids_of a @ fragments (ids_of b)"
      using fragments_clean [OF that(2)] by (simp add: fragments_def)
    then show ?thesis
      using first_seen_id [OF that(1), of "[]"] by (simp add: merge_source_ids_eq first_seen_append)
  qed
  moreover have "merge_source_ids (Some x) None = first_seen [] (fragments x)" for x
    by (simp add: merge_source_ids_eq ids_of_def)
  ultimately show ?thesis
    using fragments_strip [of _ "ids_of a @ ids_of b"]
    by (auto simp: merge_source_ids_eq first_seen_set first_seen_distinct list_all_iff)
qed

subsection \<open>Incremental updates\<close>

lemma incremental_fold:
  "fold (\<lambda>cid acc. if cid \<noteq> [] \<and> cid \<in> A \<and> cid \<notin> set acc then acc @ [cid] else acc) new acc
     = acc @ first_seen acc (filter (\<lambda>c. c \<noteq> [] \<and> c \<in> A) new)"
proof (induction new arbitrary: acc)
  case (Cons c new)
  then show ?case using first_seen_cong [of "acc @ [c]" "c # acc"] by auto
qed simp

text \<open>C38. The tracking row is the authority. After an incremental update the row holds what it held
  (in its order) but the ids that were dropped from the view, followed by the ids that are new in
  the view. An id that both views show and the row has pruned is not brought back, and a row
  without repetitions gets none.\<close>

theorem update_never_resurrects:
  "let row = compute_incremental_chunk_ids existing old new;
       kept = filter (\<lambda>c. c \<noteq> [] \<and> (c \<notin> set old \<or> c \<in> set new)) existing
   in row = kept @ first_seen kept (filter (\<lambda>c. c \<noteq> [] \<and> c \<notin> set old) new)
      \<and> (c \<in> set old \<and> c \<in> set new \<and> c \<notin> set existing \<longrightarrow> c \<notin> set row)
      \<and> (distinct existing \<longrightarrow> distinct row)"
proof -
  let ?kept = "filter (\<lambda>c. c \<noteq> [] \<and> (c \<notin> set old \<or> c \<in> set new)) existing"
  have k: "filter (\<lambda>cid. cid \<noteq> [] \<and> cid \<notin> set old - set new) existing = ?kept"
    by (rule filter_cong) auto
  have f: "filter (\<lambda>c. c \<noteq> [] \<and> c \<in> set new - set old) new = filter (\<lambda>c. c \<noteq> [] \<and> c \<notin> set old) new"
    by (rule filter_cong) auto
  have row: "compute_incremental_chunk_ids existing old new =
      ?kept @ first_seen ?kept (filter (\<lambda>c. c \<noteq> [] \<and> c \<notin> set old) new)"
    unfolding compute_incremental_chunk_ids_def Let_def incremental_fold k f ..
  show ?thesis
    unfolding Let_def row by (auto simp: first_seen_set first_seen_distinct)
qed

theorem update_never_resurrects_witness:
  "compute_incremental_chunk_ids [''c1'', ''c2'', ''c3''] [''c1'', ''c2'', ''c9''] [''c2'', ''c9'', ''c4''] = [''c2'', ''c3'', ''c4'']
   \<and> ''c9'' \<notin> set (compute_incremental_chunk_ids [''c1'', ''c2'', ''c3''] [''c1'', ''c2'', ''c9''] [''c2'', ''c9'', ''c4''])"
  using update_never_resurrects [where existing = "[''c1'', ''c2'', ''c3'']" and old = "[''c1'', ''c2'', ''c9'']"
      and new = "[''c2'', ''c9'', ''c4'']" and c = "''c9''"]
  by (simp add: Let_def)

text \<open>A limit keeps one end of the list: at most \<open>limit\<close> ids, the newest under FIFO, the oldest under any
  other method (also an unknown one, or none), all of them when they fit.\<close>

lemma limit_keeps_an_end:
  "let out = apply_source_ids_limit ids limit meth in
     length out = min (nat limit) (length ids)
     \<and> (out = take (nat limit) ids \<or> (out = drop (length ids - nat limit) ids
          \<and> normalize_source_ids_limit_method meth = SOURCE_IDS_LIMIT_METHOD_FIFO))
     \<and> (normalize_source_ids_limit_method meth = SOURCE_IDS_LIMIT_METHOD_FIFO \<or> out = take (nat limit) ids)"
  by (auto simp: apply_source_ids_limit_def Let_def)

subsection \<open>Relation keys\<close>

text \<open>Separating at the first \<open><SEP>\<close>: it has no overlap with itself.\<close>

lemma sep_shift:
  assumes "startswith (x # s @ ''<SEP>'' @ t) ''<SEP>''" "\<not> contains (x # s) ''<SEP>''"
  shows False
proof -
  have no: "\<not> startswith (x # s) ''<SEP>''" using assms(2) by auto
  consider "s = []" | a where "s = [a]" | a b where "s = [a, b]" | a b c where "s = [a, b, c]"
    | a b c d r where "s = a # b # c # d # r"
    by (metis list.exhaust)
  then show False using assms(1) no by cases (auto simp: startswith_def)
qed

lemma split_sep:
  assumes "\<not> contains s ''<SEP>''"
  shows "split_str_loop ''<SEP>'' acc (s @ ''<SEP>'' @ t) = (rev acc @ s) # split_str_loop ''<SEP>'' [] t"
  using assms
proof (induction s arbitrary: acc)
  case Nil
  then show ?case by (simp add: startswith_def)
next
  case (Cons x s)
  have "\<not> startswith (x # s @ ''<SEP>'' @ t) ''<SEP>''" using sep_shift Cons.prems by blast
  moreover have "\<not> contains s ''<SEP>''" using Cons.prems by simp
  ultimately show ?case using Cons.IH [of "x # acc"] by simp
qed

text \<open>A relation's key does not depend on the direction, and for entity names without the separator
  it is read back as the pair, in alphabetical order: different pairs have different keys.\<close>

theorem relation_key_round_trip:
  assumes "\<not> contains a GRAPH_FIELD_SEP" "\<not> contains b GRAPH_FIELD_SEP"
  shows "make_relation_chunk_key a b = make_relation_chunk_key b a
     \<and> parse_relation_chunk_key (make_relation_chunk_key a b) = Some (min a b, max a b)"
proof -
  have p: "parse_relation_chunk_key (x @ ''<SEP>'' @ y) = Some (x, y)"
    if "\<not> contains x ''<SEP>''" "\<not> contains y ''<SEP>''" for x y
  proof -
    have "split_str ''<SEP>'' (x @ ''<SEP>'' @ y) = [x, y]"
      using split_sep [OF that(1), of "[]" y] split_str_loop_none [OF that(2)] by (simp add: split_str_def)
    then show ?thesis by (simp add: parse_relation_chunk_key_def GRAPH_FIELD_SEP_def)
  qed
  have s: "sort [a, b] = [min a b, max a b]" "sort [b, a] = [min a b, max a b]"
    by (auto simp: min_def max_def)
  have "min a b = a \<and> max a b = b \<or> min a b = b \<and> max a b = a" by (auto simp: min_def max_def)
  then show ?thesis
    using p [of "min a b" "max a b"] assms s by (auto simp: make_relation_chunk_key_def GRAPH_FIELD_SEP_def)
qed

theorem relation_key_round_trip_witness:
  "parse_relation_chunk_key (make_relation_chunk_key ''Zoe'' ''Ana'') = Some (''Ana'', ''Zoe'')"
proof -
  have "min ''Zoe'' ''Ana'' = ''Ana''" "max ''Zoe'' ''Ana'' = (''Zoe'' :: pystr)" by (simp_all add: min_def max_def)
  moreover have c: "\<not> contains ''Zoe'' GRAPH_FIELD_SEP" "\<not> contains ''Ana'' GRAPH_FIELD_SEP"
    by (simp_all add: GRAPH_FIELD_SEP_def startswith_def)
  ultimately show ?thesis using conjunct2 [OF relation_key_round_trip [OF c]] by (simp only:)
qed

text \<open>A name with the separator in it gives a key that is refused.\<close>

lemma separator_in_a_name: "parse_relation_chunk_key (make_relation_chunk_key ''a<SEP>b'' ''c'') = None"
  by (simp add: parse_relation_chunk_key_def make_relation_chunk_key_def GRAPH_FIELD_SEP_def split_str_def startswith_def)

end
