(* ===== verification/Chunker.thy ===== *)
theory Chunker
  imports PyText
begin

text \<open>
  The fixed-token chunker, \<^verbatim>\<open>src/lightrag/chunker/token_size.py\<close>, and the truncation of a list to a
  token budget of \<^verbatim>\<open>src/lightrag/utils.py\<close>. The tokenizer is a parameter: \<open>enc\<close> and \<open>dec\<close>, on which
  nothing is assumed (decoding a window need not give the text the tokens came from). Positions
  and counts are natural numbers; the two sizes are integers, as their checks are about their sign.
\<close>

type_synonym span = "nat \<times> nat"

subsection \<open>Source spans\<close>

function trim_start :: "pystr \<Rightarrow> nat \<Rightarrow> nat \<Rightarrow> nat" where
  "trim_start c s e = (if s < e \<and> isspace (c ! s) then trim_start c (Suc s) e else s)"
  by pat_completeness auto
termination by (relation "measure (\<lambda>(c, s, e). e - s)") auto

function trim_end :: "pystr \<Rightarrow> nat \<Rightarrow> nat \<Rightarrow> nat" where
  "trim_end c s e = (if s < e \<and> isspace (c ! (e - 1)) then trim_end c s (e - 1) else e)"
  by pat_completeness auto
termination by (relation "measure (\<lambda>(c, s, e). e)") auto

declare trim_start.simps [simp del] trim_end.simps [simp del]

definition trimmed_span :: "pystr \<Rightarrow> nat \<Rightarrow> nat \<Rightarrow> span" where
  "trimmed_span content s0 e0 =
     (let s = min s0 (length content);
          e = max s (min e0 (length content));
          s1 = trim_start content s e
      in (s1, trim_end content s1 e))"

definition source_span :: "pystr \<Rightarrow> nat \<Rightarrow> nat \<Rightarrow> span option" where
  "source_span content s0 e0 =
     (let (s, e) = trimmed_span content s0 e0 in if s \<ge> e then None else Some (s, e))"

text \<open>\<open>content[s:e]\<close> and \<open>content.find(w, lo, hi)\<close>, \<open>None\<close> for -1.\<close>

definition slice :: "'a list \<Rightarrow> nat \<Rightarrow> nat \<Rightarrow> 'a list" where
  "slice xs s e = take (e - s) (drop s xs)"

definition py_find :: "pystr \<Rightarrow> nat \<Rightarrow> nat \<Rightarrow> pystr \<Rightarrow> nat option" where
  "py_find w lo hi content =
     (if lo + length w \<le> hi
      then find (\<lambda>i. slice content i (i + length w) = w) [lo..<Suc (hi - length w)]
      else None)"

definition token_window_source_span ::
    "(nat list \<Rightarrow> pystr) \<Rightarrow> pystr \<Rightarrow> nat list \<Rightarrow> nat \<Rightarrow> nat \<Rightarrow> nat \<times> nat \<Rightarrow> span option \<times> nat \<times> nat" where
  "token_window_source_span dec content tokens start_token end_token anchor =
     (let (anchor_token, anchor_char) = anchor;
          window = dec (slice tokens start_token end_token);
          s = (if start_token \<ge> anchor_token
               then anchor_char + length (dec (slice tokens anchor_token start_token))
               else length (dec (take start_token tokens)));
          e = s + length window
      in if slice content s e \<noteq> window
         then (case py_find window (s - 32) (min (length content) (e + 32 + length window)) content of
                 None \<Rightarrow> (None, anchor)
               | Some found \<Rightarrow> (source_span content found (found + length window), (start_token, found)))
         else (source_span content s e, (start_token, s)))"

subsection \<open>Chunks\<close>

record chunk =
  c_tokens :: nat
  c_content :: pystr
  c_order :: nat
  c_span :: "span option"

definition make_chunk :: "bool \<Rightarrow> nat \<Rightarrow> nat \<times> pystr \<times> span option \<Rightarrow> chunk" where
  "make_chunk emit order t =
     (case t of (n, content, sp) \<Rightarrow>
        \<lparr>c_tokens = n, c_content = strip content, c_order = order, c_span = (if emit then sp else None)\<rparr>)"

datatype chunk_error =
    NegativeOverlap
  | OverlapNotSmaller
  | ChunkTokenLimitExceeded nat pystr

definition window_step :: "int \<Rightarrow> int \<Rightarrow> chunk_error + nat" where
  "window_step sz overlap = (if overlap \<ge> sz then Inl OverlapNotSmaller else Inr (nat (sz - overlap)))"

text \<open>\<open>range(s, n, step)\<close>, for a positive step.\<close>

function py_range :: "nat \<Rightarrow> nat \<Rightarrow> nat \<Rightarrow> nat list" where
  "py_range s n st = (if s < n \<and> 0 < st then s # py_range (s + st) n st else [])"
  by pat_completeness auto
termination by (relation "measure (\<lambda>(s, n, st). n - s)") auto

declare py_range.simps [simp del]

text \<open>The window loop, with the anchor as its state.\<close>

fun window_loop ::
    "(nat list \<Rightarrow> pystr) \<Rightarrow> pystr \<Rightarrow> nat list \<Rightarrow> nat \<Rightarrow> bool \<Rightarrow> nat list \<Rightarrow> nat \<times> nat
     \<Rightarrow> (nat \<times> pystr \<times> span option) list" where
  "window_loop dec content tokens sz emit [] anchor = []"
| "window_loop dec content tokens sz emit (s # ss) anchor =
     (let e = min (s + sz) (length tokens);
          chunk_content = dec (slice tokens s e);
          (sp, anchor1) = (if emit then token_window_source_span dec content tokens s e anchor else (None, anchor))
      in (min sz (length tokens - s), chunk_content, sp)
           # window_loop dec content tokens sz emit ss anchor1)"

definition windows ::
    "(nat list \<Rightarrow> pystr) \<Rightarrow> pystr \<Rightarrow> nat list \<Rightarrow> int \<Rightarrow> int \<Rightarrow> bool
     \<Rightarrow> chunk_error + (nat \<times> pystr \<times> span option) list" where
  "windows dec content tokens sz overlap emit =
     (case window_step sz overlap of
        Inl e \<Rightarrow> Inl e
      | Inr st \<Rightarrow> Inr (window_loop dec content tokens (nat sz) emit (py_range 0 (length tokens) st) (0, 0)))"

definition shift_span :: "nat \<Rightarrow> nat \<times> pystr \<times> span option \<Rightarrow> nat \<times> pystr \<times> span option" where
  "shift_span k t = (case t of (n, c, sp) \<Rightarrow> (n, c, map_option (\<lambda>(a, b). (k + a, k + b)) sp))"

text \<open>One segment of a text split by a character, which starts at \<open>chunk_start\<close>.\<close>

definition segment_chunks ::
    "(pystr \<Rightarrow> nat list) \<Rightarrow> (nat list \<Rightarrow> pystr) \<Rightarrow> pystr \<Rightarrow> bool \<Rightarrow> int \<Rightarrow> int \<Rightarrow> bool \<Rightarrow> nat \<Rightarrow> pystr
     \<Rightarrow> chunk_error + (nat \<times> pystr \<times> span option) list" where
  "segment_chunks enc dec content only overlap sz emit chunk_start seg =
     (let tokens = enc seg;
          whole = (length tokens, seg,
            if emit then source_span content chunk_start (chunk_start + length seg) else None)
      in if only
         then if int (length tokens) > sz
              then Inl (ChunkTokenLimitExceeded (length tokens) (take 120 seg))
              else Inr [whole]
         else if int (length tokens) > sz
              then (case windows dec seg tokens sz overlap emit of
                      Inl e \<Rightarrow> Inl e
                    | Inr ws \<Rightarrow> Inr (map (shift_span chunk_start) ws))
              else Inr [whole])"

fun segments_loop ::
    "(nat \<Rightarrow> pystr \<Rightarrow> chunk_error + (nat \<times> pystr \<times> span option) list) \<Rightarrow> nat \<Rightarrow> nat \<Rightarrow> pystr list
     \<Rightarrow> chunk_error + (nat \<times> pystr \<times> span option) list" where
  "segments_loop f sep_len cursor [] = Inr []"
| "segments_loop f sep_len cursor (seg # segs) =
     (case f cursor seg of
        Inl e \<Rightarrow> Inl e
      | Inr ts \<Rightarrow> (case segments_loop f sep_len (cursor + length seg + sep_len) segs of
                     Inl e \<Rightarrow> Inl e
                   | Inr us \<Rightarrow> Inr (ts @ us)))"

definition number_chunks :: "bool \<Rightarrow> (nat \<times> pystr \<times> span option) list \<Rightarrow> chunk list" where
  "number_chunks emit ts = map (\<lambda>(i, t). make_chunk emit i t) (enumerate 0 ts)"

definition chunking_by_token_size ::
    "(pystr \<Rightarrow> nat list) \<Rightarrow> (nat list \<Rightarrow> pystr) \<Rightarrow> pystr \<Rightarrow> pystr option \<Rightarrow> bool \<Rightarrow> int \<Rightarrow> int \<Rightarrow> bool
     \<Rightarrow> chunk_error + chunk list" where
  "chunking_by_token_size enc dec content split_by only overlap sz emit =
     (if overlap < 0 then Inl NegativeOverlap
      else let parts = (case split_by of
               Some sep \<Rightarrow>
                 if sep \<noteq> []
                 then segments_loop (segment_chunks enc dec content only overlap sz emit)
                        (length sep) 0 (split_str sep content)
                 else windows dec content (enc content) sz overlap emit
             | None \<Rightarrow> windows dec content (enc content) sz overlap emit)
           in (case parts of Inl e \<Rightarrow> Inl e | Inr ts \<Rightarrow> Inr (number_chunks emit ts)))"

definition chunking_by_fixed_token ::
    "(pystr \<Rightarrow> nat list) \<Rightarrow> (nat list \<Rightarrow> pystr) \<Rightarrow> pystr \<Rightarrow> int \<Rightarrow> int \<Rightarrow> pystr option \<Rightarrow> bool \<Rightarrow> bool
     \<Rightarrow> chunk_error + chunk list" where
  "chunking_by_fixed_token enc dec content sz overlap split_by only emit =
     chunking_by_token_size enc dec content split_by only overlap sz emit"

subsection \<open>A list within a token budget\<close>

fun prefix_count_loop :: "nat \<Rightarrow> nat \<Rightarrow> nat \<Rightarrow> nat \<Rightarrow> pystr list \<Rightarrow> nat" where
  "prefix_count_loop sep_len safe_end cumulative i [] = i"
| "prefix_count_loop sep_len safe_end cumulative i (t # ts) =
     (let c = cumulative + (if i > 0 then sep_len else 0) + length t
      in if c > safe_end then i else prefix_count_loop sep_len safe_end c (Suc i) ts)"

definition rendered_prefix_item_count :: "pystr list \<Rightarrow> pystr \<Rightarrow> nat \<Rightarrow> nat" where
  "rendered_prefix_item_count rendered separator safe_end =
     prefix_count_loop (length separator) safe_end 0 0 rendered"

fun shrink :: "(pystr \<Rightarrow> nat list) \<Rightarrow> pystr \<Rightarrow> nat \<Rightarrow> pystr list \<Rightarrow> nat \<Rightarrow> nat" where
  "shrink enc separator budget rendered 0 = 0"
| "shrink enc separator budget rendered (Suc k) =
     (if length (enc (join separator (take (Suc k) rendered))) \<le> budget then Suc k
      else shrink enc separator budget rendered k)"

text \<open>\<open>safe_end\<close> is the end of the safe prefix the tokenizer gives for the joined text and the budget, None
  for its \<open>TokenBudgetError\<close>.\<close>

definition truncate_list_by_token_size ::
    "(pystr \<Rightarrow> nat list) \<Rightarrow> (pystr \<Rightarrow> nat \<Rightarrow> nat option) \<Rightarrow> ('a \<Rightarrow> pystr) \<Rightarrow> pystr \<Rightarrow> int \<Rightarrow> 'a list \<Rightarrow> 'a list" where
  "truncate_list_by_token_size enc safe_end key separator max_token_size data =
     (if max_token_size \<le> 0 \<or> data = [] then []
      else let rendered = map key data in
        (case safe_end (join separator rendered) (nat max_token_size) of
           None \<Rightarrow> []
         | Some e \<Rightarrow>
             take (shrink enc separator (nat max_token_size) rendered
                     (rendered_prefix_item_count rendered separator e)) data))"

end
