(* ===== verification/ChunkerLaws.thy ===== *)
theory ChunkerLaws
  imports Chunker
begin

text \<open>
  What the chunker guarantees for any tokenizer: the windows cover the tokens with the overlap
  asked for, a reported source span is the text of its chunk, and a truncated list fits its budget.
\<close>

subsection \<open>Trimming\<close>

lemma lstrip_Cons: "lstrip (c # s) = (if isspace c then lstrip s else c # s)"
  by (simp add: lstrip_def)

lemma rstrip_snoc: "rstrip (s @ [c]) = (if isspace c then rstrip s else s @ [c])"
  by (simp add: rstrip_def)

lemma slice_Cons: "s < e \<Longrightarrow> e \<le> length c \<Longrightarrow> slice c s e = c ! s # slice c (Suc s) e"
  by (simp add: slice_def Cons_nth_drop_Suc [symmetric] take_Cons' Suc_diff_Suc)

lemma slice_snoc: "s < e \<Longrightarrow> e \<le> length c \<Longrightarrow> slice c s e = slice c s (e - 1) @ [c ! (e - 1)]"
proof -
  assume a: "s < e" "e \<le> length c"
  then have "e - s = Suc (e - 1 - s)" by simp
  then have "slice c s e = take (Suc (e - 1 - s)) (drop s c)" by (simp add: slice_def)
  also have "\<dots> = take (e - 1 - s) (drop s c) @ [drop s c ! (e - 1 - s)]"
    using a by (intro take_Suc_conv_app_nth) simp
  also have "drop s c ! (e - 1 - s) = c ! (e - 1)" using a by simp
  finally show ?thesis by (simp add: slice_def)
qed

lemma slice_empty: "e \<le> s \<Longrightarrow> slice c s e = []"
  by (simp add: slice_def)

lemma trim_start_stop: "\<not> (s < e \<and> isspace (c ! s)) \<Longrightarrow> trim_start c s e = s"
  by (subst trim_start.simps) (rule if_not_P)

lemma trim_end_stop: "\<not> (s < e \<and> isspace (c ! (e - 1))) \<Longrightarrow> trim_end c s e = e"
  by (subst trim_end.simps) (rule if_not_P)

lemma trim_start_laws:
  "s \<le> e \<Longrightarrow> e \<le> length c \<Longrightarrow>
     s \<le> trim_start c s e \<and> trim_start c s e \<le> e \<and> slice c (trim_start c s e) e = lstrip (slice c s e)"
proof (induction c s e rule: trim_start.induct)
  case (1 c s e)
  show ?case
  proof (cases "s < e \<and> isspace (c ! s)")
    case True
    then show ?thesis using 1 by (simp add: trim_start.simps [of c s e] slice_Cons lstrip_Cons)
  next
    case False
    have "lstrip (slice c s e) = slice c s e"
      using False 1(2,3) by (cases "s < e") (simp_all add: slice_Cons lstrip_Cons slice_empty lstrip_def)
    then show ?thesis using trim_start_stop [OF False] 1(2) by simp
  qed
qed

lemma trim_end_laws:
  "s \<le> e \<Longrightarrow> e \<le> length c \<Longrightarrow>
     s \<le> trim_end c s e \<and> trim_end c s e \<le> e \<and> slice c s (trim_end c s e) = rstrip (slice c s e)"
proof (induction c s e rule: trim_end.induct)
  case (1 c s e)
  show ?case
  proof (cases "s < e \<and> isspace (c ! (e - 1))")
    case True
    then have le: "s \<le> e - 1" "e - 1 \<le> length c" using 1(3) by auto
    have "trim_end c s e = trim_end c s (e - 1)" using True by (simp add: trim_end.simps [of c s e])
    moreover have "slice c s e = slice c s (e - 1) @ [c ! (e - 1)]" using True 1(3) by (simp add: slice_snoc)
    ultimately show ?thesis using 1(1) [OF True le] True by (auto simp: rstrip_snoc)
  next
    case False
    have "rstrip (slice c s e) = slice c s e"
    proof (cases "s < e")
      case True
      then show ?thesis using False 1(3) by (simp add: slice_snoc [of s e c] rstrip_snoc)
    qed (simp add: slice_empty rstrip_def)
    then show ?thesis using trim_end_stop [OF False] 1(2) by simp
  qed
qed

text \<open>A source span is the trimmed text; there is none when nothing is left.\<close>

lemma source_span_slice:
  assumes "s \<le> e" "e \<le> length c"
  shows "case source_span c s e of
      Some (a, b) \<Rightarrow> s \<le> a \<and> a < b \<and> b \<le> e \<and> slice c a b = strip (slice c s e)
    | None \<Rightarrow> strip (slice c s e) = []"
proof -
  let ?a = "trim_start c s e"
  have a: "s \<le> ?a" "?a \<le> e" "slice c ?a e = lstrip (slice c s e)" using trim_start_laws [OF assms] by blast+
  have b: "?a \<le> trim_end c ?a e" "trim_end c ?a e \<le> e" "slice c ?a (trim_end c ?a e) = rstrip (slice c ?a e)"
    using trim_end_laws [OF a(2) assms(2)] by blast+
  have t: "trimmed_span c s e = (?a, trim_end c ?a e)"
    using assms by (simp add: trimmed_span_def Let_def)
  show ?thesis
    using a b assms by (auto simp: source_span_def t strip_def slice_empty)
qed

lemma slice_full: "slice c s (s + length w) = w \<Longrightarrow> w \<noteq> [] \<Longrightarrow> s + length w \<le> length c"
proof -
  assume a: "slice c s (s + length w) = w" "w \<noteq> []"
  then have "length (take (length w) (drop s c)) = length w" by (simp add: slice_def)
  then show ?thesis using a(2) by (cases "s < length c") auto
qed

lemma source_span_window:
  assumes "slice c s (s + length w) = w"
  shows "case source_span c s (s + length w) of
      Some (a, b) \<Rightarrow> a < b \<and> b \<le> length c \<and> slice c a b = strip w
    | None \<Rightarrow> strip w = []"
proof (cases "w = []")
  case True
  have "source_span c s s = None"
    by (simp add: source_span_def trimmed_span_def Let_def trim_start.simps trim_end.simps)
  then show ?thesis using True by (simp add: strip_def lstrip_def rstrip_def)
next
  case False
  then show ?thesis
    using source_span_slice [of s "s + length w" c] slice_full [OF assms] assms
    by (auto split: option.splits)
qed

lemma py_find_slice: "py_find w lo hi c = Some i \<Longrightarrow> slice c i (i + length w) = w"
  using find_SomeD by (fastforce simp: py_find_def split: if_splits)

text \<open>A span that is given for a window is the window's text.\<close>

definition span_exact :: "pystr \<Rightarrow> pystr \<Rightarrow> span option \<Rightarrow> bool" where
  "span_exact content w sp =
     (case sp of None \<Rightarrow> True | Some (a, b) \<Rightarrow> a < b \<and> b \<le> length content \<and> slice content a b = strip w)"

lemma source_span_exact:
  "slice content s (s + length w) = w \<Longrightarrow> span_exact content w (source_span content s (s + length w))"
  using source_span_window [of content s w] by (auto simp: span_exact_def split: option.splits)

lemma span_exact_None [simp]: "span_exact content w None"
  by (simp add: span_exact_def)

lemma token_window_exact:
  "span_exact content (dec (slice tokens s e)) (fst (token_window_source_span dec content tokens s e anchor))"
proof -
  let ?w = "dec (slice tokens s e)"
  obtain t0 ac where a: "anchor = (t0, ac)" by (cases anchor)
  define p where "p = (if s \<ge> t0 then ac + length (dec (slice tokens t0 s)) else length (dec (take s tokens)))"
  define q where "q = py_find ?w (p - 32) (min (length content) (p + length ?w + 32 + length ?w)) content"
  have u: "token_window_source_span dec content tokens s e anchor =
      (if slice content p (p + length ?w) \<noteq> ?w
       then (case q of None \<Rightarrow> (None, anchor)
             | Some found \<Rightarrow> (source_span content found (found + length ?w), (s, found)))
       else (source_span content p (p + length ?w), (s, p)))"
    unfolding token_window_source_span_def Let_def a prod.case q_def p_def by (rule refl)
  show ?thesis
  proof (cases "slice content p (p + length ?w) = ?w")
    case True
    then show ?thesis using source_span_exact [OF True] by (simp add: u)
  next
    case False
    show ?thesis
    proof (cases q)
      case None
      then show ?thesis using False by (simp add: u)
    next
      case (Some f)
      then show ?thesis using False source_span_exact [OF py_find_slice] unfolding q_def by (simp add: u q_def)
    qed
  qed
qed

lemma window_loop_exact:
  "t \<in> set (window_loop dec content tokens sz emit ss anchor) \<Longrightarrow> span_exact content (fst (snd t)) (snd (snd t))"
proof (induction ss arbitrary: anchor)
  case (Cons s ss)
  let ?e = "min (s + sz) (length tokens)"
  let ?r = "if emit then token_window_source_span dec content tokens s ?e anchor else (None, anchor)"
  have l: "window_loop dec content tokens sz emit (s # ss) anchor =
      (min sz (length tokens - s), dec (slice tokens s ?e), fst ?r)
        # window_loop dec content tokens sz emit ss (snd ?r)"
    by (simp add: Let_def case_prod_unfold)
  have x: "span_exact content (dec (slice tokens s ?e)) (fst ?r)" by (simp add: token_window_exact)
  consider "t = (min sz (length tokens - s), dec (slice tokens s ?e), fst ?r)"
    | "t \<in> set (window_loop dec content tokens sz emit ss (snd ?r))"
    using Cons.prems unfolding l by auto
  then show ?case
  proof cases
    case 1
    show ?thesis unfolding 1 using x by simp
  next
    case 2
    show ?thesis by (rule Cons.IH [OF 2])
  qed
qed simp

lemma windows_exact:
  "windows dec content tokens sz overlap emit = Inr ts \<Longrightarrow> t \<in> set ts \<Longrightarrow>
     span_exact content (fst (snd t)) (snd (snd t))"
  by (auto simp: windows_def window_loop_exact split: sum.splits)

subsection \<open>The segments of a split text\<close>

lemma split_loop_not_Nil: "split_str_loop m acc s \<noteq> []"
  by (induction m acc s rule: split_str_loop.induct) auto

lemma join_split_loop: "m \<noteq> [] \<Longrightarrow> join m (split_str_loop m acc s) = rev acc @ s"
proof (induction m acc s rule: split_str_loop.induct)
  case (2 m acc c s)
  show ?case
  proof (cases "startswith (c # s) m")
    case True
    obtain x xs where x: "split_str_loop m [] (drop (length m - 1) s) = x # xs"
      using split_loop_not_Nil by (meson neq_Nil_conv)
    have "take (length m) (c # s) = m" using True by (simp add: startswith_def)
    then have "m @ drop (length m) (c # s) = c # s" by (metis append_take_drop_id)
    moreover have "drop (length m) (c # s) = drop (length m - 1) s" using 2(3) by (cases m) simp_all
    ultimately show ?thesis using 2(1) [OF True 2(3)] True x by simp
  next
    case False
    then show ?thesis using 2(2) [OF False 2(3)] by simp
  qed
qed simp

lemma join_split_str: "m \<noteq> [] \<Longrightarrow> join m (split_str m s) = s"
  by (simp add: split_str_def join_split_loop)

lemma segment_at:
  "content = pre @ join m (seg # segs) \<Longrightarrow>
     slice content (length pre) (length pre + length seg) = seg \<and>
     (segs \<noteq> [] \<longrightarrow> content = (pre @ seg @ m) @ join m segs)"
  by (cases segs) (auto simp: slice_def)

lemma shift_exact:
  assumes "slice content k (k + length seg) = seg" "span_exact seg (fst (snd t)) (snd (snd t))"
  shows "span_exact content (fst (snd (shift_span k t))) (snd (snd (shift_span k t)))"
proof (cases "snd (snd t)")
  case None
  then show ?thesis by (simp add: shift_span_def case_prod_unfold)
next
  case (Some ab)
  obtain a b where ab: "ab = (a, b)" by (cases ab)
  have x: "a < b" "b \<le> length seg" "slice seg a b = strip (fst (snd t))"
    using assms(2) by (simp_all add: span_exact_def Some ab)
  have "k + length seg \<le> length content" using slice_full [OF assms(1)] x by (cases seg) auto
  moreover have "slice content (k + a) (k + b) = slice seg a b"
  proof -
    have "slice seg a b = slice (take (length seg) (drop k content)) a b"
      using assms(1) by (simp add: slice_def)
    also have "\<dots> = slice content (k + a) (k + b)"
      using x by (simp add: slice_def drop_take min_def add.commute)
    finally show ?thesis by simp
  qed
  ultimately show ?thesis using x by (simp add: shift_span_def case_prod_unfold span_exact_def Some ab)
qed

lemma segment_exact:
  assumes "segment_chunks enc dec content only overlap sz emit k seg = Inr ts" "t \<in> set ts"
    and seg: "slice content k (k + length seg) = seg"
  shows "span_exact content (fst (snd t)) (snd (snd t))"
proof -
  have whole: "span_exact content seg (if emit then source_span content k (k + length seg) else None)"
    using source_span_exact [OF seg] by simp
  show ?thesis
    using assms(1,2) whole shift_exact [OF seg windows_exact]
    by (auto simp: segment_chunks_def Let_def split: if_splits sum.splits)
qed

lemma segments_exact:
  assumes "m \<noteq> []"
  shows "segments_loop (segment_chunks enc dec content only overlap sz emit) (length m) (length pre) segs = Inr ts \<Longrightarrow>
    segs = [] \<or> content = pre @ join m segs \<Longrightarrow> t \<in> set ts \<Longrightarrow> span_exact content (fst (snd t)) (snd (snd t))"
proof (induction segs arbitrary: pre ts)
  case (Cons seg segs)
  obtain us vs where u: "segment_chunks enc dec content only overlap sz emit (length pre) seg = Inr us"
      "segments_loop (segment_chunks enc dec content only overlap sz emit) (length m)
         (length (pre @ seg @ m)) segs = Inr vs" "ts = us @ vs"
    using Cons.prems(1) by (auto simp: add.assoc split: sum.splits)
  have s: "content = pre @ join m (seg # segs)" using Cons.prems(2) by simp
  consider "t \<in> set us" | "t \<in> set vs" using Cons.prems(3) u(3) by auto
  then show ?case
  proof cases
    case 1
    then show ?thesis using segment_exact [OF u(1)] segment_at [OF s] by blast
  next
    case 2
    then show ?thesis using Cons.IH [OF u(2)] segment_at [OF s] by blast
  qed
qed simp

text \<open>C39. A chunk that carries a source span carries its own: the span lies in the text, is not empty, and
  the text between its two positions is exactly the content of the chunk. This holds on every path (fixed
  windows, segments between separators, long segments cut into windows) and for every tokenizer,
  also one whose decoding of a window is not a piece of the text.\<close>

theorem chunk_span_exact:
  assumes "chunking_by_fixed_token enc dec content sz overlap split_by only emit = Inr cs" "c \<in> set cs"
    "c_span c = Some (a, b)"
  shows "emit \<and> a < b \<and> b \<le> length content \<and> slice content a b = c_content c"
proof -
  obtain ts where ts: "cs = number_chunks emit ts" "\<And>t. t \<in> set ts \<Longrightarrow> span_exact content (fst (snd t)) (snd (snd t))"
  proof -
    show ?thesis
    proof (cases "split_by = None \<or> split_by = Some []")
      case True
      then show ?thesis using assms(1) that windows_exact
        by (auto simp: chunking_by_fixed_token_def chunking_by_token_size_def split: if_splits sum.splits)
    next
      case False
      then obtain m where m: "split_by = Some m" "m \<noteq> []" by auto
      have "segments_loop (segment_chunks enc dec content only overlap sz emit) (length m) (length ([] :: pystr))
          (split_str m content) = Inr ts \<Longrightarrow> t \<in> set ts \<Longrightarrow> span_exact content (fst (snd t)) (snd (snd t))" for ts t
        using segments_exact [OF m(2), of enc dec content only overlap sz emit "[]" "split_str m content" ts t]
        by (simp add: join_split_str [OF m(2)])
      moreover obtain ts where "segments_loop (segment_chunks enc dec content only overlap sz emit) (length m)
          (length ([] :: pystr)) (split_str m content) = Inr ts" "cs = number_chunks emit ts"
        using assms(1) m by (auto simp: chunking_by_fixed_token_def chunking_by_token_size_def split: if_splits sum.splits)
      ultimately show ?thesis using that by blast
    qed
  qed
  obtain i where i: "i < length ts" "c = make_chunk emit i (ts ! i)"
    using assms(2) by (auto simp: ts(1) number_chunks_def in_set_conv_nth nth_enumerate_eq)
  obtain n w sp where t: "ts ! i = (n, w, sp)" by (cases "ts ! i")
  have "span_exact content w sp" using ts(2) [OF nth_mem [OF i(1)]] by (simp add: t)
  then show ?thesis using assms(3) by (simp add: i(2) t make_chunk_def span_exact_def split: if_splits)
qed

lemma chunk_span_exact_witness:
  "c_span (hd (projr (chunking_by_fixed_token (map of_char) (map char_of) '' ab c'' 2 1 None False True))) = Some (1, 2)
   \<and> slice '' ab c'' 1 2 = ''a''"
proof -
  let ?r = "chunking_by_fixed_token (map of_char) (map char_of) '' ab c'' 2 1 None False True"
  have r: "?r = Inr [\<lparr>c_tokens = 2, c_content = ''a'', c_order = 0, c_span = Some (1, 2)\<rparr>,
      \<lparr>c_tokens = 2, c_content = ''ab'', c_order = 1, c_span = Some (1, 3)\<rparr>,
      \<lparr>c_tokens = 2, c_content = ''b'', c_order = 2, c_span = Some (2, 3)\<rparr>,
      \<lparr>c_tokens = 2, c_content = ''c'', c_order = 3, c_span = Some (4, 5)\<rparr>,
      \<lparr>c_tokens = 1, c_content = ''c'', c_order = 4, c_span = Some (4, 5)\<rparr>]"
    by code_simp
  show ?thesis using chunk_span_exact [OF r list.set_intros(1)] by (simp add: r)
qed

subsection \<open>The windows of a text\<close>

lemma py_range_nth:
  "0 < st \<Longrightarrow> py_range s n st = map (\<lambda>i. s + i * st) [0..<(n - s + st - 1) div st]"
proof (induction s n st rule: py_range.induct)
  case (1 s n st)
  show ?case
  proof (cases "s < n")
    case True
    have d: "(n - s + st - 1) div st = Suc ((n - (s + st) + st - 1) div st)"
    proof (cases "s + st \<le> n")
      case True
      then have "n - s + st - 1 = (n - (s + st) + st - 1) + st" using 1(2) by simp
      then show ?thesis using div_add_self2 [of st "n - (s + st) + st - 1"] 1(2) by (simp only: Suc_eq_plus1)
    next
      case False
      then have "n - s + st - 1 = (n - s - 1) + st" "n - s - 1 < st" "n - (s + st) = 0" using True 1(2) by auto
      then show ?thesis using div_add_self2 [of st "n - s - 1"] 1(2) by simp
    qed
    have "py_range s n st = s # map (\<lambda>i. s + st + i * st) [0..<(n - (s + st) + st - 1) div st]"
      using 1 True by (simp add: py_range.simps [of s n st])
    also have "\<dots> = map (\<lambda>i. s + i * st) [0..<Suc ((n - (s + st) + st - 1) div st)]"
      by (simp add: upt_conv_Cons map_Suc_upt [symmetric] del: upt_Suc)
    finally show ?thesis by (simp only: d)
  next
    case False
    then show ?thesis using 1(2) by (simp add: py_range.simps [of s n st])
  qed
qed

lemma window_loop_nth:
  "map fst (window_loop dec content tokens sz emit ss anchor) = map (\<lambda>s. min sz (length tokens - s)) ss \<and>
   map (\<lambda>t. fst (snd t)) (window_loop dec content tokens sz emit ss anchor) =
     map (\<lambda>s. dec (slice tokens s (min (s + sz) (length tokens)))) ss"
proof (induction ss arbitrary: anchor)
  case (Cons s ss)
  let ?e = "min (s + sz) (length tokens)"
  let ?r = "if emit then token_window_source_span dec content tokens s ?e anchor else (None, anchor)"
  have "window_loop dec content tokens sz emit (s # ss) anchor =
      (min sz (length tokens - s), dec (slice tokens s ?e), fst ?r)
        # window_loop dec content tokens sz emit ss (snd ?r)"
    by (simp add: Let_def case_prod_unfold)
  then show ?case using Cons.IH [of "snd ?r"] by (simp only: list.map fst_conv snd_conv)
qed simp

lemma slice_min: "slice xs s (min e (length xs)) = slice xs s e"
  by (simp add: slice_def min_def)

lemma number_chunks_nth: "i < length ts \<Longrightarrow> number_chunks emit ts ! i = make_chunk emit i (ts ! i)"
  by (simp add: number_chunks_def nth_enumerate_eq)

lemma length_number_chunks [simp]: "length (number_chunks emit ts) = length ts"
  by (simp add: number_chunks_def)

lemma number_chunks_fields:
  "map c_content (number_chunks emit ts) = map (\<lambda>t. strip (fst (snd t))) ts"
  "map c_tokens (number_chunks emit ts) = map fst ts"
  "map c_order (number_chunks emit ts) = [0..<length ts]"
  by (rule nth_equalityI, simp_all add: number_chunks_nth make_chunk_def case_prod_unfold)+



subsection \<open>A list within its budget\<close>

lemma shrink_fits:
  "shrink enc sep budget rendered k \<le> k \<and>
   (shrink enc sep budget rendered k > 0 \<longrightarrow>
      length (enc (join sep (take (shrink enc sep budget rendered k) rendered))) \<le> budget)"
  by (induction k) auto

text \<open>Between the longest prefix kept and the one first tried, no prefix fits.\<close>

lemma shrink_longest:
  "shrink enc sep budget rendered k < j \<Longrightarrow> j \<le> k \<Longrightarrow> budget < length (enc (join sep (take j rendered)))"
  by (induction k) (auto split: if_splits simp: le_Suc_eq)

lemma join_snoc: "xs \<noteq> [] \<Longrightarrow> join sep (xs @ [x]) = join sep xs @ sep @ x"
  by (induction xs rule: join.induct [of _ sep]) auto

lemma prefix_count_length:
  assumes "pre = take i all" "ts = drop i all" "i \<le> length all" "c = length (join sep pre)"
    "c \<le> limit"
  defines "k \<equiv> prefix_count_loop (length sep) limit c i ts"
  shows "k \<le> length all \<and> i \<le> k \<and> length (join sep (take k all)) \<le> limit \<and>
    (k < length all \<longrightarrow> limit < length (join sep (take (Suc k) all)))"
  using assms(1-5) unfolding k_def
proof (induction ts arbitrary: i c pre)
  case (Cons t ts)
  have i: "i < length all" "t = all ! i" "ts = drop (Suc i) all"
    using Cons.prems(2) by (metis drop_eq_Nil linorder_not_less neq_Nil_conv, metis nth_via_drop, metis drop_Suc list.sel(3) tl_drop)
  let ?c = "c + (if i > 0 then length sep else 0) + length t"
  have c: "?c = length (join sep (take (Suc i) all))"
    using i Cons.prems(1,4) join_snoc [of "take i all" sep "all ! i"] list.size(3)
    by (cases "i = 0"; cases "all = []") (auto simp: take_Suc_conv_app_nth)
  show ?case
  proof (cases "?c > limit")
    case True
    then have "prefix_count_loop (length sep) limit c i (t # ts) = i" by (simp add: Let_def)
    then show ?thesis using Cons.prems(1,4,5) True c i(1) by simp
  next
    case False
    then have "prefix_count_loop (length sep) limit c i (t # ts) = prefix_count_loop (length sep) limit ?c (Suc i) ts"
      by (simp add: Let_def)
    then show ?thesis using Cons.IH [OF refl i(3) _ c] False i(1) by simp
  qed
qed auto

lemma join_take_mono: "j \<le> k \<Longrightarrow> length (join sep (take j xs)) \<le> length (join sep (take k xs))"
proof (induction k)
  case (Suc k)
  show ?case
  proof (cases "j = Suc k \<or> length xs \<le> k")
    case False
    then have "take (Suc k) xs = take k xs @ [xs ! k]" by (simp add: take_Suc_conv_app_nth)
    then have "length (join sep (take k xs)) \<le> length (join sep (take (Suc k) xs))"
      by (cases "take k xs = []") (auto simp: join_snoc)
    then show ?thesis using False Suc by simp
  qed (use Suc in \<open>auto simp: le_Suc_eq\<close>)
qed simp

text \<open>The truncated list is a prefix of the list, and if it is not empty its joined rendering encodes to no
  more tokens than the budget: the bound is checked on the text that is used, not taken from the
  tokenizer's safe prefix. It is also the longest such prefix among those whose rendering lies within the
  safe prefix.\<close>

theorem truncated_list_fits:
  assumes safe: "safe_end (join sep (map key data)) (nat budget) = Some e"
    and out_def: "out = truncate_list_by_token_size enc safe_end key sep budget data"
  shows "out = take (length out) data \<and>
    (out \<noteq> [] \<longrightarrow> 0 < budget \<and> length (join sep (map key out)) \<le> e \<and>
       int (length (enc (join sep (map key out)))) \<le> budget) \<and>
    (\<forall>j. 0 < budget \<and> length out < j \<and> j \<le> length data \<and> length (join sep (map key (take j data))) \<le> e \<longrightarrow>
       budget < int (length (enc (join sep (map key (take j data))))))"
proof (cases "budget \<le> 0 \<or> data = []")
  case True
  then show ?thesis by (auto simp: out_def truncate_list_by_token_size_def)
next
  case False
  let ?r = "map key data" and ?b = "nat budget"
  define k where "k = rendered_prefix_item_count ?r sep e"
  define K where "K = shrink enc sep ?b ?r k"
  have out: "out = take K data"
    using False safe by (simp add: out_def truncate_list_by_token_size_def Let_def K_def k_def)
  have k: "k \<le> length data" "length (join sep (take k ?r)) \<le> e"
      "k < length data \<longrightarrow> e < length (join sep (take (Suc k) ?r))"
    using prefix_count_length [of "[]" 0 ?r ?r 0 sep e] by (simp_all add: k_def rendered_prefix_item_count_def)
  have K: "K \<le> k" "K > 0 \<longrightarrow> length (enc (join sep (take K ?r))) \<le> ?b"
    using shrink_fits unfolding K_def by blast+
  have longest: "budget < int (length (enc (join sep (take j ?r))))"
    if j: "K < j" "j \<le> length data" "length (join sep (take j ?r)) \<le> e" for j
  proof -
    have "j \<le> k"
    proof (rule ccontr)
      assume n: "\<not> j \<le> k"
      then have "e < length (join sep (take (Suc k) ?r))" using k(3) j(2) by simp
      moreover have "length (join sep (take (Suc k) ?r)) \<le> length (join sep (take j ?r))"
        using n by (intro join_take_mono) simp
      ultimately show False using j(3) by linarith
    qed
    then have "?b < length (enc (join sep (take j ?r)))" using j(1) shrink_longest unfolding K_def by blast
    then show ?thesis using False by linarith
  qed
  have "int (length (enc (join sep (take K ?r)))) \<le> budget" if "K > 0" using K(2) that False by linarith
  moreover have "length (join sep (take K ?r)) \<le> e" using join_take_mono [OF K(1)] k(2) le_trans by blast
  moreover have "length out = K" using K(1) k(1) by (simp add: out)
  ultimately show ?thesis using longest False by (simp add: out take_map)
qed

lemma truncated_list_fits_witness:
  "truncate_list_by_token_size (map of_char) (\<lambda>t b. Some 12) id '', '' 7 [''one'', ''two'', ''six''] = [''one'']
   \<and> (7::int) < int (length (map (of_char :: char \<Rightarrow> nat) ''one, two''))"
proof -
  have "[''one''] = truncate_list_by_token_size (map of_char) (\<lambda>t b. Some 12) id '', '' 7 [''one'', ''two'', ''six'']"
    by code_simp
  from truncated_list_fits [where e = 12, OF refl this] this show ?thesis
    by (auto dest: spec [of _ 2])
qed

end
