(* ===== verification/Reservations.thy ===== *)
theory Reservations
  imports Ingress PyText
begin

text \<open>
  The reservations of the pipeline of a workspace: the primitives of
  \<^verbatim>\<open>src/lightrag/kg/shared_storage.py\<close> over the shared \<open>pipeline_status\<close> dict. Every operation holds
  \<open>pipeline_status_lock\<close> and writes with one update, so each is one step; the ones that survive a
  cancellation (\<open>run_to_completion\<close>) are the same step. \<open>pipeline_status\<close> holds the coordination
  fields; the fields that are only displayed (counters, messages, history) are left out, and so are
  the metrics; the dash of one message, outside the characters of \<open>pystr\<close>, is written as a hyphen. What the operating system says of processes is an argument, \<open>proc_env\<close>.
\<close>

subsection \<open>Process identity\<close>

datatype proc_probe = ProcRunning | ProcZombie | NoProcess | ProbeDenied

text \<open>\<open>my_start\<close> is the answer of \<open>_my_start_id\<close>; \<open>start_of\<close> reads \<open>/proc\<close>; \<open>recovery_on\<close>: several workers, on Linux.\<close>

record proc_env =
  my_pid :: nat
  my_start :: "pystr option"
  has_psutil :: bool
  probe :: "nat \<Rightarrow> proc_probe"
  start_of :: "nat \<Rightarrow> pystr option"
  is_multiprocess :: bool
  on_linux :: bool

record start_cache =
  cached_id :: "pystr option"
  cached_pid :: "nat option"

definition my_start_id :: "nat \<Rightarrow> (nat \<Rightarrow> pystr option) \<Rightarrow> start_cache \<Rightarrow> pystr option \<times> start_cache" where
  "my_start_id pid read c =
     (let c1 = (if cached_pid c \<noteq> Some pid then \<lparr>cached_id = read pid, cached_pid = Some pid\<rparr> else c)
      in (cached_id c1, c1))"

definition pid_alive :: "proc_env \<Rightarrow> nat \<Rightarrow> bool" where
  "pid_alive e pid =
     (pid = my_pid e \<or>
      (case probe e pid of
         ProcRunning \<Rightarrow> True
       | ProcZombie \<Rightarrow> \<not> has_psutil e
       | NoProcess \<Rightarrow> False
       | ProbeDenied \<Rightarrow> True))"

definition process_alive :: "proc_env \<Rightarrow> nat option \<Rightarrow> pystr option \<Rightarrow> bool" where
  "process_alive e pid start_id =
     (case pid of
        None \<Rightarrow> True
      | Some p \<Rightarrow>
          if p = my_pid e then \<not> (start_id \<noteq> None \<and> my_start e \<noteq> None \<and> start_id \<noteq> my_start e)
          else if \<not> pid_alive e p then False
          else \<not> (start_id \<noteq> None \<and> start_of e p \<noteq> None \<and> start_of e p \<noteq> start_id))"

definition reservation_recovery_enabled :: "proc_env \<Rightarrow> bool" where
  "reservation_recovery_enabled e \<longleftrightarrow> is_multiprocess e \<and> on_linux e"

subsection \<open>The shared status\<close>

record owner_record =
  ow_token :: "pystr option"
  ow_pid :: "nat option"
  ow_start :: "pystr option"
  ow_kind :: "pystr option"

datatype owner_value = NoOwner | BareToken pystr | OwnerRecord owner_record

record manual_owner_record =
  mo_request :: "pystr option"
  mo_token :: pystr
  mo_pid :: "nat option"
  mo_start :: "pystr option"

record operation_info =
  op_kind :: "pystr option"
  op_doc_id :: "pystr option"
  op_doc_ids :: "pystr list option"
  op_scope :: "pystr option"

record fence_record =
  f_kind :: "pystr option"
  f_owner_key :: pystr
  f_operation :: "operation_info option"
  f_message :: "pystr option"

text \<open>The metadata of a token; metadata that is no mapping reads as one without any field.\<close>

record token_meta =
  tm_pid :: "nat option"
  tm_start :: "pystr option"
  tm_weight :: int
  tm_kind :: "pystr option"

datatype manual_phase = MANUAL_PHASE_IDLE | MANUAL_PHASE_DRAIN_TO_IDLE | MANUAL_PHASE_EXCLUSIVE_RESET

record pipeline_status =
  busy :: bool
  destructive_busy :: bool
  scanning :: bool
  scanning_exclusive :: bool
  pending_enqueues :: nat
  busy_owner :: owner_value
  scanning_owner :: owner_value
  pending_enqueue_tokens :: "(pystr, token_meta) pydict"
  manual_freeze_requested :: bool
  manual_freeze_started_at :: "rat option"
  manual_resetting :: bool
  manual_phase :: manual_phase
  manual_owner :: "manual_owner_record option"
  operation_record :: "operation_info option"
  recovery_required :: "fence_record option"
  scan_deferred_processing :: bool
  cancellation_requested :: bool
  cancellation_reason :: "pystr option"
  job_name :: pystr

definition initialize_pipeline_status :: pipeline_status where
  "initialize_pipeline_status =
     \<lparr>busy = False, destructive_busy = False, scanning = False, scanning_exclusive = False,
      pending_enqueues = 0, busy_owner = NoOwner, scanning_owner = NoOwner, pending_enqueue_tokens = [],
      manual_freeze_requested = False, manual_freeze_started_at = None, manual_resetting = False,
      manual_phase = MANUAL_PHASE_IDLE, manual_owner = None, operation_record = None,
      recovery_required = None, scan_deferred_processing = False, cancellation_requested = False,
      cancellation_reason = None, job_name = ''-''\<rparr>"

definition or_str :: "pystr option \<Rightarrow> pystr \<Rightarrow> pystr" where
  "or_str x d = (case x of None \<Rightarrow> d | Some s \<Rightarrow> if s = [] then d else s)"

definition pipeline_recovery_blocked_message :: "pipeline_status \<Rightarrow> pystr" where
  "pipeline_recovery_blocked_message s =
     (case recovery_required s of
        None \<Rightarrow> ''Pipeline is not fenced for recovery.''
      | Some rec \<Rightarrow>
          if or_str (f_message rec) [] \<noteq> [] then
            ''Pipeline is fenced pending recovery: '' @ or_str (f_message rec) []
              @ '' All mutations are refused until the workspace is recovered or force-reset.''
          else
            let target = (case f_operation rec of None \<Rightarrow> []
                          | Some op \<Rightarrow> or_str (op_doc_id op) (or_str (op_scope op) []));
                shown = (if target = [] then [] else '' (target: '' @ target @ '')'')
            in ''Pipeline is fenced pending recovery: a worker died mid '' @ [CHR 0x27]
                 @ (case f_kind rec of None \<Rightarrow> ''None'' | Some k \<Rightarrow> k) @ [CHR 0x27] @ shown
                 @ '', which may have left storage in a partially-committed state. All mutations are refused ''
                 @ ''until the workspace is recovered or force-reset.'')"

definition describe_recovery_fence :: "pipeline_status \<Rightarrow> bool \<times> pystr option \<times> pystr option" where
  "describe_recovery_fence s =
     (case recovery_required s of
        None \<Rightarrow> (False, None, None)
      | Some rec \<Rightarrow> (True, f_kind rec,
          Some (pipeline_recovery_blocked_message (initialize_pipeline_status\<lparr>recovery_required := Some rec\<rparr>))))"

subsection \<open>Owners\<close>

definition make_owner_record :: "proc_env \<Rightarrow> pystr \<Rightarrow> pystr \<Rightarrow> owner_record" where
  "make_owner_record e tok knd =
     \<lparr>ow_token = Some tok, ow_pid = Some (my_pid e), ow_start = my_start e, ow_kind = Some knd\<rparr>"

definition make_manual_owner_record :: "proc_env \<Rightarrow> pystr option \<Rightarrow> pystr \<Rightarrow> manual_owner_record" where
  "make_manual_owner_record e rid tok =
     (let owner = make_owner_record e tok ''manual''
      in \<lparr>mo_request = rid, mo_token = tok, mo_pid = ow_pid owner, mo_start = ow_start owner\<rparr>)"

definition reservation_owner_token :: "owner_value \<Rightarrow> pystr option" where
  "reservation_owner_token v =
     (case v of NoOwner \<Rightarrow> None | BareToken t \<Rightarrow> Some t | OwnerRecord r \<Rightarrow> ow_token r)"

definition reservation_owner_kind :: "owner_value \<Rightarrow> pystr option" where
  "reservation_owner_kind v = (case v of OwnerRecord r \<Rightarrow> ow_kind r | _ \<Rightarrow> None)"

definition owner_identity_unprobeable :: "owner_record \<Rightarrow> bool" where
  "owner_identity_unprobeable r \<longleftrightarrow> ow_pid r = None"

text \<open>The two slots with one holder, their owner and their flags.\<close>

datatype slot = BusySlot | ScanSlot

fun slot_key :: "slot \<Rightarrow> pystr" where
  "slot_key BusySlot = ''busy_owner''"
| "slot_key ScanSlot = ''scanning_owner''"

fun slot_owner :: "slot \<Rightarrow> pipeline_status \<Rightarrow> owner_value" where
  "slot_owner BusySlot s = busy_owner s"
| "slot_owner ScanSlot s = scanning_owner s"

fun set_slot_owner :: "slot \<Rightarrow> owner_value \<Rightarrow> pipeline_status \<Rightarrow> pipeline_status" where
  "set_slot_owner BusySlot v s = s\<lparr>busy_owner := v\<rparr>"
| "set_slot_owner ScanSlot v s = s\<lparr>scanning_owner := v\<rparr>"

fun slot_flagged :: "slot \<Rightarrow> pipeline_status \<Rightarrow> bool" where
  "slot_flagged BusySlot s \<longleftrightarrow> busy s \<or> destructive_busy s"
| "slot_flagged ScanSlot s \<longleftrightarrow> scanning s \<or> scanning_exclusive s"

definition manual_idle :: "pipeline_status \<Rightarrow> pipeline_status" where
  "manual_idle s =
     s\<lparr>manual_freeze_requested := False, manual_freeze_started_at := None, manual_resetting := False,
       manual_phase := MANUAL_PHASE_IDLE, manual_owner := None\<rparr>"

subsection \<open>Reclaiming from dead processes\<close>

definition RERUNNABLE_RESERVATION_KINDS :: "pystr list" where
  "RERUNNABLE_RESERVATION_KINDS = [''processing'', ''scan'', ''admin'']"

fun clear_slot :: "slot \<Rightarrow> pipeline_status \<Rightarrow> pipeline_status" where
  "clear_slot BusySlot s = manual_idle (s\<lparr>busy_owner := NoOwner, busy := False, destructive_busy := False\<rparr>)"
| "clear_slot ScanSlot s = s\<lparr>scanning_owner := NoOwner, scanning := False, scanning_exclusive := False\<rparr>"

definition dead_reservation_updates :: "slot \<Rightarrow> owner_record \<Rightarrow> pipeline_status \<Rightarrow> pipeline_status" where
  "dead_reservation_updates k rec s =
     (let s1 = clear_slot k s
      in if (case ow_kind rec of None \<Rightarrow> False | Some kd \<Rightarrow> kd \<in> set RERUNNABLE_RESERVATION_KINDS) then s1
         else s1\<lparr>recovery_required := Some \<lparr>f_kind = ow_kind rec, f_owner_key = slot_key k,
                  f_operation = operation_record s, f_message = None\<rparr>\<rparr>)"

definition unprobeable_fence :: "slot \<Rightarrow> owner_record \<Rightarrow> pipeline_status \<Rightarrow> fence_record" where
  "unprobeable_fence k rec s =
     \<lparr>f_kind = Some (or_str (ow_kind rec) (slot_key k)), f_owner_key = slot_key k,
      f_operation = operation_record s,
      f_message = Some (''the '' @ [CHR 0x27] @ slot_key k @ [CHR 0x27]
        @ '' holder records no process identity, so it can never be confirmed alive or dead; its reservation ''
        @ ''is left untouched rather than reclaimed on a guess.'')\<rparr>"

definition reclaim_slot :: "proc_env \<Rightarrow> slot \<Rightarrow> pipeline_status \<Rightarrow> pipeline_status" where
  "reclaim_slot e k s =
     (case slot_owner k s of
        OwnerRecord rec \<Rightarrow>
          if \<not> slot_flagged k s then s
          else if process_alive e (ow_pid rec) (ow_start rec) then
            (if owner_identity_unprobeable rec \<and> recovery_required s = None
             then s\<lparr>recovery_required := Some (unprobeable_fence k rec s)\<rparr> else s)
          else dead_reservation_updates k rec s
      | _ \<Rightarrow> s)"

definition reap_tokens :: "proc_env \<Rightarrow> pipeline_status \<Rightarrow> pipeline_status" where
  "reap_tokens e s =
     (let tokens = pending_enqueue_tokens s;
          alive = filter (\<lambda>(t, m). process_alive e (tm_pid m) (tm_start m)) tokens
      in if length alive \<noteq> length tokens \<or> pending_enqueues s \<noteq> length alive
         then s\<lparr>pending_enqueue_tokens := alive, pending_enqueues := length alive\<rparr> else s)"

definition reconcile_dead_pipeline_reservations :: "proc_env \<Rightarrow> pipeline_status \<Rightarrow> pipeline_status" where
  "reconcile_dead_pipeline_reservations e s =
     (if \<not> reservation_recovery_enabled e then s
      else reap_tokens e (reclaim_slot e ScanSlot (reclaim_slot e BusySlot s)))"

text \<open>The precondition is judged on the same snapshot; the result says whether the workspace is fenced.\<close>

definition fence_workspace_for_recovery ::
    "pystr \<Rightarrow> pystr \<Rightarrow> operation_info option \<Rightarrow> (pipeline_status \<Rightarrow> bool) option \<Rightarrow> pipeline_status
     \<Rightarrow> bool \<times> pipeline_status" where
  "fence_workspace_for_recovery knd message op precondition s =
     (if recovery_required s \<noteq> None then (True, s)
      else if (case precondition of None \<Rightarrow> False | Some p \<Rightarrow> \<not> p s) then (False, s)
      else (True, s\<lparr>recovery_required := Some \<lparr>f_kind = Some knd, f_owner_key = ''busy_owner'',
                     f_operation = op, f_message = Some message\<rparr>\<rparr>))"

subsection \<open>Decisions\<close>

datatype reservation_conflict =
    ConflictBusy | ConflictScanning | ConflictPendingEnqueue | ConflictDestructive
  | ConflictRecoveryRequired | ConflictManualFreeze

record reservation_result =
  acquired :: bool
  conflict :: "reservation_conflict option"
  message :: "pystr option"
  snapshot :: pipeline_status
  fence :: "pystr option"

datatype reservation_error =
    ResValueError
  | ResTypeError
  | Backpressure int int int
  | IngressUnreachable

definition granted :: "pipeline_status \<Rightarrow> reservation_result" where
  "granted s = \<lparr>acquired = True, conflict = None, message = None, snapshot = s, fence = None\<rparr>"

definition refused ::
    "reservation_conflict \<Rightarrow> pystr \<Rightarrow> pystr option \<Rightarrow> pipeline_status \<Rightarrow> reservation_result" where
  "refused c msg f s = \<lparr>acquired = False, conflict = Some c, message = Some msg, snapshot = s, fence = f\<rparr>"

definition recovery_required_result :: "pipeline_status \<Rightarrow> reservation_result" where
  "recovery_required_result s =
     refused ConflictRecoveryRequired (pipeline_recovery_blocked_message s) (Some ''recovery_required'') s"

definition conflict_for_status_flag :: "pystr \<Rightarrow> reservation_error + reservation_conflict" where
  "conflict_for_status_flag k =
     (case map_of [(''busy'', ConflictBusy), (''scanning'', ConflictScanning),
                   (''scanning_exclusive'', ConflictScanning), (''pending_enqueues'', ConflictPendingEnqueue),
                   (''destructive_busy'', ConflictDestructive),
                   (''manual_freeze_requested'', ConflictManualFreeze)] k of
        Some c \<Rightarrow> Inr c
      | None \<Rightarrow> Inl ResValueError)"

text \<open>The truth value of \<open>snapshot.get(k)\<close>, for the fields of \<open>pipeline_status\<close>.\<close>

definition status_flag :: "pystr \<Rightarrow> pipeline_status \<Rightarrow> bool" where
  "status_flag k s =
     (case map_of [(''busy'', busy s), (''destructive_busy'', destructive_busy s), (''scanning'', scanning s),
                   (''scanning_exclusive'', scanning_exclusive s), (''pending_enqueues'', 0 < pending_enqueues s),
                   (''manual_freeze_requested'', manual_freeze_requested s),
                   (''manual_resetting'', manual_resetting s),
                   (''scan_deferred_processing'', scan_deferred_processing s),
                   (''recovery_required'', recovery_required s \<noteq> None),
                   (''cancellation_requested'', cancellation_requested s)] k of
        Some b \<Rightarrow> b
      | None \<Rightarrow> False)"

type_synonym 'a status_op = "pipeline_status \<Rightarrow> (reservation_error + 'a) \<times> pipeline_status"

type_synonym reject_list = "(pystr \<times> pystr) list"

text \<open>The loop over \<open>reject_when\<close>, then what follows it.\<close>

fun reject_or ::
    "reject_list \<Rightarrow> pipeline_status \<Rightarrow> ((reservation_error + reservation_result) \<times> 's) \<Rightarrow> 's
     \<Rightarrow> (reservation_error + reservation_result) \<times> 's" where
  "reject_or [] s go_on st = go_on"
| "reject_or ((k, reason) # rest) s go_on st =
     (if status_flag k s then
        (case conflict_for_status_flag k of
           Inl e \<Rightarrow> (Inl e, st)
         | Inr c \<Rightarrow> (Inr (refused c reason (Some k) s), st))
      else reject_or rest s go_on st)"

definition acquire_reservation ::
    "proc_env \<Rightarrow> slot \<Rightarrow> pystr \<Rightarrow> pystr option \<Rightarrow> (pipeline_status \<Rightarrow> pipeline_status) \<Rightarrow> reject_list
     \<Rightarrow> mailbox option \<Rightarrow> bool \<Rightarrow> reservation_result status_op" where
  "acquire_reservation e k owner owner_kind flags reject_when ingress refuse_manual s0 =
     (let owner1 = (case owner_kind of None \<Rightarrow> BareToken owner
                    | Some kd \<Rightarrow> OwnerRecord (make_owner_record e owner kd))
      in if refuse_manual \<and> ingress = None then (Inl ResValueError, s0)
         else let s = reconcile_dead_pipeline_reservations e s0;
                  take_slot = (let s1 = set_slot_owner k owner1 (flags s) in (Inr (granted s1), s1))
              in if recovery_required s \<noteq> None then (Inr (recovery_required_result s), s)
                 else reject_or reject_when s
                   (case (if refuse_manual then Option.bind ingress mb_peek_next_manual_retry else None) of
                      None \<Rightarrow> take_slot
                    | Some m \<Rightarrow>
                        (case request_id m of
                           None \<Rightarrow> (Inl ResTypeError, s)
                         | Some rid \<Rightarrow>
                             (Inr (refused ConflictManualFreeze
                                (''An earlier manual retry request ('' @ take 8 rid
                                 @ '') is still queued. A scan must not jump the manual retry FIFO ''
                                 @ ''- retry once it has been served.'') None s), s)))
                   s)"

subsection \<open>In-flight enqueues\<close>

definition ENQUEUE_RESERVATION_KIND :: pystr where "ENQUEUE_RESERVATION_KIND = ''enqueue''"
definition SOURCE_REPAIR_RESERVATION_KIND :: pystr where "SOURCE_REPAIR_RESERVATION_KIND = ''source_repair''"
definition MANUAL_DRAIN_ENQUEUE_STALL_FENCE :: pystr where
  "MANUAL_DRAIN_ENQUEUE_STALL_FENCE = ''manual_drain_enqueue_stalled''"

definition stall_fence_exempts_reserved_token :: "pipeline_status \<Rightarrow> pystr option \<Rightarrow> bool" where
  "stall_fence_exempts_reserved_token s tok =
     (case tok of
        None \<Rightarrow> False
      | Some t \<Rightarrow>
          (case recovery_required s of
             None \<Rightarrow> False
           | Some rec \<Rightarrow> f_kind rec = Some MANUAL_DRAIN_ENQUEUE_STALL_FENCE
                          \<and> has_key (pending_enqueue_tokens s) t))"

definition reservation_kind :: "token_meta option \<Rightarrow> pystr" where
  "reservation_kind m = (case m of None \<Rightarrow> ENQUEUE_RESERVATION_KIND | Some r \<Rightarrow> or_str (tm_kind r) ENQUEUE_RESERVATION_KIND)"

definition reservation_weight :: "token_meta \<Rightarrow> int" where
  "reservation_weight m = (if 0 < tm_weight m then tm_weight m else 0)"

definition reserved_elsewhere :: "pystr \<Rightarrow> (pystr, token_meta) pydict \<Rightarrow> int" where
  "reserved_elsewhere tok tokens = sum_list (map (\<lambda>(t, m). if t \<noteq> tok then reservation_weight m else 0) tokens)"

definition set_tokens :: "(pystr, token_meta) pydict \<Rightarrow> pipeline_status \<Rightarrow> pipeline_status" where
  "set_tokens tokens s = s\<lparr>pending_enqueue_tokens := tokens, pending_enqueues := length tokens\<rparr>"

definition register_token ::
    "proc_env \<Rightarrow> pystr \<Rightarrow> int \<Rightarrow> int \<Rightarrow> int \<Rightarrow> pystr option \<Rightarrow> reservation_result status_op" where
  "register_token e tok weight capacity active knd s =
     (let tokens = pending_enqueue_tokens s;
          current = active + reserved_elsewhere tok tokens
      in if 0 < capacity \<and> capacity < current + weight
         then (Inl (Backpressure current weight capacity), s)
         else let s1 = set_tokens (AList.update tok
                   \<lparr>tm_pid = Some (my_pid e), tm_start = my_start e, tm_weight = weight,
                    tm_kind = Some (or_str knd (reservation_kind (map_of tokens tok)))\<rparr> tokens) s
              in (Inr (granted s1), s1))"

definition acquire_enqueue_reservation ::
    "proc_env \<Rightarrow> pystr \<Rightarrow> reject_list \<Rightarrow> int \<Rightarrow> int \<Rightarrow> int option \<Rightarrow> pystr option
     \<Rightarrow> reservation_result status_op" where
  "acquire_enqueue_reservation e tok reject_when weight capacity active_count knd s0 =
     (if 0 < capacity \<and> active_count = None then (Inl ResValueError, s0)
      else let s = reconcile_dead_pipeline_reservations e s0;
               active = (case active_count of None \<Rightarrow> 0 | Some n \<Rightarrow> n)
           in if recovery_required s \<noteq> None \<and> \<not> stall_fence_exempts_reserved_token s (Some tok)
              then (Inr (recovery_required_result s), s)
              else reject_or (if has_key (pending_enqueue_tokens s) tok then [] else reject_when) s
                     (register_token e tok weight capacity active knd s) s)"

definition check_pipeline_status_mutation ::
    "proc_env \<Rightarrow> reject_list \<Rightarrow> pystr option \<Rightarrow> reservation_result status_op" where
  "check_pipeline_status_mutation e reject_when exempt s0 =
     (let s = reconcile_dead_pipeline_reservations e s0;
          reserved = (case exempt of None \<Rightarrow> False | Some t \<Rightarrow> has_key (pending_enqueue_tokens s) t)
      in if recovery_required s \<noteq> None \<and> \<not> stall_fence_exempts_reserved_token s exempt
         then (Inr (recovery_required_result s), s)
         else reject_or (if reserved then [] else reject_when) s (Inr (granted s), s) s)"

subsection \<open>The processing slot\<close>

text \<open>\<open>ingress_ok\<close>: whether the remote call that arms the auto-rescan flag succeeds.\<close>

definition acquire_processing_reservation ::
    "proc_env \<Rightarrow> pystr \<Rightarrow> bool \<Rightarrow> bool \<Rightarrow> (pipeline_status \<Rightarrow> pipeline_status) \<Rightarrow> pystr option
     \<Rightarrow> pipeline_status \<times> mailbox \<Rightarrow> (reservation_error + reservation_result) \<times> pipeline_status \<times> mailbox" where
  "acquire_processing_reservation e tok already_held ingress_ok flags scan_reset_owner sb =
     (let s = reconcile_dead_pipeline_reservations e (fst sb); box = snd sb;
          owns_scan_fence = (scan_reset_owner \<noteq> None
            \<and> reservation_owner_token (scanning_owner s) = scan_reset_owner)
      in if recovery_required s \<noteq> None then (Inr (recovery_required_result s), s, box)
         else if \<not> already_held \<and> \<not> owns_scan_fence \<and> scanning_exclusive s then
           (let s1 = s\<lparr>scan_deferred_processing := True\<rparr>
            in (Inr (refused ConflictScanning
                  (''Document scan is classifying files; processing resumes after ''
                   @ ''the classification phase finishes.'') None s1), s1, box))
         else if \<not> already_held \<and> busy s then
           (if ingress_ok
            then (Inr (refused ConflictBusy ''Another process is already processing the document queue.'' None s),
                  s, mb_request_auto_rescan box)
            else (Inl IngressUnreachable, s, box))
         else
           (let s1 = (flags s)\<lparr>busy := True, busy_owner := OwnerRecord (make_owner_record e tok ''processing'')\<rparr>;
                s2 = (if owns_scan_fence then s1 else s1\<lparr>scan_deferred_processing := False\<rparr>)
            in (Inr (granted s2), s2, box)))"

definition transition_scanning_reservation :: "pystr \<Rightarrow> pipeline_status \<Rightarrow> bool \<times> pipeline_status" where
  "transition_scanning_reservation tok s =
     (if reservation_owner_token (scanning_owner s) \<noteq> Some tok then (False, s)
      else if \<not> scanning_exclusive s then (True, s)
      else (True, s\<lparr>scanning_exclusive := False\<rparr>))"

definition has_scan_deferred_processing :: "pipeline_status \<Rightarrow> bool" where
  "has_scan_deferred_processing s = scan_deferred_processing s"

subsection \<open>Releasing\<close>

text \<open>\<open>with_reservation_lock\<close>, and \<open>release_owned_reservation\<close>, which fetches the status itself: \<open>None\<close> is a
  workspace that was never initialised. The token may be \<open>None\<close>.\<close>

definition with_reservation_lock ::
    "slot \<Rightarrow> pystr option \<Rightarrow> (pipeline_status \<Rightarrow> 'r \<times> pipeline_status) \<Rightarrow> pipeline_status
     \<Rightarrow> 'r option \<times> pipeline_status" where
  "with_reservation_lock k tok action s =
     (if reservation_owner_token (slot_owner k s) \<noteq> tok then (None, s)
      else map_prod Some id (action s))"

definition release_owned_reservation ::
    "slot \<Rightarrow> pystr option \<Rightarrow> (pipeline_status \<Rightarrow> 'r \<times> pipeline_status) \<Rightarrow> pipeline_status option
     \<Rightarrow> 'r option \<times> pipeline_status option" where
  "release_owned_reservation k tok action ns =
     (case ns of None \<Rightarrow> (None, None) | Some s \<Rightarrow> map_prod id Some (with_reservation_lock k tok action s))"

definition with_token_set_reservation_lock :: "pystr \<Rightarrow> pipeline_status \<Rightarrow> pipeline_status" where
  "with_token_set_reservation_lock tok s =
     (if \<not> has_key (pending_enqueue_tokens s) tok then s
      else set_tokens (AList.delete tok (pending_enqueue_tokens s)) s)"

definition release_token_set_reservation :: "pystr \<Rightarrow> pipeline_status option \<Rightarrow> pipeline_status option" where
  "release_token_set_reservation tok ns = map_option (with_token_set_reservation_lock tok) ns"

end
