(* ===== verification/PipelineUsers.thy ===== *)
theory PipelineUsers
  imports Reservations
begin

text \<open>
  The parts of the program that take and give back the reservations of \<^theory_text>\<open>Reservations\<close>, each with the
  flags, the fences and the release it uses: the routes of \<^verbatim>\<open>src/lightrag/api/routers/document_routes.py\<close>,
  custom chunks, deletion and the admin-write gate of \<^verbatim>\<open>src/lightrag/lightrag.py\<close>, the enqueue of
  \<^verbatim>\<open>src/lightrag/pipeline.py\<close> and the source-conflict repair of
  \<^verbatim>\<open>src/lightrag/tools/source_conflict_repair.py\<close>. A namespace status \<open>None\<close> is a workspace whose status was
  never initialised. Only what these parts do to the status and the mailbox is here.
\<close>

datatype http_detail = Detail pystr | CapacityDetail int int int

datatype 'a http = HttpOk 'a | HttpError nat http_detail

definition detail_of :: "reservation_result \<Rightarrow> http_detail" where
  "detail_of r = Detail (case message r of None \<Rightarrow> [] | Some m \<Rightarrow> m)"

definition refusal_status :: "reservation_result \<Rightarrow> nat" where
  "refusal_status r = (if conflict r = Some ConflictRecoveryRequired then 503 else 409)"

subsection \<open>Uploads and inserts\<close>

definition INGRESS_FENCES :: reject_list where
  "INGRESS_FENCES =
     [(''scanning_exclusive'',
       ''Document scan is classifying files. Wait for the classification phase to finish before submitting new work.''),
      (''destructive_busy'',
       ''Pipeline is clearing or deleting documents. Wait for the running job to finish before submitting new work.''),
      (''manual_freeze_requested'',
       ''A retry of failed documents is draining the pipeline. Wait for it to finish before submitting new work.'')]"

text \<open>\<open>capacity\<close> is \<open>max_pending_documents\<close>; \<open>active\<close> is the strict count, \<open>None\<close> when it cannot be taken.\<close>

definition admission_capacity :: "int \<Rightarrow> int" where
  "admission_capacity capacity = (if 0 < capacity then capacity else 0)"

definition reserve_enqueue_slot ::
    "proc_env \<Rightarrow> pystr \<Rightarrow> int \<Rightarrow> reject_list \<Rightarrow> int \<Rightarrow> int option \<Rightarrow> pipeline_status option
     \<Rightarrow> bool http \<times> pipeline_status option" where
  "reserve_enqueue_slot e tok weight reject_when capacity active ns =
     (case ns of
        None \<Rightarrow> (HttpOk False, None)
      | Some s \<Rightarrow>
          let cap = admission_capacity capacity
          in if 0 < cap \<and> active = None
             then (HttpError 503 (Detail (''Cannot determine how many documents are in flight, so new work ''
                     @ ''cannot be admitted. Retry once document storage is healthy.'')), Some s)
             else (case acquire_enqueue_reservation e tok reject_when weight cap
                          (if 0 < cap then active else None) None s of
                     (Inl (Backpressure current requested c), s1) \<Rightarrow>
                       (HttpError 429 (CapacityDetail current requested c), Some s1)
                   | (Inl _, s1) \<Rightarrow> (HttpError 500 (Detail []), Some s1)
                   | (Inr r, s1) \<Rightarrow>
                       (if \<not> acquired r then HttpError (refusal_status r) (detail_of r) else HttpOk True, Some s1)))"

definition reweight_enqueue_slot ::
    "proc_env \<Rightarrow> pystr \<Rightarrow> int \<Rightarrow> int \<Rightarrow> int option \<Rightarrow> pipeline_status option
     \<Rightarrow> bool http \<times> pipeline_status option" where
  "reweight_enqueue_slot e tok weight capacity active ns =
     (if admission_capacity capacity \<le> 0 then (HttpOk True, ns)
      else reserve_enqueue_slot e tok weight [] capacity active ns)"

definition release_enqueue_slot :: "pystr \<Rightarrow> pipeline_status option \<Rightarrow> pipeline_status option" where
  "release_enqueue_slot tok ns = release_token_set_reservation tok ns"

definition release_admission_after_enqueue ::
    "pystr option \<Rightarrow> pipeline_status option \<Rightarrow> pipeline_status option" where
  "release_admission_after_enqueue tok ns = (case tok of None \<Rightarrow> ns | Some t \<Rightarrow> release_enqueue_slot t ns)"

definition enqueue_fences :: "bool \<Rightarrow> reject_list" where
  "enqueue_fences from_scan =
     (if from_scan then []
      else [(''scanning_exclusive'',
             ''Cannot enqueue while scan is classifying files; wait for the classification phase to finish before retrying.''),
            (''manual_freeze_requested'',
             ''Cannot enqueue while a manual retry is draining the pipeline; wait for it to finish before retrying.'')])
     @ [(''destructive_busy'',
         ''Cannot enqueue while pipeline is clearing or deleting documents; wait for the running job to finish before retrying.'')]"

text \<open>The fast check of \<open>apipeline_enqueue_documents\<close>, and the reservation inside its lock. \<open>minted\<close> is the
  fresh token of a caller that holds none; the result names the token to release.\<close>

definition enqueue_precheck ::
    "proc_env \<Rightarrow> bool \<Rightarrow> pystr option \<Rightarrow> reservation_result status_op" where
  "enqueue_precheck e from_scan admission_token =
     check_pipeline_status_mutation e (enqueue_fences from_scan) admission_token"

definition reserve_ingress_slot ::
    "proc_env \<Rightarrow> bool \<Rightarrow> pystr option \<Rightarrow> pystr \<Rightarrow> int \<Rightarrow> int \<Rightarrow> int \<Rightarrow> pipeline_status
     \<Rightarrow> (reservation_error + (reservation_result + pystr option)) \<times> pipeline_status" where
  "reserve_ingress_slot e from_scan admission_token minted requested capacity active s =
     (let tok = (case admission_token of None \<Rightarrow> minted | Some t \<Rightarrow> if t = [] then minted else t);
          owned = (case admission_token of None \<Rightarrow> Some tok | Some t \<Rightarrow> if t = [] then Some tok else None)
      in case acquire_enqueue_reservation e tok (enqueue_fences from_scan) requested capacity
                (if 0 < capacity then Some active else None) None s of
           (Inl err, s1) \<Rightarrow> (Inl err, s1)
         | (Inr r, s1) \<Rightarrow> (Inr (if acquired r then Inr owned else Inl r), s1))"

definition release_admission_reservation :: "pystr \<Rightarrow> pipeline_status option \<Rightarrow> pipeline_status option" where
  "release_admission_reservation tok ns = release_token_set_reservation tok ns"

text \<open>The wake-up after the rows are stored: the batch of document messages, or the flag when that call
  fails, or nothing when both fail.\<close>

definition document_message :: "pystr \<Rightarrow> pi_message" where
  "document_message i = \<lparr>kind = Document, doc_id = Some i, retry_failed = False, request_id = None\<rparr>"

definition publish_enqueued :: "bool \<Rightarrow> bool \<Rightarrow> pystr list \<Rightarrow> mailbox \<Rightarrow> mailbox" where
  "publish_enqueued publish_ok rearm_ok doc_ids b =
     (case (if publish_ok then mb_put_documents (map document_message doc_ids) b else Inl BadDocument) of
        Inr b1 \<Rightarrow> b1
      | Inl _ \<Rightarrow> if rearm_ok then mb_request_auto_rescan b else b)"

subsection \<open>Source-conflict repair\<close>

definition REPAIR_INGRESS_FENCES :: reject_list where
  "REPAIR_INGRESS_FENCES =
     [(''destructive_busy'',
       ''A clear/delete job is in flight; it may remove one of these documents. Wait for it to finish, then repair.''),
      (''scanning_exclusive'',
       ''A scan is classifying files and may delete stale failed stubs. Wait for the classification phase to finish, then repair.''),
      (''manual_freeze_requested'',
       ''A manual retry is draining the pipeline for its exclusive reset, which can change which documents claim this source. Wait for it to finish, then repair.'')]"

definition repair_ingress_reservation :: "proc_env \<Rightarrow> pystr \<Rightarrow> reservation_result status_op" where
  "repair_ingress_reservation e tok =
     acquire_enqueue_reservation e tok REPAIR_INGRESS_FENCES 0 0 None (Some SOURCE_REPAIR_RESERVATION_KIND)"

subsection \<open>Clearing and deleting\<close>

definition acquire_destructive_busy ::
    "proc_env \<Rightarrow> pystr \<Rightarrow> pystr \<Rightarrow> operation_info \<Rightarrow> pipeline_status option
     \<Rightarrow> (reservation_error + (bool \<times> pystr option)) \<times> pipeline_status option" where
  "acquire_destructive_busy e tok knd op ns =
     (case ns of
        None \<Rightarrow> (Inr (True, None), None)
      | Some s \<Rightarrow>
          (case acquire_reservation e BusySlot tok (Some knd)
                  (\<lambda>s. s\<lparr>busy := True, destructive_busy := True, operation_record := Some op\<rparr>)
                  [(''busy'', ''Pipeline is busy with another operation.''),
                   (''scanning'',
                    ''Document scan is in progress. Wait for the scan to complete before clearing or deleting.''),
                   (''pending_enqueues'',
                    ''An upload/insert or a source-conflict repair is in flight. Wait for it to complete before clearing or deleting.'')]
                  None False s of
             (Inl err, s1) \<Rightarrow> (Inl err, Some s1)
           | (Inr r, s1) \<Rightarrow> (Inr (acquired r, message r), Some s1)))"

definition release_destructive_action :: "pipeline_status \<Rightarrow> pipeline_status" where
  "release_destructive_action s =
     s\<lparr>busy := False, destructive_busy := False, busy_owner := NoOwner, operation_record := None\<rparr>"

definition release_destructive_busy :: "pystr \<Rightarrow> pipeline_status option \<Rightarrow> pipeline_status option" where
  "release_destructive_busy tok ns =
     snd (release_owned_reservation BusySlot (Some tok) (\<lambda>s. ((), release_destructive_action s)) ns)"

definition clear_release :: "pystr \<Rightarrow> pipeline_status \<Rightarrow> pipeline_status" where
  "clear_release tok s =
     snd (with_reservation_lock BusySlot (Some tok) (\<lambda>s. ((), release_destructive_action s)) s)"

text \<open>An ingress that cannot be reached, or whose probe fails, counts as having work.\<close>

definition ingress_has_work :: "mailbox option \<Rightarrow> bool" where
  "ingress_has_work b = (case b of None \<Rightarrow> True | Some x \<Rightarrow> mb_has_work x)"

text \<open>The end of the batch deletion: the answer says whether to drive the queue. The token may be \<open>None\<close>.\<close>

definition delete_release ::
    "mailbox option \<Rightarrow> pystr option \<Rightarrow> pipeline_status option \<Rightarrow> bool option \<times> pipeline_status option" where
  "delete_release box tok ns =
     release_owned_reservation BusySlot tok
       (\<lambda>s. (ingress_has_work box, (release_destructive_action s)\<lparr>cancellation_requested := False\<rparr>)) ns"

subsection \<open>Custom chunks and the deletion of one document\<close>

datatype exit_decision = Handoff | ReleasedSlot

definition acquire_custom_chunks :: "proc_env \<Rightarrow> pystr \<Rightarrow> pystr \<Rightarrow> reservation_result status_op" where
  "acquire_custom_chunks e tok doc_key =
     acquire_reservation e BusySlot tok (Some ''custom_chunks'')
       (\<lambda>s. s\<lparr>busy := True,
             operation_record := Some \<lparr>op_kind = Some ''custom_chunks'', op_doc_id = Some doc_key,
                                       op_doc_ids = None, op_scope = None\<rparr>,
             job_name := ''Custom chunks insert'', cancellation_requested := False, cancellation_reason := None\<rparr>)
       [(''busy'',
         ''Pipeline is busy with another operation; ainsert_custom_chunks cannot run concurrently. Wait for it to finish and retry.''),
        (''scanning'',
         ''A document scan is in progress; ainsert_custom_chunks cannot run concurrently. Wait for the scan to finish and retry.'')]
       None False"

definition custom_chunks_exit :: "mailbox option \<Rightarrow> pipeline_status \<Rightarrow> exit_decision \<times> pipeline_status" where
  "custom_chunks_exit box s =
     (let s1 = s\<lparr>operation_record := None, cancellation_requested := False, cancellation_reason := None\<rparr>
      in if ingress_has_work box then (Handoff, s1)
         else (ReleasedSlot, s1\<lparr>busy := False, busy_owner := NoOwner\<rparr>))"

definition custom_chunks_terminal_release :: "pipeline_status \<Rightarrow> pipeline_status" where
  "custom_chunks_terminal_release s =
     s\<lparr>busy := False, busy_owner := NoOwner, operation_record := None, cancellation_requested := False,
       cancellation_reason := None\<rparr>"

definition acquire_single_delete :: "proc_env \<Rightarrow> pystr \<Rightarrow> pystr \<Rightarrow> reservation_result status_op" where
  "acquire_single_delete e tok did =
     acquire_reservation e BusySlot tok (Some ''delete'')
       (\<lambda>s. s\<lparr>busy := True,
             operation_record := Some \<lparr>op_kind = Some ''delete'', op_doc_id = Some did, op_doc_ids = None,
                                       op_scope = None\<rparr>,
             job_name := ''Single document deletion'', cancellation_requested := False\<rparr>)
       [(''busy'', ''Pipeline is busy with another operation.'')] None False"

text \<open>What a deletion does with the answer: it holds the slot, it joins the batch deletion that holds it, or it is
  refused with a status code.\<close>

datatype delete_entry = HoldsSlot | JoinsBatch | NotAllowed nat

definition single_delete_entry :: "reservation_result \<Rightarrow> delete_entry" where
  "single_delete_entry r =
     (if acquired r then HoldsSlot
      else if conflict r = Some ConflictRecoveryRequired then NotAllowed 503
      else let j = lower (job_name (snapshot r))
           in if \<not> startswith j ''deleting'' \<or> \<not> contains j ''document'' then NotAllowed 403 else JoinsBatch)"

definition single_delete_exit :: "mailbox option \<Rightarrow> pipeline_status \<Rightarrow> exit_decision \<times> pipeline_status" where
  "single_delete_exit box s =
     (let s1 = s\<lparr>operation_record := None, cancellation_requested := False\<rparr>
      in if ingress_has_work box then (Handoff, s1)
         else (ReleasedSlot, s1\<lparr>busy := False, busy_owner := NoOwner\<rparr>))"

definition single_delete_terminal_release :: "pipeline_status \<Rightarrow> pipeline_status" where
  "single_delete_terminal_release s =
     s\<lparr>busy := False, busy_owner := NoOwner, operation_record := None, cancellation_requested := False\<rparr>"

subsection \<open>The admin-write gate\<close>

definition ADMIN_WRITE_PIPELINE_BUSY_PREFIX :: pystr where
  "ADMIN_WRITE_PIPELINE_BUSY_PREFIX = ''Pipeline is busy with another operation''"

definition acquire_admin_busy :: "proc_env \<Rightarrow> pystr \<Rightarrow> reservation_result status_op" where
  "acquire_admin_busy e tok =
     acquire_reservation e BusySlot tok (Some ''admin'') (\<lambda>s. s\<lparr>busy := True\<rparr>)
       [(''busy'', ADMIN_WRITE_PIPELINE_BUSY_PREFIX
           @ ''. Wait for the running job to finish before editing the knowledge graph.''),
        (''scanning'', ADMIN_WRITE_PIPELINE_BUSY_PREFIX
           @ ''. A document scan is in progress; wait for it to complete before editing the knowledge graph.'')]
       None False"

definition release_admin_busy :: "pipeline_status \<Rightarrow> pipeline_status" where
  "release_admin_busy s = s\<lparr>busy := False, busy_owner := NoOwner\<rparr>"

text \<open>Whether the end of an admin write drives the queue; \<open>None\<close>: the ingress cannot be read.\<close>

definition drive_pipeline_if_deferred :: "mailbox option \<Rightarrow> bool" where
  "drive_pipeline_if_deferred b = (case b of None \<Rightarrow> False | Some x \<Rightarrow> c_auto_rescan_pending (mb_counts x))"

definition check_pipeline_busy_or_raise ::
    "proc_env \<Rightarrow> pipeline_status option \<Rightarrow> (reservation_error + unit http) \<times> pipeline_status option" where
  "check_pipeline_busy_or_raise e ns =
     (case ns of
        None \<Rightarrow> (Inr (HttpOk ()), None)
      | Some s \<Rightarrow>
          (case check_pipeline_status_mutation e [] None s of
             (Inl err, s1) \<Rightarrow> (Inl err, Some s1)
           | (Inr r, s1) \<Rightarrow>
               (Inr (if \<not> acquired r then HttpError (refusal_status r) (detail_of r)
                     else if busy (snapshot r) \<and> reservation_owner_kind (busy_owner (snapshot r)) \<noteq> Some ''admin''
                     then HttpError 409 (Detail (''Pipeline is busy with another operation. Wait for the running ''
                            @ ''job to finish before editing the knowledge graph.''))
                     else HttpOk ()), Some s1)))"

definition raise_if_recovery_required ::
    "proc_env \<Rightarrow> pipeline_status option \<Rightarrow> (reservation_error + pystr option option) \<times> pipeline_status option" where
  "raise_if_recovery_required e ns =
     (case ns of
        None \<Rightarrow> (Inr None, None)
      | Some s \<Rightarrow>
          (case check_pipeline_status_mutation e [] None s of
             (Inl err, s1) \<Rightarrow> (Inl err, Some s1)
           | (Inr r, s1) \<Rightarrow> (Inr (if acquired r then None else Some (message r)), Some s1)))"

subsection \<open>Scans\<close>

definition acquire_scan :: "proc_env \<Rightarrow> pystr \<Rightarrow> mailbox \<Rightarrow> reservation_result status_op" where
  "acquire_scan e tok box =
     acquire_reservation e ScanSlot tok (Some ''scan'') (\<lambda>s. s\<lparr>scanning := True, scanning_exclusive := True\<rparr>)
       [(''busy'',
         ''Pipeline is currently busy processing documents. Wait for the running job to finish before triggering another scan.''),
        (''scanning'', ''Another scan is already in progress. Wait for it to finish before triggering a new one.''),
        (''pending_enqueues'',
         ''An upload/insert or a source-conflict repair is in flight. Wait for it to complete before triggering a scan.''),
        (''manual_freeze_requested'',
         ''A manual retry is draining the pipeline for its exclusive reset. Wait for it to finish before triggering a scan.'')]
       (Some box) True"

text \<open>The publication of the scan's own retry request: whether it was accepted.\<close>

definition scan_commit :: "pystr \<Rightarrow> mailbox \<Rightarrow> bool \<times> mailbox" where
  "scan_commit rid b =
     (case mb_request_manual_retry rid \<lparr>kind = Rescan, doc_id = None, retry_failed = True, request_id = Some rid\<rparr> b of
        Inl _ \<Rightarrow> (False, b)
      | Inr (p, b1) \<Rightarrow> (p = ACCEPTED, b1))"

definition release_scanning_action :: "pipeline_status \<Rightarrow> pipeline_status" where
  "release_scanning_action s = s\<lparr>scanning := False, scanning_exclusive := False, scanning_owner := NoOwner\<rparr>"

definition release_scanning_reservation :: "pystr \<Rightarrow> pipeline_status option \<Rightarrow> pipeline_status option" where
  "release_scanning_reservation tok ns =
     snd (release_owned_reservation ScanSlot (Some tok) (\<lambda>s. ((), release_scanning_action s)) ns)"

subsection \<open>Cancelling, and the manual way out of a fence\<close>

definition cancel_pipeline :: "pipeline_status \<Rightarrow> bool \<times> pipeline_status" where
  "cancel_pipeline s = (if \<not> busy s then (False, s) else (True, s\<lparr>cancellation_requested := True\<rparr>))"

record force_reset_report =
  fr_reset :: bool
  fr_cancelled :: nat
  fr_dropped :: nat
  fr_retained :: nat

definition no_recovery_required :: force_reset_report where
  "no_recovery_required = \<lparr>fr_reset = False, fr_cancelled = 0, fr_dropped = 0, fr_retained = 0\<rparr>"

definition force_reset_status :: "pipeline_status \<Rightarrow> pipeline_status" where
  "force_reset_status s =
     manual_idle (s\<lparr>recovery_required := None, operation_record := None, busy := False, destructive_busy := False,
       busy_owner := NoOwner, scanning := False, scanning_exclusive := False, scanning_owner := NoOwner\<rparr>)"

definition force_reset_kept :: "pipeline_status \<Rightarrow> (pystr, token_meta) pydict" where
  "force_reset_kept s =
     filter (\<lambda>(t, m). reservation_kind (Some m) \<noteq> ENQUEUE_RESERVATION_KIND) (pending_enqueue_tokens s)"

text \<open>\<open>ingress_ok\<close>: the mailbox can be resolved; \<open>cancel_ok\<close>: the cancellation call succeeds.\<close>

definition force_reset_recovery ::
    "bool \<Rightarrow> bool \<Rightarrow> bool \<Rightarrow> pipeline_status option \<times> mailbox
     \<Rightarrow> force_reset_report http \<times> pipeline_status option \<times> mailbox" where
  "force_reset_recovery confirm ingress_ok cancel_ok nb =
     (case nb of (ns, box) \<Rightarrow>
        if \<not> confirm then (HttpError 400 (Detail (''Set confirm=true to force-reset. The workspace may be in a partially-committed state ''
             @ ''after a worker died mid custom_chunks/delete/clear; verify or repair it first.'')), ns, box)
        else case ns of
            None \<Rightarrow> (HttpOk no_recovery_required, None, box)
          | Some s \<Rightarrow>
              if \<not> ingress_ok then
                (HttpError 503 (Detail (''Cannot reach the ingress mailbox to cancel queued manual retries; ''
                   @ ''the recovery fence is unchanged. Retry shortly.'')), ns, box)
              else (case recovery_required s of
                  None \<Rightarrow> (HttpOk no_recovery_required, ns, box)
                | Some f \<Rightarrow>
                    if \<not> cancel_ok then
                      (HttpError 503 (Detail (''Could not cancel the queued manual retries; the recovery ''
                         @ ''fence is unchanged. Retry shortly.'')), ns, box)
                    else (case mb_cancel_manual_retries box of (n, box1) \<Rightarrow>
                      let s1 = force_reset_status s
                      in if f_kind f = Some MANUAL_DRAIN_ENQUEUE_STALL_FENCE then
                           (let kept = force_reset_kept s
                            in (HttpOk \<lparr>fr_reset = True, fr_cancelled = n,
                                        fr_dropped = length (pending_enqueue_tokens s) - length kept,
                                        fr_retained = length kept\<rparr>, Some (set_tokens kept s1), box1))
                         else (HttpOk \<lparr>fr_reset = True, fr_cancelled = n, fr_dropped = 0, fr_retained = 0\<rparr>,
                               Some s1, box1))))"

end
