(* ===== verification/DocRows.thy ===== *)
theory DocRows
  imports PyJson
begin

text \<open>
  The rows of the document-status storage: the statuses, cursors and records of
  \<^verbatim>\<open>src/lightrag/base.py\<close> and the projections of a stored row of
  \<^verbatim>\<open>src/lightrag/kg/json_doc_status_impl.py\<close>. A stored row is whatever JSON value the file holds
  under the id, so that the guards against rows that are no mapping have their branch. A status
  is its string (\<open>DocStatus\<close> is a \<open>str\<close> enumeration: a member equals its value). Copies are not
  modelled: values are not shared.
\<close>

datatype ds_error =
    PyKeyError
  | PyTypeError
  | PyValueError
  | PyAttributeError
  | ControlPlaneError
  | RecordNotFound pystr
  | RepairCASError
  | WriteError
  | ReloadError

type_synonym row_fields = "(pystr, json) pydict"
type_synonym doc_data = "(pystr, json) pydict"

subsection \<open>Statuses\<close>

datatype doc_status = PENDING | PARSING | ANALYZING | PROCESSING | PREPROCESSED | PROCESSED | FAILED

definition all_statuses :: "doc_status list" where
  "all_statuses = [PENDING, PARSING, ANALYZING, PROCESSING, PREPROCESSED, PROCESSED, FAILED]"

fun status_value :: "doc_status \<Rightarrow> pystr" where
  "status_value PENDING = ''pending''"
| "status_value PARSING = ''parsing''"
| "status_value ANALYZING = ''analyzing''"
| "status_value PROCESSING = ''processing''"
| "status_value PREPROCESSED = ''preprocessed''"
| "status_value PROCESSED = ''processed''"
| "status_value FAILED = ''failed''"

text \<open>\<open>DocStatus(x)\<close>.\<close>

definition to_status :: "json \<Rightarrow> ds_error + doc_status" where
  "to_status v =
     (case v of
        JStr s \<Rightarrow> (case find (\<lambda>t. status_value t = s) all_statuses of
                   Some t \<Rightarrow> Inr t | None \<Rightarrow> Inl PyValueError)
      | _ \<Rightarrow> Inl PyValueError)"

text \<open>\<open>x in {...}\<close> of a set of status strings: a list or a dict cannot be hashed.\<close>

definition in_statuses :: "json \<Rightarrow> pystr list \<Rightarrow> ds_error + bool" where
  "in_statuses v vals =
     (case v of
        JList _ \<Rightarrow> Inl PyTypeError
      | JObj _ \<Rightarrow> Inl PyTypeError
      | JStr s \<Rightarrow> Inr (s \<in> set vals)
      | _ \<Rightarrow> Inr False)"

definition resolve_status_filter_values :: "doc_status option \<Rightarrow> doc_status list \<Rightarrow> pystr list option" where
  "resolve_status_filter_values one many =
     (if many \<noteq> [] then Some (map status_value many)
      else case one of Some s \<Rightarrow> Some [status_value s] | None \<Rightarrow> None)"

subsection \<open>Rows\<close>

text \<open>\<open>row[k]\<close> and \<open>row.get(k)\<close> of a value that may be no mapping.\<close>

definition subscript :: "json \<Rightarrow> pystr \<Rightarrow> ds_error + json" where
  "subscript r k =
     (case r of
        JObj d \<Rightarrow> (case map_of d k of Some v \<Rightarrow> Inr v | None \<Rightarrow> Inl PyKeyError)
      | _ \<Rightarrow> Inl PyTypeError)"

definition get_field :: "json \<Rightarrow> pystr \<Rightarrow> ds_error + json" where
  "get_field r k = (case r of JObj d \<Rightarrow> Inr (obj_get d k) | _ \<Rightarrow> Inl PyAttributeError)"

definition is_mapping :: "json \<Rightarrow> bool" where
  "is_mapping r = (case r of JObj _ \<Rightarrow> True | _ \<Rightarrow> False)"

definition is_duplicate_row :: "json \<Rightarrow> bool" where
  "is_duplicate_row r =
     (case r of
        JObj d \<Rightarrow> (case obj_get d ''metadata'' of
                   JObj m \<Rightarrow> truthy (obj_get m ''is_duplicate'')
                 | _ \<Rightarrow> False)
      | _ \<Rightarrow> False)"

definition row_points_at_as_duplicate :: "json \<Rightarrow> pystr option \<Rightarrow> bool" where
  "row_points_at_as_duplicate r doc_id =
     (case doc_id of
        None \<Rightarrow> False
      | Some i \<Rightarrow>
          if i = [] then False
          else case r of
              JObj d \<Rightarrow> (case obj_get d ''metadata'' of
                         JObj m \<Rightarrow> truthy (obj_get m ''is_duplicate'') \<and> obj_get m ''original_doc_id'' = JStr i
                       | _ \<Rightarrow> False)
            | _ \<Rightarrow> False)"

definition row_sort_key :: "pystr \<Rightarrow> row_fields \<Rightarrow> pystr \<times> pystr" where
  "row_sort_key doc_id d =
     ((case obj_get d ''created_at'' of JStr s \<Rightarrow> s | _ \<Rightarrow> []), doc_id)"

subsection \<open>Cursors\<close>

text \<open>The opaque text of a cursor stands for the JSON value it decodes to.\<close>

datatype cursor = CursorStart | CursorEnd | CursorAfter json

definition encode_cursor :: "pystr \<times> pystr \<Rightarrow> json" where
  "encode_cursor k = JList [JStr (fst k), JStr (snd k)]"

text \<open>\<open>created, doc_id = decoded\<close> unpacks whatever iterates over two items: a list, the two keys of a
  dict, the two letters of a string.\<close>

definition unpack_two :: "json \<Rightarrow> (json \<times> json) option" where
  "unpack_two v =
     (let items = (case v of
          JList xs \<Rightarrow> xs
        | JObj d \<Rightarrow> map JStr (keys d)
        | JStr s \<Rightarrow> map (\<lambda>c. JStr [c]) s
        | _ \<Rightarrow> [])
      in case items of [a, b] \<Rightarrow> Some (a, b) | _ \<Rightarrow> None)"

definition decode_cursor :: "json \<Rightarrow> ds_error + (pystr \<times> pystr)" where
  "decode_cursor v =
     (case unpack_two v of
        Some (JStr created, JStr doc_id) \<Rightarrow> Inr (created, doc_id)
      | _ \<Rightarrow> Inl ControlPlaneError)"

definition decode_conflict_cursor :: "json \<Rightarrow> ds_error + pystr" where
  "decode_conflict_cursor v = (case v of JStr s \<Rightarrow> Inr s | _ \<Rightarrow> Inl ControlPlaneError)"

subsection \<open>The scheduling record\<close>

record scheduling_record =
  sr_id :: pystr
  sr_status :: doc_status
  sr_created_at :: json
  sr_updated_at :: json
  sr_file_path :: json
  sr_track_id :: json
  sr_has_journal :: bool

definition CUSTOM_CHUNK_PATCH_METADATA_KEY :: pystr where
  "CUSTOM_CHUNK_PATCH_METADATA_KEY = ''custom_chunk_patch''"

definition has_journal :: "json \<Rightarrow> bool" where
  "has_journal m =
     (case m of JObj d \<Rightarrow> is_mapping (obj_get d CUSTOM_CHUNK_PATCH_METADATA_KEY) | _ \<Rightarrow> False)"

definition is_str :: "json \<Rightarrow> bool" where
  "is_str v = (case v of JStr _ \<Rightarrow> True | _ \<Rightarrow> False)"

text \<open>The body of the \<open>try\<close>, with the exception it ends with.\<close>

definition project_row :: "pystr \<Rightarrow> row_fields \<Rightarrow> ds_error + scheduling_record" where
  "project_row doc_id d =
     (case map_of d ''status'' of
        None \<Rightarrow> Inl PyKeyError
      | Some raw \<Rightarrow> (case to_status raw of
          Inl e \<Rightarrow> Inl e
        | Inr st \<Rightarrow> (case map_of d ''created_at'' of
            None \<Rightarrow> Inl PyKeyError
          | Some created \<Rightarrow>
              let updated = obj_get_or d ''updated_at'' created
              in if \<not> is_str created \<or> \<not> is_str updated then Inl PyTypeError
                 else Inr \<lparr>sr_id = doc_id, sr_status = st, sr_created_at = created, sr_updated_at = updated,
                           sr_file_path = py_or (obj_get d ''file_path'') (JStr ''no-file-path''),
                           sr_track_id = obj_get d ''track_id'',
                           sr_has_journal = has_journal (obj_get d ''metadata'')\<rparr>)))"

definition scheduling_record_from_row ::
    "pystr \<Rightarrow> row_fields \<Rightarrow> bool \<Rightarrow> ds_error + scheduling_record option" where
  "scheduling_record_from_row doc_id d strict =
     (case project_row doc_id d of
        Inr r \<Rightarrow> Inr (Some r)
      | Inl e \<Rightarrow> if strict then Inl e else Inr None)"

definition scheduling_record_from_raw :: "pystr \<Rightarrow> row_fields \<Rightarrow> ds_error + scheduling_record" where
  "scheduling_record_from_raw doc_id d =
     (case to_status (obj_get d ''status'') of
        Inl e \<Rightarrow> Inl e
      | Inr st \<Rightarrow>
          Inr \<lparr>sr_id = doc_id, sr_status = st, sr_created_at = py_or (obj_get d ''created_at'') (JStr []),
               sr_updated_at = py_or (obj_get d ''updated_at'') (JStr []),
               sr_file_path = obj_get d ''file_path'', sr_track_id = obj_get d ''track_id'',
               sr_has_journal = has_journal (obj_get d ''metadata'')\<rparr>)"

subsection \<open>The full record\<close>

record doc_processing =
  content_summary :: json
  content_length :: json
  dp_file_path :: json
  dp_status :: json
  dp_created_at :: json
  dp_updated_at :: json
  dp_track_id :: json
  chunks_count :: json
  chunks_list :: json
  error_msg :: json
  dp_metadata :: json
  multimodal_processed :: json
  content_hash :: json

definition post_init :: "doc_processing \<Rightarrow> doc_processing" where
  "post_init p =
     (if multimodal_processed p = JBool False \<and> dp_status p = JStr (status_value PROCESSED)
      then p\<lparr>dp_status := JStr (status_value PREPROCESSED)\<rparr> else p)"

definition required_fields :: "pystr list" where
  "required_fields = [''content_summary'', ''content_length'', ''file_path'', ''status'', ''created_at'', ''updated_at'']"

text \<open>\<open>cls(**known)\<close>: a missing required field is a \<open>TypeError\<close>, an unknown one is ignored.\<close>

definition from_stored :: "row_fields \<Rightarrow> ds_error + doc_processing" where
  "from_stored d =
     (if list_all (has_key d) required_fields
      then Inr (post_init
        \<lparr>content_summary = obj_get d ''content_summary'', content_length = obj_get d ''content_length'',
         dp_file_path = obj_get d ''file_path'', dp_status = obj_get d ''status'',
         dp_created_at = obj_get d ''created_at'', dp_updated_at = obj_get d ''updated_at'',
         dp_track_id = obj_get d ''track_id'', chunks_count = obj_get d ''chunks_count'',
         chunks_list = obj_get_or d ''chunks_list'' (JList []), error_msg = obj_get d ''error_msg'',
         dp_metadata = obj_get_or d ''metadata'' (JObj []),
         multimodal_processed = obj_get d ''multimodal_processed'', content_hash = obj_get d ''content_hash''\<rparr>)
      else Inl PyTypeError)"

definition setdefault :: "pystr \<Rightarrow> json \<Rightarrow> row_fields \<Rightarrow> row_fields" where
  "setdefault k v d = (if has_key d k then d else AList.update k v d)"

definition normalize_status_row :: "row_fields \<Rightarrow> row_fields" where
  "normalize_status_row d =
     (let d1 = AList.delete ''content'' d;
          d2 = (if truthy (obj_get d1 ''file_path'') then d1
                else AList.update ''file_path'' (JStr ''no-file-path'') d1)
      in setdefault ''error_msg'' JNull (setdefault ''metadata'' (JObj []) d2))"

text \<open>On a value that is no mapping, \<open>data.pop("content", None)\<close> fails: a list has a \<open>pop\<close> of one argument, the
  others have none.\<close>

definition doc_processing_status_from_row :: "json \<Rightarrow> ds_error + doc_processing" where
  "doc_processing_status_from_row r =
     (case r of
        JObj d \<Rightarrow> from_stored (normalize_status_row d)
      | JList _ \<Rightarrow> Inl PyTypeError
      | _ \<Rightarrow> Inl PyAttributeError)"

end
