(* ===== verification/DocStatus.thy ===== *)
theory DocStatus
  imports DocRows
begin

text \<open>
  The document-status storage, \<^verbatim>\<open>JsonDocStatusStorage\<close> of \<^verbatim>\<open>src/lightrag/kg/json_doc_status_impl.py\<close>: the dict
  the processes share, the file it is written to, and one update flag per process. Every operation
  holds the storage lock, so each is one step. A process is the index of its flag, which its
  \<open>initialize\<close> gives it; before it every operation raises. What the file system does to a flush is an
  argument of it, \<open>write_outcome\<close>.
\<close>

subsection \<open>The state and its flush\<close>

datatype doc_file = NoDocFile | BadDocFile | DocFile doc_data

record doc_store =
  ds_data :: doc_data
  ds_file :: doc_file
  ds_flags :: "bool list"
  ds_loaded :: bool

definition dict_update :: "('k, 'v) pydict \<Rightarrow> ('k, 'v) pydict \<Rightarrow> ('k, 'v) pydict" where
  "dict_update new d = fold (\<lambda>(k, v). AList.update k v) new d"

definition set_all_update_flags :: "doc_store \<Rightarrow> doc_store" where
  "set_all_update_flags s = s\<lparr>ds_flags := map (\<lambda>_. True) (ds_flags s)\<rparr>"

definition clear_all_update_flags :: "doc_store \<Rightarrow> doc_store" where
  "clear_all_update_flags s = s\<lparr>ds_flags := map (\<lambda>_. False) (ds_flags s)\<rparr>"

text \<open>\<open>initialize\<close>: the first process of the namespace loads the file. Its index is the number of flags before.\<close>

definition initialize :: "doc_store \<Rightarrow> (ds_error + nat) \<times> doc_store" where
  "initialize s =
     (let i = length (ds_flags s);
          s1 = s\<lparr>ds_flags := ds_flags s @ [False], ds_loaded := True\<rparr>
      in if ds_loaded s then (Inr i, s1)
         else case ds_file s of
             NoDocFile \<Rightarrow> (Inr i, s1)
           | BadDocFile \<Rightarrow> (Inl PyValueError, s1)
           | DocFile d \<Rightarrow> (Inr i, s1\<lparr>ds_data := dict_update d (ds_data s1)\<rparr>))"

text \<open>A write fails, or publishes the snapshot: as it is, or (rows that cannot be encoded) cleaned, to be
  read back. The reading back may fail before or after the dict is emptied, and the clearing of the
  flags may fail.\<close>

datatype reload = Reloaded | ReadFails | UpdateFails

datatype write_outcome = WriteFails | Published "doc_data option" reload bool

definition publish_flags :: "bool \<Rightarrow> doc_store \<Rightarrow> ds_error option \<times> doc_store" where
  "publish_flags clear_ok s = (None, if clear_ok then clear_all_update_flags s else s)"

definition index_done_callback :: "nat \<Rightarrow> write_outcome \<Rightarrow> doc_store \<Rightarrow> ds_error option \<times> doc_store" where
  "index_done_callback i w s =
     (if \<not> ds_flags s ! i then (None, s)
      else case w of
          WriteFails \<Rightarrow> (Some WriteError, s)
        | Published None _ clear_ok \<Rightarrow> publish_flags clear_ok (s\<lparr>ds_file := DocFile (ds_data s)\<rparr>)
        | Published (Some cleaned) rl clear_ok \<Rightarrow>
            let s1 = s\<lparr>ds_file := DocFile cleaned\<rparr>
            in case rl of
                Reloaded \<Rightarrow> publish_flags clear_ok (s1\<lparr>ds_data := cleaned\<rparr>)
              | ReadFails \<Rightarrow> (None, s1)
              | UpdateFails \<Rightarrow> (Some ReloadError, s1\<lparr>ds_data := []\<rparr>))"

subsection \<open>Writing\<close>

definition upsert ::
    "nat \<Rightarrow> write_outcome \<Rightarrow> (pystr, row_fields) pydict \<Rightarrow> doc_store \<Rightarrow> ds_error option \<times> doc_store" where
  "upsert i w data s =
     (if data = [] then (None, s)
      else let rows = map (apsnd (\<lambda>d. JObj (setdefault ''chunks_list'' (JList []) d))) data
           in index_done_callback i w (set_all_update_flags (s\<lparr>ds_data := dict_update rows (ds_data s)\<rparr>)))"

definition update_doc_status_fields ::
    "nat \<Rightarrow> write_outcome \<Rightarrow> pystr \<Rightarrow> row_fields \<Rightarrow> bool \<Rightarrow> doc_store \<Rightarrow> ds_error option \<times> doc_store" where
  "update_doc_status_fields i w doc_id changes missing_ok s =
     (if has_key changes ''created_at'' then (Some PyValueError, s)
      else case obj_get (ds_data s) doc_id of
          JNull \<Rightarrow> (if missing_ok then None else Some (RecordNotFound doc_id), s)
        | JObj row \<Rightarrow>
            index_done_callback i w (set_all_update_flags
              (s\<lparr>ds_data := AList.update doc_id (JObj (dict_update changes row)) (ds_data s)\<rparr>))
        | _ \<Rightarrow> (Some PyTypeError, s))"

text \<open>\<open>pop(doc_id, None)\<close> of each id; a row that is null counts as absent.\<close>

definition delete_docs :: "pystr list \<Rightarrow> doc_store \<Rightarrow> doc_store" where
  "delete_docs ids s =
     (let (any_deleted, data) = fold (\<lambda>k (b, d). (b \<or> obj_get d k \<noteq> JNull, AList.delete k d)) ids (False, ds_data s);
          s1 = s\<lparr>ds_data := data\<rparr>
      in if any_deleted then set_all_update_flags s1 else s1)"

definition drop_all :: "nat \<Rightarrow> write_outcome \<Rightarrow> doc_store \<Rightarrow> bool \<times> doc_store" where
  "drop_all i w s =
     (case index_done_callback i w (set_all_update_flags (s\<lparr>ds_data := []\<rparr>)) of
        (e, s1) \<Rightarrow> (e = None, s1))"

subsection \<open>Reading\<close>

definition filter_keys :: "pystr list \<Rightarrow> doc_data \<Rightarrow> pystr list" where
  "filter_keys ks d = filter (\<lambda>k. k \<notin> set (keys d)) ks"

definition is_empty :: "doc_data \<Rightarrow> bool" where
  "is_empty d \<longleftrightarrow> length d = 0"

definition get_by_id :: "doc_data \<Rightarrow> pystr \<Rightarrow> json" where
  "get_by_id d k = obj_get d k"

definition get_by_ids :: "doc_data \<Rightarrow> pystr list \<Rightarrow> json list" where
  "get_by_ids d ks = map (\<lambda>k. if truthy (obj_get d k) then obj_get d k else JNull) ks"

definition get_by_id_strict :: "doc_data \<Rightarrow> pystr \<Rightarrow> json" where
  "get_by_id_strict d k = obj_get d k"

text \<open>A loop over the rows that may raise.\<close>

fun scan_rows :: "(pystr \<Rightarrow> json \<Rightarrow> 'a \<Rightarrow> ds_error + 'a) \<Rightarrow> doc_data \<Rightarrow> 'a \<Rightarrow> ds_error + 'a" where
  "scan_rows f [] acc = Inr acc"
| "scan_rows f ((k, v) # d) acc = (case f k v acc of Inl e \<Rightarrow> Inl e | Inr acc1 \<Rightarrow> scan_rows f d acc1)"

definition count_row :: "pystr \<Rightarrow> json \<Rightarrow> (pystr, nat) pydict \<Rightarrow> ds_error + (pystr, nat) pydict" where
  "count_row k v counts =
     (case subscript v ''status'' of
        Inl e \<Rightarrow> Inl e
      | Inr (JStr s) \<Rightarrow> (case map_of counts s of
            None \<Rightarrow> Inl PyKeyError
          | Some n \<Rightarrow> Inr (AList.update s (n + 1) counts))
      | Inr (JList _) \<Rightarrow> Inl PyTypeError
      | Inr (JObj _) \<Rightarrow> Inl PyTypeError
      | Inr _ \<Rightarrow> Inl PyKeyError)"

definition get_status_counts :: "doc_data \<Rightarrow> ds_error + (pystr, nat) pydict" where
  "get_status_counts d = scan_rows count_row d (map (\<lambda>t. (status_value t, 0)) all_statuses)"

definition get_all_status_counts :: "doc_data \<Rightarrow> ds_error + (pystr, nat) pydict" where
  "get_all_status_counts d =
     (case get_status_counts d of
        Inl e \<Rightarrow> Inl e
      | Inr counts \<Rightarrow> Inr (AList.update ''all'' (sum_list (values counts)) counts))"

text \<open>A row of the result, or none; \<open>except (KeyError, TypeError)\<close> passes over a bad row unless \<open>strict\<close>.\<close>

definition caught :: "ds_error \<Rightarrow> bool" where
  "caught e \<longleftrightarrow> e = PyKeyError \<or> e = PyTypeError"

definition keep_row ::
    "bool \<Rightarrow> pystr \<Rightarrow> ds_error + doc_processing option \<Rightarrow> (pystr, doc_processing) pydict
     \<Rightarrow> ds_error + (pystr, doc_processing) pydict" where
  "keep_row strict k r result =
     (case r of
        Inr None \<Rightarrow> Inr result
      | Inr (Some p) \<Rightarrow> Inr (AList.update k p result)
      | Inl e \<Rightarrow> if caught e \<and> \<not> strict then Inr result else Inl e)"

definition select_by_status :: "pystr list \<Rightarrow> json \<Rightarrow> ds_error + doc_processing option" where
  "select_by_status vals v =
     (case subscript v ''status'' of
        Inl e \<Rightarrow> Inl e
      | Inr st \<Rightarrow> (case in_statuses st vals of
          Inl e \<Rightarrow> Inl e
        | Inr b \<Rightarrow> if b then map_sum id Some (doc_processing_status_from_row v) else Inr None))"

definition get_docs_by_statuses ::
    "doc_data \<Rightarrow> doc_status list \<Rightarrow> bool \<Rightarrow> ds_error + (pystr, doc_processing) pydict" where
  "get_docs_by_statuses d statuses strict =
     (if statuses = [] then Inr []
      else scan_rows (\<lambda>k v. keep_row strict k (select_by_status (map status_value statuses) v)) d [])"

definition get_docs_by_track_id :: "doc_data \<Rightarrow> pystr \<Rightarrow> ds_error + (pystr, doc_processing) pydict" where
  "get_docs_by_track_id d track_id =
     scan_rows (\<lambda>k v. keep_row False k
       (case v of
          JObj row \<Rightarrow> if obj_get row ''track_id'' \<noteq> JStr track_id then Inr None
                      else map_sum id Some (doc_processing_status_from_row v)
        | _ \<Rightarrow> Inr None)) d []"

fun get_doc_by_file_path :: "doc_data \<Rightarrow> pystr \<Rightarrow> ds_error + json" where
  "get_doc_by_file_path [] path = Inr JNull"
| "get_doc_by_file_path ((k, v) # d) path =
     (case get_field v ''file_path'' of
        Inl e \<Rightarrow> Inl e
      | Inr p \<Rightarrow> if p = JStr path then Inr v else get_doc_by_file_path d path)"

fun find_basename :: "doc_data \<Rightarrow> pystr \<Rightarrow> ds_error + (pystr \<times> json) option" where
  "find_basename [] b = Inr None"
| "find_basename ((k, v) # d) b =
     (case get_field v ''file_path'' of
        Inl e \<Rightarrow> Inl e
      | Inr p \<Rightarrow> if p = JStr b \<and> \<not> is_duplicate_row v then Inr (Some (k, v)) else find_basename d b)"

definition get_doc_by_file_basename :: "doc_data \<Rightarrow> pystr \<Rightarrow> ds_error + (pystr \<times> json) option" where
  "get_doc_by_file_basename d b =
     (if b = [] \<or> b = ''unknown_source'' then Inr None else find_basename d b)"

text \<open>The rows of a source that are no duplicates.\<close>

definition is_primary :: "pystr \<Rightarrow> json \<Rightarrow> bool" where
  "is_primary key r \<longleftrightarrow> (case r of
     JObj d \<Rightarrow> obj_get d ''file_path'' = JStr key \<and> \<not> is_duplicate_row r | _ \<Rightarrow> False)"

datatype source_resolution =
    SourceAbsent
  | SourceUnique pystr scheduling_record
  | SourceConflict "nat option" "pystr list"

definition fields_of :: "json \<Rightarrow> row_fields" where
  "fields_of r = (case r of JObj d \<Rightarrow> d | _ \<Rightarrow> [])"

definition resolve_doc_source_strict :: "doc_data \<Rightarrow> pystr \<Rightarrow> ds_error + source_resolution" where
  "resolve_doc_source_strict d key =
     (if key = [] \<or> key = ''unknown_source'' then Inr SourceAbsent
      else case take 2 (filter (\<lambda>(k, r). is_primary key r) d) of
          [] \<Rightarrow> Inr SourceAbsent
        | [(k, r)] \<Rightarrow> map_sum id (SourceUnique k) (scheduling_record_from_raw k (fields_of r))
        | cs \<Rightarrow> Inr (SourceConflict None (sort (keys cs))))"

text \<open>\<open>best\<close> is the earliest holder seen so far, with its key.\<close>

definition hash_row ::
    "pystr \<Rightarrow> pystr option \<Rightarrow> pystr \<Rightarrow> json \<Rightarrow> ((pystr \<times> pystr) \<times> pystr \<times> json) option
     \<Rightarrow> ds_error + ((pystr \<times> pystr) \<times> pystr \<times> json) option" where
  "hash_row h excl k v best =
     (if Some k = excl \<or> row_points_at_as_duplicate v excl then Inr best
      else case v of
          JObj row \<Rightarrow>
            if obj_get row ''content_hash'' \<noteq> JStr h then Inr best
            else let sk = row_sort_key k row
                 in (case best of
                       None \<Rightarrow> Inr (Some (sk, k, v))
                     | Some b \<Rightarrow> if sk < fst b then Inr (Some (sk, k, v)) else Inr best)
        | _ \<Rightarrow> Inl PyAttributeError)"

definition get_doc_by_content_hash ::
    "doc_data \<Rightarrow> pystr \<Rightarrow> pystr option \<Rightarrow> ds_error + (pystr \<times> json) option" where
  "get_doc_by_content_hash d h excl =
     (if h = [] then Inr None else map_sum id (map_option snd) (scan_rows (hash_row h excl) d None))"

subsection \<open>Pages\<close>

record doc_page =
  pg_docs :: "(pystr, scheduling_record) pydict"
  pg_next :: cursor

type_synonym candidate = "(pystr \<times> pystr) \<times> pystr \<times> row_fields"

definition page_candidate ::
    "pystr list \<Rightarrow> (pystr \<times> pystr) option \<Rightarrow> bool \<Rightarrow> pystr \<Rightarrow> json \<Rightarrow> candidate list \<Rightarrow> ds_error + candidate list" where
  "page_candidate vals last_key strict doc_id r acc =
     (case r of
        JObj row \<Rightarrow>
          (case in_statuses (obj_get row ''status'') vals of
             Inl e \<Rightarrow> Inl e
           | Inr False \<Rightarrow> Inr acc
           | Inr True \<Rightarrow>
               let key = row_sort_key doc_id row
               in if (case last_key of None \<Rightarrow> False | Some l \<Rightarrow> key \<le> l) then Inr acc
                  else Inr (acc @ [(key, doc_id, row)]))
      | _ \<Rightarrow> if strict then Inl PyTypeError else Inr acc)"

fun page_docs ::
    "bool \<Rightarrow> candidate list \<Rightarrow> (pystr, scheduling_record) pydict \<Rightarrow> ds_error + (pystr, scheduling_record) pydict" where
  "page_docs strict [] docs = Inr docs"
| "page_docs strict ((key, doc_id, row) # cs) docs =
     (case scheduling_record_from_row doc_id row strict of
        Inl e \<Rightarrow> Inl e
      | Inr None \<Rightarrow> page_docs strict cs docs
      | Inr (Some r) \<Rightarrow> page_docs strict cs (AList.update doc_id r docs))"

definition cursor_key :: "cursor \<Rightarrow> ds_error + (pystr \<times> pystr) option" where
  "cursor_key p = (case p of CursorAfter opaque \<Rightarrow> map_sum id Some (decode_cursor opaque) | _ \<Rightarrow> Inr None)"

definition get_docs_by_statuses_page ::
    "doc_data \<Rightarrow> doc_status list \<Rightarrow> int \<Rightarrow> cursor \<Rightarrow> bool \<Rightarrow> ds_error + doc_page" where
  "get_docs_by_statuses_page d statuses limit position strict =
     (if limit \<le> 0 then Inl PyValueError
      else if statuses = [] \<or> position = CursorEnd then Inr \<lparr>pg_docs = [], pg_next = CursorEnd\<rparr>
      else case cursor_key position of
          Inl e \<Rightarrow> Inl e
        | Inr last_key \<Rightarrow>
            (case scan_rows (page_candidate (map status_value statuses) last_key strict) d [] of
               Inl e \<Rightarrow> Inl e
             | Inr cands \<Rightarrow>
                 let selected = take (nat limit) (sort_key fst cands)
                 in (case page_docs strict selected [] of
                       Inl e \<Rightarrow> Inl e
                     | Inr docs \<Rightarrow> Inr \<lparr>pg_docs = docs,
                         pg_next = (if int (length selected) < limit then CursorEnd
                                    else CursorAfter (encode_cursor (fst (List.last selected))))\<rparr>)))"

definition count_status_row :: "pystr list \<Rightarrow> bool \<Rightarrow> pystr \<Rightarrow> json \<Rightarrow> nat \<Rightarrow> ds_error + nat" where
  "count_status_row vals strict doc_id r n =
     (case r of
        JObj row \<Rightarrow>
          if \<not> has_key row ''status'' then (if strict then Inl PyTypeError else Inr n)
          else (case in_statuses (obj_get row ''status'') vals of
                  Inl e \<Rightarrow> Inl e | Inr b \<Rightarrow> Inr (if b then n + 1 else n))
      | _ \<Rightarrow> if strict then Inl PyTypeError else Inr n)"

definition count_docs_by_statuses :: "doc_data \<Rightarrow> doc_status list \<Rightarrow> bool \<Rightarrow> ds_error + nat" where
  "count_docs_by_statuses d statuses strict =
     (if statuses = [] then Inr 0 else scan_rows (count_status_row (map status_value statuses) strict) d 0)"

fun get_docs_by_ids :: "doc_data \<Rightarrow> pystr list \<Rightarrow> bool \<Rightarrow> (pystr, scheduling_record) pydict
    \<Rightarrow> ds_error + (pystr, scheduling_record) pydict" where
  "get_docs_by_ids d [] strict result = Inr result"
| "get_docs_by_ids d (k # ks) strict result =
     (case obj_get d k of
        JNull \<Rightarrow> get_docs_by_ids d ks strict result
      | JObj row \<Rightarrow>
          (case scheduling_record_from_row k row strict of
             Inl e \<Rightarrow> Inl e
           | Inr None \<Rightarrow> get_docs_by_ids d ks strict result
           | Inr (Some r) \<Rightarrow> get_docs_by_ids d ks strict (AList.update k r result))
      | _ \<Rightarrow> if strict then Inl PyTypeError else get_docs_by_ids d ks strict result)"

fun get_full_docs_by_ids :: "doc_data \<Rightarrow> pystr list \<Rightarrow> bool \<Rightarrow> (pystr, doc_processing) pydict
    \<Rightarrow> ds_error + (pystr, doc_processing) pydict" where
  "get_full_docs_by_ids d [] strict result = Inr result"
| "get_full_docs_by_ids d (k # ks) strict result =
     (case (if obj_get d k = JNull then Inr result
            else keep_row strict k (map_sum id Some (doc_processing_status_from_row (obj_get d k))) result) of
        Inl e \<Rightarrow> Inl e
      | Inr result1 \<Rightarrow> get_full_docs_by_ids d ks strict result1)"

subsection \<open>Source conflicts\<close>

definition CONFLICT_SAMPLE_CAP :: nat where
  "CONFLICT_SAMPLE_CAP = 32"

text \<open>\<open>digest\<close> is SHA-256.\<close>

definition conflict_fingerprint :: "(nat list \<Rightarrow> pystr) \<Rightarrow> pystr list \<Rightarrow> pystr" where
  "conflict_fingerprint digest ids = digest (concat (map (\<lambda>i. utf8_encode i @ [0]) ids))"

definition primary_candidates :: "doc_data \<Rightarrow> pystr \<Rightarrow> pystr list" where
  "primary_candidates d key = sort (keys (filter (\<lambda>(k, r). is_primary key r) d))"

record source_conflict_summary =
  sc_key :: pystr
  sc_count :: nat
  sc_sample :: "pystr list"

record source_conflict_page =
  scp_conflicts :: "source_conflict_summary list"
  scp_next :: cursor

definition group_row :: "pystr \<times> json \<Rightarrow> (pystr, pystr list) pydict \<Rightarrow> (pystr, pystr list) pydict" where
  "group_row kr groups =
     (case snd kr of
        JObj row \<Rightarrow>
          (case obj_get row ''file_path'' of
             JStr p \<Rightarrow>
               if p \<in> {[], ''unknown_source'', ''no-file-path''} \<or> is_duplicate_row (snd kr) then groups
               else AList.update p ((case map_of groups p of None \<Rightarrow> [] | Some ids \<Rightarrow> ids) @ [fst kr]) groups
           | _ \<Rightarrow> groups)
      | _ \<Rightarrow> groups)"

definition conflict_cursor_key :: "cursor \<Rightarrow> ds_error + pystr option" where
  "conflict_cursor_key p =
     (case p of CursorAfter opaque \<Rightarrow> map_sum id Some (decode_conflict_cursor opaque) | _ \<Rightarrow> Inr None)"

definition list_source_conflicts_page :: "doc_data \<Rightarrow> int \<Rightarrow> cursor \<Rightarrow> ds_error + source_conflict_page" where
  "list_source_conflicts_page d limit position =
     (if limit \<le> 0 then Inl PyValueError
      else if position = CursorEnd then Inr \<lparr>scp_conflicts = [], scp_next = CursorEnd\<rparr>
      else case conflict_cursor_key position of
          Inl e \<Rightarrow> Inl e
        | Inr last_key \<Rightarrow>
            let groups = fold group_row d [];
                conflict_keys = sort (keys (filter (\<lambda>(k, v). 2 \<le> length v) groups));
                page_keys = take (nat limit)
                  (filter (\<lambda>k. case last_key of None \<Rightarrow> True | Some l \<Rightarrow> k > l) conflict_keys);
                ids = (\<lambda>k. case map_of groups k of None \<Rightarrow> [] | Some v \<Rightarrow> v)
            in Inr \<lparr>scp_conflicts = map (\<lambda>k. \<lparr>sc_key = k, sc_count = length (ids k),
                        sc_sample = take CONFLICT_SAMPLE_CAP (sort (ids k))\<rparr>) page_keys,
                    scp_next = (if int (length page_keys) < limit then CursorEnd
                                else CursorAfter (JStr (List.last page_keys)))\<rparr>)"

record repair_result =
  rr_key :: pystr
  rr_primary :: pystr
  rr_count :: nat
  rr_fingerprint :: pystr
  rr_demoted :: "pystr list"
  rr_committed :: bool

text \<open>\<open>dict(v or {})\<close>: of a dict, or of a list of pairs (a pair whose first item is no string, which no JSON
  object can hold, is taken as an error).\<close>

fun dict_of_pairs :: "json list \<Rightarrow> row_fields \<Rightarrow> ds_error + row_fields" where
  "dict_of_pairs [] d = Inr d"
| "dict_of_pairs (x # xs) d =
     (case unpack_two x of
        Some (JStr k, v) \<Rightarrow> dict_of_pairs xs (AList.update k v d)
      | Some _ \<Rightarrow> Inl PyTypeError
      | None \<Rightarrow> Inl (case x of JList _ \<Rightarrow> PyValueError | JObj _ \<Rightarrow> PyValueError | JStr _ \<Rightarrow> PyValueError | _ \<Rightarrow> PyTypeError))"

definition dict_or_empty :: "json \<Rightarrow> ds_error + row_fields" where
  "dict_or_empty v =
     (if \<not> truthy v then Inr []
      else case v of
          JObj m \<Rightarrow> Inr m
        | JList xs \<Rightarrow> dict_of_pairs xs []
        | JStr _ \<Rightarrow> Inl PyValueError
        | _ \<Rightarrow> Inl PyTypeError)"

definition demote_row :: "pystr \<Rightarrow> row_fields \<Rightarrow> ds_error + row_fields" where
  "demote_row primary row =
     (case dict_or_empty (obj_get row ''metadata'') of
        Inl e \<Rightarrow> Inl e
      | Inr m \<Rightarrow> Inr (AList.update ''metadata''
          (JObj (AList.update ''original_doc_id'' (JStr primary) (AList.update ''is_duplicate'' (JBool True) m))) row))"

fun demote_all :: "pystr \<Rightarrow> pystr list \<Rightarrow> doc_data \<Rightarrow> ds_error option \<times> doc_data" where
  "demote_all primary [] d = (None, d)"
| "demote_all primary (k # ks) d =
     (case demote_row primary (fields_of (obj_get d k)) of
        Inl e \<Rightarrow> (Some e, d)
      | Inr row \<Rightarrow> demote_all primary ks (AList.update k (JObj row) d))"

definition repair_source_conflict ::
    "(nat list \<Rightarrow> pystr) \<Rightarrow> nat \<Rightarrow> write_outcome \<Rightarrow> pystr \<Rightarrow> pystr \<Rightarrow> nat \<Rightarrow> pystr \<Rightarrow> bool
     \<Rightarrow> doc_store \<Rightarrow> (ds_error + repair_result) \<times> doc_store" where
  "repair_source_conflict digest i w key primary expected_count expected_fp dry_run s =
     (let candidates = primary_candidates (ds_data s) key;
          fp = conflict_fingerprint digest candidates;
          demoted = filter (\<lambda>k. k \<noteq> primary) candidates;
          result = \<lparr>rr_key = key, rr_primary = primary, rr_count = length candidates, rr_fingerprint = fp,
                    rr_demoted = take CONFLICT_SAMPLE_CAP demoted, rr_committed = False\<rparr>
      in if primary \<notin> set candidates then (Inl PyValueError, s)
         else if dry_run then (Inr result, s)
         else if length candidates \<noteq> expected_count \<or> fp \<noteq> expected_fp then (Inl RepairCASError, s)
         else case demote_all primary demoted (ds_data s) of
             (Some e, d) \<Rightarrow> (Inl e, s\<lparr>ds_data := d\<rparr>)
           | (None, d) \<Rightarrow>
               (case index_done_callback i w (set_all_update_flags (s\<lparr>ds_data := d\<rparr>)) of
                  (Some e, s1) \<Rightarrow> (Inl e, s1)
                | (None, s1) \<Rightarrow> (Inr (result\<lparr>rr_committed := True\<rparr>), s1)))"

end
