(* ===== verification/StatusMeta.thy ===== *)
theory StatusMeta
  imports DocRows
begin

text \<open>
  What a document-status row carries from one state of its document to the next: the metadata
  functions of \<^verbatim>\<open>src/lightrag/utils_pipeline.py\<close> and the row of a reset of
  \<^verbatim>\<open>src/lightrag/pipeline.py\<close>. The metadata of a row is any JSON value. A number counts as a Python
  \<open>int\<close> when it is integral, and a boolean is one.
\<close>

definition PLACEHOLDER_DOCUMENT_SOURCES :: "pystr list" where
  "PLACEHOLDER_DOCUMENT_SOURCES = [[], ''no-file-path'', ''unknown_source'']"

definition KG_WRITE_STATE_METADATA_KEY :: pystr where "KG_WRITE_STATE_METADATA_KEY = ''kg_write_state''"
definition KG_PURGE_METADATA_KEY :: pystr where "KG_PURGE_METADATA_KEY = ''kg_purge''"
definition LLM_TRUNCATION_METADATA_KEY :: pystr where "LLM_TRUNCATION_METADATA_KEY = ''llm_truncation''"

definition DUPLICATE_DEMOTION_METADATA_KEYS :: "pystr list" where
  "DUPLICATE_DEMOTION_METADATA_KEYS = [''is_duplicate'', ''duplicate_kind'', ''original_doc_id'']"

definition DOC_STATUS_METADATA_CARRY_OVER_KEYS :: "pystr list" where
  "DOC_STATUS_METADATA_CARRY_OVER_KEYS =
     [''process_options'', ''source_file'', ''parse_warnings'', ''chunk_opts'', ''custom_chunker'',
      ''parse_start_time'', ''parse_end_time'', ''parse_stage_skipped'', ''parse_format'', ''parse_engine'',
      ''smartheading_llm_cache_ids'', ''analyzing_start_time'', ''analyzing_end_time'',
      ''analyzing_stage_skipped'', CUSTOM_CHUNK_PATCH_METADATA_KEY, KG_WRITE_STATE_METADATA_KEY,
      KG_PURGE_METADATA_KEY] @ DUPLICATE_DEMOTION_METADATA_KEYS"

definition DOC_STATUS_METADATA_DIRECTIVE_KEYS :: "pystr list" where
  "DOC_STATUS_METADATA_DIRECTIVE_KEYS =
     [''process_options'', ''source_file'', CUSTOM_CHUNK_PATCH_METADATA_KEY, KG_WRITE_STATE_METADATA_KEY,
      KG_PURGE_METADATA_KEY] @ DUPLICATE_DEMOTION_METADATA_KEYS"

definition DOC_STATUS_METADATA_ATTEMPT_KEYS :: "pystr list" where
  "DOC_STATUS_METADATA_ATTEMPT_KEYS =
     [''parse_start_time'', ''parse_end_time'', ''parse_stage_skipped'', ''analyzing_start_time'',
      ''analyzing_end_time'', ''analyzing_stage_skipped'', ''parse_warnings'', ''chunk_opts'',
      ''process_start_time'', ''process_end_time'', ''parse_format'', ''parse_engine'', ''chunk_method'',
      ''skip_kg'', ''mm_chunks'', ''hard_fallback_split'', ''error_type'', ''error_stage'',
      LLM_TRUNCATION_METADATA_KEY]"

definition DOC_STATUS_METADATA_OBSERVATION_KEYS :: "pystr list" where
  "DOC_STATUS_METADATA_OBSERVATION_KEYS = [''custom_chunker'']"

text \<open>\<open>value not in (None, "")\<close>.\<close>

definition present :: "json \<Rightarrow> bool" where
  "present v \<longleftrightarrow> v \<noteq> JNull \<and> v \<noteq> JStr []"

text \<open>The journal of an unfinished custom-chunk operation, if the metadata carry one.\<close>

definition custom_chunk_patch :: "json \<Rightarrow> json option" where
  "custom_chunk_patch meta =
     (case meta of
        JObj d \<Rightarrow> (let j = obj_get d CUSTOM_CHUNK_PATCH_METADATA_KEY in if is_mapping j then Some j else None)
      | _ \<Rightarrow> None)"

definition carry_key :: "row_fields \<Rightarrow> pystr \<Rightarrow> row_fields \<Rightarrow> row_fields" where
  "carry_key d k payload = (if present (obj_get d k) then AList.update k (obj_get d k) payload else payload)"

definition metadata_carry_over :: "json \<Rightarrow> row_fields" where
  "metadata_carry_over meta =
     (case meta of JObj d \<Rightarrow> fold (carry_key d) DOC_STATUS_METADATA_CARRY_OVER_KEYS [] | _ \<Rightarrow> [])"

text \<open>\<open>extra\<close> is empty for \<open>None\<close>.\<close>

definition transition_metadata :: "json \<Rightarrow> row_fields \<Rightarrow> pystr list \<Rightarrow> row_fields" where
  "transition_metadata meta extra drop_keys =
     fold AList.delete drop_keys (fold (\<lambda>(k, v). AList.update k v) extra (metadata_carry_over meta))"

definition read_source_file_basename :: "json \<Rightarrow> json" where
  "read_source_file_basename v =
     (case v of JObj d \<Rightarrow> py_or (obj_get d ''source_file'') (obj_get d ''source_file_name'') | _ \<Rightarrow> JNull)"

definition directive_value :: "row_fields \<Rightarrow> pystr \<Rightarrow> json" where
  "directive_value d k = (if k = ''source_file'' then read_source_file_basename (JObj d) else obj_get d k)"

definition reset_key :: "row_fields \<Rightarrow> pystr \<Rightarrow> row_fields \<Rightarrow> row_fields" where
  "reset_key d k payload =
     (if present (directive_value d k) then AList.update k (directive_value d k) payload else payload)"

definition reset_metadata :: "json \<Rightarrow> row_fields" where
  "reset_metadata meta =
     (case meta of
        JObj d \<Rightarrow> fold (carry_key d) DOC_STATUS_METADATA_OBSERVATION_KEYS
                    (fold (reset_key d) DOC_STATUS_METADATA_DIRECTIVE_KEYS [])
      | _ \<Rightarrow> [])"

definition metadata_has_attempt_fields :: "json \<Rightarrow> bool" where
  "metadata_has_attempt_fields meta =
     (case meta of JObj d \<Rightarrow> list_ex (has_key d) DOC_STATUS_METADATA_ATTEMPT_KEYS | _ \<Rightarrow> False)"

definition non_negative_int :: "json \<Rightarrow> bool" where
  "non_negative_int v = (case v of JNum n \<Rightarrow> snd (quotient_of n) = 1 \<and> 0 \<le> n | JBool _ \<Rightarrow> True | _ \<Rightarrow> False)"

definition chunk_fields :: "json \<Rightarrow> json \<Rightarrow> json list \<times> json" where
  "chunk_fields chunks count =
     (let kept = (case chunks of JList xs \<Rightarrow> filter (\<lambda>x. is_str x \<and> x \<noteq> JStr []) xs | _ \<Rightarrow> [])
      in (kept, if non_negative_int count then count else JNum (of_nat (length kept))))"

fun first_source :: "json list \<Rightarrow> pystr" where
  "first_source [] = ''unknown_source''"
| "first_source (v # vs) =
     (case v of
        JStr s \<Rightarrow> (let c = strip s in if c \<noteq> [] \<and> c \<notin> set PLACEHOLDER_DOCUMENT_SOURCES then c else first_source vs)
      | _ \<Rightarrow> first_source vs)"

text \<open>\<open>content\<close> is the row of \<open>full_docs\<close>, null or any mapping.\<close>

definition resolve_doc_file_path :: "json \<Rightarrow> json \<Rightarrow> pystr" where
  "resolve_doc_file_path status_path content =
     first_source [status_path, (case content of JObj d \<Rightarrow> obj_get d ''file_path'' | _ \<Rightarrow> JNull)]"

text \<open>\<open>now\<close> is the text of the clock's reading.\<close>

definition build_pending_reset_update :: "pystr \<Rightarrow> doc_processing \<Rightarrow> json \<Rightarrow> row_fields" where
  "build_pending_reset_update now p content =
     (let (chunks, count) = chunk_fields (chunks_list p) (chunks_count p)
      in [(''status'', JStr (status_value PENDING)), (''content_summary'', content_summary p),
          (''content_length'', content_length p), (''chunks_count'', count), (''chunks_list'', JList chunks),
          (''created_at'', dp_created_at p), (''updated_at'', JStr now),
          (''file_path'', JStr (resolve_doc_file_path (dp_file_path p) content)),
          (''track_id'', dp_track_id p), (''content_hash'', content_hash p), (''error_msg'', JStr []),
          (''metadata'', JObj (reset_metadata (dp_metadata p)))])"

end
