(* ===== verification/Scheduler.thy ===== *)
theory Scheduler
  imports PipelineUsers DocStatus StatusMeta
begin

text \<open>
  The scheduling of a processing run, from \<^verbatim>\<open>src/lightrag/pipeline.py\<close>: the bounded sweeps over the
  document-status storage, the decision a run takes when it has nothing left to do, the manual retry
  (freeze, drain, exclusive reset of the failed documents) and the end of the run. The parser, the
  analysis and the extraction of a document are not modelled. What another task does while a run
  awaits is an argument: the stores a sweep reads, and the acts that come between the pages of a
  reset. Texts that are only displayed or logged are left out.
\<close>

subsection \<open>Constants and results\<close>

definition AUTO_RESUME_DOC_STATUSES :: "doc_status list" where
  "AUTO_RESUME_DOC_STATUSES = [PENDING, PROCESSING, PARSING, ANALYZING]"

definition FEEDER_DRAIN_LIMIT :: int where "FEEDER_DRAIN_LIMIT = 256"
definition SCAN_DRAIN_CONFIRM_ATTEMPTS :: nat where "SCAN_DRAIN_CONFIRM_ATTEMPTS = 25"
definition MANUAL_DRAIN_STALL_ROUNDS :: nat where "MANUAL_DRAIN_STALL_ROUNDS = 3"
definition MANUAL_DRAIN_STALL_SAMPLE :: nat where "MANUAL_DRAIN_STALL_SAMPLE = 8"
definition MANUAL_DRAIN_BLOCKER_SAMPLE :: nat where "MANUAL_DRAIN_BLOCKER_SAMPLE = 8"
definition MANUAL_DRAIN_ENQUEUE_STALL_SAMPLE :: nat where "MANUAL_DRAIN_ENQUEUE_STALL_SAMPLE = 8"

text \<open>600 seconds of polls of 0.2 seconds.\<close>

definition MANUAL_DRAIN_ENQUEUE_STALL_ROUNDS :: nat where
  "MANUAL_DRAIN_ENQUEUE_STALL_ROUNDS = max 1 3000"

datatype sched_error =
    StoreError ds_error
  | LostFreeze
  | RecoveryRequired "pystr list"

datatype next_step =
    RELEASED | CONTINUE_AUTO | CONTINUE_MANUAL | CONTINUE_DRAIN_WAIT | BEGIN_EXCLUSIVE_RESET
  | CONTINUE_DOCUMENT | CONTINUE_SWEEP_PAGE | CANCELLED

record decision =
  d_step :: next_step
  d_manual_request :: "pystr option"
  d_internal_error :: bool

definition decide_step :: "next_step \<Rightarrow> decision" where
  "decide_step x = \<lparr>d_step = x, d_manual_request = None, d_internal_error = False\<rparr>"

type_synonym batch = "(pystr, doc_processing) pydict"

record sched_state =
  sc_status :: pipeline_status
  sc_box :: mailbox
  sc_store :: doc_store

type_synonym interference = "sched_state \<Rightarrow> sched_state"

subsection \<open>Progress of a drain\<close>

text \<open>A \<open>frozenset\<close> of ids is its sorted list.\<close>

definition frozen :: "pystr list \<Rightarrow> pystr list" where
  "frozen ids = sort (remdups ids)"

record drain_progress =
  blocking_ids :: "pystr list option"
  repeats :: nat
  enqueue_tokens :: "pystr list option"
  enqueue_repeats :: nat

definition new_drain_progress :: drain_progress where
  "new_drain_progress = \<lparr>blocking_ids = None, repeats = 0, enqueue_tokens = None, enqueue_repeats = 0\<rparr>"

definition observe :: "pystr list \<Rightarrow> drain_progress \<Rightarrow> bool \<times> drain_progress" where
  "observe ids p =
     (if Some (frozen ids) \<noteq> blocking_ids p then (True, p\<lparr>blocking_ids := Some (frozen ids), repeats := 1\<rparr>)
      else (repeats p + 1 < MANUAL_DRAIN_STALL_ROUNDS, p\<lparr>repeats := repeats p + 1\<rparr>))"

definition observe_enqueue :: "pystr list \<Rightarrow> drain_progress \<Rightarrow> bool \<times> drain_progress" where
  "observe_enqueue tokens p =
     (if Some (frozen tokens) \<noteq> enqueue_tokens p
      then (True, p\<lparr>enqueue_tokens := Some (frozen tokens), enqueue_repeats := 1\<rparr>)
      else (enqueue_repeats p + 1 < MANUAL_DRAIN_ENQUEUE_STALL_ROUNDS,
            p\<lparr>enqueue_repeats := enqueue_repeats p + 1\<rparr>))"

subsection \<open>Sweeps\<close>

text \<open>\<open>d\<close> is the store a page reads and \<open>h\<close> the one its rows are then read from.\<close>

fun still_in :: "pystr list \<Rightarrow> batch \<Rightarrow> ds_error + batch" where
  "still_in vals [] = Inr []"
| "still_in vals ((k, p) # rest) =
     (case in_statuses (dp_status p) vals of
        Inl e \<Rightarrow> Inl e
      | Inr b \<Rightarrow> map_sum id (\<lambda>r. if b then (k, p) # r else r) (still_in vals rest))"

definition hydrate_scheduling_page :: "doc_data \<Rightarrow> pystr list \<Rightarrow> doc_status list \<Rightarrow> ds_error + batch" where
  "hydrate_scheduling_page h ids statuses =
     (case get_full_docs_by_ids h ids True [] of
        Inl e \<Rightarrow> Inl e
      | Inr docs \<Rightarrow> still_in (map status_value statuses) docs)"

definition fetch_scheduling_page ::
    "doc_data \<Rightarrow> doc_status list \<Rightarrow> cursor \<Rightarrow> int \<Rightarrow> ds_error + (pystr list \<times> pystr list \<times> cursor)" where
  "fetch_scheduling_page d statuses position limit =
     map_sum id
       (\<lambda>page. (keys (filter (\<lambda>(k, r). \<not> sr_has_journal r) (pg_docs page)),
                keys (filter (\<lambda>(k, r). sr_has_journal r) (pg_docs page)), pg_next page))
       (get_docs_by_statuses_page d statuses limit position True)"

definition routable :: "batch \<Rightarrow> batch" where
  "routable docs = filter (\<lambda>(k, p). custom_chunk_patch (dp_metadata p) = None) docs"

definition next_scheduling_page ::
    "int \<Rightarrow> doc_data \<Rightarrow> doc_data \<Rightarrow> doc_status list \<Rightarrow> cursor \<Rightarrow> ds_error + (batch \<times> cursor)" where
  "next_scheduling_page page_size d h statuses position =
     (if page_size \<le> 0 then map_sum id (\<lambda>docs. (routable docs, CursorEnd)) (get_docs_by_statuses d statuses True)
      else case fetch_scheduling_page d statuses position page_size of
          Inl e \<Rightarrow> Inl e
        | Inr (ids, journaled, next_pos) \<Rightarrow>
            if ids = [] then Inr ([], next_pos)
            else map_sum id (\<lambda>docs. (docs, next_pos)) (hydrate_scheduling_page h ids statuses))"

definition next_failed_page :: "int \<Rightarrow> doc_data \<Rightarrow> doc_data \<Rightarrow> cursor \<Rightarrow> ds_error + (batch \<times> cursor)" where
  "next_failed_page page_size d h position =
     (if page_size \<le> 0 then map_sum id (\<lambda>docs. (docs, CursorEnd)) (get_docs_by_statuses d [FAILED] True)
      else case get_docs_by_statuses_page d [FAILED] page_size position True of
          Inl e \<Rightarrow> Inl e
        | Inr page \<Rightarrow>
            if pg_docs page = [] then Inr ([], pg_next page)
            else map_sum id (\<lambda>docs. (docs, pg_next page))
                   (hydrate_scheduling_page h (keys (pg_docs page)) [FAILED]))"

text \<open>The confirmation that nothing is left to resume. The stores of the successive pages are given;
  \<open>None\<close>: the sweep needs more pages than that.\<close>

definition add_blocking :: "pystr list \<Rightarrow> pystr list \<Rightarrow> pystr list" where
  "add_blocking journaled blocking =
     fold (\<lambda>k b. if length b < MANUAL_DRAIN_BLOCKER_SAMPLE then b @ [k] else b) journaled blocking"

fun confirm_loop ::
    "int \<Rightarrow> (doc_data \<times> doc_data) list \<Rightarrow> pystr list \<Rightarrow> cursor
     \<Rightarrow> (ds_error + (batch \<times> cursor \<times> pystr list)) option" where
  "confirm_loop page_size [] blocking position = None"
| "confirm_loop page_size ((d, h) # rest) blocking position =
     (case fetch_scheduling_page d AUTO_RESUME_DOC_STATUSES position page_size of
        Inl e \<Rightarrow> Some (Inl e)
      | Inr (ids, journaled, next_pos) \<Rightarrow>
          (case (if ids = [] then Inr [] else hydrate_scheduling_page h ids AUTO_RESUME_DOC_STATUSES) of
             Inl e \<Rightarrow> Some (Inl e)
           | Inr docs \<Rightarrow>
               if docs \<noteq> [] then Some (Inr (docs, next_pos, []))
               else let blocking1 = add_blocking journaled blocking
                    in if next_pos = CursorEnd then Some (Inr ([], CursorEnd, blocking1))
                       else confirm_loop page_size rest blocking1 next_pos))"

definition confirm_auto_drained ::
    "int \<Rightarrow> (doc_data \<times> doc_data) list \<Rightarrow> (ds_error + (batch \<times> cursor \<times> pystr list)) option" where
  "confirm_auto_drained page_size reads =
     (if page_size \<le> 0 then
        (case reads of
           [] \<Rightarrow> None
         | (d, h) # _ \<Rightarrow>
             Some (map_sum id
               (\<lambda>docs. if routable docs \<noteq> [] then (routable docs, CursorEnd, [])
                       else ([], CursorEnd, take MANUAL_DRAIN_BLOCKER_SAMPLE
                              (sort (filter (\<lambda>k. k \<notin> set (keys (routable docs))) (keys docs)))))
               (get_docs_by_statuses d AUTO_RESUME_DOC_STATUSES True)))
      else confirm_loop page_size reads [] CursorStart)"

subsection \<open>The manual retry\<close>

definition begin_manual_drain ::
    "proc_env \<Rightarrow> rat \<Rightarrow> pystr option \<Rightarrow> pystr \<Rightarrow> pipeline_status \<Rightarrow> bool \<times> pipeline_status" where
  "begin_manual_drain e now rid tok s =
     (case with_reservation_lock BusySlot (Some tok)
             (\<lambda>s. (True, s\<lparr>manual_freeze_requested := True, manual_freeze_started_at := Some now,
                           manual_resetting := False, manual_phase := MANUAL_PHASE_DRAIN_TO_IDLE,
                           manual_owner := Some (make_manual_owner_record e rid tok)\<rparr>)) s of
        (r, s1) \<Rightarrow> (r = Some True, s1))"

definition end_manual_drain :: "pystr \<Rightarrow> pipeline_status \<Rightarrow> pipeline_status" where
  "end_manual_drain tok s = snd (with_reservation_lock BusySlot (Some tok) (\<lambda>s. (True, manual_idle s)) s)"

definition still_freeze_owner :: "pystr \<Rightarrow> pipeline_status \<Rightarrow> bool" where
  "still_freeze_owner tok s \<longleftrightarrow> reservation_owner_token (busy_owner s) = Some tok"

definition enter_exclusive_reset :: "pystr \<Rightarrow> pipeline_status \<Rightarrow> bool \<times> pipeline_status" where
  "enter_exclusive_reset tok s =
     (case with_reservation_lock BusySlot (Some tok)
             (\<lambda>s. (True, s\<lparr>manual_resetting := True, manual_phase := MANUAL_PHASE_EXCLUSIVE_RESET\<rparr>)) s of
        (r, s1) \<Rightarrow> (r = Some True, s1))"

text \<open>The rows a page resets: no journal, and content in \<open>full_docs\<close>. \<open>content\<close> is the read of \<open>full_docs\<close>,
  which may raise.\<close>

fun rows_to_reset ::
    "(pystr \<Rightarrow> ds_error + json) \<Rightarrow> pystr \<Rightarrow> batch \<Rightarrow> (pystr, row_fields) pydict
     \<Rightarrow> ds_error + (pystr, row_fields) pydict" where
  "rows_to_reset content now [] acc = Inr acc"
| "rows_to_reset content now ((k, p) # rest) acc =
     (if custom_chunk_patch (dp_metadata p) \<noteq> None then rows_to_reset content now rest acc
      else case content k of
          Inl e \<Rightarrow> Inl e
        | Inr c \<Rightarrow>
            if \<not> truthy c then rows_to_reset content now rest acc
            else rows_to_reset content now rest (AList.update k (build_pending_reset_update now p c) acc))"

text \<open>What happens around the steps of one page: before the ownership check, before the rows of the page
  are read, before the ownership check of the write and before the write; how the write ends, the time.\<close>

record reset_page_env =
  re_before :: interference
  re_hydrate :: interference
  re_write :: interference
  re_commit :: interference
  re_outcome :: write_outcome
  re_now :: pystr

definition reset_failed_page ::
    "(pystr \<Rightarrow> ds_error + json) \<Rightarrow> nat \<Rightarrow> reset_page_env \<Rightarrow> batch \<Rightarrow> pystr \<Rightarrow> sched_state
     \<Rightarrow> (sched_error + nat) \<times> sched_state" where
  "reset_failed_page content i env docs tok st =
     (case rows_to_reset content (re_now env) docs [] of
        Inl e \<Rightarrow> (Inl (StoreError e), st)
      | Inr rows \<Rightarrow>
          if rows = [] then (Inr 0, st)
          else let st1 = re_write env st
               in if \<not> still_freeze_owner tok (sc_status st1) then (Inl LostFreeze, st1)
                  else let st2 = re_commit env st1
                       in (case upsert i (re_outcome env) rows (sc_store st2) of
                             (Some e, s1) \<Rightarrow> (Inl (StoreError e), st2\<lparr>sc_store := s1\<rparr>)
                           | (None, s1) \<Rightarrow> (Inr (length rows), st2\<lparr>sc_store := s1\<rparr>)))"

fun exclusive_reset_loop ::
    "int \<Rightarrow> (pystr \<Rightarrow> ds_error + json) \<Rightarrow> nat \<Rightarrow> reset_page_env list \<Rightarrow> pystr \<Rightarrow> cursor \<Rightarrow> sched_state
     \<Rightarrow> (sched_error + bool) option \<times> sched_state" where
  "exclusive_reset_loop page_size content i [] tok position st = (None, st)"
| "exclusive_reset_loop page_size content i (env # envs) tok position st =
     (let st1 = re_before env st
      in if \<not> still_freeze_owner tok (sc_status st1) then (Some (Inr False), st1)
         else let st2 = re_hydrate env st1
              in case next_failed_page page_size (ds_data (sc_store st1)) (ds_data (sc_store st2)) position of
                   Inl e \<Rightarrow> (Some (Inl (StoreError e)), st2)
                 | Inr (docs, next_pos) \<Rightarrow>
                     (case (if docs = [] then (Inr 0, st2) else reset_failed_page content i env docs tok st2) of
                        (Inl e, st3) \<Rightarrow> (Some (Inl e), st3)
                      | (Inr n, st3) \<Rightarrow>
                          if next_pos = CursorEnd then (Some (Inr True), st3)
                          else exclusive_reset_loop page_size content i envs tok next_pos st3))"

definition run_exclusive_failed_reset ::
    "int \<Rightarrow> (pystr \<Rightarrow> ds_error + json) \<Rightarrow> nat \<Rightarrow> reset_page_env list \<Rightarrow> pystr \<Rightarrow> sched_state
     \<Rightarrow> (sched_error + bool) option \<times> sched_state" where
  "run_exclusive_failed_reset page_size content i envs tok st =
     (case enter_exclusive_reset tok (sc_status st) of
        (False, s1) \<Rightarrow> (Some (Inr False), st\<lparr>sc_status := s1\<rparr>)
      | (True, s1) \<Rightarrow> exclusive_reset_loop page_size content i envs tok CursorStart (st\<lparr>sc_status := s1\<rparr>))"

text \<open>The ACK and the end of the freeze, after a reset that reached the end.\<close>

definition ack_after_reset :: "pystr \<Rightarrow> pystr \<Rightarrow> sched_state \<Rightarrow> sched_state" where
  "ack_after_reset rid tok st =
     st\<lparr>sc_box := snd (mb_ack_manual_retry rid (sc_box st)), sc_status := end_manual_drain tok (sc_status st)\<rparr>"

subsection \<open>The reset of a scan\<close>

text \<open>\<open>act n\<close> is what the others do while the \<open>n\<close>-th check sleeps.\<close>

fun confirm_scan_drain_idle :: "nat \<Rightarrow> proc_env \<Rightarrow> (nat \<Rightarrow> interference) \<Rightarrow> sched_state \<Rightarrow> bool \<times> sched_state" where
  "confirm_scan_drain_idle 0 e act st = (pending_enqueues (sc_status st) = 0, st)"
| "confirm_scan_drain_idle (Suc n) e act st =
     (if pending_enqueues (sc_status st) = 0 then (True, st)
      else confirm_scan_drain_idle n e act
             (act n (st\<lparr>sc_status := reconcile_dead_pipeline_reservations e (sc_status st)\<rparr>)))"

definition scan_reset_release :: "pystr \<Rightarrow> pipeline_status \<Rightarrow> pipeline_status" where
  "scan_reset_release tok s =
     snd (with_reservation_lock BusySlot (Some tok)
       (\<lambda>s. (True, manual_idle (s\<lparr>busy := False, busy_owner := NoOwner\<rparr>))) s)"

definition reset_run_flags :: "pystr \<Rightarrow> pipeline_status \<Rightarrow> pipeline_status" where
  "reset_run_flags job s = s\<lparr>job_name := job, cancellation_requested := False, cancellation_reason := None\<rparr>"

text \<open>The steps after the slot is taken, up to the ACK.\<close>

definition scan_reset_body ::
    "proc_env \<Rightarrow> rat \<Rightarrow> int \<Rightarrow> (pystr \<Rightarrow> ds_error + json) \<Rightarrow> nat \<Rightarrow> (nat \<Rightarrow> interference) \<Rightarrow> reset_page_env list
     \<Rightarrow> pystr \<Rightarrow> pystr \<Rightarrow> sched_state \<Rightarrow> (sched_error + bool) option \<times> sched_state" where
  "scan_reset_body e now page_size content i act envs rid tok st =
     (case begin_manual_drain e now (Some rid) tok (sc_status st) of
        (False, s1) \<Rightarrow> (Some (Inr False), st\<lparr>sc_status := s1\<rparr>)
      | (True, s1) \<Rightarrow>
          (case confirm_scan_drain_idle SCAN_DRAIN_CONFIRM_ATTEMPTS e act (st\<lparr>sc_status := s1\<rparr>) of
             (False, st2) \<Rightarrow> (Some (Inr False), st2)
           | (True, st2) \<Rightarrow>
               (case run_exclusive_failed_reset page_size content i envs tok st2 of
                  (Some (Inr True), st3) \<Rightarrow>
                    (Some (Inr True), st3\<lparr>sc_box := snd (mb_ack_manual_retry rid (sc_box st3))\<rparr>)
                | other \<Rightarrow> other)))"

definition reset_failed_for_scan ::
    "proc_env \<Rightarrow> rat \<Rightarrow> bool \<Rightarrow> int \<Rightarrow> (pystr \<Rightarrow> ds_error + json) \<Rightarrow> nat \<Rightarrow> (nat \<Rightarrow> interference)
     \<Rightarrow> reset_page_env list \<Rightarrow> pystr \<Rightarrow> pystr option \<Rightarrow> pystr \<Rightarrow> sched_state
     \<Rightarrow> (reservation_error + (sched_error + bool) option) \<times> sched_state" where
  "reset_failed_for_scan e now ingress_ok page_size content i act envs rid scan_owner tok st =
     (case acquire_processing_reservation e tok False ingress_ok (reset_run_flags ''Scan: reset failed documents'')
             scan_owner (sc_status st, sc_box st) of
        (Inl err, s1, b1) \<Rightarrow> (Inl err, st\<lparr>sc_status := s1, sc_box := b1\<rparr>)
      | (Inr r, s1, b1) \<Rightarrow>
          if \<not> acquired r then (Inr (Some (Inr False)), st\<lparr>sc_status := s1, sc_box := b1\<rparr>)
          else (case scan_reset_body e now page_size content i act envs rid tok
                       (st\<lparr>sc_status := s1, sc_box := b1\<rparr>) of
                  (res, st2) \<Rightarrow> (Inr res, st2\<lparr>sc_status := scan_reset_release tok (sc_status st2)\<rparr>)))"

subsection \<open>The decision\<close>

definition decide_pipeline_next_step ::
    "cursor \<Rightarrow> pipeline_status \<times> mailbox \<Rightarrow> decision \<times> pipeline_status \<times> mailbox" where
  "decide_pipeline_next_step sweep_cursor sb =
     (case sb of (s, box) \<Rightarrow>
        if cancellation_requested s then
          ((decide_step CANCELLED)\<lparr>d_internal_error := cancellation_reason s = Some ''internal_error''\<rparr>, s, box)
        else if manual_phase s = MANUAL_PHASE_DRAIN_TO_IDLE then
          (if sweep_cursor \<noteq> CursorEnd then (decide_step CONTINUE_SWEEP_PAGE, s, box)
           else case mb_consume_auto_rescan box of (auto, box1) \<Rightarrow>
             if auto then (decide_step CONTINUE_AUTO, s, box1)
             else if 0 < n_documents (mb_counts box1) then (decide_step CONTINUE_DOCUMENT, s, box1)
             else if 0 < pending_enqueues s then (decide_step CONTINUE_DRAIN_WAIT, s, box1)
             else (decide_step BEGIN_EXCLUSIVE_RESET, s, box1))
        else case mb_peek_next_manual_retry box of
            Some m \<Rightarrow> ((decide_step CONTINUE_MANUAL)\<lparr>d_manual_request := request_id m\<rparr>, s, box)
          | None \<Rightarrow>
              if sweep_cursor \<noteq> CursorEnd then (decide_step CONTINUE_SWEEP_PAGE, s, box)
              else case mb_consume_auto_rescan box of (auto, box1) \<Rightarrow>
                if auto then (decide_step CONTINUE_AUTO, s, box1)
                else if 0 < n_documents (mb_counts box1) then (decide_step CONTINUE_DOCUMENT, s, box1)
                else (decide_step RELEASED, s\<lparr>busy := False, busy_owner := NoOwner\<rparr>, box1))"

subsection \<open>Fences of a drain that cannot advance\<close>

definition fence_manual_drain ::
    "pystr \<Rightarrow> pystr list \<Rightarrow> pystr \<Rightarrow> (pipeline_status \<Rightarrow> bool) option \<Rightarrow> pipeline_status \<Rightarrow> bool \<times> pipeline_status" where
  "fence_manual_drain knd scope msg precondition s =
     fence_workspace_for_recovery knd msg
       (Some \<lparr>op_kind = None, op_doc_id = None, op_doc_ids = None, op_scope = Some (join '', '' scope)\<rparr>) precondition s"

definition fence_blocked_manual_drain :: "pystr \<Rightarrow> pystr list \<Rightarrow> pipeline_status \<Rightarrow> sched_error \<times> pipeline_status" where
  "fence_blocked_manual_drain msg blocked s =
     (RecoveryRequired blocked, snd (fence_manual_drain ''manual_drain_blocked'' blocked msg None s))"

definition fence_stalled_manual_drain :: "pystr \<Rightarrow> pystr list \<Rightarrow> pipeline_status \<Rightarrow> sched_error \<times> pipeline_status" where
  "fence_stalled_manual_drain msg ids s =
     (let blocked = take MANUAL_DRAIN_STALL_SAMPLE (sort ids)
      in (RecoveryRequired blocked, snd (fence_manual_drain ''manual_drain_stalled'' blocked msg None s)))"

text \<open>\<open>live\<close> was read under an earlier hold of the lock; \<open>None\<close>: the set changed, nothing is fenced.\<close>

definition fence_stalled_enqueue_drain ::
    "pystr \<Rightarrow> (pystr, token_meta) pydict \<Rightarrow> pipeline_status \<Rightarrow> sched_error option \<times> pipeline_status" where
  "fence_stalled_enqueue_drain msg live s =
     (case fence_manual_drain MANUAL_DRAIN_ENQUEUE_STALL_FENCE
             (take MANUAL_DRAIN_ENQUEUE_STALL_SAMPLE (sort (keys live))) msg
             (Some (\<lambda>s. frozen (keys (pending_enqueue_tokens s)) = frozen (keys live))) s of
        (True, s1) \<Rightarrow> (Some (RecoveryRequired []), s1)
      | (False, s1) \<Rightarrow> (None, s1))"

subsection \<open>Fetching the next batch\<close>

text \<open>What a fetch meets while it awaits: the stores its page and its hydration read, the pages of the
  confirmation, the act of the others after it, the pages of the reset, the texts of the fences, and
  whether the remote calls of the compensations succeed.\<close>

record fetch_env =
  fe_proc :: proc_env
  fe_time :: rat
  fe_page_size :: int
  fe_read :: "doc_data \<times> doc_data"
  fe_confirm :: "(doc_data \<times> doc_data) list"
  fe_act :: interference
  fe_reset :: "reset_page_env list"
  fe_after :: interference
  fe_content :: "pystr \<Rightarrow> ds_error + json"
  fe_process :: nat
  fe_message :: pystr
  fe_rearm_ok :: bool
  fe_republish_ok :: "pi_message \<Rightarrow> bool"

type_synonym fetched = "sched_error + (batch \<times> doc_status list \<times> cursor)"

definition next_page :: "fetch_env \<Rightarrow> doc_status list \<Rightarrow> cursor \<Rightarrow> ds_error + (batch \<times> cursor)" where
  "next_page fe statuses position =
     next_scheduling_page (fe_page_size fe) (fst (fe_read fe)) (snd (fe_read fe)) statuses position"

definition rearm_auto_rescan :: "bool \<Rightarrow> mailbox \<Rightarrow> mailbox" where
  "rearm_auto_rescan ok b = (if ok then mb_request_auto_rescan b else b)"

definition republish_documents :: "(pi_message \<Rightarrow> bool) \<Rightarrow> pi_message list \<Rightarrow> mailbox \<Rightarrow> mailbox" where
  "republish_documents ok msgs b =
     fold (\<lambda>m b. if ok m then (case mb_put_document m b of Inl _ \<Rightarrow> b | Inr b1 \<Rightarrow> b1) else b) msgs b"

definition continue_sweep_page ::
    "fetch_env \<Rightarrow> doc_status list \<Rightarrow> cursor \<Rightarrow> sched_state \<Rightarrow> fetched \<times> sched_state" where
  "continue_sweep_page fe statuses position st =
     (case next_page fe statuses position of
        Inl e \<Rightarrow> (Inl (StoreError e), st\<lparr>sc_box := rearm_auto_rescan (fe_rearm_ok fe) (sc_box st)\<rparr>)
      | Inr (docs, next_pos) \<Rightarrow> (Inr (docs, statuses, next_pos), st))"

definition continue_drain_wait ::
    "fetch_env \<Rightarrow> doc_status list \<Rightarrow> cursor \<Rightarrow> drain_progress \<Rightarrow> sched_state
     \<Rightarrow> fetched \<times> drain_progress \<times> sched_state" where
  "continue_drain_wait fe statuses position p st =
     (let s = reconcile_dead_pipeline_reservations (fe_proc fe) (sc_status st);
          live = pending_enqueue_tokens s;
          (moving, p1) = (if live = [] then (True, p) else observe_enqueue (keys live) p);
          st1 = fe_act fe (st\<lparr>sc_status := s\<rparr>)
      in if moving then (Inr ([], statuses, position), p1, st1)
         else (case fence_stalled_enqueue_drain (fe_message fe) live (sc_status st1) of
                 (Some err, s2) \<Rightarrow> (Inl err, p1, st1\<lparr>sc_status := s2\<rparr>)
               | (None, s2) \<Rightarrow> (Inr ([], statuses, position), p1, st1\<lparr>sc_status := s2\<rparr>)))"

definition fresh_auto_page :: "fetch_env \<Rightarrow> fetched" where
  "fresh_auto_page fe =
     (case next_page fe AUTO_RESUME_DOC_STATUSES CursorStart of
        Inl e \<Rightarrow> Inl (StoreError e)
      | Inr (docs, next_pos) \<Rightarrow> Inr (docs, AUTO_RESUME_DOC_STATUSES, next_pos))"

text \<open>The reset once the confirmation found nothing: \<open>None\<close> while its pages have not ended.\<close>

definition reset_then_process :: "fetch_env \<Rightarrow> pystr \<Rightarrow> sched_state \<Rightarrow> fetched option \<times> sched_state" where
  "reset_then_process fe tok st =
     (case Option.bind (manual_owner (sc_status st)) mo_request of
        None \<Rightarrow> (Some (Inr ([], AUTO_RESUME_DOC_STATUSES, CursorEnd)), st)
      | Some rid \<Rightarrow>
          (case run_exclusive_failed_reset (fe_page_size fe) (fe_content fe) (fe_process fe) (fe_reset fe) tok st of
             (None, st1) \<Rightarrow> (None, st1)
           | (Some (Inl e), st1) \<Rightarrow> (Some (Inl e), st1)
           | (Some (Inr done), st1) \<Rightarrow>
               let st2 = (if done then ack_after_reset rid tok st1 else st1)
               in (Some (fresh_auto_page fe), fe_after fe st2)))"

definition refetch_begin_exclusive_reset ::
    "fetch_env \<Rightarrow> pystr \<Rightarrow> drain_progress \<Rightarrow> sched_state \<Rightarrow> fetched option \<times> drain_progress \<times> sched_state" where
  "refetch_begin_exclusive_reset fe tok p st0 =
     (case confirm_auto_drained (fe_page_size fe) (fe_confirm fe) of
        None \<Rightarrow> (None, p, st0)
      | Some (Inl e) \<Rightarrow> (Some (Inl (StoreError e)), p, st0)
      | Some (Inr (docs, next_pos, blocking)) \<Rightarrow>
          let st = fe_act fe st0
          in if docs \<noteq> [] then
               (case observe (keys docs) p of
                  (True, p1) \<Rightarrow> (Some (Inr (docs, AUTO_RESUME_DOC_STATUSES, next_pos)), p1, st)
                | (False, p1) \<Rightarrow>
                    (case fence_stalled_manual_drain (fe_message fe) (keys docs) (sc_status st) of
                       (err, s1) \<Rightarrow> (Some (Inl err), p1, st\<lparr>sc_status := s1\<rparr>)))
             else if blocking \<noteq> [] then
               (case fence_blocked_manual_drain (fe_message fe) blocking (sc_status st) of
                  (err, s1) \<Rightarrow> (Some (Inl err), p, st\<lparr>sc_status := s1\<rparr>))
             else (case reset_then_process fe tok st of (r, st1) \<Rightarrow> (r, p, st1)))"

text \<open>The compensation of a fresh sweep that failed: the consumed flag, or the drained messages and the flag.\<close>

definition compensate :: "fetch_env \<Rightarrow> next_step \<Rightarrow> pi_message list \<Rightarrow> mailbox \<Rightarrow> mailbox" where
  "compensate fe x drained b =
     (if x = CONTINUE_AUTO then rearm_auto_rescan (fe_rearm_ok fe) b
      else if drained \<noteq> [] then
        rearm_auto_rescan (fe_rearm_ok fe) (republish_documents (fe_republish_ok fe) drained b)
      else b)"

definition start_fresh_sweep ::
    "fetch_env \<Rightarrow> decision \<Rightarrow> pystr \<Rightarrow> sched_state \<Rightarrow> fetched \<times> sched_state" where
  "start_fresh_sweep fe dec tok st =
     (let (begun, s1) = (if d_step dec = CONTINUE_MANUAL
                         then begin_manual_drain (fe_proc fe) (fe_time fe) (d_manual_request dec) tok (sc_status st)
                         else (True, sc_status st));
          st1 = st\<lparr>sc_status := s1\<rparr>
      in if \<not> begun then (Inr ([], AUTO_RESUME_DOC_STATUSES, CursorEnd), st1)
         else let (drained, box1) = (if d_step dec = CONTINUE_DOCUMENT
                                     then mb_drain_documents (Some FEEDER_DRAIN_LIMIT) (sc_box st1)
                                     else ([], sc_box st1))
              in (case fresh_auto_page fe of
                    Inl err \<Rightarrow> (Inl err, st1\<lparr>sc_box := compensate fe (d_step dec) drained box1\<rparr>)
                  | Inr r \<Rightarrow> (Inr r, st1\<lparr>sc_box := box1\<rparr>)))"

definition refetch_for_decision ::
    "fetch_env \<Rightarrow> decision \<Rightarrow> doc_status list \<Rightarrow> cursor \<Rightarrow> pystr \<Rightarrow> drain_progress \<Rightarrow> sched_state
     \<Rightarrow> fetched option \<times> drain_progress \<times> sched_state" where
  "refetch_for_decision fe dec statuses position tok p st =
     (if d_step dec = CONTINUE_SWEEP_PAGE then
        (case continue_sweep_page fe statuses position st of (r, st1) \<Rightarrow> (Some r, p, st1))
      else if d_step dec = CONTINUE_DRAIN_WAIT then
        (case continue_drain_wait fe statuses position p st of (r, p1, st1) \<Rightarrow> (Some r, p1, st1))
      else if d_step dec = BEGIN_EXCLUSIVE_RESET then refetch_begin_exclusive_reset fe tok p st
      else (case start_fresh_sweep fe dec tok st of (r, st1) \<Rightarrow> (Some r, p, st1)))"

subsection \<open>A run\<close>

text \<open>The local variables of a run that its end depends on.\<close>

record run_vars =
  rv_token :: pystr
  rv_holds_busy :: bool
  rv_released :: bool
  rv_uncommitted :: bool

definition run_flags :: "pipeline_status \<Rightarrow> pipeline_status" where
  "run_flags = reset_run_flags ''Default Job''"

text \<open>The entry: the slot, then the earliest manual request (which begins its drain) or the auto flag.\<close>

definition run_entry ::
    "proc_env \<Rightarrow> rat \<Rightarrow> run_vars \<Rightarrow> pipeline_status \<times> mailbox \<Rightarrow> run_vars \<times> pipeline_status \<times> mailbox" where
  "run_entry e now rv sb =
     (case sb of (s, box) \<Rightarrow>
        case mb_peek_next_manual_retry box of
          Some m \<Rightarrow> (rv\<lparr>rv_uncommitted := False\<rparr>, snd (begin_manual_drain e now (request_id m) (rv_token rv) s), box)
        | None \<Rightarrow> (case mb_consume_auto_rescan box of
            (absorbed, box1) \<Rightarrow> (rv\<lparr>rv_uncommitted := absorbed\<rparr>, s, box1)))"

definition after_entry_scan :: "batch \<Rightarrow> run_vars \<Rightarrow> run_vars" where
  "after_entry_scan docs rv = rv\<lparr>rv_uncommitted := rv_uncommitted rv \<and> docs \<noteq> []\<rparr>"

definition after_refetch :: "next_step \<Rightarrow> batch \<Rightarrow> run_vars \<Rightarrow> run_vars" where
  "after_refetch x docs rv =
     rv\<lparr>rv_uncommitted := (x = CONTINUE_AUTO \<or> x = CONTINUE_DOCUMENT) \<and> docs \<noteq> []\<rparr>"

text \<open>The validator: what it does with the documents of a batch. \<open>strict\<close>: the store of the contents can confirm
  an absence; \<open>delete_ok\<close>: the deletion of a row succeeds.\<close>

datatype doc_verdict = Journaled | KeepFailed | Absent | Unconfirmed | Usable json

definition verdict :: "bool \<Rightarrow> doc_processing \<Rightarrow> json \<Rightarrow> doc_verdict" where
  "verdict strict p c =
     (if custom_chunk_patch (dp_metadata p) \<noteq> None then Journaled
      else if truthy c then Usable c
      else if dp_status p = JStr (status_value FAILED) then KeepFailed
      else if strict then Absent else Unconfirmed)"

fun verdicts ::
    "bool \<Rightarrow> (pystr \<Rightarrow> ds_error + json) \<Rightarrow> batch \<Rightarrow> ds_error + (pystr \<times> doc_processing \<times> doc_verdict) list" where
  "verdicts strict content [] = Inr []"
| "verdicts strict content ((k, p) # rest) =
     (if custom_chunk_patch (dp_metadata p) \<noteq> None
      then map_sum id (Cons (k, p, Journaled)) (verdicts strict content rest)
      else case content k of
          Inl e \<Rightarrow> Inl e
        | Inr c \<Rightarrow> map_sum id (Cons (k, p, verdict strict p c)) (verdicts strict content rest))"

definition needs_reset :: "doc_processing \<Rightarrow> bool" where
  "needs_reset p \<longleftrightarrow>
     (\<exists>t\<in>set [PROCESSING, FAILED, PARSING, ANALYZING]. dp_status p = JStr (status_value t))
     \<or> dp_status p = JStr (status_value PENDING) \<and> metadata_has_attempt_fields (dp_metadata p)"

definition mirror_reset :: "doc_processing \<Rightarrow> json \<Rightarrow> doc_processing" where
  "mirror_reset p c =
     p\<lparr>dp_status := JStr (status_value PENDING), dp_file_path := JStr (resolve_doc_file_path (dp_file_path p) c),
       dp_metadata := JObj (reset_metadata (dp_metadata p))\<rparr>"

definition kept_doc :: "(pystr \<Rightarrow> bool) \<Rightarrow> pystr \<times> doc_processing \<times> doc_verdict \<Rightarrow> bool" where
  "kept_doc delete_ok kpv =
     (case kpv of (k, p, Usable c) \<Rightarrow> True | (k, p, Absent) \<Rightarrow> \<not> delete_ok k | _ \<Rightarrow> False)"

definition reset_row :: "pystr \<Rightarrow> pystr \<times> doc_processing \<times> doc_verdict \<Rightarrow> (pystr \<times> row_fields) option" where
  "reset_row now kpv =
     (case kpv of
        (k, p, Usable c) \<Rightarrow> if needs_reset p then Some (k, build_pending_reset_update now p c) else None
      | _ \<Rightarrow> None)"

definition kept_row :: "pystr \<times> doc_processing \<times> doc_verdict \<Rightarrow> pystr \<times> doc_processing" where
  "kept_row kpv =
     (case kpv of
        (k, p, Usable c) \<Rightarrow> (k, if needs_reset p then mirror_reset p c else p)
      | (k, p, _) \<Rightarrow> (k, p))"

definition deleted_ids :: "(pystr \<Rightarrow> bool) \<Rightarrow> (pystr \<times> doc_processing \<times> doc_verdict) list \<Rightarrow> pystr list" where
  "deleted_ids delete_ok vs = map fst (filter (\<lambda>(k, p, v). v = Absent \<and> delete_ok k) vs)"

definition validate_and_fix ::
    "bool \<Rightarrow> (pystr \<Rightarrow> ds_error + json) \<Rightarrow> (pystr \<Rightarrow> bool) \<Rightarrow> pystr \<Rightarrow> nat \<Rightarrow> write_outcome \<Rightarrow> batch \<Rightarrow> doc_store
     \<Rightarrow> (ds_error + batch) \<times> doc_store" where
  "validate_and_fix strict content delete_ok now i w docs s =
     (case verdicts strict content docs of
        Inl e \<Rightarrow> (Inl e, s)
      | Inr vs \<Rightarrow>
          let s1 = fold (\<lambda>k s. delete_docs [k] s) (deleted_ids delete_ok vs) s
          in (case upsert i w (List.map_filter (reset_row now) vs) s1 of
                (Some e, s2) \<Rightarrow> (Inl e, s2)
              | (None, s2) \<Rightarrow> (Inr (map kept_row (filter (kept_doc delete_ok) vs)), s2)))"

text \<open>The end of a run (\<open>_finalize\<close>).\<close>

definition run_finalize ::
    "bool \<Rightarrow> run_vars \<Rightarrow> pipeline_status \<times> mailbox \<Rightarrow> pipeline_status \<times> mailbox" where
  "run_finalize rearm_ok rv sb =
     (case sb of (s, box) \<Rightarrow>
        if \<not> rv_holds_busy rv then (s, box)
        else
          let box1 = (if rv_uncommitted rv then rearm_auto_rescan rearm_ok box else box);
              owner = reservation_owner_token (busy_owner s);
              mine = (\<not> rv_released rv \<and> owner = Some (rv_token rv));
              s1 = (if mine then manual_idle (s\<lparr>busy := False, busy_owner := NoOwner\<rparr>) else s);
              owner1 = (if mine then None else owner)
          in if owner1 \<noteq> None \<and> owner1 \<noteq> Some (rv_token rv) \<or> \<not> rv_released rv \<and> \<not> mine then (s, box1)
             else (s1\<lparr>cancellation_requested := False, cancellation_reason := None\<rparr>, box1))"

text \<open>The cancellation met at the top of the loop; the answer says whether the run ends.\<close>

definition loop_top_cancel :: "pipeline_status \<Rightarrow> bool \<times> pipeline_status" where
  "loop_top_cancel s =
     (if cancellation_requested s then (True, s\<lparr>cancellation_requested := False, cancellation_reason := None\<rparr>)
      else (False, s))"

end
