(* ===== verification/GateLaws.thy ===== *)
theory GateLaws
  imports Scheduler
begin

text \<open>
  What the reservations keep, whatever the users of the pipeline do concurrently. \<open>gate_step\<close> is any step
  of any of them, in any process; \<open>gate_ok\<close> is what holds in every state it reaches: one holder of the
  slot, never a flag without an owner, uploads kept out of what would lose them, and the exclusive
  reset of failed documents alone with the store.
\<close>

subsection \<open>Users\<close>

text \<open>A token is made by one call (\<open>uuid4\<close>): it has one user.\<close>

datatype pipe_user =
    Uploader | ScanEnqueue | Repairer | Clearer | BatchDeleter | SingleRetrier | ChunkWriter | SingleDeleter
  | AdminWriter | Processor | ScanReset | Scanner

definition holder :: "(pystr \<Rightarrow> pipe_user) \<Rightarrow> pipeline_status \<Rightarrow> pipe_user option" where
  "holder u s = map_option u (reservation_owner_token (busy_owner s))"

definition run_users :: "pipe_user set" where
  "run_users = {Processor, ChunkWriter, SingleDeleter, ScanReset}"

abbreviation destructive_users :: "pipe_user set" where
  "destructive_users \<equiv> {Clearer, BatchDeleter, SingleRetrier}"

definition held_by :: "(pystr \<Rightarrow> pipe_user) \<Rightarrow> owner_value \<Rightarrow> pipe_user option" where
  "held_by u bo = map_option u (reservation_owner_token bo)"

text \<open>The parts of the invariant, over the fields they speak of: the busy slot, the scanning slot, the in-flight
  enqueues and the manual retry. \<open>d\<close>: the run that holds the freeze has seen the enqueues at zero.\<close>

definition busy_part :: "(pystr \<Rightarrow> pipe_user) \<Rightarrow> bool \<Rightarrow> bool \<Rightarrow> owner_value \<Rightarrow> bool" where
  "busy_part u b db bo \<longleftrightarrow>
     (b \<longleftrightarrow> bo \<noteq> NoOwner) \<and> (bo \<noteq> NoOwner \<longrightarrow> reservation_owner_token bo \<noteq> None)
     \<and> (db \<longleftrightarrow> held_by u bo \<in> {Some Clearer, Some BatchDeleter, Some SingleRetrier})
     \<and> (reservation_owner_kind bo = Some ''processing'' \<longrightarrow> held_by u bo \<in> Some ` run_users)"

definition scan_part :: "(pystr \<Rightarrow> pipe_user) \<Rightarrow> bool \<Rightarrow> owner_value \<Rightarrow> bool \<Rightarrow> bool \<Rightarrow> owner_value \<Rightarrow> bool" where
  "scan_part u db bo sc ex so \<longleftrightarrow>
     (sc \<longleftrightarrow> so \<noteq> NoOwner) \<and> (ex \<longrightarrow> sc) \<and> (ex \<longrightarrow> bo = NoOwner \<or> held_by u bo = Some ScanReset)
     \<and> (db \<longrightarrow> \<not> sc)"

definition enqueue_part ::
    "(pystr \<Rightarrow> pipe_user) \<Rightarrow> nat \<Rightarrow> (pystr, token_meta) pydict \<Rightarrow> bool \<Rightarrow> bool \<Rightarrow> bool" where
  "enqueue_part u n toks db ex \<longleftrightarrow>
     n = length toks \<and> dict_ok toks \<and> (db \<longrightarrow> toks = []) \<and> (ex \<longrightarrow> (\<forall>t\<in>set (keys toks). u t = ScanEnqueue))"

definition manual_part ::
    "bool \<Rightarrow> bool \<Rightarrow> manual_phase \<Rightarrow> manual_owner_record option \<Rightarrow> owner_value \<Rightarrow> (pystr, token_meta) pydict
     \<Rightarrow> bool \<Rightarrow> bool" where
  "manual_part fz rs ph mo bo toks d \<longleftrightarrow>
     (fz \<longleftrightarrow> mo \<noteq> None) \<and> (fz \<longleftrightarrow> ph \<noteq> MANUAL_PHASE_IDLE) \<and> (rs \<longleftrightarrow> ph = MANUAL_PHASE_EXCLUSIVE_RESET)
     \<and> (fz \<longrightarrow> map_option mo_token mo = reservation_owner_token bo \<and> reservation_owner_kind bo = Some ''processing'')
     \<and> (d \<longrightarrow> fz \<and> toks = []) \<and> (ph = MANUAL_PHASE_EXCLUSIVE_RESET \<longrightarrow> d)"

definition gate_ok :: "(pystr \<Rightarrow> pipe_user) \<Rightarrow> pipeline_status \<Rightarrow> bool \<Rightarrow> bool" where
  "gate_ok u s d \<longleftrightarrow>
     busy_part u (busy s) (destructive_busy s) (busy_owner s)
     \<and> scan_part u (destructive_busy s) (busy_owner s) (scanning s) (scanning_exclusive s) (scanning_owner s)
     \<and> enqueue_part u (pending_enqueues s) (pending_enqueue_tokens s) (destructive_busy s) (scanning_exclusive s)
     \<and> manual_part (manual_freeze_requested s) (manual_resetting s) (manual_phase s) (manual_owner s)
         (busy_owner s) (pending_enqueue_tokens s) d"

named_theorems gate_parts "how the parts of the gate invariant change"

lemmas gate_defs = gate_ok_def busy_part_def scan_part_def enqueue_part_def manual_part_def held_by_def

lemma owner_simps [simp]:
  "reservation_owner_token NoOwner = None" "reservation_owner_token (OwnerRecord r) = ow_token r"
  "reservation_owner_kind NoOwner = None" "reservation_owner_kind (OwnerRecord r) = ow_kind r"
  "ow_token (make_owner_record e t k) = Some t" "ow_kind (make_owner_record e t k) = Some k"
  "mo_token (make_manual_owner_record e rid t) = t"
  by (simp_all add: reservation_owner_token_def reservation_owner_kind_def make_owner_record_def
      make_manual_owner_record_def Let_def)

lemma free_busy [gate_parts]: "busy_part u False False NoOwner"
  by (simp add: busy_part_def held_by_def)

lemma no_scan [gate_parts]: "scan_part u db bo False False NoOwner"
  by (simp add: scan_part_def)

lemma free_scan [gate_parts]: "scan_part u db bo sc ex so \<Longrightarrow> scan_part u False NoOwner sc ex so"
  by (auto simp: scan_part_def)

lemma not_exclusive [gate_parts]: "scan_part u db bo sc ex so \<Longrightarrow> scan_part u db bo sc False so"
  by (auto simp: scan_part_def)

lemma enqueue_weaker [gate_parts]:
  "enqueue_part u n toks db ex \<Longrightarrow> enqueue_part u n toks False ex"
  "enqueue_part u n toks db ex \<Longrightarrow> enqueue_part u n toks db False"
  "enqueue_part u n toks db ex \<Longrightarrow> enqueue_part u (length toks) toks db ex"
  by (simp_all add: enqueue_part_def)

lemma enqueue_filter [gate_parts]:
  "enqueue_part u n toks db ex \<Longrightarrow> enqueue_part u (length (filter P toks)) (filter P toks) db ex"
  by (auto simp: enqueue_part_def distinct_map_filter)

lemma manual_idle_part [gate_parts]: "manual_part False False MANUAL_PHASE_IDLE None bo toks False"
  by (simp add: manual_part_def)

lemma manual_filter [gate_parts]:
  "manual_part fz rs ph mo bo toks d \<Longrightarrow> manual_part fz rs ph mo bo (filter P toks) d"
  by (auto simp: manual_part_def)

lemma manual_less: "manual_part fz rs ph mo bo toks d \<Longrightarrow> manual_part fz rs ph mo bo toks (d \<and> fz)"
  by (auto simp: manual_part_def)

lemma gate_ok_initial: "gate_ok u initialize_pipeline_status False"
  by (simp add: gate_defs initialize_pipeline_status_def)

subsection \<open>Dead processes\<close>

lemma gate_ok_clear_busy: "gate_ok u s d \<Longrightarrow> gate_ok u (clear_slot BusySlot s) False"
  by (auto simp: gate_ok_def manual_idle_def intro: gate_parts)

lemma gate_ok_clear_scan: "gate_ok u s d \<Longrightarrow> gate_ok u (clear_slot ScanSlot s) d"
  by (auto simp: gate_ok_def intro: gate_parts)

lemma gate_ok_recovery [simp]: "gate_ok u (s\<lparr>recovery_required := x\<rparr>) d = gate_ok u s d"
  by (simp add: gate_ok_def)

lemma gate_ok_less: "gate_ok u s d \<Longrightarrow> gate_ok u s (d \<and> manual_freeze_requested s)"
  by (simp add: gate_ok_def manual_less)

lemma gate_ok_reap: "gate_ok u s d \<Longrightarrow> gate_ok u (reap_tokens e s) d"
  by (auto simp: gate_ok_def reap_tokens_def Let_def intro: gate_parts)

lemma clear_frozen [simp]:
  "manual_freeze_requested (clear_slot BusySlot s) = False"
  "manual_freeze_requested (clear_slot ScanSlot s) = manual_freeze_requested s"
  "manual_freeze_requested (reap_tokens e s) = manual_freeze_requested s"
  by (simp_all add: manual_idle_def reap_tokens_def Let_def)

lemma gate_ok_reclaim_busy:
  assumes "gate_ok u s d"
  shows "gate_ok u (reclaim_slot e BusySlot s) (d \<and> manual_freeze_requested (reclaim_slot e BusySlot s))"
proof (cases "reclaim_slot e BusySlot s = s")
  case True
  then show ?thesis using gate_ok_less [OF assms] by simp
next
  case False
  then show ?thesis using gate_ok_clear_busy [OF assms] gate_ok_less [OF assms]
    by (auto simp: reclaim_slot_def dead_reservation_updates_def Let_def simp del: clear_slot.simps
        split: owner_value.splits option.splits)
qed

lemma gate_ok_reclaim_scan:
  assumes "gate_ok u s d"
  shows "gate_ok u (reclaim_slot e ScanSlot s) d"
    and "manual_freeze_requested (reclaim_slot e ScanSlot s) = manual_freeze_requested s"
  using gate_ok_clear_scan [OF assms] assms
  by (auto simp: reclaim_slot_def dead_reservation_updates_def Let_def simp del: clear_slot.simps
      split: owner_value.splits option.splits)

lemma gate_ok_reconcile:
  assumes "gate_ok u s d"
  shows "gate_ok u (reconcile_dead_pipeline_reservations e s)
    (d \<and> manual_freeze_requested (reconcile_dead_pipeline_reservations e s))"
proof -
  note b = gate_ok_reclaim_busy [OF assms, of e]
  note c = gate_ok_reclaim_scan [OF b, of e]
  show ?thesis
    using gate_ok_reap [OF c(1), of e] c(2) gate_ok_less [OF assms]
    by (simp add: reconcile_dead_pipeline_reservations_def)
qed

subsection \<open>What the primitives may do\<close>

lemma reject_or_cases:
  "reject_or rej s go_on st = go_on \<and> (\<forall>x\<in>set rej. \<not> status_flag (fst x) s) \<or> snd (reject_or rej s go_on st) = st"
  by (induction rej s go_on st rule: reject_or.induct) (auto split: sum.splits)

lemma acquire_cases:
  assumes "acquire_reservation e k t (Some kd) flags rej ing rm s = (res, s')"
  obtains "s' = s" | "s' = reconcile_dead_pipeline_reservations e s"
  | r where "r = reconcile_dead_pipeline_reservations e s" "\<forall>x\<in>set rej. \<not> status_flag (fst x) r"
      "s' = set_slot_owner k (OwnerRecord (make_owner_record e t kd)) (flags r)"
proof -
  define r where "r = reconcile_dead_pipeline_reservations e s"
  define taken where "taken = set_slot_owner k (OwnerRecord (make_owner_record e t kd)) (flags r)"
  define inner where "inner = (case (if rm then Option.bind ing mb_peek_next_manual_retry else None) of
      None \<Rightarrow> (Inr (granted taken), taken)
    | Some m \<Rightarrow> (case request_id m of
          None \<Rightarrow> (Inl ResTypeError, r)
        | Some rid \<Rightarrow> (Inr (refused ConflictManualFreeze
            (''An earlier manual retry request ('' @ take 8 rid
             @ '') is still queued. A scan must not jump the manual retry FIFO ''
             @ ''- retry once it has been served.'') None r), r)))"
  have i: "snd inner = taken \<or> snd inner = r"
    by (simp add: inner_def split: option.split)
  have "s' = snd (acquire_reservation e k t (Some kd) flags rej ing rm s)" using assms by simp
  also have "\<dots> = (if rm \<and> ing = None then s else if recovery_required r \<noteq> None then r else snd (reject_or rej r inner r))"
    unfolding acquire_reservation_def Let_def r_def [symmetric] option.case taken_def [symmetric] inner_def [symmetric]
    by simp
  finally have "s' = s \<or> s' = r \<or> s' = taken \<and> (\<forall>x\<in>set rej. \<not> status_flag (fst x) r)"
    using reject_or_cases [of rej r inner r] i by (simp split: if_splits) metis
  then show thesis using that unfolding r_def taken_def by blast
qed

lemma enqueue_cases:
  assumes "acquire_enqueue_reservation e t rej w c a kd s = (res, s')"
  obtains "s' = s" | "s' = reconcile_dead_pipeline_reservations e s"
  | r m where "r = reconcile_dead_pipeline_reservations e s"
      "t \<notin> set (keys (pending_enqueue_tokens r)) \<Longrightarrow> \<forall>x\<in>set rej. \<not> status_flag (fst x) r"
      "s' = set_tokens (AList.update t m (pending_enqueue_tokens r)) r"
proof -
  define r where "r = reconcile_dead_pipeline_reservations e s"
  define inner where "inner = register_token e t w c (case a of None \<Rightarrow> 0 | Some n \<Rightarrow> n) kd r"
  define rej1 where "rej1 = (if has_key (pending_enqueue_tokens r) t then [] else rej)"
  have i: "snd inner = r \<or> (\<exists>m. snd inner = set_tokens (AList.update t m (pending_enqueue_tokens r)) r)"
    by (auto simp: inner_def register_token_def Let_def)
  have "s' = snd (acquire_enqueue_reservation e t rej w c a kd s)" using assms by simp
  also have "\<dots> = (if 0 < c \<and> a = None then s
      else if recovery_required r \<noteq> None \<and> \<not> stall_fence_exempts_reserved_token r (Some t) then r
      else snd (reject_or rej1 r inner r))"
    unfolding acquire_enqueue_reservation_def Let_def r_def [symmetric] inner_def [symmetric] rej1_def [symmetric]
    by simp
  finally have "s' = s \<or> s' = r \<or> s' = snd inner \<and> (\<forall>x\<in>set rej1. \<not> status_flag (fst x) r)"
    using reject_or_cases [of rej1 r inner r] by (simp split: if_splits) metis
  then have "s' = s \<or> s' = r \<or> s' = snd inner
      \<and> (t \<notin> set (keys (pending_enqueue_tokens r)) \<longrightarrow> (\<forall>x\<in>set rej. \<not> status_flag (fst x) r))"
    by (simp add: rej1_def has_key_iff split: if_splits)
  then show thesis using that i unfolding r_def by metis
qed

lemma keep_deferred: "(s :: pipeline_status)\<lparr>scan_deferred_processing := scan_deferred_processing s\<rparr> = s"
  by (rule pipeline_status.equality) simp_all

lemma processing_cases:
  assumes "acquire_processing_reservation e t held ok flags so (s, b) = (res, s', b')"
  obtains "s' = reconcile_dead_pipeline_reservations e s"
  | "s' = (reconcile_dead_pipeline_reservations e s)\<lparr>scan_deferred_processing := True\<rparr>"
  | r x where "r = reconcile_dead_pipeline_reservations e s" "held \<or> \<not> busy r"
      "held \<or> so \<noteq> None \<and> reservation_owner_token (scanning_owner r) = so \<or> \<not> scanning_exclusive r"
      "s' = (flags r)\<lparr>busy := True, busy_owner := OwnerRecord (make_owner_record e t ''processing''),
             scan_deferred_processing := x\<rparr>"
proof -
  define r where "r = reconcile_dead_pipeline_reservations e s"
  define owns where "owns \<longleftrightarrow> so \<noteq> None \<and> reservation_owner_token (scanning_owner r) = so"
  define taken where "taken = (flags r)\<lparr>busy := True, busy_owner := OwnerRecord (make_owner_record e t ''processing'')\<rparr>"
  have "s' = fst (snd (acquire_processing_reservation e t held ok flags so (s, b)))" using assms by simp
  also have "\<dots> = (if recovery_required r \<noteq> None then r
      else if \<not> held \<and> \<not> owns \<and> scanning_exclusive r then r\<lparr>scan_deferred_processing := True\<rparr>
      else if \<not> held \<and> busy r then r
      else if owns then taken else taken\<lparr>scan_deferred_processing := False\<rparr>)"
    unfolding acquire_processing_reservation_def Let_def fst_conv snd_conv r_def [symmetric] owns_def [symmetric]
      taken_def [symmetric]
    by simp
  finally have "s' = r \<or> s' = r\<lparr>scan_deferred_processing := True\<rparr> \<or>
      (held \<or> \<not> busy r) \<and> (held \<or> owns \<or> \<not> scanning_exclusive r)
      \<and> (\<exists>x. s' = taken\<lparr>scan_deferred_processing := x\<rparr>)"
    using keep_deferred [of taken] by (metis)
  then show thesis using that unfolding r_def owns_def taken_def by blast
qed

subsection \<open>What they keep\<close>

abbreviation keeps :: "(pystr \<Rightarrow> pipe_user) \<Rightarrow> bool \<Rightarrow> pipeline_status \<Rightarrow> bool" where
  "keeps u d s \<equiv> gate_ok u s (d \<and> manual_freeze_requested s)"

lemma free_slot:
  assumes "gate_ok u s d" "\<not> busy s"
  shows "busy_owner s = NoOwner" "\<not> destructive_busy s" "\<not> manual_freeze_requested s"
    "manual_phase s = MANUAL_PHASE_IDLE" "\<not> manual_resetting s" "manual_owner s = None" "\<not> d"
proof -
  have b: "busy_part u (busy s) (destructive_busy s) (busy_owner s)"
    and m: "manual_part (manual_freeze_requested s) (manual_resetting s) (manual_phase s) (manual_owner s)
        (busy_owner s) (pending_enqueue_tokens s) d"
    using assms(1) by (simp_all add: gate_ok_def)
  show o: "busy_owner s = NoOwner" using b assms(2) unfolding busy_part_def by blast
  then show "\<not> destructive_busy s" using b by (simp add: busy_part_def held_by_def)
  show f: "\<not> manual_freeze_requested s" using m o unfolding manual_part_def by auto
  then show "manual_phase s = MANUAL_PHASE_IDLE" using m unfolding manual_part_def by blast
  then show "\<not> manual_resetting s" using m unfolding manual_part_def by simp
  show "manual_owner s = None" using f m unfolding manual_part_def by blast
  show "\<not> d" using f m unfolding manual_part_def by blast
qed

text \<open>Taking the free busy slot. \<open>fl\<close> writes the flags of the user.\<close>

lemma gate_ok_take_busy:
  assumes g: "gate_ok u r d" and b: "\<not> busy r"
    and d: "destructive_busy s' \<longleftrightarrow> u t \<in> destructive_users"
    and x: "scanning_exclusive r \<Longrightarrow> u t = ScanReset"
    and k: "k = ''processing'' \<Longrightarrow> u t \<in> run_users"
    and c: "u t \<in> destructive_users \<Longrightarrow> \<not> scanning r \<and> pending_enqueue_tokens r = []"
    and s: "busy s'" "busy_owner s' = OwnerRecord (make_owner_record e t k)"
      "scanning s' = scanning r" "scanning_exclusive s' = scanning_exclusive r" "scanning_owner s' = scanning_owner r"
      "pending_enqueues s' = pending_enqueues r" "pending_enqueue_tokens s' = pending_enqueue_tokens r"
      "manual_freeze_requested s' = manual_freeze_requested r" "manual_resetting s' = manual_resetting r"
      "manual_phase s' = manual_phase r" "manual_owner s' = manual_owner r"
  shows "keeps u d' s'"
proof -
  note f = free_slot [OF g b]
  have "busy_part u True (destructive_busy s') (OwnerRecord (make_owner_record e t k))"
    using d k by (auto simp: busy_part_def held_by_def)
  moreover have "scan_part u (destructive_busy s') (OwnerRecord (make_owner_record e t k)) (scanning r)
      (scanning_exclusive r) (scanning_owner r)"
    using g c d x by (auto simp: gate_ok_def scan_part_def held_by_def)
  moreover have "enqueue_part u (pending_enqueues r) (pending_enqueue_tokens r) (destructive_busy s') (scanning_exclusive r)"
    using g c d by (auto simp: gate_ok_def enqueue_part_def)
  ultimately show ?thesis using f s by (simp add: gate_ok_def manual_part_def)
qed

lemma flag_reads [simp]:
  "status_flag ''busy'' s = busy s" "status_flag ''scanning'' s = scanning s"
  "status_flag ''scanning_exclusive'' s = scanning_exclusive s"
  "status_flag ''pending_enqueues'' s = (0 < pending_enqueues s)"
  "status_flag ''destructive_busy'' s = destructive_busy s"
  "status_flag ''manual_freeze_requested'' s = manual_freeze_requested s"
  by (simp_all add: status_flag_def)

lemma keeps_reconcile: "gate_ok u s d \<Longrightarrow> keeps u d (reconcile_dead_pipeline_reservations e s)"
  by (rule gate_ok_reconcile)

lemma keeps_self: "gate_ok u s d \<Longrightarrow> keeps u d s"
  by (rule gate_ok_less)

lemma no_tokens: "gate_ok u s d \<Longrightarrow> pending_enqueues s = 0 \<Longrightarrow> pending_enqueue_tokens s = []"
  by (simp add: gate_defs)

lemma keeps_destructive:
  assumes "gate_ok u s d" "acquire_destructive_busy e t knd op (Some s) = (res, Some s')" "u t \<in> destructive_users" "knd \<noteq> ''processing''"
  shows "keeps u d s'"
proof -
  obtain q where "acquire_reservation e BusySlot t (Some knd)
      (\<lambda>s. s\<lparr>busy := True, destructive_busy := True, operation_record := Some op\<rparr>)
      [(''busy'', ''Pipeline is busy with another operation.''),
       (''scanning'', ''Document scan is in progress. Wait for the scan to complete before clearing or deleting.''),
       (''pending_enqueues'', ''An upload/insert or a source-conflict repair is in flight. Wait for it to complete before clearing or deleting.'')]
      None False s = (q, s')"
    using assms(2) by (auto simp: acquire_destructive_busy_def split: prod.splits sum.splits)
  then show ?thesis
  proof (cases rule: acquire_cases)
    case (3 r)
    have g: "gate_ok u r (d \<and> manual_freeze_requested r)" using keeps_reconcile [OF assms(1)] 3(1) by simp
    show ?thesis
      by (rule gate_ok_take_busy [OF g, where t = t]) (use 3 assms(3,4) no_tokens [OF g] g in \<open>auto simp: gate_defs\<close>)
  qed (use assms(1) keeps_reconcile keeps_self in auto)
qed

lemma keeps_admin:
  assumes "gate_ok u s d" "acquire_admin_busy e t s = (res, s')" "u t = AdminWriter"
  shows "keeps u d s'"
  using assms(2) unfolding acquire_admin_busy_def
proof (cases rule: acquire_cases)
  case (3 r)
  have g: "gate_ok u r (d \<and> manual_freeze_requested r)" using keeps_reconcile [OF assms(1)] 3(1) by simp
  show ?thesis
    by (rule gate_ok_take_busy [OF g, where t = t]) (use 3 assms(3) free_slot [OF g] g in \<open>auto simp: gate_ok_def scan_part_def\<close>)
qed (use assms(1) keeps_reconcile keeps_self in auto)

lemma keeps_chunks:
  assumes "gate_ok u s d" "acquire_custom_chunks e t k s = (res, s')" "u t = ChunkWriter"
  shows "keeps u d s'"
  using assms(2) unfolding acquire_custom_chunks_def
proof (cases rule: acquire_cases)
  case (3 r)
  have g: "gate_ok u r (d \<and> manual_freeze_requested r)" using keeps_reconcile [OF assms(1)] 3(1) by simp
  show ?thesis
    by (rule gate_ok_take_busy [OF g, where t = t]) (use 3 assms(3) free_slot [OF g] g in \<open>auto simp: gate_ok_def scan_part_def\<close>)
qed (use assms(1) keeps_reconcile keeps_self in auto)

text \<open>The deletion of one document does not look at \<open>scanning\<close>.\<close>

lemma keeps_single_delete:
  assumes "gate_ok u s d" "acquire_single_delete e t i s = (res, s')" "u t = SingleDeleter"
    "\<not> scanning_exclusive (reconcile_dead_pipeline_reservations e s)"
  shows "keeps u d s'"
  using assms(2) unfolding acquire_single_delete_def
proof (cases rule: acquire_cases)
  case (3 r)
  have g: "gate_ok u r (d \<and> manual_freeze_requested r)" using keeps_reconcile [OF assms(1)] 3(1) by simp
  show ?thesis
    by (rule gate_ok_take_busy [OF g, where t = t]) (use 3 assms(3,4) free_slot [OF g] in auto)
qed (use assms(1) keeps_reconcile keeps_self in auto)

lemma keeps_scan:
  assumes "gate_ok u s d" "acquire_scan e t b s = (res, s')"
  shows "keeps u d s'"
  using assms(2) unfolding acquire_scan_def
proof (cases rule: acquire_cases)
  case (3 r)
  have g: "gate_ok u r (d \<and> manual_freeze_requested r)" using keeps_reconcile [OF assms(1)] 3(1) by simp
  have f: "\<not> busy r" "\<not> scanning r" "pending_enqueues r = 0" using 3(2) by auto
  show ?thesis
    using free_slot [OF g f(1)] f no_tokens [OF g f(3)] g 3(3) by (simp add: gate_defs)
qed (use assms(1) keeps_reconcile keeps_self in auto)

lemma keeps_deferred [simp]: "gate_ok u (s\<lparr>scan_deferred_processing := x\<rparr>) d = gate_ok u s d"
  by (simp add: gate_ok_def)

lemma keeps_processing:
  assumes "gate_ok u s d" "acquire_processing_reservation e t held ok (reset_run_flags job) so (s, b) = (res, s', b')"
    "\<not> held" "u t \<in> {Processor, ScanReset}" "so \<noteq> None \<Longrightarrow> u t = ScanReset"
  shows "keeps u d s'"
  using assms(2)
proof (cases rule: processing_cases)
  case (3 r x)
  have g: "gate_ok u r (d \<and> manual_freeze_requested r)" using keeps_reconcile [OF assms(1)] 3(1) by simp
  have b: "\<not> busy r" using 3(2) assms(3) by simp
  show ?thesis
    by (rule gate_ok_take_busy [OF g b, where t = t])
      (use 3 assms(3-5) free_slot [OF g b] in \<open>auto simp: reset_run_flags_def run_users_def\<close>)
qed (use assms(1) keeps_reconcile in auto)

text \<open>A run that takes over the slot of its own token.\<close>

lemma keeps_handoff:
  assumes g: "gate_ok u s d" and a: "acquire_processing_reservation e t True ok (reset_run_flags job) so (s, b) = (res, s', b')"
    and o: "reservation_owner_token (busy_owner (reconcile_dead_pipeline_reservations e s)) = Some t"
    and r: "u t \<in> run_users"
  shows "keeps u d s'"
  using a
proof (cases rule: processing_cases)
  case (3 r x)
  have g: "gate_ok u r (d \<and> manual_freeze_requested r)" using keeps_reconcile [OF g] 3(1) by simp
  have o: "reservation_owner_token (busy_owner r) = Some t" using o 3(1) by simp
  then have n: "busy_owner r \<noteq> NoOwner" by auto
  then have b: "busy r" using g by (simp add: gate_ok_def busy_part_def)
  let ?o = "OwnerRecord (make_owner_record e t ''processing'')"
  have h: "held_by u ?o = held_by u (busy_owner r)" by (simp add: held_by_def o)
  have "busy_part u True (destructive_busy r) ?o"
    using g b h o r by (simp add: gate_ok_def busy_part_def held_by_def)
  moreover have "scan_part u (destructive_busy r) ?o (scanning r) (scanning_exclusive r) (scanning_owner r)"
    using g n h by (auto simp: gate_ok_def scan_part_def)
  moreover have "manual_part (manual_freeze_requested r) (manual_resetting r) (manual_phase r) (manual_owner r) ?o
      (pending_enqueue_tokens r) (d \<and> manual_freeze_requested r)"
    using g o by (auto simp: gate_ok_def manual_part_def)
  ultimately show ?thesis using g 3 by (simp add: gate_ok_def reset_run_flags_def)
qed (use g keeps_reconcile in auto)

subsection \<open>Enqueues\<close>

lemma gate_ok_register:
  assumes g: "gate_ok u r d"
    and n: "t \<notin> set (keys (pending_enqueue_tokens r)) \<Longrightarrow>
      \<not> destructive_busy r \<and> \<not> manual_freeze_requested r \<and> (scanning_exclusive r \<longrightarrow> u t = ScanEnqueue)"
  shows "keeps u d (set_tokens (AList.update t m (pending_enqueue_tokens r)) r)"
proof -
  let ?T = "AList.update t m (pending_enqueue_tokens r)"
  have "enqueue_part u (length ?T) ?T (destructive_busy r) (scanning_exclusive r)"
    using g n by (auto simp: gate_ok_def enqueue_part_def dict_simps simp del: set_map)
  moreover have "manual_part (manual_freeze_requested r) (manual_resetting r) (manual_phase r) (manual_owner r)
      (busy_owner r) ?T (d \<and> manual_freeze_requested r)"
    using g n by (auto simp: gate_ok_def manual_part_def)
  ultimately show ?thesis using g by (simp add: gate_ok_def set_tokens_def)
qed

lemma keeps_enqueue:
  assumes g: "gate_ok u s d" and a: "acquire_enqueue_reservation e t rej w c a kd s = (res, s')"
    and n: "\<And>r. r = reconcile_dead_pipeline_reservations e s \<Longrightarrow>
       t \<notin> set (keys (pending_enqueue_tokens r)) \<Longrightarrow> \<forall>x\<in>set rej. \<not> status_flag (fst x) r \<Longrightarrow>
       \<not> destructive_busy r \<and> \<not> manual_freeze_requested r \<and> (scanning_exclusive r \<longrightarrow> u t = ScanEnqueue)"
  shows "keeps u d s'"
  using a
proof (cases rule: enqueue_cases)
  case (3 r m)
  have g: "gate_ok u r (d \<and> manual_freeze_requested r)" using keeps_reconcile [OF g] 3(1) by simp
  have "keeps u (d \<and> manual_freeze_requested r) s'"
    unfolding 3(3) by (rule gate_ok_register [OF g]) (use n [OF 3(1)] 3(2) in auto)
  then show ?thesis by (simp add: 3(3) set_tokens_def)
qed (use g keeps_reconcile keeps_self in auto)

lemma keeps_reserve:
  assumes g: "gate_ok u s d"
    and a: "reserve_enqueue_slot e t w rej c a (Some s) = (res, Some s')"
    and f: "rej = INGRESS_FENCES \<or>
      t \<in> set (keys (pending_enqueue_tokens (reconcile_dead_pipeline_reservations e s)))"
  shows "keeps u d s'"
proof -
  let ?c = "admission_capacity c"
  have "s' = s \<or> (\<exists>q. acquire_enqueue_reservation e t rej w ?c (if 0 < ?c then a else None) None s = (q, s'))"
    using a by (auto simp: reserve_enqueue_slot_def Let_def split: if_splits prod.splits sum.splits reservation_error.splits)
  then show ?thesis
  proof (elim disjE exE)
    fix q
    assume q: "acquire_enqueue_reservation e t rej w ?c (if 0 < ?c then a else None) None s = (q, s')"
    show ?thesis
      by (rule keeps_enqueue [OF g q]) (use f in \<open>auto simp: INGRESS_FENCES_def\<close>)
  qed (simp add: keeps_self [OF g])
qed

lemma keeps_ingress:
  assumes g: "gate_ok u s d" and a: "reserve_ingress_slot e fs adm minted n c a s = (res, s')"
    and f: "fs \<Longrightarrow> u (case adm of None \<Rightarrow> minted | Some t \<Rightarrow> if t = [] then minted else t) = ScanEnqueue
        \<and> \<not> busy (reconcile_dead_pipeline_reservations e s)"
  shows "keeps u d s'"
proof -
  let ?t = "case adm of None \<Rightarrow> minted | Some t \<Rightarrow> if t = [] then minted else t"
  obtain q where "acquire_enqueue_reservation e ?t (enqueue_fences fs) n c (if 0 < c then Some a else None) None s = (q, s')"
    using a by (auto simp: reserve_ingress_slot_def Let_def split: prod.splits sum.splits)
  then show ?thesis
  proof (rule keeps_enqueue [OF g])
    fix r assume r: "r = reconcile_dead_pipeline_reservations e s"
      "\<forall>x\<in>set (enqueue_fences fs). \<not> status_flag (fst x) r"
    have "\<not> manual_freeze_requested r" if fs
      using free_slot(3) [OF keeps_reconcile [OF g]] f [OF that] r(1) by blast
    then show "\<not> destructive_busy r \<and> \<not> manual_freeze_requested r \<and> (scanning_exclusive r \<longrightarrow> u ?t = ScanEnqueue)"
      using r(2) f by (cases fs) (auto simp: enqueue_fences_def)
  qed
qed

lemma keeps_repair:
  assumes g: "gate_ok u s d" and a: "repair_ingress_reservation e t s = (res, s')"
  shows "keeps u d s'"
  using a unfolding repair_ingress_reservation_def
  by (rule keeps_enqueue [OF g]) (auto simp: REPAIR_INGRESS_FENCES_def)

lemma keeps_token_release: "gate_ok u s d \<Longrightarrow> keeps u d (with_token_set_reservation_lock t s)"
  using keeps_self
  by (auto simp: with_token_set_reservation_lock_def set_tokens_def gate_ok_def delete_filter
      intro!: gate_parts manual_less)

end
