(* ===== verification/GateSteps.thy ===== *)
theory GateSteps
  imports GateLaws
begin

text \<open>
  Every step of every user of the pipeline, and that each keeps \<open>gate_ok\<close>; then what follows for the
  uploads, the destructive jobs, the scans and the exclusive reset.
\<close>

subsection \<open>Releases\<close>

lemma not_destructive:
  assumes "gate_ok u s d" "reservation_owner_token (busy_owner s) = Some t" "u t \<notin> destructive_users"
  shows "\<not> destructive_busy s"
  using assms by (auto simp: gate_ok_def busy_part_def held_by_def)

lemma not_frozen:
  assumes "gate_ok u s d" "reservation_owner_kind (busy_owner s) \<noteq> Some ''processing''"
  shows "\<not> manual_freeze_requested s"
  using assms unfolding gate_ok_def manual_part_def by blast

lemma not_a_run:
  assumes "gate_ok u s d" "reservation_owner_token (busy_owner s) = Some t" "u t \<notin> run_users"
  shows "reservation_owner_kind (busy_owner s) \<noteq> Some ''processing''"
  using assms by (auto simp: gate_ok_def busy_part_def held_by_def)

lemma keeps_free:
  assumes g: "gate_ok u s d" and f: "\<not> manual_freeze_requested s \<or> \<not> manual_freeze_requested s'
      \<and> \<not> manual_resetting s' \<and> manual_phase s' = MANUAL_PHASE_IDLE \<and> manual_owner s' = None"
    and s: "\<not> busy s'" "busy_owner s' = NoOwner" "\<not> destructive_busy s'"
      "scanning s' = scanning s" "scanning_exclusive s' = scanning_exclusive s" "scanning_owner s' = scanning_owner s"
      "pending_enqueues s' = pending_enqueues s" "pending_enqueue_tokens s' = pending_enqueue_tokens s"
    and m: "\<not> manual_freeze_requested s \<Longrightarrow> manual_freeze_requested s' = manual_freeze_requested s
      \<and> manual_resetting s' = manual_resetting s \<and> manual_phase s' = manual_phase s \<and> manual_owner s' = manual_owner s
      \<or> \<not> manual_freeze_requested s' \<and> \<not> manual_resetting s' \<and> manual_phase s' = MANUAL_PHASE_IDLE
        \<and> manual_owner s' = None"
  shows "keeps u d s'"
proof -
  have "manual_part (manual_freeze_requested s') (manual_resetting s') (manual_phase s') (manual_owner s') NoOwner
      (pending_enqueue_tokens s) (d \<and> manual_freeze_requested s')"
    using g f m unfolding gate_ok_def manual_part_def by auto
  then show ?thesis
    using g s by (auto simp: gate_ok_def intro: gate_parts)
qed

text \<open>A release by a user that is no run, or by a user whose slot no run has taken over.\<close>

lemma keeps_plain_release:
  assumes g: "gate_ok u s d" and t: "u t \<notin> destructive_users"
    and k: "u t \<notin> run_users \<or> reservation_owner_kind (busy_owner s) \<noteq> Some ''processing''"
    and s': "s' = snd (with_reservation_lock BusySlot (Some t) act s)"
    and a: "\<And>x. x = snd (act s) \<Longrightarrow> gate_ok u x d \<and> manual_freeze_requested x = manual_freeze_requested s
      \<or> x = s\<lparr>busy := False, busy_owner := NoOwner, operation_record := operation_record x,
          cancellation_requested := cancellation_requested x, cancellation_reason := cancellation_reason x\<rparr>"
  shows "keeps u d s'"
proof (cases "reservation_owner_token (busy_owner s) = Some t")
  case False
  then show ?thesis using s' keeps_self [OF g] by (simp add: with_reservation_lock_def)
next
  case True
  then have x: "s' = snd (act s)" using s' by (simp add: with_reservation_lock_def)
  have n: "\<not> manual_freeze_requested s" using k not_a_run [OF g True] not_frozen [OF g] by blast
  have nd: "\<not> destructive_busy s" by (rule not_destructive [OF g True t])
  from a [OF x] show ?thesis
  proof
    assume "gate_ok u s' d \<and> manual_freeze_requested s' = manual_freeze_requested s"
    then show ?thesis using keeps_self by blast
  next
    assume e: "s' = s\<lparr>busy := False, busy_owner := NoOwner, operation_record := operation_record s',
          cancellation_requested := cancellation_requested s', cancellation_reason := cancellation_reason s'\<rparr>"
    show ?thesis by (rule keeps_free [OF g]) (use n nd in \<open>subst e; simp\<close>)+
  qed
qed

lemma gate_ok_display [simp]:
  "gate_ok u (s\<lparr>operation_record := x\<rparr>) d = gate_ok u s d"
  "gate_ok u (s\<lparr>cancellation_requested := b\<rparr>) d = gate_ok u s d"
  "gate_ok u (s\<lparr>cancellation_reason := y\<rparr>) d = gate_ok u s d"
  "gate_ok u (s\<lparr>job_name := j\<rparr>) d = gate_ok u s d"
  by (simp_all add: gate_ok_def)

lemma keeps_admin_release:
  assumes "gate_ok u s d" "u t = AdminWriter"
  shows "keeps u d (snd (with_reservation_lock BusySlot (Some t) (\<lambda>s. ((), release_admin_busy s)) s))"
  by (rule keeps_plain_release [OF assms(1) _ _ refl])
     (use assms(2) in \<open>auto simp: run_users_def release_admin_busy_def intro!: pipeline_status.equality\<close>)

lemma keeps_chunks_exit:
  assumes "gate_ok u s d" "u t = ChunkWriter" "reservation_owner_kind (busy_owner s) \<noteq> Some ''processing''"
  shows "keeps u d (snd (with_reservation_lock BusySlot (Some t) (custom_chunks_exit box) s))"
    and "keeps u d (snd (with_reservation_lock BusySlot (Some t) (\<lambda>s. ((), custom_chunks_terminal_release s)) s))"
  by (rule keeps_plain_release [OF assms(1) _ _ refl];
      use assms in \<open>auto simp: custom_chunks_exit_def custom_chunks_terminal_release_def Let_def
        intro!: pipeline_status.equality\<close>)+

lemma keeps_delete_exit:
  assumes "gate_ok u s d" "u t = SingleDeleter" "reservation_owner_kind (busy_owner s) \<noteq> Some ''processing''"
  shows "keeps u d (snd (with_reservation_lock BusySlot (Some t) (single_delete_exit box) s))"
    and "keeps u d (snd (with_reservation_lock BusySlot (Some t) (\<lambda>s. ((), single_delete_terminal_release s)) s))"
  by (rule keeps_plain_release [OF assms(1) _ _ refl];
      use assms in \<open>auto simp: single_delete_exit_def single_delete_terminal_release_def Let_def
        intro!: pipeline_status.equality\<close>)+

lemma keeps_destructive_release:
  assumes g: "gate_ok u s d" and t: "u t \<in> destructive_users"
    and s': "s' = snd (with_reservation_lock BusySlot (Some t) act s)"
    and a: "snd (act s) = (release_destructive_action s)\<lparr>cancellation_requested := cancellation_requested (snd (act s))\<rparr>"
  shows "keeps u d s'"
proof (cases "reservation_owner_token (busy_owner s) = Some t")
  case False
  then show ?thesis using s' keeps_self [OF g] by (simp add: with_reservation_lock_def)
next
  case True
  then have x: "s' = (release_destructive_action s)\<lparr>cancellation_requested := cancellation_requested s'\<rparr>"
    using s' a by (simp add: with_reservation_lock_def)
  have n: "\<not> manual_freeze_requested s"
    using not_frozen [OF g] not_a_run [OF g True] t by (auto simp: run_users_def)
  show ?thesis
    by (rule keeps_free [OF g]) (use n in \<open>subst x; simp add: release_destructive_action_def\<close>)+
qed

subsection \<open>Steps of a run\<close>

lemma keeps_begin:
  assumes g: "gate_ok u s d" and b: "begin_manual_drain e now rid t s = (ok, s')"
    and k: "reservation_owner_kind (busy_owner s) = Some ''processing''"
    and p: "manual_phase s \<noteq> MANUAL_PHASE_EXCLUSIVE_RESET"
  shows "keeps u d s'"
proof (cases "reservation_owner_token (busy_owner s) = Some t")
  case False
  then show ?thesis using b keeps_self [OF g] by (auto simp: begin_manual_drain_def with_reservation_lock_def)
next
  case True
  then have "s' = s\<lparr>manual_freeze_requested := True, manual_freeze_started_at := Some now, manual_resetting := False,
      manual_phase := MANUAL_PHASE_DRAIN_TO_IDLE, manual_owner := Some (make_manual_owner_record e rid t)\<rparr>"
    using b by (auto simp: begin_manual_drain_def with_reservation_lock_def)
  then show ?thesis using g True k by (auto simp: gate_ok_def manual_part_def)
qed

lemma keeps_end:
  assumes g: "gate_ok u s d"
  shows "keeps u d (end_manual_drain t s)"
  using g keeps_self [OF g]
  by (auto simp: end_manual_drain_def with_reservation_lock_def manual_idle_def gate_ok_def intro: gate_parts)

lemma keeps_enter:
  assumes g: "gate_ok u s d" and d: "d"
  shows "keeps u d (snd (enter_exclusive_reset t s))"
proof -
  have "manual_freeze_requested s" using g d unfolding gate_ok_def manual_part_def by blast
  then show ?thesis
    using g d keeps_self [OF g]
    by (auto simp: enter_exclusive_reset_def with_reservation_lock_def gate_ok_def manual_part_def)
qed

lemma keeps_decide:
  assumes g: "gate_ok u s d" and a: "decide_pipeline_next_step cur (s, b) = (dec, s', b')"
    and o: "reservation_owner_token (busy_owner s) = Some t" "u t \<in> run_users"
    and p: "manual_phase s \<noteq> MANUAL_PHASE_EXCLUSIVE_RESET"
  shows "gate_ok u s' ((d \<or> d_step dec = BEGIN_EXCLUSIVE_RESET) \<and> manual_freeze_requested s')"
proof -
  have m: "manual_freeze_requested s \<longleftrightarrow> manual_phase s = MANUAL_PHASE_DRAIN_TO_IDLE"
    using g p by (cases "manual_phase s") (auto simp: gate_ok_def manual_part_def)
  have "s' = s \<and> (d_step dec = BEGIN_EXCLUSIVE_RESET \<longrightarrow> pending_enqueues s = 0)
      \<or> \<not> manual_freeze_requested s \<and> d_step dec \<noteq> BEGIN_EXCLUSIVE_RESET
        \<and> s' = s\<lparr>busy := False, busy_owner := NoOwner\<rparr>"
    using a m
    by (auto simp: decide_pipeline_next_step_def decide_step_def split: if_splits option.splits prod.splits)
  then show ?thesis
  proof
    assume s: "s' = s \<and> (d_step dec = BEGIN_EXCLUSIVE_RESET \<longrightarrow> pending_enqueues s = 0)"
    then show ?thesis
      using g keeps_self [OF g] no_tokens [OF g] by (auto simp: gate_ok_def manual_part_def)
  next
    assume s: "\<not> manual_freeze_requested s \<and> d_step dec \<noteq> BEGIN_EXCLUSIVE_RESET
        \<and> s' = s\<lparr>busy := False, busy_owner := NoOwner\<rparr>"
    have "\<not> destructive_busy s" by (rule not_destructive [OF g o(1)]) (use o(2) in \<open>auto simp: run_users_def\<close>)
    then have "keeps u d s'" by (intro keeps_free [OF g]) (use s in auto)
    then show ?thesis using s by simp
  qed
qed

lemma keeps_run_release:
  assumes g: "gate_ok u s d" and t: "u t \<in> run_users" "reservation_owner_token (busy_owner s) = Some t"
  shows "keeps u d (manual_idle (s\<lparr>busy := False, busy_owner := NoOwner\<rparr>))"
proof -
  have "\<not> destructive_busy s" by (rule not_destructive [OF g t(2)]) (use t(1) in \<open>auto simp: run_users_def\<close>)
  then show ?thesis by (intro keeps_free [OF g]) (auto simp: manual_idle_def)
qed

lemma keeps_finalize:
  assumes g: "gate_ok u s d" and a: "run_finalize ok rv (s, b) = (s', b')" and t: "u (rv_token rv) \<in> run_users"
  shows "keeps u d s'"
proof -
  have "s' = s \<or> s' = s\<lparr>cancellation_requested := False, cancellation_reason := None\<rparr>
      \<or> reservation_owner_token (busy_owner s) = Some (rv_token rv)
        \<and> s' = (manual_idle (s\<lparr>busy := False, busy_owner := NoOwner\<rparr>))
            \<lparr>cancellation_requested := False, cancellation_reason := None\<rparr>"
    using a by (auto simp: run_finalize_def Let_def split: if_splits)
  then show ?thesis
    using keeps_self [OF g] keeps_run_release [OF g t] by auto
qed

lemma keeps_scan_reset_release:
  assumes g: "gate_ok u s d" and t: "u t \<in> run_users"
  shows "keeps u d (scan_reset_release t s)"
  using keeps_self [OF g] keeps_run_release [OF g t]
  by (auto simp: scan_reset_release_def with_reservation_lock_def)

subsection \<open>Any interleaving\<close>

text \<open>The status, the mailbox, and whether the run that holds the freeze has seen the in-flight enqueues at
  zero. A step writes a status and a mailbox; what was seen is forgotten with the freeze.\<close>

record gate =
  g_status :: pipeline_status
  g_box :: mailbox
  g_seen :: bool

definition write_gate :: "pipeline_status \<Rightarrow> mailbox \<Rightarrow> bool \<Rightarrow> gate" where
  "write_gate s b d = \<lparr>g_status = s, g_box = b, g_seen = d \<and> manual_freeze_requested s\<rparr>"

text \<open>
  The steps, for the users \<open>u\<close> of the tokens. What the calling code sees to is a premise: a re-weight is by a
  holder of its token; a scan enqueues while it classifies, its own reset over; the deletion of one
  document does not start in the middle of a classification (the code does not look); a run begins a
  drain, decides and hands over while it holds the slot, and not in the middle of its reset; what
  handed its slot to a run releases it when the run has not taken it over, or is through with it.
\<close>

inductive gate_step :: "(pystr \<Rightarrow> pipe_user) \<Rightarrow> gate \<Rightarrow> gate \<Rightarrow> bool" for u where
  reserve: "reserve_enqueue_slot e t w INGRESS_FENCES c a (Some (g_status g)) = (res, Some s')
    \<Longrightarrow> gate_step u g (write_gate s' (g_box g) (g_seen g))"
| reweight: "reweight_enqueue_slot e t w c a (Some (g_status g)) = (res, Some s')
    \<Longrightarrow> t \<in> set (keys (pending_enqueue_tokens (reconcile_dead_pipeline_reservations e (g_status g))))
    \<Longrightarrow> gate_step u g (write_gate s' (g_box g) (g_seen g))"
| enqueue: "reserve_ingress_slot e False adm minted n c a (g_status g) = (res2, s')
    \<Longrightarrow> gate_step u g (write_gate s' (g_box g) (g_seen g))"
| scan_enqueue: "reserve_ingress_slot e True None minted n c a (g_status g) = (res2, s')
    \<Longrightarrow> u minted = ScanEnqueue \<Longrightarrow> \<not> busy (reconcile_dead_pipeline_reservations e (g_status g))
    \<Longrightarrow> gate_step u g (write_gate s' (g_box g) (g_seen g))"
| repair: "repair_ingress_reservation e t (g_status g) = (res3, s')
    \<Longrightarrow> gate_step u g (write_gate s' (g_box g) (g_seen g))"
| release_token: "gate_step u g (write_gate (with_token_set_reservation_lock t (g_status g)) (g_box g) (g_seen g))"
| check: "check_pipeline_status_mutation e rej ex (g_status g) = (res3, s')
    \<Longrightarrow> gate_step u g (write_gate s' (g_box g) (g_seen g))"
| destructive: "acquire_destructive_busy e t knd op (Some (g_status g)) = (res4, Some s')
    \<Longrightarrow> u t = Clearer \<and> knd = ''clear'' \<or> u t = BatchDeleter \<and> knd = ''delete'' \<or> u t = SingleRetrier \<and> knd = ''retry''
    \<Longrightarrow> gate_step u g (write_gate s' (g_box g) (g_seen g))"
| clear_done: "u t = Clearer \<Longrightarrow> gate_step u g (write_gate (clear_release t (g_status g)) (g_box g) (g_seen g))"
| delete_done: "u t = BatchDeleter \<Longrightarrow> delete_release box (Some t) (Some (g_status g)) = (r, Some s')
    \<Longrightarrow> gate_step u g (write_gate s' (g_box g) (g_seen g))"
| destructive_abandoned: "u t \<in> destructive_users \<Longrightarrow> release_destructive_busy t (Some (g_status g)) = Some s'
    \<Longrightarrow> gate_step u g (write_gate s' (g_box g) (g_seen g))"
| chunks: "acquire_custom_chunks e t k (g_status g) = (res3, s') \<Longrightarrow> u t = ChunkWriter
    \<Longrightarrow> gate_step u g (write_gate s' (g_box g) (g_seen g))"
| chunks_exit: "u t = ChunkWriter \<Longrightarrow> reservation_owner_kind (busy_owner (g_status g)) \<noteq> Some ''processing''
    \<Longrightarrow> with_reservation_lock BusySlot (Some t) (custom_chunks_exit box) (g_status g) = (r2, s')
    \<Longrightarrow> gate_step u g (write_gate s' (g_box g) (g_seen g))"
| chunks_done: "u t = ChunkWriter \<Longrightarrow> reservation_owner_kind (busy_owner (g_status g)) \<noteq> Some ''processing''
    \<Longrightarrow> with_reservation_lock BusySlot (Some t) (\<lambda>s. ((), custom_chunks_terminal_release s)) (g_status g) = (r3, s')
    \<Longrightarrow> gate_step u g (write_gate s' (g_box g) (g_seen g))"
| single_delete: "acquire_single_delete e t i (g_status g) = (res3, s') \<Longrightarrow> u t = SingleDeleter
    \<Longrightarrow> \<not> scanning_exclusive (reconcile_dead_pipeline_reservations e (g_status g))
    \<Longrightarrow> gate_step u g (write_gate s' (g_box g) (g_seen g))"
| single_delete_exit: "u t = SingleDeleter
    \<Longrightarrow> reservation_owner_kind (busy_owner (g_status g)) \<noteq> Some ''processing''
    \<Longrightarrow> with_reservation_lock BusySlot (Some t) (single_delete_exit box) (g_status g) = (r2, s')
    \<Longrightarrow> gate_step u g (write_gate s' (g_box g) (g_seen g))"
| single_delete_done: "u t = SingleDeleter
    \<Longrightarrow> reservation_owner_kind (busy_owner (g_status g)) \<noteq> Some ''processing''
    \<Longrightarrow> with_reservation_lock BusySlot (Some t) (\<lambda>s. ((), single_delete_terminal_release s)) (g_status g) = (r3, s')
    \<Longrightarrow> gate_step u g (write_gate s' (g_box g) (g_seen g))"
| admin: "acquire_admin_busy e t (g_status g) = (res3, s') \<Longrightarrow> u t = AdminWriter
    \<Longrightarrow> gate_step u g (write_gate s' (g_box g) (g_seen g))"
| admin_done: "u t = AdminWriter
    \<Longrightarrow> with_reservation_lock BusySlot (Some t) (\<lambda>s. ((), release_admin_busy s)) (g_status g) = (r3, s')
    \<Longrightarrow> gate_step u g (write_gate s' (g_box g) (g_seen g))"
| scan: "acquire_scan e t (g_box g) (g_status g) = (res3, s')
    \<Longrightarrow> gate_step u g (write_gate s' (g_box g) (g_seen g))"
| scan_classified: "gate_step u g (write_gate (snd (transition_scanning_reservation t (g_status g))) (g_box g) (g_seen g))"
| scan_done: "release_scanning_reservation t (Some (g_status g)) = Some s'
    \<Longrightarrow> gate_step u g (write_gate s' (g_box g) (g_seen g))"
| start_run: "acquire_processing_reservation e t False ok (reset_run_flags j) None (g_status g, g_box g) = (res3, s', b')
    \<Longrightarrow> u t = Processor \<Longrightarrow> gate_step u g (write_gate s' b' (g_seen g))"
| hand_over: "acquire_processing_reservation e t True ok (reset_run_flags j) None (g_status g, g_box g) = (res3, s', b')
    \<Longrightarrow> u t \<in> {ChunkWriter, SingleDeleter}
    \<Longrightarrow> reservation_owner_token (busy_owner (reconcile_dead_pipeline_reservations e (g_status g))) = Some t
    \<Longrightarrow> gate_step u g (write_gate s' b' (g_seen g))"
| scan_reset: "acquire_processing_reservation e t False ok (reset_run_flags j) so (g_status g, g_box g) = (res3, s', b')
    \<Longrightarrow> u t = ScanReset \<Longrightarrow> gate_step u g (write_gate s' b' (g_seen g))"
| begin_drain: "begin_manual_drain e now rid t (g_status g) = (ok, s')
    \<Longrightarrow> reservation_owner_kind (busy_owner (g_status g)) = Some ''processing''
    \<Longrightarrow> manual_phase (g_status g) \<noteq> MANUAL_PHASE_EXCLUSIVE_RESET
    \<Longrightarrow> gate_step u g (write_gate s' (g_box g) (g_seen g))"
| decide: "decide_pipeline_next_step cur (g_status g, g_box g) = (dec, s', b')
    \<Longrightarrow> reservation_owner_token (busy_owner (g_status g)) = Some t \<Longrightarrow> u t \<in> run_users
    \<Longrightarrow> manual_phase (g_status g) \<noteq> MANUAL_PHASE_EXCLUSIVE_RESET
    \<Longrightarrow> gate_step u g (write_gate s' b' (g_seen g \<or> d_step dec = BEGIN_EXCLUSIVE_RESET))"
| scan_confirm: "manual_freeze_requested (g_status g) \<Longrightarrow> pending_enqueues (g_status g) = 0
    \<Longrightarrow> gate_step u g (write_gate (g_status g) (g_box g) True)"
| enter_reset: "g_seen g
    \<Longrightarrow> gate_step u g (write_gate (snd (enter_exclusive_reset t (g_status g))) (g_box g) (g_seen g))"
| end_drain: "gate_step u g (write_gate (end_manual_drain t (g_status g)) (g_box g) (g_seen g))"
| run_done: "run_finalize ok rv (g_status g, g_box g) = (s', b') \<Longrightarrow> u (rv_token rv) \<in> run_users
    \<Longrightarrow> gate_step u g (write_gate s' b' (g_seen g))"
| scan_reset_done: "u t = ScanReset
    \<Longrightarrow> gate_step u g (write_gate (scan_reset_release t (g_status g)) (g_box g) (g_seen g))"
| dead: "gate_step u g (write_gate (reconcile_dead_pipeline_reservations e (g_status g)) (g_box g) (g_seen g))"
| set_fence: "fence_workspace_for_recovery kd msg oi pre (g_status g) = (fenced, s')
    \<Longrightarrow> gate_step u g (write_gate s' (g_box g) (g_seen g))"
| cancel: "gate_step u g (write_gate (snd (cancel_pipeline (g_status g))) (g_box g) (g_seen g))"
| cancelled: "gate_step u g (write_gate (snd (loop_top_cancel (g_status g))) (g_box g) (g_seen g))"
| force_reset: "force_reset_recovery True True ok (Some (g_status g), g_box g) = (rep, Some s', b')
    \<Longrightarrow> gate_step u g (write_gate s' b' (g_seen g))"
| mail: "gate_step u g (write_gate (g_status g) b' (g_seen g))"

inductive_cases gate_stepE: "gate_step u g g'"

inductive gate_reach :: "(pystr \<Rightarrow> pipe_user) \<Rightarrow> gate \<Rightarrow> bool" for u where
  start: "gate_reach u (write_gate initialize_pipeline_status b False)"
| step: "gate_reach u g \<Longrightarrow> gate_step u g g' \<Longrightarrow> gate_reach u g'"

abbreviation gate_inv :: "(pystr \<Rightarrow> pipe_user) \<Rightarrow> gate \<Rightarrow> bool" where
  "gate_inv u g \<equiv> gate_ok u (g_status g) (g_seen g)"

lemma write_simps [simp]:
  "g_status (write_gate s b d) = s" "g_box (write_gate s b d) = b"
  "g_seen (write_gate s b d) = (d \<and> manual_freeze_requested s)"
  by (simp_all add: write_gate_def)

lemma keeps_check:
  assumes "gate_ok u s d" "check_pipeline_status_mutation e rej ex s = (res, s')"
  shows "keeps u d s'"
proof -
  let ?r = "reconcile_dead_pipeline_reservations e s"
  have "snd (reject_or l ?r (x, ?r) ?r) = ?r" for l x
    using reject_or_cases [of l ?r "(x, ?r)" ?r] by (metis snd_conv)
  then have "snd (check_pipeline_status_mutation e rej ex s) = ?r"
    by (simp add: check_pipeline_status_mutation_def Let_def)
  then have "s' = ?r" using assms(2) by simp
  then show ?thesis using keeps_reconcile [OF assms(1)] by simp
qed

lemma keeps_force_reset:
  assumes g: "gate_ok u s d" and a: "force_reset_recovery True True ok (Some s, b) = (rep, Some s', b')"
  shows "keeps u d s'"
proof -
  have "s' = s \<or> s' = force_reset_status s \<or> s' = set_tokens (force_reset_kept s) (force_reset_status s)"
    using a by (auto simp: force_reset_recovery_def Let_def split: if_splits option.splits prod.splits)
  moreover have "enqueue_part u (pending_enqueues s) (pending_enqueue_tokens s) False False"
    using g by (auto simp: gate_ok_def enqueue_part_def)
  ultimately show ?thesis
    using keeps_self [OF g]
    by (auto simp: gate_ok_def force_reset_status_def manual_idle_def set_tokens_def force_reset_kept_def
        intro: gate_parts)
qed

lemma gate_step_inv: "gate_step u g g' \<Longrightarrow> gate_inv u g \<Longrightarrow> gate_inv u g'"
proof (induction rule: gate_step.induct)
  case (reserve e t w c a g res s')
  then show ?case using keeps_reserve by simp
next
  case (reweight e t w c a g res s')
  have "s' = g_status g \<or> reserve_enqueue_slot e t w [] c a (Some (g_status g)) = (res, Some s')"
    using reweight(1) by (simp add: reweight_enqueue_slot_def split: if_splits)
  then show ?case
  proof
    assume "s' = g_status g"
    then show ?case using keeps_self [OF reweight(3)] by simp
  next
    assume r: "reserve_enqueue_slot e t w [] c a (Some (g_status g)) = (res, Some s')"
    show ?case using keeps_reserve [OF reweight(3) r] reweight(2) by simp
  qed
next
  case (enqueue e adm minted n c a g res2 s')
  then show ?case using keeps_ingress [OF enqueue(2) enqueue(1)] by simp
next
  case (scan_enqueue e minted n c a g res2 s')
  then show ?case using keeps_ingress [OF scan_enqueue(4) scan_enqueue(1)] by simp
next
  case (repair e t g res3 s')
  then show ?case using keeps_repair by simp
next
  case (release_token t g)
  then show ?case using keeps_token_release by simp
next
  case (check e rej ex g res3 s')
  then show ?case using keeps_check by simp
next
  case (destructive e t knd op g res4 s')
  then show ?case using keeps_destructive [OF destructive(3) destructive(1)] by auto
next
  case (clear_done t g)
  then show ?case
    using keeps_destructive_release [OF clear_done(2) _ refl, of t "\<lambda>s. ((), release_destructive_action s)"]
    by (simp add: clear_release_def release_destructive_action_def)
next
  case (delete_done t box g r s')
  then have "s' = snd (with_reservation_lock BusySlot (Some t)
      (\<lambda>s. (ingress_has_work box, (release_destructive_action s)\<lparr>cancellation_requested := False\<rparr>)) (g_status g))"
    by (auto simp: delete_release_def release_owned_reservation_def map_prod_def split: prod.splits)
  from keeps_destructive_release [OF delete_done(3) _ this] show ?case using delete_done(1)
    by (simp add: release_destructive_action_def)
next
  case (destructive_abandoned t g s')
  then have "s' = snd (with_reservation_lock BusySlot (Some t) (\<lambda>s. ((), release_destructive_action s)) (g_status g))"
    by (auto simp: release_destructive_busy_def release_owned_reservation_def map_prod_def split: prod.splits)
  from keeps_destructive_release [OF destructive_abandoned(3) _ this] show ?case using destructive_abandoned(1)
    by (simp add: release_destructive_action_def)
next
  case (chunks e t k g res3 s')
  then show ?case using keeps_chunks by simp
next
  case (chunks_exit t g box r2 s')
  then show ?case using keeps_chunks_exit(1) [OF chunks_exit(4) chunks_exit(1,2), of box] by simp
next
  case (chunks_done t g r3 s')
  then show ?case using keeps_chunks_exit(2) [OF chunks_done(4) chunks_done(1,2)] by simp
next
  case (single_delete e t i g res3 s')
  then show ?case using keeps_single_delete by simp
next
  case (single_delete_exit t g box r2 s')
  then show ?case using keeps_delete_exit(1) [OF single_delete_exit(4) single_delete_exit(1,2), of box] by simp
next
  case (single_delete_done t g r3 s')
  then show ?case using keeps_delete_exit(2) [OF single_delete_done(4) single_delete_done(1,2)] by simp
next
  case (admin e t g res3 s')
  then show ?case using keeps_admin by simp
next
  case (admin_done t g r3 s')
  then show ?case using keeps_admin_release [OF admin_done(3) admin_done(1)] by simp
next
  case (scan e t g res3 s')
  then show ?case using keeps_scan by simp
next
  case (scan_classified t g)
  then show ?case
    using keeps_self by (auto simp: transition_scanning_reservation_def gate_ok_def intro: gate_parts manual_less)
next
  case (scan_done t g s')
  then have "s' = g_status g \<or> s' = release_scanning_action (g_status g)"
    by (auto simp: release_scanning_reservation_def release_owned_reservation_def with_reservation_lock_def
        split: if_splits)
  then show ?case
    using scan_done(2) keeps_self
    by (auto simp: release_scanning_action_def gate_ok_def intro: gate_parts manual_less)
next
  case (start_run e t ok j g res3 s' b')
  then show ?case using keeps_processing [OF start_run(3) start_run(1)] by simp
next
  case (hand_over e t ok j g res3 s' b')
  then show ?case using keeps_handoff [OF hand_over(4) hand_over(1,3)] by (auto simp: run_users_def)
next
  case (scan_reset e t ok j so g res3 s' b')
  then show ?case using keeps_processing [OF scan_reset(3) scan_reset(1)] by simp
next
  case (begin_drain e now rid t g ok s')
  then show ?case using keeps_begin [OF begin_drain(4) begin_drain(1-3)] by simp
next
  case (decide cur g dec s' b' t)
  then show ?case using keeps_decide [OF decide(5) decide(1-4)] by simp
next
  case (scan_confirm g)
  then show ?case
    using no_tokens [OF scan_confirm(3,2)] by (auto simp: gate_ok_def manual_part_def)
next
  case (enter_reset g t)
  then show ?case using keeps_enter [OF enter_reset(2,1)] by simp
next
  case (end_drain t g)
  then show ?case using keeps_end by simp
next
  case (run_done ok rv g s' b')
  then show ?case using keeps_finalize [OF run_done(3) run_done(1,2)] by simp
next
  case (scan_reset_done t g)
  then show ?case using keeps_scan_reset_release [OF scan_reset_done(2)] by (simp add: run_users_def)
next
  case (dead e g)
  then show ?case using keeps_reconcile by simp
next
  case (set_fence kd msg oi pre g fenced s')
  then show ?case
    using keeps_self by (auto simp: fence_workspace_for_recovery_def split: if_splits)
next
  case (cancel g)
  then show ?case using keeps_self by (auto simp: cancel_pipeline_def)
next
  case (cancelled g)
  then show ?case using keeps_self by (auto simp: loop_top_cancel_def)
next
  case (force_reset ok g rep s' b')
  then show ?case using keeps_force_reset by simp
next
  case (mail g b')
  then show ?case using keeps_self by simp
qed

lemma gate_reach_inv: "gate_reach u g \<Longrightarrow> gate_inv u g"
proof (induction rule: gate_reach.induct)
  case (start b)
  then show ?case using keeps_self [OF gate_ok_initial] by simp
next
  case (step g g')
  then show ?case using gate_step_inv by blast
qed

subsection \<open>The promises\<close>

text \<open>A run that serves a manual retry, up to its exclusive reset, in one process.\<close>

definition one_process :: proc_env where
  "one_process = \<lparr>my_pid = 7, my_start = None, has_psutil = True, probe = (\<lambda>_. ProcRunning), start_of = (\<lambda>_. None),
     is_multiprocess = False, on_linux = True\<rparr>"

definition quiet_box :: mailbox where
  "quiet_box = \<lparr>document_capacity = 4, manual_capacity = 4, documents = [], document_overflows = 0,
     auto_rescan_pending = False, manual_retries = [], terminals = \<lparr>tcapacity = 4, tids = []\<rparr>\<rparr>"

definition run_status :: pipeline_status where
  "run_status = initialize_pipeline_status\<lparr>busy := True, busy_owner := OwnerRecord (make_owner_record one_process ''t'' ''processing''),
     job_name := ''Default Job''\<rparr>"

definition drain_status :: pipeline_status where
  "drain_status = run_status\<lparr>manual_freeze_requested := True, manual_freeze_started_at := Some 5,
     manual_phase := MANUAL_PHASE_DRAIN_TO_IDLE, manual_owner := Some (make_manual_owner_record one_process (Some ''r'') ''t'')\<rparr>"

definition reset_status :: pipeline_status where
  "reset_status = drain_status\<lparr>manual_resetting := True, manual_phase := MANUAL_PHASE_EXCLUSIVE_RESET\<rparr>"

lemma no_reclaim: "reconcile_dead_pipeline_reservations one_process s = s"
  by (simp add: reconcile_dead_pipeline_reservations_def reservation_recovery_enabled_def one_process_def)

lemma reach_run: "gate_reach (\<lambda>_. Processor) (write_gate run_status quiet_box False)"
proof -
  have "acquire_processing_reservation one_process ''t'' False True (reset_run_flags ''Default Job'') None
      (initialize_pipeline_status, quiet_box) = (Inr (granted run_status), run_status, quiet_box)"
    by (simp add: acquire_processing_reservation_def Let_def no_reclaim reset_run_flags_def
        run_status_def initialize_pipeline_status_def)
  then have "gate_step (\<lambda>_. Processor) (write_gate initialize_pipeline_status quiet_box False)
      (write_gate run_status quiet_box (g_seen (write_gate initialize_pipeline_status quiet_box False)))"
    by (intro gate_step.start_run) simp_all
  from gate_reach.step [OF gate_reach.start this] show ?thesis by (simp add: write_gate_def)
qed

lemma reach_drain: "gate_reach (\<lambda>_. Processor) (write_gate drain_status quiet_box False)"
proof -
  have "begin_manual_drain one_process 5 (Some ''r'') ''t'' run_status = (True, drain_status)"
    by (simp add: begin_manual_drain_def with_reservation_lock_def drain_status_def run_status_def
        initialize_pipeline_status_def)
  then have "gate_step (\<lambda>_. Processor) (write_gate run_status quiet_box False)
      (write_gate drain_status quiet_box (g_seen (write_gate run_status quiet_box False)))"
    by (subst (2) write_simps(2) [of run_status quiet_box False, symmetric], intro gate_step.begin_drain)
       (simp_all add: run_status_def initialize_pipeline_status_def)
  from gate_reach.step [OF reach_run this] show ?thesis by (simp add: write_gate_def)
qed

lemma reach_idle: "gate_reach (\<lambda>_. Processor) (write_gate drain_status quiet_box True)"
proof -
  have "decide_pipeline_next_step CursorEnd (drain_status, quiet_box)
      = (decide_step BEGIN_EXCLUSIVE_RESET, drain_status, quiet_box)"
    by (simp add: decide_pipeline_next_step_def drain_status_def run_status_def initialize_pipeline_status_def
        mb_consume_auto_rescan_def mb_counts_def quiet_box_def)
  then have "gate_step (\<lambda>_. Processor) (write_gate drain_status quiet_box False)
      (write_gate drain_status quiet_box (g_seen (write_gate drain_status quiet_box False)
         \<or> d_step (decide_step BEGIN_EXCLUSIVE_RESET) = BEGIN_EXCLUSIVE_RESET))"
    by (intro gate_step.decide [where t = "''t''"])
       (simp_all add: drain_status_def run_status_def initialize_pipeline_status_def run_users_def)
  from gate_reach.step [OF reach_drain this] show ?thesis by (simp add: write_gate_def decide_step_def)
qed

lemma frozen_statuses: "manual_freeze_requested drain_status" "manual_freeze_requested reset_status"
    "manual_phase reset_status = MANUAL_PHASE_EXCLUSIVE_RESET"
  by (simp_all add: reset_status_def drain_status_def)

lemma reach_reset: "gate_reach (\<lambda>_. Processor) (write_gate reset_status quiet_box True)"
proof -
  have e: "snd (enter_exclusive_reset ''t'' drain_status) = reset_status"
    by (simp add: enter_exclusive_reset_def with_reservation_lock_def reset_status_def drain_status_def run_status_def
        initialize_pipeline_status_def)
  have "g_seen (write_gate drain_status quiet_box True)" by (simp add: drain_status_def)
  then have "gate_step (\<lambda>_. Processor) (write_gate drain_status quiet_box True)
      (write_gate (snd (enter_exclusive_reset ''t'' (g_status (write_gate drain_status quiet_box True))))
         (g_box (write_gate drain_status quiet_box True)) (g_seen (write_gate drain_status quiet_box True)))"
    by (rule gate_step.enter_reset)
  from gate_reach.step [OF reach_idle this] show ?thesis by (simp add: write_gate_def e frozen_statuses)
qed





end
