(* ===== verification/ReservationLaws.thy ===== *)
theory ReservationLaws
  imports PipelineUsers
begin

text \<open>
  What the reservations promise one caller: the recovery fence stops everybody, admission stays within the
  capacity, a reservation is taken from dead processes only, a scan is the first in the queue of the
  manual retries. What holds under any interleaving of the callers is in \<^theory_text>\<open>GateSteps\<close>.
\<close>

subsection \<open>Reconciliation\<close>

lemma reconcile_tokens:
  "pending_enqueue_tokens (reclaim_slot e k s) = pending_enqueue_tokens s"
  "pending_enqueues (reclaim_slot e k s) = pending_enqueues s"
  by (cases k; simp add: reclaim_slot_def dead_reservation_updates_def manual_idle_def Let_def
      split: owner_value.splits)+

lemma reap_fields [simp]:
  "slot_owner k (reap_tokens e s) = slot_owner k s" "slot_flagged k (reap_tokens e s) = slot_flagged k s"
  "recovery_required (reap_tokens e s) = recovery_required s"
  by (cases k; simp add: reap_tokens_def Let_def)+

lemma reap_alive:
  "pending_enqueue_tokens (reap_tokens e s)
     = filter (\<lambda>(t, m). process_alive e (tm_pid m) (tm_start m)) (pending_enqueue_tokens s)"
  "pending_enqueues (reap_tokens e s) = length (pending_enqueue_tokens (reap_tokens e s))"
proof -
  have "length (filter P xs) = length xs \<Longrightarrow> filter P xs = xs" for P and xs :: "'x list"
    by (metis filter_id_conv length_filter_less less_irrefl)
  from this [of "\<lambda>(t, m). process_alive e (tm_pid m) (tm_start m)" "pending_enqueue_tokens s"]
  show "pending_enqueue_tokens (reap_tokens e s)
     = filter (\<lambda>(t, m). process_alive e (tm_pid m) (tm_start m)) (pending_enqueue_tokens s)"
    "pending_enqueues (reap_tokens e s) = length (pending_enqueue_tokens (reap_tokens e s))"
    unfolding reap_tokens_def Let_def by (auto split: if_splits)
qed

lemma other_slot:
  assumes "k \<noteq> j"
  shows "slot_owner k (reclaim_slot e j s) = slot_owner k s"
    and "slot_flagged k (reclaim_slot e j s) = slot_flagged k s"
  using assms
  by (cases k; cases j; simp add: reclaim_slot_def dead_reservation_updates_def manual_idle_def Let_def
      split: owner_value.splits)+

lemma reconcile_off: "\<not> reservation_recovery_enabled e \<Longrightarrow> reconcile_dead_pipeline_reservations e s = s"
  by (simp add: reconcile_dead_pipeline_reservations_def)

lemma reconcile_on:
  "reservation_recovery_enabled e \<Longrightarrow> reconcile_dead_pipeline_reservations e s
     = reap_tokens e (reclaim_slot e ScanSlot (reclaim_slot e BusySlot s))"
  by (simp add: reconcile_dead_pipeline_reservations_def)

lemma reconcile_dict_ok:
  "dict_ok (pending_enqueue_tokens s) \<Longrightarrow> dict_ok (pending_enqueue_tokens (reconcile_dead_pipeline_reservations e s))"
  by (simp add: reconcile_dead_pipeline_reservations_def reap_alive reconcile_tokens distinct_map_filter)

text \<open>What a reclaim does to its own slot depends on that slot, and on the fence only by keeping it.\<close>

definition leaves_fence :: "proc_env \<Rightarrow> slot \<Rightarrow> owner_value \<Rightarrow> bool" where
  "leaves_fence e k v =
     (case v of
        OwnerRecord rec \<Rightarrow>
          if process_alive e (ow_pid rec) (ow_start rec) then owner_identity_unprobeable rec
          else ow_kind rec \<notin> Some ` set RERUNNABLE_RESERVATION_KINDS
      | _ \<Rightarrow> False)"

lemma clear_slot_simps [simp]:
  "slot_owner k (clear_slot k s) = NoOwner" "\<not> slot_flagged k (clear_slot k s)"
  "recovery_required (clear_slot k s) = recovery_required s"
  by (cases k; simp add: manual_idle_def)+

lemma fence_update [simp]:
  "slot_owner k (s\<lparr>recovery_required := x\<rparr>) = slot_owner k s"
  "slot_flagged k (s\<lparr>recovery_required := x\<rparr>) = slot_flagged k s"
  by (cases k; simp)+

lemma dead_updates [simp]:
  "slot_owner k (dead_reservation_updates k rec s) = NoOwner"
  "\<not> slot_flagged k (dead_reservation_updates k rec s)"
  by (simp_all add: dead_reservation_updates_def Let_def)

lemma dead_updates_fence:
  "recovery_required (dead_reservation_updates k rec s) \<noteq> None
     \<longleftrightarrow> recovery_required s \<noteq> None \<or> ow_kind rec \<notin> Some ` set RERUNNABLE_RESERVATION_KINDS"
  by (auto simp: dead_reservation_updates_def Let_def split: option.splits)

lemma reclaim_own:
  assumes "slot_owner k s = slot_owner k s'" "slot_flagged k s = slot_flagged k s'"
  shows "slot_owner k (reclaim_slot e k s) = slot_owner k (reclaim_slot e k s')"
    and "slot_flagged k (reclaim_slot e k s) = slot_flagged k (reclaim_slot e k s')"
  using assms by (simp_all add: reclaim_slot_def split: owner_value.split)

lemma reclaim_fence_iff:
  "recovery_required (reclaim_slot e k s) \<noteq> None \<longleftrightarrow>
     recovery_required s \<noteq> None \<or> slot_flagged k s \<and> leaves_fence e k (slot_owner k s)"
  by (auto simp: reclaim_slot_def leaves_fence_def dead_updates_fence simp del: not_None_eq split: owner_value.split)

lemma fence_stays: "recovery_required s \<noteq> None \<Longrightarrow> recovery_required (reclaim_slot e k s) \<noteq> None"
  unfolding reclaim_fence_iff by blast

lemma reclaim_live:
  assumes "slot_owner k s = OwnerRecord rec" "process_alive e (ow_pid rec) (ow_start rec)"
  shows "slot_owner k (reclaim_slot e k s) = OwnerRecord rec"
    and "slot_flagged k (reclaim_slot e k s) = slot_flagged k s"
  using assms by (simp_all add: reclaim_slot_def)

lemma reclaim_dead:
  assumes "slot_owner k s = OwnerRecord rec" "slot_flagged k s" "\<not> process_alive e (ow_pid rec) (ow_start rec)"
  shows "slot_owner k (reclaim_slot e k s) = NoOwner" "\<not> slot_flagged k (reclaim_slot e k s)"
    and "ow_kind rec \<notin> Some ` set RERUNNABLE_RESERVATION_KINDS \<Longrightarrow> recovery_required (reclaim_slot e k s) \<noteq> None"
  using assms by (simp_all add: reclaim_slot_def dead_updates_fence del: not_None_eq)

lemma reconcile_slot:
  assumes "reservation_recovery_enabled e"
  shows "slot_owner k (reconcile_dead_pipeline_reservations e s) = slot_owner k (reclaim_slot e k s)"
    and "slot_flagged k (reconcile_dead_pipeline_reservations e s) = slot_flagged k (reclaim_slot e k s)"
  by (cases k; simp only: reconcile_on [OF assms] reap_fields other_slot slot.distinct not_False_eq_True
      reclaim_own [of ScanSlot "reclaim_slot e BusySlot s" s])+

lemma reconcile_fence:
  assumes "reservation_recovery_enabled e" "recovery_required (reclaim_slot e k s) \<noteq> None"
  shows "recovery_required (reconcile_dead_pipeline_reservations e s) \<noteq> None"
  using assms
proof (cases k)
  case BusySlot
  then show ?thesis unfolding reconcile_on [OF assms(1)] reap_fields using fence_stays assms(2) by blast
next
  case ScanSlot
  show ?thesis
    unfolding reconcile_on [OF assms(1)] reap_fields reclaim_fence_iff
    using assms(2) unfolding ScanSlot reclaim_fence_iff by (simp add: other_slot del: not_None_eq slot_owner.simps slot_flagged.simps)
qed

text \<open>C10. Only the dead lose a reservation. Where recovery is on, a slot whose holder is alive (its process runs
  and is still the one that started then) keeps its holder and its flags; a slot whose holder is dead is freed,
  and when the dead operation cannot simply be run again the workspace is fenced; an existing fence
  stays; of the in-flight uploads exactly those of live processes remain, and they are counted.\<close>

theorem only_the_dead_lose:
  assumes "reservation_recovery_enabled e" "slot_owner k s = OwnerRecord rec" "slot_flagged k s"
  shows "(let r = reconcile_dead_pipeline_reservations e s in
      (process_alive e (ow_pid rec) (ow_start rec) \<longrightarrow> slot_owner k r = OwnerRecord rec \<and> slot_flagged k r)
      \<and> (\<not> process_alive e (ow_pid rec) (ow_start rec) \<longrightarrow> slot_owner k r = NoOwner \<and> \<not> slot_flagged k r
           \<and> (ow_kind rec \<notin> Some ` set RERUNNABLE_RESERVATION_KINDS \<longrightarrow> recovery_required r \<noteq> None))
      \<and> (recovery_required s \<noteq> None \<longrightarrow> recovery_required r \<noteq> None)
      \<and> pending_enqueue_tokens r
          = filter (\<lambda>(t, m). process_alive e (tm_pid m) (tm_start m)) (pending_enqueue_tokens s)
      \<and> pending_enqueues r = length (pending_enqueue_tokens r))"
proof -
  have t: "pending_enqueue_tokens (reconcile_dead_pipeline_reservations e s)
      = filter (\<lambda>(t, m). process_alive e (tm_pid m) (tm_start m)) (pending_enqueue_tokens s)"
    "pending_enqueues (reconcile_dead_pipeline_reservations e s)
      = length (pending_enqueue_tokens (reconcile_dead_pipeline_reservations e s))"
    by (simp_all add: reconcile_on [OF assms(1)] reap_alive reconcile_tokens)
  have f: "recovery_required (reclaim_slot e k s) \<noteq> None
      \<Longrightarrow> recovery_required (reconcile_dead_pipeline_reservations e s) \<noteq> None"
    by (rule reconcile_fence [OF assms(1)])
  show ?thesis
    unfolding Let_def
    using t f fence_stays reclaim_live [OF assms(2)] reclaim_dead [OF assms(2,3)] assms(3)
    by (simp add: reconcile_slot [OF assms(1)])
qed

definition two_workers :: proc_env where
  "two_workers = \<lparr>my_pid = 7, my_start = Some ''70'', has_psutil = True,
     probe = (\<lambda>p. if p = 8 then ProcRunning else NoProcess), start_of = (\<lambda>p. Some ''80''),
     is_multiprocess = True, on_linux = True\<rparr>"

definition clearing_by :: "nat \<Rightarrow> pipeline_status" where
  "clearing_by p = initialize_pipeline_status\<lparr>busy := True, destructive_busy := True,
     busy_owner := OwnerRecord \<lparr>ow_token = Some ''c'', ow_pid = Some p, ow_start = Some ''80'', ow_kind = Some ''clear''\<rparr>\<rparr>"

lemma two_workers_alive:
  "process_alive two_workers (Some 8) (Some ''80'')" "\<not> process_alive two_workers (Some 9) (Some ''80'')"
  "reservation_recovery_enabled two_workers"
  by (simp_all add: two_workers_def process_alive_def pid_alive_def reservation_recovery_enabled_def)

theorem only_the_dead_lose_witness:
  "slot_flagged BusySlot (reconcile_dead_pipeline_reservations two_workers (clearing_by 8))
   \<and> recovery_required (reconcile_dead_pipeline_reservations two_workers (clearing_by 9)) \<noteq> None"
proof -
  have o: "slot_owner BusySlot (clearing_by p) = OwnerRecord
      \<lparr>ow_token = Some ''c'', ow_pid = Some p, ow_start = Some ''80'', ow_kind = Some ''clear''\<rparr>"
    "slot_flagged BusySlot (clearing_by p)" for p
    by (simp_all add: clearing_by_def)
  have k: "Some ''clear'' \<notin> Some ` set RERUNNABLE_RESERVATION_KINDS"
    by (simp add: RERUNNABLE_RESERVATION_KINDS_def)
  show ?thesis
    using only_the_dead_lose [OF two_workers_alive(3) o(1) o(2), of 8] only_the_dead_lose [OF two_workers_alive(3) o(1) o(2), of 9]
      two_workers_alive k
    unfolding Let_def owner_record.select_convs by blast
qed

subsection \<open>The recovery fence\<close>

lemma acquire_fenced:
  assumes "recovery_required (reconcile_dead_pipeline_reservations e s) \<noteq> None"
  shows "acquire_reservation e k t kd flags rej None False s
      = (Inr (recovery_required_result (reconcile_dead_pipeline_reservations e s)),
         reconcile_dead_pipeline_reservations e s)"
    and "acquire_reservation e k t kd flags rej (Some b) rm s
      = (Inr (recovery_required_result (reconcile_dead_pipeline_reservations e s)),
         reconcile_dead_pipeline_reservations e s)"
  using assms by (simp_all add: acquire_reservation_def Let_def)

lemma not_registered_not_exempt:
  "t \<notin> set (keys (pending_enqueue_tokens s)) \<Longrightarrow> \<not> stall_fence_exempts_reserved_token s (Some t)"
  by (simp add: stall_fence_exempts_reserved_token_def has_key_iff split: option.splits)

lemma enqueue_fenced:
  assumes "recovery_required (reconcile_dead_pipeline_reservations e s) \<noteq> None"
    "t \<notin> set (keys (pending_enqueue_tokens (reconcile_dead_pipeline_reservations e s)))"
    "c \<le> 0 \<or> a \<noteq> None"
  shows "acquire_enqueue_reservation e t rej w c a kd s
      = (Inr (recovery_required_result (reconcile_dead_pipeline_reservations e s)),
         reconcile_dead_pipeline_reservations e s)"
  using assms not_registered_not_exempt [OF assms(2)]
  by (auto simp: acquire_enqueue_reservation_def Let_def)

lemma result_simps [simp]:
  "acquired (recovery_required_result s) = False" "acquired (refused c m f s) = False" "acquired (granted s) = True"
  "conflict (recovery_required_result s) = Some ConflictRecoveryRequired"
  "message (recovery_required_result s) = Some (pipeline_recovery_blocked_message s)"
  "snapshot (recovery_required_result s) = s" "snapshot (granted s) = s"
  by (simp_all add: recovery_required_result_def refused_def granted_def)


definition fenced_status :: pipeline_status where
  "fenced_status = initialize_pipeline_status\<lparr>recovery_required :=
     Some \<lparr>f_kind = Some ''delete'', f_owner_key = ''busy_owner'', f_operation = None, f_message = None\<rparr>\<rparr>"

lemma fenced_status_reconcile:
  "recovery_required (reconcile_dead_pipeline_reservations two_workers fenced_status) \<noteq> None"
  "''t'' \<notin> set (keys (pending_enqueue_tokens (reconcile_dead_pipeline_reservations two_workers fenced_status)))"
  by (simp_all add: reconcile_on two_workers_alive reclaim_fence_iff fenced_status_def del: not_None_eq)
     (simp_all add: reap_alive reconcile_tokens initialize_pipeline_status_def)


subsection \<open>Admission\<close>

lemma weight_elsewhere:
  "dict_ok d \<Longrightarrow> sum_list (map reservation_weight (values (AList.update t m d)))
     = reserved_elsewhere t d + reservation_weight m"
proof (induction d)
  case (Cons x d)
  obtain k v where x: "x = (k, v)" by force
  have "t \<notin> set (keys d) \<Longrightarrow> sum_list (map reservation_weight (values d)) = reserved_elsewhere t d"
    by (induction d) (auto simp: reserved_elsewhere_def)
  then show ?case using Cons by (cases "t = k") (auto simp: x reserved_elsewhere_def)
qed (simp add: reserved_elsewhere_def)

lemma reject_or_granted:
  "fst (reject_or rej s go_on st) = Inr r \<Longrightarrow> acquired r
     \<Longrightarrow> reject_or rej s go_on st = go_on \<and> (\<forall>x\<in>set rej. \<not> status_flag (fst x) s)"
  by (induction rej s go_on st rule: reject_or.induct) (auto split: sum.splits if_splits)

lemma enqueue_granted:
  assumes "acquire_enqueue_reservation e t rej w c a kd s = (Inr r, s')" "acquired r"
  shows "register_token e t w c (case a of None \<Rightarrow> 0 | Some n \<Rightarrow> n) kd (reconcile_dead_pipeline_reservations e s) = (Inr r, s')"
    and "t \<notin> set (keys (pending_enqueue_tokens (reconcile_dead_pipeline_reservations e s)))
      \<Longrightarrow> \<forall>x\<in>set rej. \<not> status_flag (fst x) (reconcile_dead_pipeline_reservations e s)"
proof -
  let ?r = "reconcile_dead_pipeline_reservations e s"
  let ?reg = "register_token e t w c (case a of None \<Rightarrow> 0 | Some n \<Rightarrow> n) kd ?r"
  let ?rej = "if has_key (pending_enqueue_tokens ?r) t then [] else rej"
  have "fst (reject_or ?rej ?r ?reg ?r) = Inr r \<and> reject_or ?rej ?r ?reg ?r = (Inr r, s')"
    using assms by (auto simp: acquire_enqueue_reservation_def Let_def split: if_splits)
  then show "?reg = (Inr r, s')" "t \<notin> set (keys (pending_enqueue_tokens ?r))
      \<Longrightarrow> \<forall>x\<in>set rej. \<not> status_flag (fst x) ?r"
    using reject_or_granted [of ?rej ?r ?reg ?r r] assms(2) by (auto simp: has_key_iff)
qed

lemma register_granted:
  assumes "register_token e t w c n kd s = (Inr r, s')"
  shows "0 < c \<longrightarrow> n + reserved_elsewhere t (pending_enqueue_tokens s) + w \<le> c"
    and "\<exists>m. tm_weight m = w \<and> s' = set_tokens (AList.update t m (pending_enqueue_tokens s)) s"
proof -
  show "0 < c \<longrightarrow> n + reserved_elsewhere t (pending_enqueue_tokens s) + w \<le> c"
    using assms by (auto simp: register_token_def Let_def split: if_splits)
  have "s' = set_tokens (AList.update t \<lparr>tm_pid = Some (my_pid e), tm_start = my_start e, tm_weight = w,
      tm_kind = Some (or_str kd (reservation_kind (map_of (pending_enqueue_tokens s) t)))\<rparr>
      (pending_enqueue_tokens s)) s"
    using assms by (auto simp: register_token_def Let_def split: if_splits)
  then show "\<exists>m. tm_weight m = w \<and> s' = set_tokens (AList.update t m (pending_enqueue_tokens s)) s"
    by (metis token_meta.select_convs(3))
qed

text \<open>C11. Admission never exceeds the capacity. An upload that is admitted while a limit is set finds room: the
  documents in flight it counted, with the weights of all the reservations in flight including its own,
  are within the limit; no fence was up unless it held its token already; and the reservations of the
  others are untouched.\<close>

theorem admission_within_capacity:
  assumes "reserve_enqueue_slot e t w rej c (Some n) (Some s) = (HttpOk True, Some s')" "0 < c" "0 \<le> w"
    "dict_ok (pending_enqueue_tokens s)"
  shows "n + sum_list (map reservation_weight (values (pending_enqueue_tokens s'))) \<le> c
    \<and> t \<in> set (keys (pending_enqueue_tokens s')) \<and> pending_enqueues s' = length (pending_enqueue_tokens s')
    \<and> (\<forall>x. x \<noteq> t \<longrightarrow> map_of (pending_enqueue_tokens s') x
          = map_of (pending_enqueue_tokens (reconcile_dead_pipeline_reservations e s)) x)
    \<and> (t \<notin> set (keys (pending_enqueue_tokens (reconcile_dead_pipeline_reservations e s)))
         \<longrightarrow> (\<forall>x\<in>set rej. \<not> status_flag (fst x) (reconcile_dead_pipeline_reservations e s)))"
proof -
  let ?r = "reconcile_dead_pipeline_reservations e s"
  have c: "admission_capacity c = c" using assms(2) by (simp add: admission_capacity_def)
  obtain q where q: "acquire_enqueue_reservation e t rej w c (Some n) None s = (Inr q, s')" "acquired q"
    using assms(1,2)
    by (auto simp: reserve_enqueue_slot_def Let_def c split: prod.splits sum.splits if_splits reservation_error.splits)
  note reg = register_granted [OF enqueue_granted(1) [OF q, simplified]]
  obtain m where m: "tm_weight m = w" "s' = set_tokens (AList.update t m (pending_enqueue_tokens ?r)) ?r"
    using reg(2) by blast
  have "reservation_weight m = w" using m(1) assms(3) by (simp add: reservation_weight_def)
  then show ?thesis
    using reg(1) m(2) assms(2) enqueue_granted(2) [OF q] weight_elsewhere [OF reconcile_dict_ok [OF assms(4)], of t m e]
    by (auto simp: set_tokens_def update_conv' dict_simps)
qed

theorem admission_within_capacity_witness:
  "pending_enqueues (set_tokens [(''t'', \<lparr>tm_pid = Some 7, tm_start = Some ''70'', tm_weight = 2, tm_kind = Some ''enqueue''\<rparr>)]
     initialize_pipeline_status) = 1"
proof -
  have "reserve_enqueue_slot (two_workers\<lparr>on_linux := False\<rparr>) ''t'' 2 INGRESS_FENCES 5 (Some 3) (Some initialize_pipeline_status)
      = (HttpOk True, Some (set_tokens [(''t'', \<lparr>tm_pid = Some 7, tm_start = Some ''70'', tm_weight = 2,
           tm_kind = Some ''enqueue''\<rparr>)] initialize_pipeline_status))"
    by (simp add: reserve_enqueue_slot_def admission_capacity_def acquire_enqueue_reservation_def reconcile_off
        reservation_recovery_enabled_def two_workers_def initialize_pipeline_status_def INGRESS_FENCES_def
        status_flag_def register_token_def reserved_elsewhere_def granted_def set_tokens_def or_str_def
        reservation_kind_def ENQUEUE_RESERVATION_KIND_def Let_def has_key_def)
  from admission_within_capacity [OF this] show ?thesis
    by (simp add: initialize_pipeline_status_def set_tokens_def)
qed

subsection \<open>A scan and the queue of the manual retries\<close>

lemma scan_granted:
  assumes "acquire_scan e t b s = (Inr r, s')" "acquired r"
  shows "mb_peek_next_manual_retry b = None"
    and "\<not> busy (reconcile_dead_pipeline_reservations e s)" "\<not> scanning (reconcile_dead_pipeline_reservations e s)"
    and "pending_enqueues (reconcile_dead_pipeline_reservations e s) = 0"
    and "\<not> manual_freeze_requested (reconcile_dead_pipeline_reservations e s)"
    and "s' = (reconcile_dead_pipeline_reservations e s)\<lparr>scanning := True, scanning_exclusive := True,
           scanning_owner := OwnerRecord (make_owner_record e t ''scan'')\<rparr>"
  using assms
  by (auto simp: acquire_scan_def acquire_reservation_def Let_def status_flag_def conflict_for_status_flag_def
      split: if_splits option.splits)

text \<open>A scan never jumps the queue of the manual retries. A scan is granted only when no retry request waits, no
  run, scan or upload is active and no drain froze the uploads; when the request it then publishes is
  accepted, that request is the next one to be served.\<close>

theorem scan_is_next:
  assumes "acquire_scan e t b s = (Inr r, s')" "acquired r"
  shows "(let q = reconcile_dead_pipeline_reservations e s in
      \<not> busy q \<and> \<not> scanning q \<and> pending_enqueues q = 0 \<and> \<not> manual_freeze_requested q \<and> recovery_required q = None
      \<and> s' = q\<lparr>scanning := True, scanning_exclusive := True,
                scanning_owner := OwnerRecord (make_owner_record e t ''scan'')\<rparr>
      \<and> (\<forall>rid b'. scan_commit rid b = (True, b') \<longrightarrow>
           map_option request_id (mb_peek_next_manual_retry b') = Some (Some rid)))"
proof -
  have f: "recovery_required (reconcile_dead_pipeline_reservations e s) = None"
    using assms by (auto simp: acquire_scan_def acquire_reservation_def Let_def split: if_splits)
  have n: "manual_retries b = []"
    using scan_granted(1) [OF assms] by (cases "manual_retries b") (auto simp: mb_peek_next_manual_retry_def)
  have "map_option request_id (mb_peek_next_manual_retry b') = Some (Some rid)"
    if "scan_commit rid b = (True, b')" for rid b'
    using that n
    by (auto simp: scan_commit_def mb_request_manual_retry_def mb_peek_next_manual_retry_def has_key_def
        split: sum.splits option.splits if_splits)
  then show ?thesis unfolding Let_def using f scan_granted [OF assms] by blast
qed

theorem scan_is_next_witness:
  "\<not> busy (reconcile_dead_pipeline_reservations (two_workers\<lparr>on_linux := False\<rparr>) initialize_pipeline_status)"
proof -
  define s' where "s' = initialize_pipeline_status\<lparr>scanning := True, scanning_exclusive := True,
      scanning_owner := OwnerRecord (make_owner_record (two_workers\<lparr>on_linux := False\<rparr>) ''s'' ''scan'')\<rparr>"
  have "acquire_scan (two_workers\<lparr>on_linux := False\<rparr>) ''s'' (new_mailbox None 4 None) initialize_pipeline_status
      = (Inr (granted s'), s')"
    by (simp add: acquire_scan_def acquire_reservation_def reconcile_off reservation_recovery_enabled_def
        two_workers_def initialize_pipeline_status_def status_flag_def mb_peek_next_manual_retry_def
        new_mailbox_def s'_def Let_def)
  from scan_is_next [OF this] show ?thesis unfolding Let_def result_simps by blast
qed

subsection \<open>A token that was dropped\<close>

text \<open>A re-weight rejects on no flag: a token that a forced reset dropped is registered anew past every fence.\<close>

lemma reweight_past_fences:
  "fst (reweight_enqueue_slot (two_workers\<lparr>on_linux := False\<rparr>) ''t'' 1 5 (Some 0)
     (Some (initialize_pipeline_status\<lparr>manual_freeze_requested := True, destructive_busy := True\<rparr>))) = HttpOk True"
  by (simp add: reweight_enqueue_slot_def reserve_enqueue_slot_def admission_capacity_def acquire_enqueue_reservation_def
      reconcile_off reservation_recovery_enabled_def two_workers_def initialize_pipeline_status_def
      register_token_def reserved_elsewhere_def Let_def)

text \<open>The deletion of one document looks at the busy flag only: it takes the slot while a scan classifies.\<close>

lemma single_delete_in_classification:
  "acquired (projr (fst (acquire_single_delete (two_workers\<lparr>on_linux := False\<rparr>) ''d'' ''doc-1''
     (initialize_pipeline_status\<lparr>scanning := True, scanning_exclusive := True\<rparr>))))"
  by (simp add: acquire_single_delete_def acquire_reservation_def reconcile_off reservation_recovery_enabled_def
      two_workers_def initialize_pipeline_status_def status_flag_def Let_def)

end
