(* ===== verification/GateDrain.thy ===== *)
theory GateDrain
  imports GateSteps ReservationLaws
begin

text \<open>
  A drain comes to its end: while the uploads are frozen, no step of anybody adds an upload in flight.
\<close>

abbreviation in_flight :: "pipeline_status \<Rightarrow> pystr set" where
  "in_flight s \<equiv> set (keys (pending_enqueue_tokens s))"

definition shrinks :: "pipeline_status \<Rightarrow> pipeline_status \<Rightarrow> bool" where
  "shrinks s s' \<longleftrightarrow> (manual_freeze_requested s' \<longrightarrow> in_flight s' \<subseteq> in_flight s)"

lemma shrinks_same: "pending_enqueue_tokens s' = pending_enqueue_tokens s \<Longrightarrow> shrinks s s'"
  by (simp add: shrinks_def)

lemma shrinks_refl [simp]: "shrinks s s"
  by (simp add: shrinks_def)

lemma in_flight_reconcile: "in_flight (reconcile_dead_pipeline_reservations e s) \<subseteq> in_flight s"
  by (auto simp: reconcile_dead_pipeline_reservations_def reap_alive reconcile_tokens)

lemma shrinks_reconcile: "shrinks s (reconcile_dead_pipeline_reservations e s)"
  using in_flight_reconcile by (simp add: shrinks_def)

lemma shrinks_written:
  assumes "pending_enqueue_tokens s' = pending_enqueue_tokens (reconcile_dead_pipeline_reservations e s)"
  shows "shrinks s s'"
  using in_flight_reconcile [of e s] assms by (simp add: shrinks_def)

lemma shrinks_acquire:
  assumes "acquire_reservation e k t (Some kd) flags rej ing rm s = (res, s')"
    "\<And>r. pending_enqueue_tokens (flags r) = pending_enqueue_tokens r"
  shows "shrinks s s'"
  using assms(1)
proof (cases rule: acquire_cases)
  case 1
  then show ?thesis by simp
next
  case 2
  then show ?thesis using shrinks_reconcile by simp
next
  case (3 r)
  then show ?thesis by (intro shrinks_written [of _ e]) (cases k; simp add: assms(2))
qed

lemma shrinks_enqueue:
  assumes "acquire_enqueue_reservation e t rej w c a kd s = (res, s')"
    "t \<notin> in_flight (reconcile_dead_pipeline_reservations e s)
       \<Longrightarrow> \<forall>x\<in>set rej. \<not> status_flag (fst x) (reconcile_dead_pipeline_reservations e s)
       \<Longrightarrow> \<not> manual_freeze_requested (reconcile_dead_pipeline_reservations e s)"
  shows "shrinks s s'"
  using assms(1)
proof (cases rule: enqueue_cases)
  case 1
  then show ?thesis by simp
next
  case 2
  then show ?thesis using shrinks_reconcile by simp
next
  case (3 r m)
  show ?thesis
  proof (cases "t \<in> in_flight r")
    case True
    then have "in_flight s' = in_flight r" using 3(3) by (simp add: set_tokens_def dict_simps del: set_map)
    then show ?thesis using in_flight_reconcile [of e s] 3(1) by (simp add: shrinks_def)
  next
    case False
    then have "\<not> manual_freeze_requested r" using 3(1,2) assms(2) by blast
    then show ?thesis using 3(3) by (simp add: shrinks_def set_tokens_def)
  qed
qed

lemma shrinks_processing:
  assumes "acquire_processing_reservation e t held ok (reset_run_flags j) so (s, b) = (res, s', b')"
  shows "shrinks s s'"
  using assms
  by (cases rule: processing_cases) (auto intro!: shrinks_written [of _ e] simp: reset_run_flags_def)

lemma shrinks_release:
  assumes "\<And>r. pending_enqueue_tokens (snd (act r)) = pending_enqueue_tokens r"
  shows "shrinks s (snd (with_reservation_lock k t act s))"
  by (rule shrinks_same) (simp add: with_reservation_lock_def assms)

lemmas release_actions = release_destructive_action_def custom_chunks_exit_def custom_chunks_terminal_release_def
  single_delete_exit_def single_delete_terminal_release_def release_admin_busy_def release_scanning_action_def
  manual_idle_def Let_def

lemma gate_step_shrinks: "gate_step u g g' \<Longrightarrow> gate_inv u g \<Longrightarrow> shrinks (g_status g) (g_status g')"
proof (induction rule: gate_step.induct)
  case (reserve e t w c a g res s')
  let ?c = "admission_capacity c"
  have "s' = g_status g \<or> (\<exists>q. acquire_enqueue_reservation e t INGRESS_FENCES w ?c (if 0 < ?c then a else None) None
      (g_status g) = (q, s'))"
    using reserve(1) by (auto simp: reserve_enqueue_slot_def Let_def split: if_splits prod.splits sum.splits reservation_error.splits)
  then show ?case by (auto elim!: shrinks_enqueue simp: INGRESS_FENCES_def)
next
  case (reweight e t w c a g res s')
  have "s' = g_status g \<or> reserve_enqueue_slot e t w [] c a (Some (g_status g)) = (res, Some s')"
    using reweight(1) by (simp add: reweight_enqueue_slot_def split: if_splits)
  then have "s' = g_status g \<or> (\<exists>c a q. acquire_enqueue_reservation e t [] w c a None (g_status g) = (q, s'))"
    by (auto simp: reserve_enqueue_slot_def Let_def split: if_splits prod.splits sum.splits reservation_error.splits)
  then show ?case using reweight(2) by (auto elim!: shrinks_enqueue simp del: set_map)
next
  case (enqueue e adm minted n c a g res2 s')
  obtain t q where "acquire_enqueue_reservation e t (enqueue_fences False) n c (if 0 < c then Some a else None) None
      (g_status g) = (q, s')"
    using enqueue(1) by (auto simp: reserve_ingress_slot_def Let_def split: prod.splits sum.splits)
  then show ?case by (auto elim!: shrinks_enqueue simp: enqueue_fences_def)
next
  case (scan_enqueue e minted n c a g res2 s')
  have f: "\<not> manual_freeze_requested (reconcile_dead_pipeline_reservations e (g_status g))"
    using free_slot(3) [OF keeps_reconcile [OF scan_enqueue(4)] scan_enqueue(3)] .
  obtain t q where "acquire_enqueue_reservation e t (enqueue_fences True) n c (if 0 < c then Some a else None) None
      (g_status g) = (q, s')"
    using scan_enqueue(1) by (auto simp: reserve_ingress_slot_def Let_def split: prod.splits sum.splits)
  then show ?case using f by (auto elim!: shrinks_enqueue)
next
  case (repair e t g res3 s')
  then show ?case by (auto simp: repair_ingress_reservation_def REPAIR_INGRESS_FENCES_def elim!: shrinks_enqueue)
next
  case (release_token t g)
  then show ?case
    by (auto simp: with_token_set_reservation_lock_def set_tokens_def shrinks_def dict_simps simp del: set_map)
next
  case (check e rej ex g res3 s')
  have "\<And>l x r. snd (reject_or l r (x, r) r) = r" by (metis reject_or_cases snd_conv)
  then have "s' = reconcile_dead_pipeline_reservations e (g_status g)"
    using arg_cong [OF check(1), of snd] by (simp add: check_pipeline_status_mutation_def Let_def split: if_splits)
  then show ?case using shrinks_reconcile by simp
next
  case (destructive e t knd op g res4 s')
  then show ?case
    by (auto simp: acquire_destructive_busy_def split: prod.splits sum.splits elim!: shrinks_acquire)
next
  case (clear_done t g)
  then show ?case by (simp add: clear_release_def) (rule shrinks_release, simp add: release_actions)
next
  case (delete_done t box g r s')
  then show ?case
    by (auto simp: delete_release_def release_owned_reservation_def with_reservation_lock_def release_actions
        intro!: shrinks_same split: prod.splits if_splits)
next
  case (destructive_abandoned t g s')
  then show ?case
    by (auto simp: release_destructive_busy_def release_owned_reservation_def with_reservation_lock_def release_actions
        intro!: shrinks_same split: prod.splits if_splits)
next
  case (chunks e t k g res3 s')
  then show ?case by (auto simp: acquire_custom_chunks_def elim!: shrinks_acquire)
next
  case (chunks_exit t g box r2 s')
  then show ?case
    by (auto simp: with_reservation_lock_def release_actions intro!: shrinks_same split: if_splits)
next
  case (chunks_done t g r3 s')
  then show ?case
    by (auto simp: with_reservation_lock_def release_actions intro!: shrinks_same split: if_splits)
next
  case (single_delete e t i g res3 s')
  then show ?case by (auto simp: acquire_single_delete_def elim!: shrinks_acquire)
next
  case (single_delete_exit t g box r2 s')
  then show ?case
    by (auto simp: with_reservation_lock_def release_actions intro!: shrinks_same split: if_splits)
next
  case (single_delete_done t g r3 s')
  then show ?case
    by (auto simp: with_reservation_lock_def release_actions intro!: shrinks_same split: if_splits)
next
  case (admin e t g res3 s')
  then show ?case by (auto simp: acquire_admin_busy_def elim!: shrinks_acquire)
next
  case (admin_done t g r3 s')
  then show ?case
    by (auto simp: with_reservation_lock_def release_actions intro!: shrinks_same split: if_splits)
next
  case (scan e t g res3 s')
  then show ?case by (auto simp: acquire_scan_def elim!: shrinks_acquire)
next
  case (scan_classified t g)
  then show ?case by (auto simp: transition_scanning_reservation_def intro!: shrinks_same)
next
  case (scan_done t g s')
  then show ?case
    by (auto simp: release_scanning_reservation_def release_owned_reservation_def with_reservation_lock_def release_actions
        intro!: shrinks_same split: prod.splits if_splits)
next
  case (start_run e t ok j g res3 s' b')
  then show ?case using shrinks_processing by simp
next
  case (hand_over e t ok j g res3 s' b')
  then show ?case using shrinks_processing by simp
next
  case (scan_reset e t ok j so g res3 s' b')
  then show ?case using shrinks_processing by simp
next
  case (begin_drain e now rid t g ok s')
  then show ?case
    by (auto simp: begin_manual_drain_def with_reservation_lock_def intro!: shrinks_same split: if_splits)
next
  case (decide cur g dec s' b' t)
  then show ?case
    by (auto simp: decide_pipeline_next_step_def intro!: shrinks_same split: if_splits option.splits prod.splits)
next
  case (enter_reset g t)
  then show ?case
    by (auto simp: enter_exclusive_reset_def with_reservation_lock_def intro!: shrinks_same split: prod.splits if_splits)
next
  case (end_drain t g)
  then show ?case by (auto simp: end_manual_drain_def with_reservation_lock_def release_actions intro!: shrinks_same)
next
  case (run_done ok rv g s' b')
  then show ?case by (auto simp: run_finalize_def release_actions intro!: shrinks_same split: if_splits)
next
  case (scan_reset_done t g)
  then show ?case by (auto simp: scan_reset_release_def with_reservation_lock_def release_actions intro!: shrinks_same)
next
  case (dead e g)
  then show ?case using shrinks_reconcile by simp
next
  case (set_fence kd msg oi pre g fenced s')
  then show ?case by (auto simp: fence_workspace_for_recovery_def intro!: shrinks_same split: if_splits)
next
  case (cancel g)
  then show ?case by (auto simp: cancel_pipeline_def intro!: shrinks_same)
next
  case (cancelled g)
  then show ?case by (auto simp: loop_top_cancel_def intro!: shrinks_same)
next
  case (force_reset ok g rep s' b')
  then show ?case
    by (auto simp: force_reset_recovery_def Let_def force_reset_status_def force_reset_kept_def set_tokens_def
        manual_idle_def shrinks_def split: if_splits option.splits prod.splits)
qed simp_all

inductive gate_path :: "(pystr \<Rightarrow> pipe_user) \<Rightarrow> gate \<Rightarrow> gate \<Rightarrow> bool" for u where
  here: "gate_path u g g"
| further: "gate_path u g g1 \<Longrightarrow> gate_step u g1 g2 \<Longrightarrow> manual_freeze_requested (g_status g2) \<Longrightarrow> gate_path u g g2"



end
