(* ===== verification/Keyset.thy ===== *)
theory Keyset
  imports PyBase
begin

text \<open>
  The contract of a keyset sweep, as \<^verbatim>\<open>src/lightrag/base.py\<close> states it for the pages of the document-status
  storages: a page gives the first candidates after a position in the order of their keys, and says
  whether there are more. Pages are read one after another from a store that may change between
  them. What follows from the contract is proved here, for any storage that keeps it.
\<close>

definition above :: "'k::linorder option \<Rightarrow> 'k \<Rightarrow> bool" where
  "above p k = (case p of None \<Rightarrow> True | Some l \<Rightarrow> l < k)"

lemma above_simps [simp]: "above None k" "above (Some l) k \<longleftrightarrow> l < k"
  by (simp_all add: above_def)

text \<open>The pages read from the successive stores, until one ends the sweep.\<close>

fun run_sweep :: "('s \<Rightarrow> 'k option \<Rightarrow> 'e + ('k list \<times> bool)) \<Rightarrow> 's list \<Rightarrow> 'k option \<Rightarrow> 'e + ('k list \<times> bool)" where
  "run_sweep page [] p = Inr ([], False)"
| "run_sweep page (s # ss) p =
     (case page s p of
        Inl e \<Rightarrow> Inl e
      | Inr (ks, fin) \<Rightarrow>
          if fin then Inr (ks, True)
          else (case run_sweep page ss (Some (last ks)) of
                  Inl e \<Rightarrow> Inl e
                | Inr (ks2, fin2) \<Rightarrow> Inr (ks @ ks2, fin2)))"

lemma count_once: "distinct ks \<Longrightarrow> k \<in> set ks \<Longrightarrow> count_list ks k = 1"
  by (induction ks) (auto simp: count_notin)

locale keyset_pages =
  fixes ok :: "'s \<Rightarrow> bool"
    and cand :: "'s \<Rightarrow> 'k::linorder set"
    and page :: "'s \<Rightarrow> 'k option \<Rightarrow> 'e + ('k list \<times> bool)"
    and lim :: nat
  assumes page_sorted: "ok s \<Longrightarrow> page s p = Inr (ks, fin) \<Longrightarrow> sorted_wrt (<) ks"
    and page_sound: "ok s \<Longrightarrow> page s p = Inr (ks, fin) \<Longrightarrow> k \<in> set ks \<Longrightarrow> k \<in> cand s \<and> above p k"
    and page_complete: "ok s \<Longrightarrow> page s p = Inr (ks, fin) \<Longrightarrow> k \<in> cand s \<Longrightarrow> above p k \<Longrightarrow> k \<notin> set ks
      \<Longrightarrow> \<not> fin \<and> (\<forall>x\<in>set ks. x < k)"
    and page_full: "ok s \<Longrightarrow> page s p = Inr (ks, False) \<Longrightarrow> ks \<noteq> [] \<and> length ks = lim"
begin

lemma last_greatest: "sorted_wrt (<) (ks :: 'k list) \<Longrightarrow> x \<in> set ks \<Longrightarrow> x \<le> last ks"
  by (induction ks) (auto simp: less_imp_le)

lemma run_cons:
  assumes "run_sweep page (s # ss) p = Inr (ks, fin)"
  obtains "page s p = Inr (ks, True)" "fin"
  | ks1 ks2 where "page s p = Inr (ks1, False)" "run_sweep page ss (Some (last ks1)) = Inr (ks2, fin)" "ks = ks1 @ ks2"
  using assms by (auto split: sum.splits if_splits prod.splits)

lemma run_sound:
  "\<forall>s\<in>set ss. ok s \<Longrightarrow> run_sweep page ss p = Inr (ks, fin) \<Longrightarrow>
     sorted_wrt (<) ks \<and> (\<forall>k\<in>set ks. above p k \<and> (\<exists>s\<in>set ss. k \<in> cand s))"
proof (induction ss arbitrary: p ks)
  case (Cons s ss)
  from Cons.prems(2) show ?case
  proof (cases rule: run_cons)
    case 1
    then show ?thesis using Cons.prems(1) page_sorted page_sound by (meson list.set_intros(1))
  next
    case (2 ks1 ks2)
    have ok: "ok s" "\<forall>s\<in>set ss. ok s" using Cons.prems(1) by auto
    have p1: "sorted_wrt (<) ks1" "\<forall>k\<in>set ks1. k \<in> cand s \<and> above p k" "ks1 \<noteq> []"
      using page_sorted [OF ok(1) 2(1)] page_sound [OF ok(1) 2(1)] page_full [OF ok(1) 2(1)] by auto
    have p2: "sorted_wrt (<) ks2" "\<forall>k\<in>set ks2. last ks1 < k \<and> (\<exists>s\<in>set ss. k \<in> cand s)"
      using Cons.IH [OF ok(2) 2(2)] by auto
    have l: "above p (last ks1)" using p1(2,3) by auto
    have "\<forall>x\<in>set ks1. \<forall>y\<in>set ks2. x < y" using last_greatest [OF p1(1)] p2(2) by fastforce
    moreover have "\<forall>y\<in>set ks2. above p y"
      using p2(2) l by (cases p) (auto intro: less_trans)
    ultimately show ?thesis using p1 p2 2(3) by (auto simp: sorted_wrt_append)
  qed
qed simp

text \<open>A key that is a candidate all the time is met.\<close>

lemma run_complete:
  "\<forall>s\<in>set ss. ok s \<and> k \<in> cand s \<Longrightarrow> above p k \<Longrightarrow> run_sweep page ss p = Inr (ks, True) \<Longrightarrow> k \<in> set ks"
proof (induction ss arbitrary: p ks)
  case (Cons s ss)
  have s: "ok s" "k \<in> cand s" using Cons.prems(1) by auto
  from Cons.prems(3) show ?case
  proof (cases rule: run_cons)
    case 1
    then show ?thesis using page_complete [OF s(1) _ s(2) Cons.prems(2)] by blast
  next
    case (2 ks1 ks2)
    show ?thesis
    proof (cases "k \<in> set ks1")
      case True
      then show ?thesis using 2(3) by simp
    next
      case False
      have "\<forall>x\<in>set ks1. x < k" using page_complete [OF s(1) 2(1) s(2) Cons.prems(2) False] by blast
      then have "above (Some (last ks1)) k" using page_full [OF s(1) 2(1)] by simp
      then have "k \<in> set ks2" using Cons.IH [OF _ _ 2(2)] Cons.prems(1) by simp
      then show ?thesis using 2(3) by simp
    qed
  qed
qed simp

lemma met_once:
  assumes "\<forall>s\<in>set ss. ok s \<and> k \<in> cand s" "run_sweep page ss None = Inr (ks, True)"
  shows "count_list ks k = 1"
proof -
  have "sorted_wrt (<) ks" using run_sound [OF _ assms(2)] assms(1) by blast
  then have "distinct ks" using strict_sorted_iff by blast
  moreover have "k \<in> set ks" by (rule run_complete [OF assms(1) _ assms(2)]) simp
  ultimately show ?thesis by (rule count_once)
qed

text \<open>On a store that stays as it is, as many pages as the candidates need end the sweep.\<close>

lemma run_ends:
  assumes "ok s" "finite (cand s)" "\<And>p. \<exists>r. page s p = Inr r"
  shows "card {k \<in> cand s. above p k} < n * lim \<Longrightarrow> \<exists>ks. run_sweep page (replicate n s) p = Inr (ks, True)"
proof (induction n arbitrary: p)
  case (Suc n)
  obtain ks fin where k: "page s p = Inr (ks, fin)" using assms(3) [of p] by (metis surj_pair)
  show ?case
  proof (cases fin)
    case True
    then show ?thesis using k by simp
  next
    case False
    then have k: "page s p = Inr (ks, False)" using k by simp
    have l: "ks \<noteq> []" "length ks = lim" using page_full [OF assms(1) k] by auto
    have sub: "set ks \<subseteq> {k \<in> cand s. above p k}" using page_sound [OF assms(1) k] by auto
    have p: "above p (last ks)" using sub last_in_set [OF l(1)] by blast
    have "{k \<in> cand s. above (Some (last ks)) k} \<subseteq> {k \<in> cand s. above p k} - set ks"
      using p last_greatest [OF page_sorted [OF assms(1) k]] by (cases p) (auto intro: less_trans dest: leD)
    then have "card {k \<in> cand s. above (Some (last ks)) k} \<le> card ({k \<in> cand s. above p k} - set ks)"
      using assms(2) by (intro card_mono) auto
    also have "\<dots> = card {k \<in> cand s. above p k} - lim"
      using sub l(2) page_sorted [OF assms(1) k] by (simp add: card_Diff_subset distinct_card strict_sorted_iff)
    finally have "card {k \<in> cand s. above (Some (last ks)) k} < n * lim"
      using Suc.prems card_mono [OF _ sub] assms(2) l(2) page_sorted [OF assms(1) k]
      by (simp add: distinct_card strict_sorted_iff)
    then obtain ks2 where "run_sweep page (replicate n s) (Some (last ks)) = Inr (ks2, True)" using Suc.IH by blast
    then show ?thesis using k by simp
  qed
qed simp

lemma run_result:
  assumes "ok s" "finite (cand s)" "run_sweep page (replicate n s) None = Inr (ks, True)"
  shows "ks = sorted_list_of_set (cand s)"
proof -
  have s: "sorted_wrt (<) ks" "\<forall>k\<in>set ks. \<exists>s'\<in>set (replicate n s). k \<in> cand s'"
    using run_sound [OF _ assms(3)] assms(1) by auto
  have "cand s \<subseteq> set ks" using run_complete [OF _ _ assms(3)] assms(1) by auto
  then have "set ks = cand s" using s(2) by auto
  moreover have "sorted_list_of_set (set ks) = ks"
    using s(1) by (intro sorted_list_of_set.idem_if_sorted_distinct) (simp_all add: strict_sorted_iff)
  ultimately show ?thesis by simp
qed

end

end
