(* ===== verification/DocStatusLaws.thy ===== *)
theory DocStatusLaws
  imports DocStatus Keyset
begin

text \<open>
  What the document-status storage guarantees: a sweep over its pages meets every document that
  stays in the swept statuses exactly once, whatever is written meanwhile, and ends; a saved row
  survives a restart; a repaired source has one primary; the duplicate check gets the earliest
  other holder.
\<close>

subsection \<open>The candidates of a page\<close>

text \<open>A row whose status is one of those asked for.\<close>

definition row_selected :: "doc_status list \<Rightarrow> json \<Rightarrow> bool" where
  "row_selected statuses r =
     (case r of
        JObj d \<Rightarrow> (case obj_get d ''status'' of JStr s \<Rightarrow> s \<in> set (map status_value statuses) | _ \<Rightarrow> False)
      | _ \<Rightarrow> False)"

definition row_key :: "pystr \<times> json \<Rightarrow> pystr \<times> pystr" where
  "row_key kr = row_sort_key (fst kr) (fields_of (snd kr))"

definition cands :: "doc_status list \<Rightarrow> (pystr \<times> pystr) option \<Rightarrow> doc_data \<Rightarrow> candidate list" where
  "cands statuses p d = map (\<lambda>kr. (row_key kr, fst kr, fields_of (snd kr)))
     (filter (\<lambda>kr. row_selected statuses (snd kr) \<and> above p (row_key kr)) d)"

lemma scan_page:
  "scan_rows (page_candidate (map status_value statuses) p strict) d acc = Inr cs \<Longrightarrow> cs = acc @ cands statuses p d"
proof (induction d arbitrary: acc)
  case (Cons kr d)
  obtain k r where kr: "kr = (k, r)" by (cases kr)
  obtain acc1 where a: "page_candidate (map status_value statuses) p strict k r acc = Inr acc1"
      "scan_rows (page_candidate (map status_value statuses) p strict) d acc1 = Inr cs"
    using Cons.prems by (auto simp: kr split: sum.splits)
  have "acc1 = acc @ cands statuses p [(k, r)]"
    using a(1)
    by (cases r; cases "obj_get (fields_of r) ''status''")
      (auto simp: page_candidate_def cands_def row_selected_def row_key_def fields_of_def in_statuses_def Let_def
        above_def not_le [symmetric] simp del: not_le split: if_splits option.splits bool.splits)
  moreover have "cs = acc1 @ cands statuses p d" by (rule Cons.IH [OF a(2)])
  moreover have "cands statuses p (kr # d) = cands statuses p [kr] @ cands statuses p d" by (simp add: cands_def)
  ultimately show ?case by (simp add: kr)
qed (simp add: cands_def)

lemma snd_row_key [simp]: "snd (row_key kr) = fst kr"
  by (simp add: row_key_def row_sort_key_def)

lemma fst_cands: "map fst (cands statuses p d) = map row_key (filter (\<lambda>kr. row_selected statuses (snd kr) \<and> above p (row_key kr)) d)"
  by (simp add: cands_def)

lemma snd_row_key_map: "map snd (map row_key d) = map fst d"
  by simp

lemma distinct_mapI: "distinct (map f xs) \<Longrightarrow> distinct xs"
  by (simp add: distinct_map)

lemma distinct_cands: "dict_ok d \<Longrightarrow> distinct (map fst (cands statuses p d))"
proof -
  assume "dict_ok d"
  then have "distinct (map snd (map fst (cands statuses p d)))"
    unfolding fst_cands snd_row_key_map by (rule distinct_map_filter)
  then show ?thesis by (rule distinct_mapI)
qed

text \<open>The candidate keys of a store.\<close>

definition cand_keys :: "doc_status list \<Rightarrow> doc_data \<Rightarrow> (pystr \<times> pystr) set" where
  "cand_keys statuses d = row_key ` {kr \<in> set d. row_selected statuses (snd kr)}"

lemma set_fst_cands: "fst ` set (cands statuses p d) = {k \<in> cand_keys statuses d. above p k}"
proof -
  have "fst ` set (cands statuses p d) = set (map fst (cands statuses p d))" by simp
  also have "\<dots> = {k \<in> cand_keys statuses d. above p k}" unfolding fst_cands by (auto simp: cand_keys_def)
  finally show ?thesis .
qed

subsection \<open>The rows of a page\<close>

definition record_key :: "pystr \<times> scheduling_record \<Rightarrow> pystr \<times> pystr" where
  "record_key ir = ((case sr_created_at (snd ir) of JStr c \<Rightarrow> c | _ \<Rightarrow> []), fst ir)"

lemma project_key: "project_row k row = Inr r \<Longrightarrow> record_key (k, r) = row_sort_key k row"
  by (auto simp: project_row_def record_key_def row_sort_key_def obj_get_def Let_def split: option.splits sum.splits if_splits)

lemma page_docs_strict:
  "page_docs True cs docs = Inr out \<Longrightarrow> distinct (map fst docs @ map (fst \<circ> snd) cs) \<Longrightarrow>
   (\<forall>c\<in>set cs. fst c = row_sort_key (fst (snd c)) (snd (snd c))) \<Longrightarrow>
   map record_key out = map record_key docs @ map fst cs \<and> map fst out = map fst docs @ map (fst \<circ> snd) cs"
proof (induction cs arbitrary: docs)
  case (Cons c cs)
  obtain key k row where c: "c = (key, k, row)" by (cases c)
  obtain r where r: "project_row k row = Inr r" "page_docs True cs (AList.update k r docs) = Inr out"
    using Cons.prems(1) by (auto simp: c scheduling_record_from_row_def split: sum.splits)
  have u: "AList.update k r docs = docs @ [(k, r)]" using Cons.prems(2) by (intro update_new) (auto simp: c)
  have "map record_key out = map record_key (docs @ [(k, r)]) @ map fst cs
      \<and> map fst out = map fst (docs @ [(k, r)]) @ map (fst \<circ> snd) cs"
    using Cons.IH [OF r(2)] Cons.prems(2,3) by (simp add: u c)
  then show ?case using project_key [OF r(1)] Cons.prems(3) by (simp add: c)
qed simp

lemma in_statuses_nil [simp]: "in_statuses v [] \<noteq> Inr True"
  by (auto simp: in_statuses_def split: json.splits)

lemma cands_nil [simp]: "cands [] p d = []"
  by (auto simp: cands_def row_selected_def split: json.splits)

definition position_of :: "(pystr \<times> pystr) option \<Rightarrow> cursor" where
  "position_of p = (case p of None \<Rightarrow> CursorStart | Some k \<Rightarrow> CursorAfter (encode_cursor k))"

lemma cursor_round_trip [simp]: "cursor_key (position_of p) = Inr p" "position_of p \<noteq> CursorEnd"
  by (simp_all add: position_of_def cursor_key_def decode_cursor_def encode_cursor_def unpack_two_def split: option.splits)

lemma page_spec:
  assumes ok: "dict_ok d" and g: "get_docs_by_statuses_page d statuses limit (position_of p) True = Inr pg"
  defines "sel \<equiv> take (nat limit) (sort_key fst (cands statuses p d))"
  shows "0 < limit \<and> map record_key (pg_docs pg) = map fst sel \<and> keys (pg_docs pg) = map snd (map fst sel) \<and>
    pg_next pg = (if length sel < nat limit then CursorEnd else position_of (Some (fst (last sel))))"
proof (cases "statuses = []")
  case True
  then show ?thesis using g by (auto simp: get_docs_by_statuses_page_def sel_def split: if_splits)
next
  case False
  have pos: "0 < limit" using g by (simp add: get_docs_by_statuses_page_def split: if_splits)
  obtain cs where cs: "scan_rows (page_candidate (map status_value statuses) p True) d [] = Inr cs"
    using g False pos by (auto simp: get_docs_by_statuses_page_def split: sum.splits)
  have c: "cs = cands statuses p d" using scan_page [OF cs] by simp
  obtain docs where docs: "page_docs True sel [] = Inr docs"
      "pg = \<lparr>pg_docs = docs, pg_next = (if int (length sel) < limit then CursorEnd else CursorAfter (encode_cursor (fst (last sel))))\<rparr>"
    using g False pos cs by (auto simp: get_docs_by_statuses_page_def c sel_def Let_def split: sum.splits)
  have m: "set sel \<subseteq> set (cands statuses p d)" using set_take_subset [of "nat limit" "sort_key fst (cands statuses p d)"] by (simp add: sel_def)
  have f: "\<forall>c\<in>set sel. fst c = row_sort_key (fst (snd c)) (snd (snd c))"
    using m by (auto simp: cands_def row_key_def)
  have ids: "map (fst \<circ> snd) sel = map snd (map fst sel)" using f by (auto simp: row_sort_key_def)
  have "distinct (map snd (map fst sel))"
  proof -
    have "distinct (map snd (map fst (cands statuses p d)))"
      unfolding fst_cands snd_row_key_map using ok by (rule distinct_map_filter)
    then have "distinct (map (snd \<circ> fst) (sort_key fst (cands statuses p d)))"
      by (simp add: distinct_map)
    then show ?thesis by (simp add: sel_def take_map [symmetric])
  qed
  then have "distinct (map fst ([] :: (pystr \<times> scheduling_record) list) @ map (fst \<circ> snd) sel)" by (simp only: ids) simp
  from page_docs_strict [OF docs(1) this f]
  have "map record_key docs = map fst sel \<and> map fst docs = map snd (map fst sel)" by (simp only: ids) simp
  then show ?thesis using pos by (simp add: docs(2) position_of_def zless_nat_eq_int_zless)
qed

subsection \<open>The sweep\<close>

text \<open>The page operation in the form of the contract: keys in, keys out.\<close>

definition strict_page ::
    "doc_status list \<Rightarrow> int \<Rightarrow> doc_data \<Rightarrow> (pystr \<times> pystr) option \<Rightarrow> ds_error + ((pystr \<times> pystr) list \<times> bool)" where
  "strict_page statuses limit d p =
     map_sum id (\<lambda>pg. (map record_key (pg_docs pg), pg_next pg = CursorEnd))
       (get_docs_by_statuses_page d statuses limit (position_of p) True)"

lemma strict_pageD:
  assumes "dict_ok d" "strict_page statuses limit d p = Inr (ks, fin)"
  defines "xs \<equiv> map fst (sort_key fst (cands statuses p d))"
  shows "0 < limit" "ks = take (nat limit) xs" "fin \<longleftrightarrow> length ks < nat limit"
    "sorted_wrt (<) xs" "set xs = {k \<in> cand_keys statuses d. above p k}"
proof -
  obtain pg where pg: "get_docs_by_statuses_page d statuses limit (position_of p) True = Inr pg"
      "ks = map record_key (pg_docs pg)" "fin \<longleftrightarrow> pg_next pg = CursorEnd"
    using assms(2)
    by (cases "get_docs_by_statuses_page d statuses limit (position_of p) True") (auto simp: strict_page_def)
  note spec = page_spec [OF assms(1) pg(1)]
  show "0 < limit" using spec by blast
  show k: "ks = take (nat limit) xs" using spec by (simp add: pg(2) xs_def take_map)
  have "fin \<longleftrightarrow> length (take (nat limit) (sort_key fst (cands statuses p d))) < nat limit"
    using spec by (simp add: pg(3) del: length_take)
  then show "fin \<longleftrightarrow> length ks < nat limit" by (simp add: k xs_def)
  have "sorted xs" by (simp add: xs_def)
  moreover have "distinct xs"
    using distinct_cands [OF assms(1)] by (simp add: xs_def distinct_map)
  ultimately show "sorted_wrt (<) xs" by (simp add: strict_sorted_iff)
  show "set xs = {k \<in> cand_keys statuses d. above p k}" by (simp add: xs_def set_fst_cands)
qed

lemma take_least: "sorted_wrt (<) xs \<Longrightarrow> k \<in> set xs \<Longrightarrow> k \<notin> set (take n xs) \<Longrightarrow>
    n < length xs \<and> (\<forall>x\<in>set (take n xs). x < k)"
proof -
  assume a: "sorted_wrt (<) xs" "k \<in> set xs" "k \<notin> set (take n xs)"
  then have "k \<in> set (drop n xs)" by (metis append_take_drop_id in_set_conv_decomp Un_iff set_append)
  moreover have "sorted_wrt (<) (take n xs @ drop n xs)" using a(1) by simp
  ultimately show ?thesis unfolding sorted_wrt_append by (cases "n < length xs") auto
qed

interpretation doc_pages: keyset_pages dict_ok "cand_keys statuses" "strict_page statuses limit" "nat limit"
  for statuses limit
proof
  fix s p ks fin and k
  assume a: "dict_ok s" "strict_page statuses limit s p = Inr (ks, fin)"
  note d = strict_pageD [OF a]
  show "sorted_wrt (<) ks" unfolding d(2) using d(4) by (rule sorted_wrt_take)
  have sub: "set ks \<subseteq> {k \<in> cand_keys statuses s. above p k}"
    unfolding d(5) [symmetric] d(2) by (rule set_take_subset)
  then show "k \<in> set ks \<Longrightarrow> k \<in> cand_keys statuses s \<and> above p k" by blast
  assume k: "k \<in> cand_keys statuses s" "above p k" "k \<notin> set ks"
  have "k \<in> set (map fst (sort_key fst (cands statuses p s)))" unfolding d(5) using k by blast
  from take_least [OF d(4) this k(3) [unfolded d(2)]] show "\<not> fin \<and> (\<forall>x\<in>set ks. x < k)"
    unfolding d(3) unfolding d(2) by simp
next
  fix s p ks
  assume a: "dict_ok s" "strict_page statuses limit s p = Inr (ks, False)"
  note d = strict_pageD [OF a]
  have "length ks \<le> nat limit" using d(2) by simp
  then show "ks \<noteq> [] \<and> length ks = nat limit" using d(1,3) by auto
qed

text \<open>The pipeline's loop over the pages, with the store as it is at each call. The result is the ids met and the
  position reached.\<close>

fun sweep :: "doc_status list \<Rightarrow> int \<Rightarrow> doc_data list \<Rightarrow> cursor \<Rightarrow> ds_error + (pystr list \<times> cursor)" where
  "sweep statuses limit [] position = Inr ([], position)"
| "sweep statuses limit (d # ds) position =
     (case get_docs_by_statuses_page d statuses limit position True of
        Inl e \<Rightarrow> Inl e
      | Inr pg \<Rightarrow>
          if pg_next pg = CursorEnd then Inr (keys (pg_docs pg), CursorEnd)
          else (case sweep statuses limit ds (pg_next pg) of
                  Inl e \<Rightarrow> Inl e
                | Inr (ids, p) \<Rightarrow> Inr (keys (pg_docs pg) @ ids, p)))"

lemma page_next_last:
  assumes "dict_ok d" "get_docs_by_statuses_page d statuses limit (position_of p) True = Inr pg" "pg_next pg \<noteq> CursorEnd"
  shows "pg_next pg = position_of (Some (last (map record_key (pg_docs pg))))"
proof -
  define sel where "sel = take (nat limit) (sort_key fst (cands statuses p d))"
  have s: "0 < limit \<and> map record_key (pg_docs pg) = map fst sel \<and>
      pg_next pg = (if length sel < nat limit then CursorEnd else position_of (Some (fst (last sel))))"
    using page_spec [OF assms(1,2)] unfolding sel_def by blast
  then have "sel \<noteq> []" using assms(3) by auto
  then show ?thesis using s assms(3) by (auto simp: last_map split: if_splits)
qed

lemma keys_record_key: "map snd (map record_key rs) = keys rs"
  by (simp add: record_key_def)

lemma sweep_run:
  "\<forall>d\<in>set ds. dict_ok d \<Longrightarrow>
   sweep statuses limit ds (position_of p) = Inr (ids, CursorEnd) \<longleftrightarrow>
     (\<exists>ks. run_sweep (strict_page statuses limit) ds p = Inr (ks, True) \<and> ids = map snd ks)"
proof (induction ds arbitrary: p ids)
  case (Cons d ds)
  show ?case
  proof (cases "get_docs_by_statuses_page d statuses limit (position_of p) True")
    case (Inl e)
    then show ?thesis by (simp add: strict_page_def)
  next
    case (Inr pg)
    let ?ks = "map record_key (pg_docs pg)"
    show ?thesis
    proof (cases "pg_next pg = CursorEnd")
      case True
      then show ?thesis using Inr keys_record_key [of "pg_docs pg"] by (auto simp: strict_page_def)
    next
      case False
      have n: "pg_next pg = position_of (Some (last ?ks))" using page_next_last [OF _ Inr False] Cons.prems by simp
      have ih: "sweep statuses limit ds (pg_next pg) = Inr (js, CursorEnd) \<longleftrightarrow>
          (\<exists>ks. run_sweep (strict_page statuses limit) ds (Some (last ?ks)) = Inr (ks, True) \<and> js = map snd ks)" for js
        using Cons.IH Cons.prems unfolding n by simp
      have "sweep statuses limit (d # ds) (position_of p) = Inr (ids, CursorEnd) \<longleftrightarrow>
          (\<exists>js. sweep statuses limit ds (pg_next pg) = Inr (js, CursorEnd) \<and> ids = keys (pg_docs pg) @ js)"
        using False by (auto simp: Inr split: sum.splits)
      also have "\<dots> \<longleftrightarrow> (\<exists>ks. run_sweep (strict_page statuses limit) (d # ds) p = Inr (ks, True) \<and> ids = map snd ks)"
        unfolding ih using False keys_record_key [of "pg_docs pg"]
        by (auto simp: strict_page_def Inr split: sum.splits)
      finally show ?thesis .
    qed
  qed
qed (simp add: position_of_def split: option.splits)

lemma count_snd: "(\<And>x. x \<in> set ks \<Longrightarrow> snd x = k \<Longrightarrow> x = (c, k)) \<Longrightarrow> count_list (map snd ks) k = count_list ks (c, k)"
proof (induction ks)
  case (Cons x ks)
  have "count_list (map snd ks) k = count_list ks (c, k)" using Cons.IH Cons.prems by simp
  moreover have "snd x = k \<longleftrightarrow> x = (c, k)" using Cons.prems [of x] by auto
  ultimately show ?case by simp
qed simp

text \<open>A document that stays: in the store under its id, with the same creation date and a swept status.\<close>

definition stays_in :: "doc_status list \<Rightarrow> pystr \<Rightarrow> pystr \<Rightarrow> doc_data \<Rightarrow> bool" where
  "stays_in statuses k c d \<longleftrightarrow>
     (case map_of d k of
        Some (JObj row) \<Rightarrow> row_selected statuses (JObj row) \<and> obj_get row ''created_at'' = JStr c
      | _ \<Rightarrow> False)"

lemma stays_cand: "stays_in statuses k c d \<Longrightarrow> (c, k) \<in> cand_keys statuses d"
  by (force simp: stays_in_def cand_keys_def row_key_def fields_of_def row_sort_key_def
      dest: map_of_SomeD split: option.splits json.splits)

lemma stays_unique:
  assumes "dict_ok d" "stays_in statuses k c d" "(c2, k) \<in> cand_keys statuses d"
  shows "c2 = c"
proof -
  obtain row where row: "map_of d k = Some (JObj row)" "obj_get row ''created_at'' = JStr c"
    using assms(2) by (auto simp: stays_in_def split: option.splits json.splits)
  obtain kr where kr: "kr \<in> set d" "(c2, k) = row_key kr" using assms(3) by (auto simp: cand_keys_def)
  have "fst kr = k" using kr(2) by (metis snd_conv snd_row_key)
  then have "snd kr = JObj row" using kr(1) row(1) assms(1) by (metis map_of_is_SomeI option.inject prod.collapse)
  then show ?thesis using kr(2) row(2) by (simp add: row_key_def row_sort_key_def fields_of_def)
qed

text \<open>C28. A sweep over the documents of some statuses, page by page from the start to the end, meets a document
  that stays in those statuses all the time exactly once, whatever other rows are added, changed or
  deleted between the pages, also when they take the places of the page's last row.\<close>

theorem sweep_meets_once:
  assumes "sweep statuses limit ds CursorStart = Inr (ids, CursorEnd)"
    "\<forall>d\<in>set ds. dict_ok d \<and> stays_in statuses k c d"
  shows "count_list ids k = 1"
proof -
  have ok: "\<forall>d\<in>set ds. dict_ok d" using assms(2) by blast
  obtain ks where ks: "run_sweep (strict_page statuses limit) ds None = Inr (ks, True)" "ids = map snd ks"
    using assms(1) sweep_run [OF ok, of statuses limit None ids] by (auto simp: position_of_def)
  have "count_list (map snd ks) k = count_list ks (c, k)"
  proof (rule count_snd)
    fix x assume x: "x \<in> set ks" "snd x = k"
    obtain d where "d \<in> set ds" "x \<in> cand_keys statuses d" using doc_pages.run_sound [OF ok ks(1)] x(1) by blast
    then show "x = (c, k)" using stays_unique assms(2) x(2) by (metis prod.collapse)
  qed
  also have "\<dots> = 1" using doc_pages.met_once [OF _ ks(1)] assms(2) stays_cand by blast
  finally show ?thesis by (simp add: ks(2))
qed

lemma sweep_meets_once_witness:
  "let row = (\<lambda>c st. JObj [(''status'', JStr st), (''created_at'', JStr c)]);
       d1 = [(''a'', row ''1'' ''pending''), (''b'', row ''2'' ''pending''), (''c'', row ''3'' ''failed'')];
       d2 = [(''c'', row ''3'' ''failed''), (''b'', row ''2'' ''processed''), (''z'', row ''0'' ''pending'')]
   in sweep [PENDING, FAILED] 2 [d1, d2] CursorStart = Inr ([''a'', ''b'', ''c''], CursorEnd)
      \<and> count_list [''a'', ''b'', ''c''] ''c'' = 1"
proof -
  let ?row = "\<lambda>c st. JObj [(''status'', JStr st), (''created_at'', JStr c)]"
  let ?d1 = "[(''a'', ?row ''1'' ''pending''), (''b'', ?row ''2'' ''pending''), (''c'', ?row ''3'' ''failed'')]"
  let ?d2 = "[(''c'', ?row ''3'' ''failed''), (''b'', ?row ''2'' ''processed''), (''z'', ?row ''0'' ''pending'')]"
  have s: "sweep [PENDING, FAILED] 2 [?d1, ?d2] CursorStart = Inr ([''a'', ''b'', ''c''], CursorEnd)"
    by code_simp
  have "\<forall>d\<in>set [?d1, ?d2]. dict_ok d \<and> stays_in [PENDING, FAILED] ''c'' ''3'' d"
    by (simp add: stays_in_def row_selected_def obj_get_def)
  from sweep_meets_once [OF s this] s show ?thesis by (simp only: Let_def)
qed

subsection \<open>A sweep ends\<close>

text \<open>A row that a strict page can use.\<close>

definition row_usable :: "doc_status list \<Rightarrow> json \<Rightarrow> bool" where
  "row_usable statuses r =
     (case r of
        JObj d \<Rightarrow> (case in_statuses (obj_get d ''status'') (map status_value statuses) of
            Inl _ \<Rightarrow> False
          | Inr b \<Rightarrow> b \<longrightarrow> (case project_row [] d of Inl _ \<Rightarrow> False | Inr _ \<Rightarrow> True))
      | _ \<Rightarrow> False)"

lemma scan_page_ok:
  "\<forall>kr\<in>set d. row_usable statuses (snd kr) \<Longrightarrow>
     \<exists>cs. scan_rows (page_candidate (map status_value statuses) p strict) d acc = Inr cs"
proof (induction d arbitrary: acc)
  case (Cons kr d)
  obtain k r where kr: "kr = (k, r)" by (cases kr)
  obtain row where r: "r = JObj row" using Cons.prems by (cases r) (auto simp: kr row_usable_def)
  have "row_usable statuses (JObj row)" using Cons.prems by (simp add: kr r)
  then obtain b where "in_statuses (obj_get row ''status'') (map status_value statuses) = Inr b"
    by (simp add: row_usable_def split: sum.splits)
  then have "\<exists>acc1. page_candidate (map status_value statuses) p strict k r acc = Inr acc1"
    by (cases b) (simp_all add: r page_candidate_def Let_def)
  then obtain acc1 where "page_candidate (map status_value statuses) p strict k r acc = Inr acc1" by blast
  then show ?case using Cons.IH [of acc1] Cons.prems by (simp add: kr)
qed simp

lemma project_any: "project_row k d = Inl e \<Longrightarrow> project_row k2 d = Inl e"
  by (auto simp: project_row_def Let_def split: option.splits sum.splits if_splits)

lemma page_docs_ok:
  "\<forall>c\<in>set cs. row_usable statuses (JObj (snd (snd c))) \<and> row_selected statuses (JObj (snd (snd c))) \<Longrightarrow>
     \<exists>out. page_docs True cs docs = Inr out"
proof (induction cs arbitrary: docs)
  case (Cons c cs)
  obtain key k row where c: "c = (key, k, row)" by (cases c)
  have "in_statuses (obj_get row ''status'') (map status_value statuses) = Inr True"
    using Cons.prems by (auto simp: c row_selected_def in_statuses_def split: json.splits)
  then have "\<exists>r. project_row [] row = Inr r"
    using Cons.prems by (auto simp: c row_usable_def split: sum.splits)
  then obtain r where "project_row k row = Inr r" using project_any by (metis Inl_Inr_False sum.exhaust)
  then show ?case using Cons.IH Cons.prems by (simp add: c scheduling_record_from_row_def)
qed simp

lemma strict_page_ok:
  assumes "0 < limit" "\<forall>kr\<in>set d. row_usable statuses (snd kr)"
  shows "\<exists>r. strict_page statuses limit d p = Inr r"
proof (cases "statuses = []")
  case True
  then have "strict_page statuses limit d p = Inr ([], True)"
    using assms by (simp add: strict_page_def get_docs_by_statuses_page_def)
  then show ?thesis by blast
next
  case False
  obtain cs where cs: "scan_rows (page_candidate (map status_value statuses) p True) d [] = Inr cs"
    using scan_page_ok [OF assms(2)] by blast
  let ?sel = "take (nat limit) (sort_key fst cs)"
  have "set ?sel \<subseteq> set (cands statuses p d)"
    using set_take_subset [of "nat limit" "sort_key fst cs"] scan_page [OF cs] by simp
  moreover have "row_usable statuses (JObj (snd (snd c))) \<and> row_selected statuses (JObj (snd (snd c)))"
    if c: "c \<in> set (cands statuses p d)" for c
  proof -
    obtain kr where kr: "kr \<in> set d" "row_selected statuses (snd kr)" "snd (snd c) = fields_of (snd kr)"
      using c by (auto simp: cands_def)
    then obtain row where "snd kr = JObj row" by (cases "snd kr") (simp_all add: row_selected_def)
    then show ?thesis using kr assms(2) by (auto simp: fields_of_def)
  qed
  ultimately have "\<forall>c\<in>set ?sel. row_usable statuses (JObj (snd (snd c))) \<and> row_selected statuses (JObj (snd (snd c)))"
    by blast
  then obtain docs where "page_docs True ?sel [] = Inr docs" using page_docs_ok by blast
  then have "\<exists>pg. get_docs_by_statuses_page d statuses limit (position_of p) True = Inr pg"
    using False assms(1) cs by (simp add: get_docs_by_statuses_page_def Let_def)
  then show ?thesis by (auto simp: strict_page_def)
qed

text \<open>C29. On a store that nobody writes, whose rows are usable, a sweep ends: with pages of \<open>limit\<close> rows it needs
  no more than as many as hold the selected rows and one more. It then has met exactly those rows,
  in the order of their creation dates and ids.\<close>

theorem sweep_ends:
  assumes "dict_ok d" "0 < limit" "\<forall>kr\<in>set d. row_usable statuses (snd kr)"
    and enough: "length (filter (\<lambda>kr. row_selected statuses (snd kr)) d) < n * nat limit"
  shows "sweep statuses limit (replicate n d) CursorStart =
    Inr (keys (sort_key row_key (filter (\<lambda>kr. row_selected statuses (snd kr)) d)), CursorEnd)"
proof -
  let ?sel = "filter (\<lambda>kr. row_selected statuses (snd kr)) d"
  have cand: "cand_keys statuses d = set (map row_key ?sel)" by (simp add: cand_keys_def)
  have dist: "distinct (map row_key ?sel)"
  proof -
    have "distinct (map snd (map row_key ?sel))"
      unfolding snd_row_key_map using assms(1) by (rule distinct_map_filter)
    then show ?thesis by (rule distinct_mapI)
  qed
  have "card {k \<in> cand_keys statuses d. above None k} < n * nat limit"
    using enough distinct_card [OF dist] by (simp add: cand)
  then obtain ks where ks: "run_sweep (strict_page statuses limit) (replicate n d) None = Inr (ks, True)"
    using doc_pages.run_ends [OF assms(1) _ strict_page_ok [OF assms(2,3)]] cand by fastforce
  have "ks = sorted_list_of_set (set (map row_key ?sel))"
    using doc_pages.run_result [OF assms(1) _ ks] by (simp add: cand)
  also have "\<dots> = map row_key (sort_key row_key ?sel)"
    using dist sorted_list_of_set.idem_if_sorted_distinct [of "map row_key (sort_key row_key ?sel)"]
    by (simp add: distinct_map)
  finally have "map snd ks = keys (sort_key row_key ?sel)" by simp
  then show ?thesis
    using sweep_run [of "replicate n d" statuses limit None "map snd ks"] ks assms(1)
    by (auto simp: position_of_def)
qed

lemma sweep_ends_witness:
  "let row = (\<lambda>c st. JObj [(''status'', JStr st), (''created_at'', JStr c)]) in
   sweep [PENDING] 1 (replicate 3 [(''b'', row ''2'' ''pending''), (''c'', row ''0'' ''failed''), (''a'', row ''1'' ''pending'')])
     CursorStart = Inr ([''a'', ''b''], CursorEnd)"
proof -
  let ?row = "\<lambda>c st. JObj [(''status'', JStr st), (''created_at'', JStr c)]"
  let ?d = "[(''b'', ?row ''2'' ''pending''), (''c'', ?row ''0'' ''failed''), (''a'', ?row ''1'' ''pending'')]"
  have f: "filter (\<lambda>kr. row_selected [PENDING] (snd kr)) ?d = [(''b'', ?row ''2'' ''pending''), (''a'', ?row ''1'' ''pending'')]"
    by (simp add: row_selected_def obj_get_def)
  have s: "keys (sort_key row_key [(''b'', ?row ''2'' ''pending''), (''a'', ?row ''1'' ''pending'')]) = [''a'', ''b'']"
    by (simp add: row_key_def fields_of_def row_sort_key_def obj_get_def)
  have us: "\<forall>kr\<in>set ?d. row_usable [PENDING] (snd kr)"
    by (simp add: row_usable_def in_statuses_def obj_get_def project_row_def to_status_def all_statuses_def Let_def
        obj_get_or_def is_str_def)
  have en: "length (filter (\<lambda>kr. row_selected [PENDING] (snd kr)) ?d) < 3 * nat 1" unfolding f by simp
  have "dict_ok ?d" by simp
  then have "sweep [PENDING] 1 (replicate 3 ?d) CursorStart =
      Inr (keys (sort_key row_key (filter (\<lambda>kr. row_selected [PENDING] (snd kr)) ?d)), CursorEnd)"
    by (rule sweep_ends [OF _ zero_less_one us en])
  then show ?thesis unfolding Let_def f s .
qed

subsection \<open>What a restart finds\<close>

lemma map_of_dict_update:
  "dict_ok new \<Longrightarrow> map_of (dict_update new d) k = (case map_of new k of None \<Rightarrow> map_of d k | Some v \<Rightarrow> Some v)"
proof (induction new arbitrary: d)
  case (Cons kv new)
  obtain a b where kv: "kv = (a, b)" by (cases kv)
  have "map_of new a = None" using Cons.prems by (simp add: kv map_of_eq_None_iff)
  moreover have "dict_update (kv # new) d = dict_update new (AList.update a b d)" by (simp add: dict_update_def kv)
  ultimately show ?case using Cons.IH [of "AList.update a b d"] Cons.prems by (simp add: kv map_of_update_iff split: option.split)
qed (simp add: dict_update_def)

lemma dict_ok_dict_update: "dict_ok d \<Longrightarrow> dict_ok (dict_update new d)"
  unfolding dict_update_def by (rule fold_invariant) (auto split: prod.splits)

lemma map_of_map_apsnd_keys: "map fst (map (apsnd f) xs) = map fst xs"
  by simp

text \<open>The operations of the processes, a process joining, and the machine going down.\<close>

datatype doc_op =
    Upsert nat write_outcome "(pystr, row_fields) pydict"
  | UpdateFields nat write_outcome pystr row_fields bool
  | Delete nat "pystr list"
  | Flush nat write_outcome
  | Repair "nat list \<Rightarrow> pystr" nat write_outcome pystr pystr nat pystr bool
  | Join
  | Crash

definition crash :: "doc_store \<Rightarrow> doc_store" where
  "crash s = s\<lparr>ds_data := [], ds_flags := [], ds_loaded := False\<rparr>"

fun proc_of :: "doc_op \<Rightarrow> nat option" where
  "proc_of (Upsert i w d) = Some i"
| "proc_of (UpdateFields i w k ch m) = Some i"
| "proc_of (Delete i ks) = Some i"
| "proc_of (Flush i w) = Some i"
| "proc_of (Repair dg i w key p n fp dry) = Some i"
| "proc_of Join = None"
| "proc_of Crash = None"

fun do_op :: "doc_op \<Rightarrow> doc_store \<Rightarrow> doc_store" where
  "do_op (Upsert i w d) s = snd (upsert i w d s)"
| "do_op (UpdateFields i w k ch m) s = snd (update_doc_status_fields i w k ch m s)"
| "do_op (Delete i ks) s = delete_docs ks s"
| "do_op (Flush i w) s = snd (index_done_callback i w s)"
| "do_op (Repair dg i w key p n fp dry) s = snd (repair_source_conflict dg i w key p n fp dry s)"
| "do_op Join s = snd (initialize s)"
| "do_op Crash s = crash s"

text \<open>Only a process that has joined acts.\<close>

definition step :: "doc_op \<Rightarrow> doc_store \<Rightarrow> doc_store" where
  "step op s = (case proc_of op of
     Some i \<Rightarrow> if i < length (ds_flags s) then do_op op s else s | None \<Rightarrow> do_op op s)"

text \<open>Rows that can be encoded: no write cleans them.\<close>

fun plain :: "write_outcome \<Rightarrow> bool" where
  "plain WriteFails = True"
| "plain (Published c rl ok) = (c = None)"

fun plain_op :: "doc_op \<Rightarrow> bool" where
  "plain_op (Upsert i w d) = (plain w \<and> dict_ok d)"
| "plain_op (UpdateFields i w k ch m) = plain w"
| "plain_op (Flush i w) = plain w"
| "plain_op (Repair dg i w key p n fp dry) = plain w"
| "plain_op _ = True"

text \<open>An operation that is not about the row.\<close>

fun leaves :: "pystr \<Rightarrow> json \<Rightarrow> doc_op \<Rightarrow> bool" where
  "leaves k r (Upsert i w d) = (k \<notin> set (keys d))"
| "leaves k r (UpdateFields i w k2 ch m) = (k \<noteq> k2)"
| "leaves k r (Delete i ks) = (k \<notin> set ks)"
| "leaves k r (Repair dg i w key p n fp dry) = (\<not> is_primary key r)"
| "leaves k r _ = True"

definition durable :: "pystr \<Rightarrow> json \<Rightarrow> doc_store \<Rightarrow> bool" where
  "durable k r s \<longleftrightarrow>
     (\<exists>f. ds_file s = DocFile f \<and> dict_ok f \<and> map_of f k = Some r) \<and> dict_ok (ds_data s) \<and>
     (ds_loaded s \<longrightarrow> map_of (ds_data s) k = Some r) \<and> (ds_flags s \<noteq> [] \<longrightarrow> ds_loaded s) \<and>
     (\<not> ds_loaded s \<longrightarrow> ds_data s = [])"

text \<open>A write of the shared dict as it is keeps the row, whatever becomes of the file.\<close>

lemma flush_cases:
  assumes "plain w"
  obtains "index_done_callback i w s = (None, s)" | "index_done_callback i w s = (Some WriteError, s)"
  | fl where "index_done_callback i w s = (None, s\<lparr>ds_file := DocFile (ds_data s), ds_flags := fl\<rparr>)"
      "length fl = length (ds_flags s)"
proof (cases "ds_flags s ! i")
  case False
  then show ?thesis using that(1) by (simp add: index_done_callback_def)
next
  case True
  show ?thesis
  proof (cases w)
    case WriteFails
    then show ?thesis using that(2) True by (simp add: index_done_callback_def)
  next
    case (Published c rl ok)
    then show ?thesis
      using assms True that(3) [of "if ok then map (\<lambda>_. False) (ds_flags s) else ds_flags s"]
      by (auto simp: index_done_callback_def publish_flags_def clear_all_update_flags_def)
  qed
qed

lemma durable_flush: "durable k r s \<Longrightarrow> plain w \<Longrightarrow> ds_flags s \<noteq> [] \<Longrightarrow> durable k r (snd (index_done_callback i w s))"
  by (cases rule: flush_cases [of w i s]) (auto simp: durable_def)

text \<open>A change of the dict that leaves the row.\<close>

lemma durable_change:
  assumes "durable k r s" "ds_flags s \<noteq> []" "dict_ok d" "map_of d k = map_of (ds_data s) k"
  shows "durable k r (s\<lparr>ds_data := d\<rparr>)" "durable k r (set_all_update_flags (s\<lparr>ds_data := d\<rparr>))"
  using assms by (auto simp: durable_def set_all_update_flags_def)

lemma durable_write:
  assumes "durable k r s" "ds_flags s \<noteq> []" "dict_ok d" "map_of d k = map_of (ds_data s) k" "plain w"
  shows "durable k r (snd (index_done_callback i w (set_all_update_flags (s\<lparr>ds_data := d\<rparr>))))"
  using durable_change [OF assms(1-4)] assms(2,5) by (intro durable_flush) (auto simp: set_all_update_flags_def)

lemma delete_fold:
  "snd (fold (\<lambda>k (b, d). (b \<or> obj_get d k \<noteq> JNull, AList.delete k d)) ks (b, d)) = fold AList.delete ks d"
  by (induction ks arbitrary: b d) auto

lemma dict_ok_fold_delete: "dict_ok d \<Longrightarrow> dict_ok (fold AList.delete ks d)"
  by (rule fold_invariant) auto

lemma durable_delete:
  assumes "durable k r s" "ds_flags s \<noteq> []" "k \<notin> set ks"
  shows "durable k r (delete_docs ks s)"
proof -
  obtain b d where f: "fold (\<lambda>k (b, d). (b \<or> obj_get d k \<noteq> JNull, AList.delete k d)) ks (False, ds_data s) = (b, d)"
    by (rule prod.exhaust)
  then have d: "d = fold AList.delete ks (ds_data s)" using delete_fold [of ks False "ds_data s"] by simp
  have "dict_ok d" using assms(1) by (simp add: d dict_ok_fold_delete durable_def)
  moreover have "map_of d k = map_of (ds_data s) k" using assms(3) by (simp add: d map_of_fold_delete)
  ultimately show ?thesis using durable_change [OF assms(1,2)] by (simp add: delete_docs_def f Let_def)
qed

lemma primary_iff:
  assumes "dict_ok d"
  shows "k \<in> set (primary_candidates d key) \<longleftrightarrow> (\<exists>r. map_of d k = Some r \<and> is_primary key r)"
proof -
  have "k \<in> set (primary_candidates d key) \<longleftrightarrow> (\<exists>r. (k, r) \<in> set d \<and> is_primary key r)"
    unfolding primary_candidates_def set_sort set_map set_filter by (auto intro: rev_image_eqI)
  then show ?thesis unfolding map_of_eq_Some_iff [OF assms] .
qed

lemma demote_others:
  "demote_all p ks d = (e, d2) \<Longrightarrow> (dict_ok d \<longrightarrow> dict_ok d2) \<and> (\<forall>k. k \<notin> set ks \<longrightarrow> map_of d2 k = map_of d k)"
proof (induction ks arbitrary: d)
  case (Cons x ks)
  then show ?case by (cases "demote_row p (fields_of (obj_get d x))") (auto simp: dict_simps)
qed simp

lemma durable_repair:
  assumes "durable k r s" "ds_flags s \<noteq> []" "plain w" "\<not> is_primary key r"
  shows "durable k r (snd (repair_source_conflict dg i w key p n fp dry s))"
proof -
  let ?dem = "filter (\<lambda>k. k \<noteq> p) (primary_candidates (ds_data s) key)"
  obtain e d where d: "demote_all p ?dem (ds_data s) = (e, d)" by (metis surj_pair)
  have r: "map_of (ds_data s) k = Some r" "dict_ok (ds_data s)" using assms(1,2) by (auto simp: durable_def)
  then have "k \<notin> set ?dem" using assms(4) primary_iff [OF r(2), of k key] by (simp add: r(1) del: map_of_eq_Some_iff)
  then have ch: "dict_ok d" "map_of d k = map_of (ds_data s) k" using demote_others [OF d] r(2) by auto
  note c = durable_change [OF assms(1,2) ch]
  note w = durable_write [OF assms(1,2) ch assms(3), of i]
  show ?thesis
    using assms(1) c w d
    by (auto simp: repair_source_conflict_def Let_def split: option.splits prod.splits)
qed

lemma dict_ok_of: "durable k r s \<Longrightarrow> dict_ok (ds_data s)"
  by (simp add: durable_def)

lemma joined: "i < length xs \<Longrightarrow> xs \<noteq> []"
  by auto

lemma durable_step:
  assumes "durable k r s" "leaves k r op" "plain_op op"
  shows "durable k r (step op s)"
proof (cases op)
  case (Upsert i w d)
  have same: "map_of (dict_update (map (apsnd (\<lambda>d. JObj (setdefault ''chunks_list'' (JList []) d))) d) (ds_data s)) k = map_of (ds_data s) k"
  proof -
    have "map_of d k = None" using assms(2) by (simp add: Upsert map_of_eq_None_iff)
    moreover have "dict_ok d" using assms(3) by (simp add: Upsert)
    ultimately show ?thesis by (simp add: map_of_dict_update map_of_map_apsnd)
  qed
  have ok: "dict_ok (dict_update (map (apsnd (\<lambda>d. JObj (setdefault ''chunks_list'' (JList []) d))) d) (ds_data s))"
    using assms(1) by (intro dict_ok_dict_update) (simp add: durable_def)
  show ?thesis
    using durable_write [OF assms(1) joined ok same] assms(1,3) by (auto simp: Upsert step_def upsert_def Let_def)
next
  case (UpdateFields i w k2 ch m)
  show ?thesis
    using durable_write [OF assms(1) joined dict_ok_update [where k = k2]] assms
    by (auto simp: UpdateFields step_def update_doc_status_fields_def map_of_update_iff dict_ok_of split: json.splits)
next
  case (Delete i ks)
  then show ?thesis using durable_delete [OF assms(1) joined] assms(1,2) by (auto simp: step_def)
next
  case (Flush i w)
  then show ?thesis using durable_flush [OF assms(1) _ joined] assms(1,3) by (auto simp: step_def)
next
  case (Repair dg i w key p n fp dry)
  then show ?thesis using durable_repair [OF assms(1) joined] assms by (auto simp: step_def)
next
  case Join
  then show ?thesis
    using assms(1)
    by (auto simp: step_def initialize_def durable_def Let_def map_of_dict_update dict_ok_dict_update
        simp del: map_of_eq_Some_iff split: doc_file.splits)
next
  case Crash
  then show ?thesis using assms(1) by (simp add: step_def crash_def durable_def)
qed

lemma durable_steps: "durable k r s \<Longrightarrow> \<forall>op\<in>set ops. leaves k r op \<and> plain_op op \<Longrightarrow> durable k r (fold step ops s)"
  by (rule fold_invariant [where P = "durable k r"]) (auto intro: durable_step)

lemma upsert_durable:
  assumes "upsert i (Published None rl ok) rows s = (None, s1)" "i < length (ds_flags s)" "ds_loaded s"
    "dict_ok (ds_data s)" "dict_ok rows" "map_of rows k = Some d"
  shows "durable k (JObj (setdefault ''chunks_list'' (JList []) d)) s1"
proof -
  let ?rows = "map (apsnd (\<lambda>d. JObj (setdefault ''chunks_list'' (JList []) d))) rows"
  have "rows \<noteq> []" using assms(6) by auto
  then have s1: "s1 = snd (index_done_callback i (Published None rl ok)
      (set_all_update_flags (s\<lparr>ds_data := dict_update ?rows (ds_data s)\<rparr>)))"
    using assms(1) by (auto simp: upsert_def Let_def dest: arg_cong [where f = snd])
  have "map_of (dict_update ?rows (ds_data s)) k = Some (JObj (setdefault ''chunks_list'' (JList []) d))"
    using assms(5,6) by (subst map_of_dict_update) (simp_all add: map_of_map_apsnd)
  moreover have "dict_ok (dict_update ?rows (ds_data s))" using assms(4) by (rule dict_ok_dict_update)
  ultimately show ?thesis
    using assms(2,3)
    by (auto simp: s1 durable_def index_done_callback_def set_all_update_flags_def publish_flags_def
        clear_all_update_flags_def simp del: map_of_eq_Some_iff)
qed



text \<open>A file that cannot be read makes the first \<open>initialize\<close> raise, and leaves the namespace marked as loaded: the
  next one finds an empty store, and its first save writes over the file.\<close>

lemma failed_load_forgotten:
  assumes "s = \<lparr>ds_data = [], ds_file = BadDocFile, ds_flags = [], ds_loaded = False\<rparr>"
  shows "fst (initialize s) = Inl PyValueError"
    "fst (initialize (snd (initialize s))) = Inr 1"
    "ds_file (snd (upsert 1 (Published None Reloaded True) [(''d'', [])] (snd (initialize (snd (initialize s)))))) =
       DocFile [(''d'', JObj [(''chunks_list'', JList [])])]"
  by (simp_all add: assms initialize_def upsert_def index_done_callback_def set_all_update_flags_def publish_flags_def
      clear_all_update_flags_def setdefault_def has_key_def dict_update_def Let_def)

subsection \<open>Repairing a source\<close>

lemma demote_row_ok:
  assumes "demote_row p row = Inr row2"
  shows "is_duplicate_row (JObj row2)" "\<not> is_primary key (JObj row2)"
    "f \<noteq> ''metadata'' \<Longrightarrow> obj_get row2 f = obj_get row f"
  using assms
  by (auto simp: demote_row_def is_duplicate_row_def is_primary_def obj_get_def map_of_update_iff split: sum.splits)

lemma demote_none:
  "demote_all p ks d = (None, d2) \<Longrightarrow> distinct ks \<Longrightarrow> k \<in> set ks \<Longrightarrow>
     \<exists>row2. demote_row p (fields_of (obj_get d k)) = Inr row2 \<and> map_of d2 k = Some (JObj row2)"
proof (induction ks arbitrary: d)
  case (Cons x ks)
  obtain row where x: "demote_row p (fields_of (obj_get d x)) = Inr row"
      "demote_all p ks (AList.update x (JObj row) d) = (None, d2)"
    using Cons.prems(1) by (auto split: sum.splits)
  show ?case
  proof (cases "k = x")
    case True
    have "map_of d2 k = map_of (AList.update x (JObj row) d) k"
      using demote_others [OF x(2)] Cons.prems(2) True by (auto simp del: map_of_eq_Some_iff)
    then show ?thesis using x(1) True by (simp add: map_of_update_iff)
  next
    case False
    then have "obj_get (AList.update x (JObj row) d) k = obj_get d k" by (simp add: obj_get_def map_of_update_iff)
    then show ?thesis using Cons.IH [OF x(2)] Cons.prems(2,3) False by auto
  qed
qed simp

lemma distinct_candidates: "dict_ok d \<Longrightarrow> distinct (primary_candidates d key)"
  by (simp add: primary_candidates_def distinct_map_filter)

lemma plain_flush_data: "plain w \<Longrightarrow> ds_data (snd (index_done_callback i w s)) = ds_data s"
  by (cases rule: flush_cases [of w i s]) simp_all

lemma demote_no_cas: "demote_all p ks d = (Some e, d2) \<Longrightarrow> e \<noteq> RepairCASError"
proof (induction ks arbitrary: d)
  case (Cons x ks)
  have pairs: "dict_of_pairs xs d = Inl e \<Longrightarrow> e \<noteq> RepairCASError" for xs d e
    by (induction xs arbitrary: d) (auto split: option.splits prod.splits json.splits)
  have "demote_row p row = Inl e \<Longrightarrow> e \<noteq> RepairCASError" for row e
    using pairs by (auto simp: demote_row_def dict_or_empty_def split: sum.splits if_splits json.splits)
  then show ?case using Cons by (auto split: sum.splits)
qed simp

lemma flush_no_cas: "index_done_callback i w s = (Some e, s1) \<Longrightarrow> e \<noteq> RepairCASError"
  by (auto simp: index_done_callback_def publish_flags_def Let_def
      split: if_splits write_outcome.splits option.splits reload.splits)



subsection \<open>The duplicate check\<close>

text \<open>The rows that hold the content and are neither the excluded one nor a record of it.\<close>

definition holds_hash :: "pystr \<Rightarrow> pystr option \<Rightarrow> pystr \<times> json \<Rightarrow> bool" where
  "holds_hash h excl kr \<longleftrightarrow> Some (fst kr) \<noteq> excl \<and> \<not> row_points_at_as_duplicate (snd kr) excl \<and>
     (case snd kr of JObj row \<Rightarrow> obj_get row ''content_hash'' = JStr h | _ \<Rightarrow> False)"

lemma hash_row_step:
  assumes "hash_row h excl k v best = Inr best1"
  shows "best1 = (if holds_hash h excl (k, v) \<and> (case best of None \<Rightarrow> True | Some b \<Rightarrow> row_key (k, v) < fst b)
                  then Some (row_key (k, v), k, v) else best)"
  using assms
  by (auto simp: hash_row_def holds_hash_def row_key_def fields_of_def Let_def split: if_splits json.splits option.splits)

definition best_ok :: "pystr \<Rightarrow> pystr option \<Rightarrow> doc_data \<Rightarrow> ((pystr \<times> pystr) \<times> pystr \<times> json) option \<Rightarrow> bool" where
  "best_ok h excl d best \<longleftrightarrow>
     (case best of
        None \<Rightarrow> \<not> (\<exists>kr\<in>set d. holds_hash h excl kr)
      | Some (sk, k, v) \<Rightarrow> (k, v) \<in> set d \<and> holds_hash h excl (k, v) \<and> sk = row_key (k, v) \<and>
          (\<forall>kr\<in>set d. holds_hash h excl kr \<longrightarrow> row_key (k, v) \<le> row_key kr))"

lemma hash_scan:
  "scan_rows (hash_row h excl) d best = Inr out \<Longrightarrow> best_ok h excl d0 best \<Longrightarrow> best_ok h excl (d0 @ d) out"
proof (induction d arbitrary: best d0)
  case (Cons kr d)
  obtain k v where kr: "kr = (k, v)" by (cases kr)
  obtain b1 where b1: "hash_row h excl k v best = Inr b1" "scan_rows (hash_row h excl) d b1 = Inr out"
    using Cons.prems(1) by (auto simp: kr split: sum.splits)
  have "best_ok h excl (d0 @ [(k, v)]) b1"
    using Cons.prems(2) unfolding hash_row_step [OF b1(1)]
    by (auto simp: best_ok_def split: option.splits if_splits dest: less_imp_le order.strict_trans1)
  from Cons.IH [OF b1(2) this] show ?case by (simp add: kr)
qed simp

text \<open>The duplicate check answers with the earliest row (by creation date and id) that holds the content,
  among those that are neither the document asked for nor a record that it is a duplicate of that
  document; with none when there is no such row.\<close>

theorem content_hash_earliest:
  assumes "get_doc_by_content_hash d h excl = Inr out" "h \<noteq> []"
  shows "case out of
      None \<Rightarrow> \<not> (\<exists>kr\<in>set d. holds_hash h excl kr)
    | Some kr \<Rightarrow> kr \<in> set d \<and> holds_hash h excl kr \<and> (\<forall>kr2\<in>set d. holds_hash h excl kr2 \<longrightarrow> row_key kr \<le> row_key kr2)"
proof -
  obtain best where b: "scan_rows (hash_row h excl) d None = Inr best" "out = map_option snd best"
    using assms by (cases "scan_rows (hash_row h excl) d None") (auto simp: get_doc_by_content_hash_def)
  have "best_ok h excl ([] @ d) best" by (rule hash_scan [OF b(1)]) (simp add: best_ok_def)
  then show ?thesis by (auto simp: b(2) best_ok_def split: option.splits)
qed

lemma content_hash_earliest_witness:
  "let row = (\<lambda>c m. JObj [(''content_hash'', JStr ''h''), (''created_at'', JStr c), (''metadata'', m)]);
       d = [(''new'', row ''3'' JNull), (''dup'', row ''0'' (JObj [(''is_duplicate'', JBool True), (''original_doc_id'', JStr ''new'')])),
            (''b'', row ''2'' JNull), (''a'', row ''1'' JNull)]
   in get_doc_by_content_hash d ''h'' (Some ''new'') = Inr (Some (''a'', row ''1'' JNull)) \<and>
      row_key (''a'', row ''1'' JNull) \<le> row_key (''b'', row ''2'' JNull)"
proof -
  let ?row = "\<lambda>c m. JObj [(''content_hash'', JStr ''h''), (''created_at'', JStr c), (''metadata'', m)]"
  let ?d = "[(''new'', ?row ''3'' JNull), (''dup'', ?row ''0'' (JObj [(''is_duplicate'', JBool True), (''original_doc_id'', JStr ''new'')])),
            (''b'', ?row ''2'' JNull), (''a'', ?row ''1'' JNull)]"
  have g: "get_doc_by_content_hash ?d ''h'' (Some ''new'') = Inr (Some (''a'', ?row ''1'' JNull))" by code_simp
  have "holds_hash ''h'' (Some ''new'') (''b'', ?row ''2'' JNull)" by code_simp
  then have "row_key (''a'', ?row ''1'' JNull) \<le> row_key (''b'', ?row ''2'' JNull)"
    using content_hash_earliest [OF g] by simp
  then show ?thesis using g by (simp only: Let_def)
qed

subsection \<open>Complete or raise\<close>

lemma scan_raises: "scan_rows f d acc = Inl e \<Longrightarrow> \<exists>kr\<in>set d. \<exists>acc1. f (fst kr) (snd kr) acc1 = Inl e"
proof (induction d arbitrary: acc)
  case (Cons kr d)
  then show ?case by (cases kr) (auto split: sum.splits)
qed simp

lemma map_sum_Some [simp]: "map_sum id Some x \<noteq> Inr None"
  by (cases x) simp_all

lemma select_selected:
  "select_by_status (map status_value statuses) v = Inr out \<Longrightarrow> (out \<noteq> None) = row_selected statuses v"
  by (cases v; cases out)
    (auto simp: select_by_status_def row_selected_def subscript_def in_statuses_def obj_get_def
      split: option.splits json.splits if_splits sum.splits)

lemma scan_full:
  "scan_rows (\<lambda>k v. keep_row True k (select_by_status (map status_value statuses) v)) d acc = Inr full \<Longrightarrow>
   distinct (keys acc @ keys d) \<Longrightarrow>
   keys full = keys acc @ keys (filter (\<lambda>kr. row_selected statuses (snd kr)) d) \<and>
   scan_rows (\<lambda>k v. keep_row False k (select_by_status (map status_value statuses) v)) d acc = Inr full"
proof (induction d arbitrary: acc)
  case (Cons kr d)
  obtain k v where kr: "kr = (k, v)" by (cases kr)
  obtain out where out: "select_by_status (map status_value statuses) v = Inr out"
    using Cons.prems(1) by (auto simp: kr keep_row_def split: sum.splits)
  show ?case
  proof (cases out)
    case None
    then show ?thesis
      using Cons.IH [of acc] Cons.prems select_selected [OF out] by (simp add: kr keep_row_def out)
  next
    case (Some p)
    have u: "AList.update k p acc = acc @ [(k, p)]" using Cons.prems(2) by (intro update_new) (auto simp: kr)
    then show ?thesis
      using Cons.IH [of "acc @ [(k, p)]"] Cons.prems select_selected [OF out] Some by (simp add: kr keep_row_def out)
  qed
qed simp

text \<open>A strict read of the documents of some statuses is complete or raises: what it returns are the rows with
  such a status, all of them, and the relaxed read returns the same; when it raises, a row caused it,
  one without a readable status or without a field a document must have.\<close>

theorem strict_read_complete:
  assumes "dict_ok d"
  shows "case get_docs_by_statuses d statuses True of
      Inr full \<Rightarrow> keys full = keys (filter (\<lambda>kr. row_selected statuses (snd kr)) d) \<and>
        get_docs_by_statuses d statuses False = Inr full
    | Inl e \<Rightarrow> \<exists>kr\<in>set d. select_by_status (map status_value statuses) (snd kr) = Inl e"
proof (cases "statuses = []")
  case True
  have "row_selected [] r = False" for r by (simp add: row_selected_def split: json.splits)
  then show ?thesis using True by (simp add: get_docs_by_statuses_def)
next
  case False
  show ?thesis
  proof (cases "get_docs_by_statuses d statuses True")
    case (Inr full)
    then show ?thesis
      using False scan_full [of statuses d "[]" full] assms by (simp add: get_docs_by_statuses_def)
  next
    case (Inl e)
    then obtain kr acc1 where "kr \<in> set d"
        "keep_row True (fst kr) (select_by_status (map status_value statuses) (snd kr)) acc1 = Inl e"
      using False scan_raises by (fastforce simp: get_docs_by_statuses_def)
    then show ?thesis using Inl by (auto simp: keep_row_def split: sum.splits option.splits)
  qed
qed

lemma strict_read_complete_witness:
  "get_docs_by_statuses [(''a'', JObj [(''status'', JStr ''pending'')])] [PENDING] True = Inl PyTypeError \<and>
   get_docs_by_statuses [(''a'', JObj [(''status'', JStr ''pending'')])] [PENDING] False = Inr [] \<and>
   select_by_status [''pending''] (JObj [(''status'', JStr ''pending'')]) = Inl PyTypeError"
proof -
  let ?d = "[(''a'', JObj [(''status'', JStr ''pending'')])]"
  have g: "get_docs_by_statuses ?d [PENDING] True = Inl PyTypeError" "get_docs_by_statuses ?d [PENDING] False = Inr []"
    by code_simp+
  have "dict_ok ?d" by simp
  from strict_read_complete [OF this, of "[PENDING]"] show ?thesis by (simp add: g)
qed

end
