(* ===== verification/StatusMetaLaws.thy ===== *)
theory StatusMetaLaws
  imports StatusMeta
begin

text \<open>
  What a reset and a transition keep of the metadata of a row: exactly the directives, the recovery
  journals and the demotion, and nothing of the attempt that failed.
\<close>

subsection \<open>Folds that copy keys\<close>

text \<open>A fold that writes \<open>f k\<close> for every key of a list whose value is present.\<close>

definition copy_keys :: "(pystr \<Rightarrow> json) \<Rightarrow> pystr list \<Rightarrow> row_fields \<Rightarrow> row_fields" where
  "copy_keys f ks acc = fold (\<lambda>k acc. if present (f k) then AList.update k (f k) acc else acc) ks acc"

lemma map_of_copy_keys:
  "map_of (copy_keys f ks acc) k = (if k \<in> set ks \<and> present (f k) then Some (f k) else map_of acc k)"
  unfolding copy_keys_def
  by (induction ks arbitrary: acc) (auto simp: AList.update_conv')

lemma carry_over_copy: "metadata_carry_over (JObj d) = copy_keys (obj_get d) DOC_STATUS_METADATA_CARRY_OVER_KEYS []"
  by (simp add: metadata_carry_over_def copy_keys_def carry_key_def [abs_def])

lemma reset_metadata_copy:
  "reset_metadata (JObj d) =
     copy_keys (obj_get d) DOC_STATUS_METADATA_OBSERVATION_KEYS
       (copy_keys (directive_value d) DOC_STATUS_METADATA_DIRECTIVE_KEYS [])"
  by (simp add: reset_metadata_def copy_keys_def carry_key_def [abs_def] reset_key_def [abs_def])

lemma reset_metadata_value:
  "map_of (reset_metadata (JObj d)) k =
     (if k \<in> set DOC_STATUS_METADATA_OBSERVATION_KEYS \<and> present (obj_get d k) then Some (obj_get d k)
      else if k \<in> set DOC_STATUS_METADATA_DIRECTIVE_KEYS \<and> present (directive_value d k) then Some (directive_value d k)
      else None)"
  by (simp add: reset_metadata_copy map_of_copy_keys)

lemma keys_disjoint:
  "\<forall>k\<in>set DOC_STATUS_METADATA_ATTEMPT_KEYS.
     k \<notin> set DOC_STATUS_METADATA_OBSERVATION_KEYS \<and> k \<notin> set DOC_STATUS_METADATA_DIRECTIVE_KEYS"
  by code_simp

lemma reset_no_attempt: "\<not> metadata_has_attempt_fields (JObj (reset_metadata (JObj d)))"
proof -
  have "\<not> has_key (reset_metadata (JObj d)) k" if "k \<in> set DOC_STATUS_METADATA_ATTEMPT_KEYS" for k
    using keys_disjoint that by (simp add: has_key_def reset_metadata_value)
  then show ?thesis by (auto simp: metadata_has_attempt_fields_def list_ex_iff)
qed

lemma present_simps [simp]: "\<not> present JNull" "\<not> present (JStr [])"
  by (simp_all add: present_def)

text \<open>Resetting twice is resetting once: the values written are the values read back.\<close>

lemma reset_get:
  "obj_get (reset_metadata (JObj d)) k =
     (if k \<in> set DOC_STATUS_METADATA_OBSERVATION_KEYS \<and> present (obj_get d k) then obj_get d k
      else if k \<in> set DOC_STATUS_METADATA_DIRECTIVE_KEYS \<and> present (directive_value d k) then directive_value d k
      else JNull)"
  by (simp add: obj_get_def [of "reset_metadata (JObj d)"] reset_metadata_value)

subsection \<open>What must survive\<close>

text \<open>The keys the recovery of an interrupted operation, and the demotion of a duplicate, depend on.\<close>

definition recovery_keys :: "pystr list" where
  "recovery_keys = [''process_options'', CUSTOM_CHUNK_PATCH_METADATA_KEY, KG_WRITE_STATE_METADATA_KEY,
     KG_PURGE_METADATA_KEY] @ DUPLICATE_DEMOTION_METADATA_KEYS"

lemma recovery_keys_kept:
  "\<forall>k\<in>set recovery_keys. k \<in> set DOC_STATUS_METADATA_DIRECTIVE_KEYS
     \<and> k \<in> set DOC_STATUS_METADATA_CARRY_OVER_KEYS \<and> k \<notin> set DOC_STATUS_METADATA_OBSERVATION_KEYS
     \<and> k \<noteq> ''source_file''"
  by code_simp

lemma transition_value:
  assumes "k \<notin> set drop_keys" "k \<notin> fst ` set extra"
  shows "map_of (transition_metadata (JObj d) extra drop_keys) k =
    (if k \<in> set DOC_STATUS_METADATA_CARRY_OVER_KEYS \<and> present (obj_get d k) then Some (obj_get d k) else None)"
proof -
  have "map_of (fold (\<lambda>(k, v). AList.update k v) extra acc) k = map_of acc k" for acc
    using assms(2) by (induction extra arbitrary: acc) (auto simp: AList.update_conv')
  then show ?thesis
    using assms(1) by (simp add: transition_metadata_def dict_simps carry_over_copy map_of_copy_keys)
qed

lemma recovery_get:
  assumes "k \<in> set recovery_keys" "present (obj_get d k)"
  shows "map_of (reset_metadata (JObj d)) k = Some (obj_get d k)"
proof -
  have "directive_value d k = obj_get d k"
    using recovery_keys_kept assms(1) by (simp add: directive_value_def)
  then show ?thesis using recovery_keys_kept assms by (simp add: reset_metadata_value)
qed

lemma demotion_kept:
  "truthy (obj_get (reset_metadata (JObj d)) ''is_duplicate'') = truthy (obj_get d ''is_duplicate'')"
proof -
  have k: "''is_duplicate'' \<in> set recovery_keys" by code_simp
  then have "directive_value d ''is_duplicate'' = obj_get d ''is_duplicate''"
    using recovery_keys_kept by (simp add: directive_value_def)
  moreover have "\<not> truthy v" if "\<not> present v" for v using that by (auto simp: present_def)
  ultimately show ?thesis using recovery_keys_kept k by (auto simp: reset_get)
qed


definition demoted_doc :: doc_processing where
  "demoted_doc = \<lparr>content_summary = JStr ''s'', content_length = JNum 4, dp_file_path = JStr ''a.pdf'',
     dp_status = JStr ''failed'', dp_created_at = JStr ''2024'', dp_updated_at = JStr ''2025'', dp_track_id = JNull,
     chunks_count = JNull, chunks_list = JList [], error_msg = JStr ''boom'',
     dp_metadata = JObj [(''is_duplicate'', JBool True), (''parse_engine'', JStr ''native'')],
     multimodal_processed = JNull, content_hash = JNull\<rparr>"


end
