(* ===== verification/SchedulerLaws.thy ===== *)
theory SchedulerLaws
  imports Scheduler DocStatusLaws StatusMetaLaws
begin

text \<open>
  What the scheduling of a run guarantees: it gives up the slot only when nothing is left to do and only its
  own slot, a wake-up it consumed is put back when it fails, a drain that stops moving is found after a fixed
  number of rounds, and the validator deletes a row only when the absence of its content is confirmed.
\<close>

subsection \<open>The decision\<close>

lemma no_manual: "mb_peek_next_manual_retry b = None \<longleftrightarrow> manual_retries b = []"
  by (cases "manual_retries b") (auto simp: mb_peek_next_manual_retry_def)

lemma peek_Some: "mb_peek_next_manual_retry b = Some m \<Longrightarrow> manual_retries b \<noteq> []"
  by (auto simp: mb_peek_next_manual_retry_def)

lemma n_documents_counts [simp]: "n_documents (mb_counts b) = length (documents b)"
  by (simp add: mb_counts_def)

lemma consume_box [simp]: "\<not> auto_rescan_pending b \<Longrightarrow> b\<lparr>auto_rescan_pending := False\<rparr> = b"
  by (rule mailbox.equality) simp_all

text \<open>C6. A run stops only when there is nothing left. The decision gives the slot up exactly when no cancellation
  is pending, no drain is under way, no manual retry is queued, its sweep is at the end and neither the
  wake-up flag nor a document message is there; otherwise the status is as it was. It consumes nothing
  but the flag it answers, and the earliest queued retry goes before everything but a cancellation or
  the drain of an earlier one.\<close>

theorem run_stops_when_done:
  assumes "decide_pipeline_next_step cur (s, b) = (dec, s', b')"
  shows "(d_step dec = RELEASED \<longleftrightarrow> \<not> cancellation_requested s \<and> manual_phase s \<noteq> MANUAL_PHASE_DRAIN_TO_IDLE
           \<and> manual_retries b = [] \<and> cur = CursorEnd \<and> \<not> auto_rescan_pending b \<and> documents b = [])
    \<and> s' = (if d_step dec = RELEASED then s\<lparr>busy := False, busy_owner := NoOwner\<rparr> else s)
    \<and> b' = (if d_step dec = CONTINUE_AUTO then b\<lparr>auto_rescan_pending := False\<rparr> else b)
    \<and> (d_step dec = CONTINUE_AUTO \<longrightarrow> auto_rescan_pending b)
    \<and> (d_step dec = CONTINUE_DOCUMENT \<longrightarrow> documents b \<noteq> [])
    \<and> (d_step dec = BEGIN_EXCLUSIVE_RESET \<longrightarrow> pending_enqueues s = 0 \<and> cur = CursorEnd
         \<and> manual_phase s = MANUAL_PHASE_DRAIN_TO_IDLE)
    \<and> (\<forall>m. mb_peek_next_manual_retry b = Some m \<longrightarrow> \<not> cancellation_requested s
         \<longrightarrow> manual_phase s \<noteq> MANUAL_PHASE_DRAIN_TO_IDLE
         \<longrightarrow> d_step dec = CONTINUE_MANUAL \<and> d_manual_request dec = request_id m)"
  using assms
  by (auto simp: decide_pipeline_next_step_def decide_step_def mb_consume_auto_rescan_def no_manual peek_Some
      split: if_splits option.splits)

theorem run_stops_when_done_witness:
  "\<not> busy (fst (snd (decide_pipeline_next_step CursorEnd
     (initialize_pipeline_status\<lparr>busy := True\<rparr>, new_mailbox None 4 None))))"
proof -
  let ?s = "initialize_pipeline_status\<lparr>busy := True\<rparr>" and ?b = "new_mailbox None 4 None"
  obtain dec s' b' where d: "decide_pipeline_next_step CursorEnd (?s, ?b) = (dec, s', b')" by (rule prod_cases3)
  from run_stops_when_done [OF d] show ?thesis
    by (simp add: d) (simp add: initialize_pipeline_status_def new_mailbox_def)
qed

subsection \<open>Wake-ups\<close>

lemma rearm_set [simp]: "auto_rescan_pending (rearm_auto_rescan True b)"
  by (simp add: rearm_auto_rescan_def mb_request_auto_rescan_def)

lemma republish_fields:
  "auto_rescan_pending b \<Longrightarrow> auto_rescan_pending (republish_documents ok ms b)"
proof (induction ms arbitrary: b)
  case (Cons m ms)
  have "auto_rescan_pending b1" if "mb_put_document m b = Inr b1" for b1
    using that Cons.prems by (auto simp: mb_put_document_def put_document_locked_def Let_def split: option.splits if_splits)
  then show ?case using Cons by (simp add: republish_documents_def split: sum.splits)
qed (simp add: republish_documents_def)


definition failing_fetch :: fetch_env where
  "failing_fetch = \<lparr>fe_proc = \<lparr>my_pid = 7, my_start = None, has_psutil = True, probe = (\<lambda>_. ProcRunning),
       start_of = (\<lambda>_. None), is_multiprocess = False, on_linux = True\<rparr>, fe_time = 5, fe_page_size = 2,
     fe_read = ([(''a'', JNull)], []), fe_confirm = [], fe_act = id, fe_reset = [], fe_after = id,
     fe_content = (\<lambda>_. Inr JNull), fe_process = 0, fe_message = [], fe_rearm_ok = True, fe_republish_ok = (\<lambda>_. True)\<rparr>"

definition woken_state :: sched_state where
  "woken_state = \<lparr>sc_status = initialize_pipeline_status, sc_box = new_mailbox None 4 None,
     sc_store = \<lparr>ds_data = [], ds_file = NoDocFile, ds_flags = [], ds_loaded = False\<rparr>\<rparr>"


subsection \<open>A drain that does not move\<close>

lemma frozen_eq: "frozen xs = frozen ys \<longleftrightarrow> set xs = set ys"
proof
  assume "frozen xs = frozen ys"
  then have "set (frozen xs) = set (frozen ys)" by simp
  then show "set xs = set ys" by (simp add: frozen_def)
next
  assume "set xs = set ys"
  then show "frozen xs = frozen ys"
    unfolding frozen_def by (metis set_remdups sorted_list_of_set_sort_remdups)
qed

text \<open>How often the last observation was met at the end of a history, the latest first.\<close>

definition same_again :: "pystr list \<Rightarrow> pystr list list \<Rightarrow> nat" where
  "same_again x hist = length (takeWhile (\<lambda>y. set y = set x) hist)"

definition after_rounds :: "pystr list list \<Rightarrow> drain_progress" where
  "after_rounds hist = foldr (\<lambda>y p. snd (observe y p)) hist new_drain_progress"

definition after_polls :: "pystr list list \<Rightarrow> drain_progress" where
  "after_polls hist = foldr (\<lambda>y p. snd (observe_enqueue y p)) hist new_drain_progress"

lemma rounds_counted:
  "hist = [] \<and> blocking_ids (after_rounds hist) = None \<or>
   (\<exists>x rest. hist = x # rest \<and> blocking_ids (after_rounds hist) = Some (frozen x)
      \<and> repeats (after_rounds hist) = Suc (same_again x rest))"
proof (induction hist)
  case (Cons x hist)
  then show ?case
    by (cases hist) (auto simp: after_rounds_def observe_def same_again_def frozen_eq new_drain_progress_def)
qed (simp add: after_rounds_def new_drain_progress_def)

lemma polls_counted:
  "hist = [] \<and> enqueue_tokens (after_polls hist) = None \<or>
   (\<exists>x rest. hist = x # rest \<and> enqueue_tokens (after_polls hist) = Some (frozen x)
      \<and> enqueue_repeats (after_polls hist) = Suc (same_again x rest))"
proof (induction hist)
  case (Cons x hist)
  then show ?case
    by (cases hist) (auto simp: after_polls_def observe_enqueue_def same_again_def frozen_eq new_drain_progress_def)
qed (simp add: after_polls_def new_drain_progress_def)

text \<open>C12. A stalled drain is found, and only a stalled one. Whatever the rounds before, an observation says that the
  drain of the documents has stalled exactly when it and the two rounds before it met the same set of
  documents, in any order; the drain of the uploads in flight exactly when the same set was met by the last
  3000 polls.\<close>

theorem drain_stall_found:
  "(fst (observe x (after_rounds hist)) \<longleftrightarrow> same_again x hist < 2)
   \<and> (fst (observe_enqueue x (after_polls hist)) \<longleftrightarrow> same_again x hist < 2999)"
proof -
  have "same_again x (y # rest) = (if set y = set x then Suc (same_again y rest) else 0)" for y rest
    by (auto simp: same_again_def)
  then show ?thesis
    using rounds_counted [of hist] polls_counted [of hist]
    by (auto simp: observe_def observe_enqueue_def frozen_eq MANUAL_DRAIN_STALL_ROUNDS_def
        MANUAL_DRAIN_ENQUEUE_STALL_ROUNDS_def same_again_def)
qed

subsection \<open>The validator\<close>

lemma patch_iff: "custom_chunk_patch m \<noteq> None \<longleftrightarrow> has_journal m"
  by (auto simp: custom_chunk_patch_def has_journal_def Let_def split: json.splits)

definition verdict_ok :: "bool \<Rightarrow> (pystr \<Rightarrow> ds_error + json) \<Rightarrow> pystr \<times> doc_processing \<times> doc_verdict \<Rightarrow> bool" where
  "verdict_ok strict content kpv =
     (case kpv of (k, p, v) \<Rightarrow>
        has_journal (dp_metadata p) \<and> v = Journaled
        \<or> \<not> has_journal (dp_metadata p) \<and> (\<exists>c. content k = Inr c \<and> v = verdict strict p c))"

lemma verdicts_spec:
  "verdicts strict content docs = Inr vs \<Longrightarrow>
     map (\<lambda>(k, p, v). (k, p)) vs = docs \<and> list_all (verdict_ok strict content) vs"
proof (induction docs arbitrary: vs)
  case (Cons kp docs)
  obtain k p where kp: "kp = (k, p)" by (cases kp)
  obtain v vs1 where v: "verdicts strict content docs = Inr vs1" "vs = (k, p, v) # vs1" "verdict_ok strict content (k, p, v)"
    using Cons.prems
    by (cases "verdicts strict content docs")
       (auto simp: kp verdict_ok_def patch_iff [symmetric] split: if_splits sum.splits)
  then show ?case using Cons.IH [OF v(1)] by (simp add: kp)
qed simp

lemma verdict_Absent:
  "verdict strict p c = Absent \<longleftrightarrow>
     strict \<and> \<not> has_journal (dp_metadata p) \<and> \<not> truthy c \<and> dp_status p \<noteq> JStr (status_value FAILED)"
  by (auto simp: verdict_def patch_iff [symmetric])

lemma delete_fold_data:
  "ds_data (fold (\<lambda>k s. delete_docs [k] s) ks s) = fold AList.delete ks (ds_data s)"
  by (induction ks arbitrary: s) (auto simp: delete_docs_def set_all_update_flags_def Let_def)

lemma upsert_data_plain:
  assumes "upsert i w rows s = (e, s1)" "plain w"
  shows "ds_data s1 = dict_update (map (apsnd (\<lambda>d. JObj (setdefault ''chunks_list'' (JList []) d))) rows) (ds_data s)"
proof (cases "rows = []")
  case True
  then show ?thesis using assms(1) by (simp add: upsert_def dict_update_def)
next
  case False
  have "ds_data (snd (upsert i w rows s)) = dict_update (map (apsnd (\<lambda>d. JObj (setdefault ''chunks_list'' (JList []) d))) rows) (ds_data s)"
    using False plain_flush_data [OF assms(2)] by (simp add: upsert_def Let_def set_all_update_flags_def)
  then show ?thesis using assms(1) by simp
qed

lemma verdict_Usable: "verdict strict p c = Usable x \<longleftrightarrow> \<not> has_journal (dp_metadata p) \<and> truthy c \<and> x = c"
  by (auto simp: verdict_def patch_iff [symmetric])

text \<open>The row of a document of the batch is deleted, or reset, or left.\<close>

definition confirmed_absent :: "bool \<Rightarrow> (pystr \<Rightarrow> ds_error + json) \<Rightarrow> pystr \<Rightarrow> doc_processing \<Rightarrow> bool" where
  "confirmed_absent strict content k p \<longleftrightarrow>
     strict \<and> \<not> has_journal (dp_metadata p) \<and> dp_status p \<noteq> JStr (status_value FAILED)
     \<and> (\<exists>c. content k = Inr c \<and> \<not> truthy c)"

definition usable_reset :: "(pystr \<Rightarrow> ds_error + json) \<Rightarrow> pystr \<Rightarrow> doc_processing \<Rightarrow> bool" where
  "usable_reset content k p \<longleftrightarrow>
     \<not> has_journal (dp_metadata p) \<and> needs_reset p \<and> (\<exists>c. content k = Inr c \<and> truthy c)"

lemma verdict_ok_Absent:
  "verdict_ok strict content (k, p, v) \<Longrightarrow> v = Absent \<longleftrightarrow> confirmed_absent strict content k p"
  by (auto simp: verdict_ok_def confirmed_absent_def verdict_Absent)

lemma verdict_ok_reset:
  "verdict_ok strict content (k, p, v) \<Longrightarrow>
     reset_row now (k, p, v) =
       (if usable_reset content k p then Some (k, build_pending_reset_update now p (projr (content k))) else None)"
proof -
  assume v: "verdict_ok strict content (k, p, v)"
  show ?thesis
  proof (cases "has_journal (dp_metadata p)")
    case True
    then show ?thesis using v by (auto simp: verdict_ok_def usable_reset_def reset_row_def)
  next
    case False
    then obtain c where c: "content k = Inr c" "v = verdict strict p c" using v by (auto simp: verdict_ok_def)
    show ?thesis
    proof (cases "truthy c")
      case True
      then have "v = Usable c" using c(2) False by (simp add: verdict_Usable)
      then show ?thesis using c(1) True False by (simp add: usable_reset_def reset_row_def)
    next
      case nt: False
      then have "\<forall>x. v \<noteq> Usable x" using nt by (simp add: c(2) verdict_Usable)
      then have "reset_row now (k, p, v) = None" by (simp add: reset_row_def split: doc_verdict.split)
      then show ?thesis using c(1) nt by (simp add: usable_reset_def)
    qed
  qed
qed

lemma deleted_keys:
  assumes "list_all (verdict_ok strict content) vs" "dict_ok (map (\<lambda>(k, p, v). (k, p)) vs)"
    "(k, p) \<in> set (map (\<lambda>(k, p, v). (k, p)) vs)"
  shows "k \<in> set (deleted_ids delete_ok vs) \<longleftrightarrow> confirmed_absent strict content k p \<and> delete_ok k"
  using assms
proof (induction vs)
  case (Cons x vs)
  obtain k1 p1 v1 where x: "x = (k1, p1, v1)" by (rule prod_cases3)
  have a: "v1 = Absent \<longleftrightarrow> confirmed_absent strict content k1 p1"
    by (rule verdict_ok_Absent) (use Cons.prems(1) in \<open>simp add: x\<close>)
  have n: "k1 \<notin> set (deleted_ids delete_ok vs)" using Cons.prems(2) by (force simp: x deleted_ids_def)
  show ?case
  proof (cases "k = k1")
    case True
    then have "p = p1" using Cons.prems(2,3) by (force simp: x)
    then show ?thesis using a n True by (auto simp: x deleted_ids_def)
  next
    case False
    then show ?thesis using Cons by (simp add: x deleted_ids_def)
  qed
qed simp

lemma deleted_in: "k \<in> set (deleted_ids delete_ok vs) \<Longrightarrow> k \<in> set (keys (map (\<lambda>(k, p, v). (k, p)) vs))"
  by (force simp: deleted_ids_def)

lemma reset_rows:
  assumes "list_all (verdict_ok strict content) vs" "dict_ok (map (\<lambda>(k, p, v). (k, p)) vs)"
  shows "dict_ok (List.map_filter (reset_row now) vs)
    \<and> map_of (List.map_filter (reset_row now) vs) k
      = (case map_of (map (\<lambda>(k, p, v). (k, p)) vs) k of
           None \<Rightarrow> None
         | Some p \<Rightarrow> if usable_reset content k p then Some (build_pending_reset_update now p (projr (content k))) else None)
    \<and> set (keys (List.map_filter (reset_row now) vs)) \<subseteq> set (keys (map (\<lambda>(k, p, v). (k, p)) vs))"
  using assms
proof (induction vs)
  case (Cons x vs)
  obtain k1 p1 v1 where x: "x = (k1, p1, v1)" by (rule prod_cases3)
  have v1: "verdict_ok strict content (k1, p1, v1)" using Cons.prems(1) by (simp add: x)
  have r: "reset_row now (k1, p1, v1) = (if usable_reset content k1 p1
      then Some (k1, build_pending_reset_update now p1 (projr (content k1))) else None)"
    by (rule verdict_ok_reset [OF v1])
  have ih: "dict_ok (List.map_filter (reset_row now) vs)
    \<and> map_of (List.map_filter (reset_row now) vs) k
      = (case map_of (map (\<lambda>(k, p, v). (k, p)) vs) k of
           None \<Rightarrow> None
         | Some p \<Rightarrow> if usable_reset content k p then Some (build_pending_reset_update now p (projr (content k))) else None)
    \<and> set (keys (List.map_filter (reset_row now) vs)) \<subseteq> set (keys (map (\<lambda>(k, p, v). (k, p)) vs))"
    using Cons by (simp add: x)
  have n: "k1 \<notin> set (keys (map (\<lambda>(k, p, v). (k, p)) vs))" using Cons.prems(2) by (simp only: x list.map prod.case fst_conv distinct.simps simp_thms)
  then have "map_of (map (\<lambda>(k, p, v). (k, p)) vs) k1 = None" unfolding map_of_eq_None_iff set_map .
  then show ?case
    using ih n by (auto simp: r x map_filter_simps simp del: set_map)
qed (simp add: map_filter_simps)

lemma reset_row_has_chunks: "setdefault ''chunks_list'' x (build_pending_reset_update now p c) = build_pending_reset_update now p c"
  by (cases "chunk_fields (chunks_list p) (chunks_count p)")
     (simp add: setdefault_def build_pending_reset_update_def has_key_def)

lemma map_of_apsnd: "map_of (map (apsnd f) d) k = map_option f (map_of d k)"
  by (induction d) auto

text \<open>C8. The validator loses no document. Of the rows, it deletes one only when the batch holds the document, the
  document neither failed nor carries a journal, and the storage of contents, able to confirm it, has
  nothing for it; it resets exactly the documents with content that need a reset, without a journal;
  every other row, in the batch or not, is as it was.\<close>

theorem validator_loses_nothing:
  assumes "validate_and_fix strict content delete_ok now i w docs s = (Inr kept, s2)" "plain w" "dict_ok docs"
  shows "map_of (ds_data s2) k =
    (case map_of docs k of
       None \<Rightarrow> map_of (ds_data s) k
     | Some p \<Rightarrow>
         if confirmed_absent strict content k p \<and> delete_ok k then None
         else if usable_reset content k p then Some (JObj (build_pending_reset_update now p (projr (content k))))
         else map_of (ds_data s) k)"
proof -
  obtain vs where vs: "verdicts strict content docs = Inr vs"
    using assms(1) by (auto simp: validate_and_fix_def split: sum.splits)
  have d: "map (\<lambda>(k, p, v). (k, p)) vs = docs" "list_all (verdict_ok strict content) vs"
    using verdicts_spec [OF vs] by auto
  let ?rows = "List.map_filter (reset_row now) vs"
  let ?s1 = "fold (\<lambda>k s. delete_docs [k] s) (deleted_ids delete_ok vs) s"
  note r = reset_rows [OF d(2) assms(3) [folded d(1)], of now k, unfolded d(1)]
  have u: "upsert i w ?rows ?s1 = (None, s2)"
    using assms(1) by (auto simp: validate_and_fix_def vs Let_def split: prod.splits option.splits)
  have f: "map_of (ds_data s2) k = (case map_of ?rows k of
      None \<Rightarrow> if k \<in> set (deleted_ids delete_ok vs) then None else map_of (ds_data s) k
    | Some row \<Rightarrow> Some (JObj (setdefault ''chunks_list'' (JList []) row)))"
    unfolding upsert_data_plain [OF u assms(2)]
    using r by (simp add: map_of_dict_update map_of_apsnd delete_fold_data map_of_fold_delete split: option.split)
  show ?thesis
  proof (cases "map_of docs k")
    case None
    then have "k \<notin> set (deleted_ids delete_ok vs)"
      using deleted_in [of k delete_ok vs] unfolding d(1) by (auto simp: map_of_eq_None_iff)
    then show ?thesis using f r None by simp
  next
    case (Some p)
    then have "(k, p) \<in> set (map (\<lambda>(k, p, v). (k, p)) vs)" unfolding d(1) by (rule map_of_SomeD)
    note del = deleted_keys [OF d(2) assms(3) [folded d(1)] this, of delete_ok]
    have "\<not> (confirmed_absent strict content k p \<and> usable_reset content k p)"
      by (auto simp: confirmed_absent_def usable_reset_def)
    then show ?thesis using f r Some del by (simp add: reset_row_has_chunks)
  qed
qed

definition one_batch :: batch where
  "one_batch = [(''a'', demoted_doc), (''b'', demoted_doc\<lparr>dp_status := JStr ''pending''\<rparr>)]"

theorem validator_loses_nothing_witness:
  "map_of (ds_data (snd (validate_and_fix True (\<lambda>_. Inr JNull) (\<lambda>_. True) ''now'' 0 WriteFails one_batch
     \<lparr>ds_data = [(''a'', JObj []), (''b'', JObj [])], ds_file = NoDocFile, ds_flags = [False], ds_loaded = True\<rparr>))) ''a''
   = Some (JObj [])"
proof -
  let ?s = "\<lparr>ds_data = [(''a'', JObj []), (''b'', JObj [])], ds_file = NoDocFile, ds_flags = [False], ds_loaded = True\<rparr>"
  have "\<exists>kept. fst (validate_and_fix True (\<lambda>_. Inr JNull) (\<lambda>_. True) ''now'' 0 WriteFails one_batch ?s) = Inr kept"
    by (simp add: validate_and_fix_def one_batch_def demoted_doc_def custom_chunk_patch_def obj_get_def
        CUSTOM_CHUNK_PATCH_METADATA_KEY_def verdict_def map_filter_simps reset_row_def upsert_def is_mapping_def Let_def)
  then obtain kept s2 where v: "validate_and_fix True (\<lambda>_. Inr JNull) (\<lambda>_. True) ''now'' 0 WriteFails one_batch ?s = (Inr kept, s2)"
    by (metis prod.collapse)
  have "dict_ok one_batch" by (simp add: one_batch_def)
  from validator_loses_nothing [OF v _ this, of "''a''"] show ?thesis
    by (simp add: v) (simp add: one_batch_def confirmed_absent_def usable_reset_def demoted_doc_def)
qed

end
