(* ===== verification/ResetLaws.thy ===== *)
theory ResetLaws
  imports SchedulerLaws
begin

text \<open>
  The two reads a manual retry rests on: the confirmation that nothing is left to resume, and the reset of
  the failed documents, page by page. Both are keyset sweeps over the document-status storage (\<^theory_text>\<open>Keyset\<close>).
\<close>

subsection \<open>One page\<close>

lemma page_misses_only_later:
  assumes "dict_ok d" "get_docs_by_statuses_page d statuses limit (position_of p) True = Inr pg"
  shows "pg_next pg = CursorEnd \<and> (\<forall>x. x \<in> cand_keys statuses d \<longrightarrow> above p x \<longrightarrow> snd x \<in> set (keys (pg_docs pg)))
    \<or> (\<exists>q. pg_next pg = position_of (Some q)
         \<and> (\<forall>x. x \<in> cand_keys statuses d \<longrightarrow> above p x \<longrightarrow> snd x \<in> set (keys (pg_docs pg)) \<or> above (Some q) x))"
proof -
  let ?ks = "map record_key (pg_docs pg)"
  have s: "strict_page statuses limit d p = Inr (?ks, pg_next pg = CursorEnd)"
    using assms(2) by (simp add: strict_page_def)
  have k: "snd x \<in> set (keys (pg_docs pg))" if "x \<in> set ?ks" for x
    using that keys_record_key [of "pg_docs pg"] by (metis image_eqI list.set_map)
  note c = doc_pages.page_complete [OF assms(1) s]
  show ?thesis
  proof (cases "pg_next pg = CursorEnd")
    case True
    then show ?thesis using c k by blast
  next
    case False
    have "?ks \<noteq> []" using doc_pages.page_full [OF assms(1)] s False by auto
    then have l: "List.last ?ks \<in> set ?ks" by (rule last_in_set)
    have "snd x \<in> set (keys (pg_docs pg)) \<or> above (Some (List.last ?ks)) x"
      if a: "x \<in> cand_keys statuses d" "above p x" for x
    proof (cases "x \<in> set ?ks")
      case False
      then have "\<forall>y\<in>set ?ks. y < x" using c [OF a] by blast
      then have "List.last ?ks < x" using l by blast
      then show ?thesis by simp
    qed (use k in blast)
    then show ?thesis using page_next_last [OF assms False] by blast
  qed
qed

lemma dict_ok_list_update: "dict_ok d \<Longrightarrow> dict_ok (AList.update k v d)"
  by blast

lemma map_sum_Inr: "map_sum id f x = Inr y \<longleftrightarrow> (\<exists>p. x = Inr p \<and> y = f p)"
  by (cases x) auto

text \<open>A strict read of full rows gives every row that is there.\<close>

lemma get_full_spec:
  "get_full_docs_by_ids d ids True acc = Inr out \<Longrightarrow>
   (dict_ok acc \<longrightarrow> dict_ok out) \<and>
   (\<forall>k. if k \<in> set ids \<and> obj_get d k \<noteq> JNull
        then \<exists>p. doc_processing_status_from_row (obj_get d k) = Inr p \<and> map_of out k = Some p
        else map_of out k = map_of acc k)"
proof (induction ids arbitrary: acc)
  case (Cons i ids)
  show ?case
  proof (cases "obj_get d i = JNull")
    case True
    then show ?thesis using Cons by auto
  next
    case False
    then obtain p where p: "doc_processing_status_from_row (obj_get d i) = Inr p"
        "get_full_docs_by_ids d ids True (AList.update i p acc) = Inr out"
      using Cons.prems by (auto simp: keep_row_def map_sum_Inr split: sum.splits)
    note ih = Cons.IH [OF p(2)]
    have "if k \<in> set (i # ids) \<and> obj_get d k \<noteq> JNull
        then \<exists>p. doc_processing_status_from_row (obj_get d k) = Inr p \<and> map_of out k = Some p
        else map_of out k = map_of acc k" for k
      using ih p(1) False by (cases "k = i"; cases "k \<in> set ids"; simp add: update_conv' split: if_splits)
    then show ?thesis using ih by (simp add: dict_ok_list_update)
  qed
qed simp

lemma still_in_spec:
  "still_in vals docs = Inr out \<Longrightarrow> dict_ok docs \<Longrightarrow>
   dict_ok out \<and> set (keys out) \<subseteq> set (keys docs) \<and>
   (\<forall>k. map_of out k = (case map_of docs k of None \<Rightarrow> None
      | Some p \<Rightarrow> if in_statuses (dp_status p) vals = Inr True then Some p else None))"
proof (induction docs arbitrary: out)
  case (Cons x docs)
  obtain k1 p1 where x: "x = (k1, p1)" by (cases x)
  obtain b r where b: "in_statuses (dp_status p1) vals = Inr b" "still_in vals docs = Inr r"
      "out = (if b then (k1, p1) # r else r)"
    using Cons.prems(1) by (cases "still_in vals docs") (auto simp: x split: sum.splits)
  have ih: "dict_ok r \<and> set (keys r) \<subseteq> set (keys docs) \<and>
     (\<forall>k. map_of r k = (case map_of docs k of None \<Rightarrow> None
      | Some p \<Rightarrow> if in_statuses (dp_status p) vals = Inr True then Some p else None))"
    using Cons.IH [OF b(2)] Cons.prems(2) by (simp add: x)
  have n: "k1 \<notin> set (keys docs)" "map_of docs k1 = None" using Cons.prems(2) by (auto simp: x map_of_eq_None_iff)
  then have "k1 \<notin> set (keys r)" "map_of r k1 = None" using ih by auto
  then show ?case using ih n b by (auto simp: x simp del: set_map)
qed simp

lemma map_of_setdefault:
  "map_of (setdefault k v d) j = (case map_of d j of None \<Rightarrow> if j = k then Some v else None | Some x \<Rightarrow> Some x)"
  by (cases "map_of d j") (auto simp: setdefault_def has_key_def update_conv')

lemma map_of_normalize:
  assumes "j \<noteq> ''content''" "j \<noteq> ''file_path''"
  shows "map_of (normalize_status_row d) j =
    (case map_of d j of None \<Rightarrow> if j = ''error_msg'' then Some JNull else if j = ''metadata'' then Some (JObj []) else None
     | Some x \<Rightarrow> Some x)"
proof -
  let ?d1 = "AList.delete ''content'' d"
  let ?d2 = "if truthy (obj_get ?d1 ''file_path'') then ?d1 else AList.update ''file_path'' (JStr ''no-file-path'') ?d1"
  have d: "map_of ?d2 j = map_of d j" using assms by (simp add: update_conv' delete_conv')
  have "normalize_status_row d = setdefault ''error_msg'' JNull (setdefault ''metadata'' (JObj []) ?d2)"
    unfolding normalize_status_row_def Let_def ..
  then show ?thesis by (cases "map_of d j") (simp_all add: map_of_setdefault d del: if_split)
qed

lemma from_row_fields:
  assumes "doc_processing_status_from_row (JObj row) = Inr p"
  shows "obj_get row ''status'' \<noteq> JStr ''processed'' \<Longrightarrow> dp_status p = obj_get row ''status''"
    and "has_journal (dp_metadata p) = has_journal (obj_get row ''metadata'')"
proof -
  let ?n = "normalize_status_row row"
  have n: "obj_get ?n ''status'' = obj_get row ''status''"
    by (simp add: obj_get_def map_of_normalize split: option.split)
  have m: "map_of ?n ''metadata'' = (case map_of row ''metadata'' of None \<Rightarrow> Some (JObj []) | v \<Rightarrow> v)"
    by (simp add: map_of_normalize split: option.split)
  have p: "dp_metadata p = obj_get_or ?n ''metadata'' (JObj [])"
      "dp_status p = obj_get ?n ''status'' \<or> obj_get ?n ''status'' = JStr ''processed''"
  proof -
    have "from_stored ?n = Inr p" using assms by (simp add: doc_processing_status_from_row_def)
    then obtain r where r: "p = post_init r" "dp_metadata r = obj_get_or ?n ''metadata'' (JObj [])"
        "dp_status r = obj_get ?n ''status''"
      by (simp add: from_stored_def split: if_splits) (metis doc_processing.select_convs(4,11))
    show "dp_metadata p = obj_get_or ?n ''metadata'' (JObj [])"
        "dp_status p = obj_get ?n ''status'' \<or> obj_get ?n ''status'' = JStr ''processed''"
      unfolding r(1) using r(2,3) by (simp_all add: post_init_def)
  qed
  show "obj_get row ''status'' \<noteq> JStr ''processed'' \<Longrightarrow> dp_status p = obj_get row ''status''" using p(2) n by simp
  have "\<not> has_journal (JObj [])" "\<not> has_journal JNull"
    by (simp_all add: has_journal_def obj_get_def is_mapping_def)
  then show "has_journal (dp_metadata p) = has_journal (obj_get row ''metadata'')"
    unfolding p(1) obj_get_or_def m by (simp add: obj_get_def split: option.split)
qed

lemma selected_in:
  "row_selected statuses (JObj row) \<Longrightarrow> in_statuses (obj_get row ''status'') (map status_value statuses) = Inr True"
  by (auto simp: row_selected_def in_statuses_def split: json.splits)

lemma selected_obj: "row_selected statuses r \<Longrightarrow> \<exists>row. r = JObj row"
  by (auto simp: row_selected_def split: json.splits)

lemma hydrate_spec:
  assumes "hydrate_scheduling_page h ids statuses = Inr docs" "PROCESSED \<notin> set statuses"
  shows "dict_ok docs"
    and "k \<in> set ids \<Longrightarrow> map_of h k = Some (JObj row) \<Longrightarrow> row_selected statuses (JObj row)
      \<Longrightarrow> \<exists>p. map_of docs k = Some p \<and> doc_processing_status_from_row (JObj row) = Inr p"
proof -
  obtain full where full: "get_full_docs_by_ids h ids True [] = Inr full"
      "still_in (map status_value statuses) full = Inr docs"
    using assms(1) by (auto simp: hydrate_scheduling_page_def split: sum.splits)
  note g = get_full_spec [OF full(1)]
  then have "dict_ok full" by simp
  note s = still_in_spec [OF full(2) this]
  show "dict_ok docs" using s by blast
  assume k: "k \<in> set ids" "map_of h k = Some (JObj row)" "row_selected statuses (JObj row)"
  then have "obj_get h k = JObj row" by (simp add: obj_get_def)
  then obtain p where p: "doc_processing_status_from_row (JObj row) = Inr p" "map_of full k = Some p"
    using g k(1) by (metis json.distinct(9))
  have "obj_get row ''status'' \<noteq> JStr ''processed''"
  proof
    assume "obj_get row ''status'' = JStr ''processed''"
    then obtain t where "t \<in> set statuses" "status_value t = ''processed''"
      using k(3) by (auto simp: row_selected_def)
    moreover from this(2) have "t = PROCESSED" by (cases t) simp_all
    ultimately show False using assms(2) by simp
  qed
  then have "in_statuses (dp_status p) (map status_value statuses) = Inr True"
    using from_row_fields(1) [OF p(1)] selected_in [OF k(3)] by simp
  then show "\<exists>p. map_of docs k = Some p \<and> doc_processing_status_from_row (JObj row) = Inr p"
    using s p by simp
qed

lemma full_read_values:
  "scan_rows (\<lambda>k v. keep_row True k (select_by_status (map status_value statuses) v)) d acc = Inr full \<Longrightarrow>
   distinct (keys acc @ keys d) \<Longrightarrow>
   distinct (keys full) \<and> (\<forall>k v. (k, v) \<in> set d \<longrightarrow> row_selected statuses v \<longrightarrow>
     (\<exists>p. map_of full k = Some p \<and> doc_processing_status_from_row v = Inr p))
   \<and> (\<forall>k p. map_of acc k = Some p \<longrightarrow> map_of full k = Some p)"
proof (induction d arbitrary: acc)
  case (Cons kr d)
  obtain k v where kr: "kr = (k, v)" by (cases kr)
  obtain out where out: "select_by_status (map status_value statuses) v = Inr out"
    using Cons.prems(1) by (auto simp: kr keep_row_def split: sum.splits)
  show ?case
  proof (cases out)
    case None
    then show ?thesis
      using Cons.IH [of acc] Cons.prems select_selected [OF out] by (auto simp: kr keep_row_def out)
  next
    case (Some p)
    have u: "AList.update k p acc = acc @ [(k, p)]" using Cons.prems(2) by (intro update_new) (auto simp: kr)
    have f: "doc_processing_status_from_row v = Inr p"
      using out Some by (cases "doc_processing_status_from_row v")
        (auto simp: select_by_status_def split: sum.splits if_splits)
    have n: "map_of acc k = None" using Cons.prems(2) by (auto simp: kr map_of_eq_None_iff)
    have a: "map_of (acc @ [(k, p)]) k = Some p" "map_of acc j = Some q \<Longrightarrow> map_of (acc @ [(k, p)]) j = Some q" for j q
      using n by (auto simp: map_add_def)
    show ?thesis
      using Cons.IH [of "acc @ [(k, p)]"] Cons.prems Some a f by (auto simp: kr keep_row_def out u simp del: map_of_append)
  qed
qed auto

subsection \<open>Nothing is left to resume\<close>

lemma auto_not_processed: "PROCESSED \<notin> set AUTO_RESUME_DOC_STATUSES"
  by (simp add: AUTO_RESUME_DOC_STATUSES_def)

lemma add_blocking_stays: "blocking \<noteq> [] \<Longrightarrow> add_blocking journaled blocking \<noteq> []"
proof (induction journaled arbitrary: blocking)
  case (Cons j js)
  have "add_blocking js (if length blocking < MANUAL_DRAIN_BLOCKER_SAMPLE then blocking @ [j] else blocking) \<noteq> []"
    using Cons by simp
  then show ?case by (simp add: add_blocking_def)
qed (simp add: add_blocking_def)

lemma add_blocking_grows: "blocking \<noteq> [] \<or> journaled \<noteq> [] \<Longrightarrow> add_blocking journaled blocking \<noteq> []"
proof (cases "blocking = []")
  case True
  moreover assume "blocking \<noteq> [] \<or> journaled \<noteq> []"
  ultimately obtain j js where j: "journaled = j # js" by (cases journaled) auto
  have "add_blocking js [j] \<noteq> []" by (rule add_blocking_stays) simp
  then show ?thesis using True by (simp add: j add_blocking_def MANUAL_DRAIN_BLOCKER_SAMPLE_def)
qed (rule add_blocking_stays)

lemma fetch_page:
  assumes "fetch_scheduling_page d statuses position limit = Inr (ids, journaled, nx)"
  obtains pg where "get_docs_by_statuses_page d statuses limit position True = Inr pg" "nx = pg_next pg"
    "set (keys (pg_docs pg)) = set ids \<union> set journaled"
proof -
  obtain pg where pg: "get_docs_by_statuses_page d statuses limit position True = Inr pg"
      "ids = keys (filter (\<lambda>(k, r). \<not> sr_has_journal r) (pg_docs pg))"
      "journaled = keys (filter (\<lambda>(k, r). sr_has_journal r) (pg_docs pg))" "nx = pg_next pg"
    using assms by (auto simp: fetch_scheduling_page_def map_sum_Inr)
  have "set (keys (pg_docs pg)) = set ids \<union> set journaled" by (force simp: pg(2,3))
  then show thesis using that pg by blast
qed

lemma stays_row:
  assumes "stays_in statuses k c h"
  obtains row where "map_of h k = Some (JObj row)" "row_selected statuses (JObj row)"
  using assms by (auto simp: stays_in_def split: option.splits json.splits)

lemma confirm_blocking:
  "confirm_loop n reads blocking position = Some (Inr ([], nx, [])) \<Longrightarrow> blocking = []"
proof (induction reads arbitrary: blocking position)
  case (Cons dh rest)
  obtain d h where dh: "dh = (d, h)" by (cases dh)
  obtain ids journaled np where f: "fetch_scheduling_page d AUTO_RESUME_DOC_STATUSES position n = Inr (ids, journaled, np)"
    using Cons.prems by (auto simp: dh split: sum.splits)
  have "add_blocking journaled blocking = []"
    using Cons.prems Cons.IH [of "add_blocking journaled blocking" np]
    by (auto simp: dh f Let_def split: sum.splits if_splits)
  then show ?case using add_blocking_stays by blast
qed simp

lemma confirm_complete:
  "confirm_loop n reads blocking (position_of p) = Some (Inr ([], nx, [])) \<Longrightarrow> above p (c, k) \<Longrightarrow>
   \<forall>(d, h)\<in>set reads. dict_ok d \<and> stays_in AUTO_RESUME_DOC_STATUSES k c d
     \<and> stays_in AUTO_RESUME_DOC_STATUSES k c h \<Longrightarrow> False"
proof (induction reads arbitrary: blocking p)
  case (Cons dh rest)
  obtain d h where dh: "dh = (d, h)" by (cases dh)
  obtain ids journaled np where f: "fetch_scheduling_page d AUTO_RESUME_DOC_STATUSES (position_of p) n = Inr (ids, journaled, np)"
    using Cons.prems(1) by (auto simp: dh split: sum.splits)
  obtain docs where docs: "(if ids = [] then Inr [] else hydrate_scheduling_page h ids AUTO_RESUME_DOC_STATUSES) = Inr docs"
    using Cons.prems(1) by (auto simp: dh f split: sum.splits if_splits)
  have e: "docs = []" using Cons.prems(1) by (auto simp: dh f docs split: if_splits)
  have rest: "if np = CursorEnd then add_blocking journaled blocking = []
      else confirm_loop n rest (add_blocking journaled blocking) np = Some (Inr ([], nx, []))"
    using Cons.prems(1) docs by (auto simp: dh f e Let_def split: sum.splits if_splits)
  then have "add_blocking journaled blocking = []" using confirm_blocking by (metis (full_types))
  then have j: "journaled = []" using add_blocking_grows by blast
  have s: "dict_ok d" "(c, k) \<in> cand_keys AUTO_RESUME_DOC_STATUSES d"
    using Cons.prems(3) stays_cand by (auto simp: dh)
  have "stays_in AUTO_RESUME_DOC_STATUSES k c h" using Cons.prems(3) by (simp add: dh)
  then obtain row where row: "map_of h k = Some (JObj row)" "row_selected AUTO_RESUME_DOC_STATUSES (JObj row)"
    by (rule stays_row)
  have i: "k \<notin> set ids"
  proof
    assume k: "k \<in> set ids"
    then have "hydrate_scheduling_page h ids AUTO_RESUME_DOC_STATUSES = Inr []" using docs e by (auto split: if_splits)
    from hydrate_spec(2) [OF this auto_not_processed k row] show False by simp
  qed
  obtain pg where pg: "get_docs_by_statuses_page d AUTO_RESUME_DOC_STATUSES n (position_of p) True = Inr pg"
      "np = pg_next pg" "set (keys (pg_docs pg)) = set ids \<union> set journaled"
    by (rule fetch_page [OF f])
  have nk: "k \<notin> set (keys (pg_docs pg))" using pg(3) i j by simp
  then obtain q where q: "np = position_of (Some q)" "above (Some q) (c, k)"
    using page_misses_only_later [OF s(1) pg(1)] s(2) Cons.prems(2) pg(2) by (metis snd_conv)
  have "confirm_loop n rest (add_blocking journaled blocking) (position_of (Some q)) = Some (Inr ([], nx, []))"
    using rest by (simp add: q(1) split: if_splits)
  from Cons.IH [OF this q(2)] Cons.prems(3) show ?case by simp
qed simp

text \<open>C4. The drain is confirmed only when it is over. When the confirmation of a manual retry answers that there is
  nothing to resume and nothing that blocks, over pages read from a store that changes meanwhile, then
  there is no document, journaled or not, that was in a resumable status in every one of the reads.\<close>

theorem drain_confirmed_over:
  assumes "confirm_auto_drained n reads = Some (Inr ([], nx, []))" "\<forall>(d, h)\<in>set reads. dict_ok d"
  shows "\<exists>(d, h)\<in>set reads. \<not> stays_in AUTO_RESUME_DOC_STATUSES k c d \<or> \<not> stays_in AUTO_RESUME_DOC_STATUSES k c h"
proof (rule ccontr)
  assume no: "\<not> ?thesis"
  show False
  proof (cases "n \<le> 0")
    case False
    then have "confirm_loop n reads [] (position_of None) = Some (Inr ([], nx, []))"
      using assms(1) by (simp add: confirm_auto_drained_def position_of_def)
    from confirm_complete [OF this, of c k] no assms(2) show False by auto
  next
    case True
    then obtain d h rest docs where r: "reads = (d, h) # rest" "get_docs_by_statuses d AUTO_RESUME_DOC_STATUSES True = Inr docs"
        "routable docs = []" "take MANUAL_DRAIN_BLOCKER_SAMPLE (sort (filter (\<lambda>k. k \<notin> set (keys (routable docs))) (keys docs))) = []"
      using assms(1) by (auto simp: confirm_auto_drained_def map_sum_Inr split: list.splits if_splits)
    have "length (sort (keys docs)) = 0" using r(3,4) by (simp add: MANUAL_DRAIN_BLOCKER_SAMPLE_def filter_id_conv)
    then have docs: "docs = []" by simp
    have ok: "dict_ok d" "stays_in AUTO_RESUME_DOC_STATUSES k c d" using assms(2) no by (auto simp: r(1))
    from stays_row [OF ok(2)] obtain row where row: "map_of d k = Some (JObj row)"
        "row_selected AUTO_RESUME_DOC_STATUSES (JObj row)" by blast
    have s: "scan_rows (\<lambda>k v. keep_row True k (select_by_status (map status_value AUTO_RESUME_DOC_STATUSES) v)) d [] = Inr []"
      using r(2) by (simp add: get_docs_by_statuses_def docs AUTO_RESUME_DOC_STATUSES_def)
    have "distinct (keys [] @ keys d)" using ok(1) by simp
    from full_read_values [OF s this] row map_of_SomeD [OF row(1)] show False by auto
  qed
qed

theorem drain_confirmed_over_witness:
  "\<not> stays_in AUTO_RESUME_DOC_STATUSES ''k'' ''2024'' [(''k'', JObj [(''status'', JStr ''processed''), (''created_at'', JStr ''2024'')])]"
proof -
  let ?d = "[(''k'', JObj [(''status'', JStr ''processed''), (''created_at'', JStr ''2024'')])]"
  have c: "confirm_auto_drained 2 [(?d, ?d)] = Some (Inr ([], CursorEnd, []))" by code_simp
  have "\<forall>(d, h)\<in>set [(?d, ?d)]. dict_ok d" by simp
  from drain_confirmed_over [OF c this, of "''k''" "''2024''"] show ?thesis by simp
qed

subsection \<open>The reset of the failed documents\<close>

definition failed_row :: "doc_data \<Rightarrow> pystr \<Rightarrow> row_fields \<Rightarrow> bool" where
  "failed_row d k row \<longleftrightarrow> map_of d k = Some (JObj row) \<and> row_selected [FAILED] (JObj row)"

text \<open>A failed row that stays failed: with a journal, or without content.\<close>

definition left_failed :: "(pystr \<Rightarrow> ds_error + json) \<Rightarrow> pystr \<Rightarrow> row_fields \<Rightarrow> bool" where
  "left_failed content k row \<longleftrightarrow>
     has_journal (obj_get row ''metadata'') \<or> (\<exists>c. content k = Inr c \<and> \<not> truthy c)"

text \<open>What the others may do during an exclusive reset: anything that makes no row fail.\<close>

definition adds_no_failed :: "interference \<Rightarrow> bool" where
  "adds_no_failed f \<longleftrightarrow>
     (\<forall>st. (dict_ok (ds_data (sc_store st)) \<longrightarrow> dict_ok (ds_data (sc_store (f st))))
        \<and> (\<forall>k row. failed_row (ds_data (sc_store (f st))) k row \<longrightarrow> failed_row (ds_data (sc_store st)) k row))"

definition quiet_page :: "reset_page_env \<Rightarrow> bool" where
  "quiet_page env \<longleftrightarrow> adds_no_failed (re_before env) \<and> adds_no_failed (re_hydrate env) \<and> adds_no_failed (re_write env)
     \<and> adds_no_failed (re_commit env) \<and> plain (re_outcome env)"

lemma adds_no_failedD:
  "adds_no_failed f \<Longrightarrow> failed_row (ds_data (sc_store (f st))) k row \<Longrightarrow> failed_row (ds_data (sc_store st)) k row"
  "adds_no_failed f \<Longrightarrow> dict_ok (ds_data (sc_store st)) \<Longrightarrow> dict_ok (ds_data (sc_store (f st)))"
  by (simp_all add: adds_no_failed_def)

lemma failed_cand: "failed_row d k row \<Longrightarrow> row_key (k, JObj row) \<in> cand_keys [FAILED] d"
  by (auto simp: failed_row_def cand_keys_def dest: map_of_SomeD)

text \<open>What a page of the reset reads.\<close>

lemma failed_page_spec:
  assumes "next_failed_page n d h (position_of p) = Inr (docs, nx)" "dict_ok d"
    "\<And>k row. failed_row h k row \<Longrightarrow> failed_row d k row"
  shows "dict_ok docs \<and>
    (nx = CursorEnd \<and> (\<forall>k row. failed_row h k row \<longrightarrow> above p (row_key (k, JObj row))
        \<longrightarrow> (\<exists>q. map_of docs k = Some q \<and> doc_processing_status_from_row (JObj row) = Inr q))
     \<or> (\<exists>l. nx = position_of (Some l) \<and> (\<forall>k row. failed_row h k row \<longrightarrow> above p (row_key (k, JObj row))
        \<longrightarrow> (\<exists>q. map_of docs k = Some q \<and> doc_processing_status_from_row (JObj row) = Inr q)
            \<or> above (Some l) (row_key (k, JObj row)))))"
proof (cases "n \<le> 0")
  case True
  then have r: "get_docs_by_statuses d [FAILED] True = Inr docs" "nx = CursorEnd"
    using assms(1) by (auto simp: next_failed_page_def map_sum_Inr)
  then have s: "scan_rows (\<lambda>k v. keep_row True k (select_by_status (map status_value [FAILED]) v)) d [] = Inr docs"
    by (simp add: get_docs_by_statuses_def)
  have "distinct (keys [] @ keys d)" using assms(2) by simp
  note v = full_read_values [OF s this]
  have "\<exists>q. map_of docs k = Some q \<and> doc_processing_status_from_row (JObj row) = Inr q" if "failed_row h k row" for k row
    using v assms(3) [OF that] by (auto simp: failed_row_def dest: map_of_SomeD)
  then show ?thesis using v r(2) by blast
next
  case False
  then obtain pg where pg: "get_docs_by_statuses_page d [FAILED] n (position_of p) True = Inr pg" "nx = pg_next pg"
      "pg_docs pg = [] \<and> docs = [] \<or> hydrate_scheduling_page h (keys (pg_docs pg)) [FAILED] = Inr docs"
    using assms(1) by (auto simp: next_failed_page_def map_sum_Inr split: sum.splits if_splits)
  have np: "PROCESSED \<notin> set [FAILED]" by simp
  have ok: "dict_ok docs" using pg(3) hydrate_spec(1) [OF _ np] by auto
  have h: "\<exists>q. map_of docs k = Some q \<and> doc_processing_status_from_row (JObj row) = Inr q"
    if "failed_row h k row" "k \<in> set (keys (pg_docs pg))" for k row
    using pg(3) hydrate_spec(2) [OF _ np that(2)] that by (auto simp: failed_row_def)
  have c: "row_key (k, JObj row) \<in> cand_keys [FAILED] d" "snd (row_key (k, JObj row)) = k" if "failed_row h k row" for k row
    using failed_cand [OF assms(3) [OF that]] by simp_all
  show ?thesis using page_misses_only_later [OF assms(2) pg(1)] ok h c pg(2) by metis
qed

lemma patch_None: "custom_chunk_patch m = None \<longleftrightarrow> \<not> has_journal m"
  using patch_iff by blast

lemma rows_cons:
  assumes "rows_to_reset content now ((k, p) # rest) acc = Inr rows"
  obtains "has_journal (dp_metadata p) \<or> (\<exists>c. content k = Inr c \<and> \<not> truthy c)"
      "rows_to_reset content now rest acc = Inr rows"
  | c where "rows_to_reset content now rest (AList.update k (build_pending_reset_update now p c) acc) = Inr rows"
proof (cases "has_journal (dp_metadata p)")
  case True
  then show thesis using assms that(1) by (simp add: patch_None)
next
  case False
  then obtain c where "content k = Inr c" using assms by (cases "content k") (simp_all add: patch_None)
  then show thesis using assms that False by (cases "truthy c") (simp_all add: patch_None)
qed

lemma rows_ok: "rows_to_reset content now docs acc = Inr rows \<Longrightarrow> dict_ok acc \<Longrightarrow> dict_ok rows"
proof (induction docs arbitrary: acc)
  case (Cons x docs)
  obtain k p where x: "x = (k, p)" by (cases x)
  from Cons.prems(1) show ?case unfolding x
    by (cases rule: rows_cons) (use Cons.IH Cons.prems(2) dict_ok_list_update in blast)+
qed simp

lemma rows_keep: "rows_to_reset content now docs acc = Inr rows \<Longrightarrow> set (keys acc) \<subseteq> set (keys rows)"
proof (induction docs arbitrary: acc)
  case (Cons x docs)
  obtain k p where x: "x = (k, p)" by (cases x)
  from Cons.prems show ?case unfolding x
  proof (cases rule: rows_cons)
    case 1
    then show ?thesis using Cons.IH by blast
  next
    case (2 c)
    from Cons.IH [OF this] show ?thesis by (auto simp: dict_simps simp del: set_map split: if_splits)
  qed
qed simp

lemma rows_values:
  "rows_to_reset content now docs acc = Inr rows \<Longrightarrow> map_of rows k = Some row \<Longrightarrow>
     map_of acc k = Some row \<or> (\<exists>p c. row = build_pending_reset_update now p c)"
proof (induction docs arbitrary: acc)
  case (Cons x docs)
  obtain i p where x: "x = (i, p)" by (cases x)
  from Cons.prems(1) show ?case unfolding x
  proof (cases rule: rows_cons)
    case 1
    then show ?thesis using Cons.IH Cons.prems(2) by blast
  next
    case (2 c)
    from Cons.IH [OF this Cons.prems(2)] show ?thesis by (auto simp: update_conv' split: if_splits)
  qed
qed simp

lemma rows_skipped:
  "rows_to_reset content now docs acc = Inr rows \<Longrightarrow> (k, p) \<in> set docs \<Longrightarrow> k \<notin> set (keys rows) \<Longrightarrow>
     has_journal (dp_metadata p) \<or> (\<exists>c. content k = Inr c \<and> \<not> truthy c)"
proof (induction docs arbitrary: acc)
  case (Cons x docs)
  obtain i q where x: "x = (i, q)" by (cases x)
  from Cons.prems(1) show ?case unfolding x
  proof (cases rule: rows_cons)
    case 1
    then show ?thesis using Cons.IH [OF 1(2)] Cons.prems(2,3) by (auto simp: x simp del: set_map)
  next
    case (2 c)
    have "i \<in> set (keys rows)" using rows_keep [OF 2] by (auto simp: dict_simps simp del: set_map split: if_splits)
    then show ?thesis using Cons.IH [OF 2] Cons.prems(2,3) by (auto simp: x simp del: set_map)
  qed
qed simp

lemma pending_not_failed: "\<not> row_selected [FAILED] (JObj (build_pending_reset_update now p c))"
proof -
  have "obj_get (build_pending_reset_update now p c) ''status'' = JStr ''pending''"
    by (cases "chunk_fields (chunks_list p) (chunks_count p)")
       (simp add: build_pending_reset_update_def obj_get_def)
  then show ?thesis by (simp add: row_selected_def)
qed

text \<open>After a page: the failed rows were failed before it, and those the page read are left for good.\<close>

lemma reset_page_step:
  assumes "(if docs = [] then (Inr 0, st) else reset_failed_page content i env docs tok st) = (Inr m, st3)"
    "quiet_page env" "dict_ok (ds_data (sc_store st))" "dict_ok docs"
  shows "dict_ok (ds_data (sc_store st3)) \<and> (\<forall>k row. failed_row (ds_data (sc_store st3)) k row \<longrightarrow>
      failed_row (ds_data (sc_store st)) k row
      \<and> (\<forall>q. map_of docs k = Some q \<longrightarrow> doc_processing_status_from_row (JObj row) = Inr q \<longrightarrow> left_failed content k row))"
proof (cases "docs = []")
  case True
  then show ?thesis using assms by simp
next
  case False
  obtain rows where rows: "rows_to_reset content (re_now env) docs [] = Inr rows"
    using assms(1) False by (auto simp: reset_failed_page_def split: sum.splits)
  have r: "dict_ok rows" "\<And>k row. map_of rows k = Some row \<Longrightarrow> \<exists>p c. row = build_pending_reset_update (re_now env) p c"
    "\<And>k q. map_of docs k = Some q \<Longrightarrow> map_of rows k = None \<Longrightarrow> has_journal (dp_metadata q) \<or> (\<exists>c. content k = Inr c \<and> \<not> truthy c)"
    using rows_ok [OF rows] rows_values [OF rows] rows_skipped [OF rows map_of_SomeD] by (simp_all add: map_of_eq_None_iff)
  have left: "left_failed content k row"
    if "map_of rows k = None" "map_of docs k = Some q" "doc_processing_status_from_row (JObj row) = Inr q" for k q row
    using r(3) [OF that(2,1)] from_row_fields(2) [OF that(3)] by (simp add: left_failed_def)
  show ?thesis
  proof (cases "rows = []")
    case True
    then have "st3 = st" using assms(1) False rows by (simp add: reset_failed_page_def)
    then show ?thesis using assms(3) left True by simp
  next
    case ne: False
    define st2 where "st2 = re_commit env (re_write env st)"
    obtain s1 where s1: "upsert i (re_outcome env) rows (sc_store st2) = (None, s1)" "st3 = st2\<lparr>sc_store := s1\<rparr>"
      using assms(1) False rows ne
      by (auto simp: reset_failed_page_def Let_def st2_def split: if_splits prod.splits option.splits)
    have q: "adds_no_failed (re_write env)" "adds_no_failed (re_commit env)" "plain (re_outcome env)"
      using assms(2) by (simp_all add: quiet_page_def)
    have ok2: "dict_ok (ds_data (sc_store st2))" 
      unfolding st2_def by (rule adds_no_failedD(2) [OF q(2) adds_no_failedD(2) [OF q(1) assms(3)]])
    have d: "ds_data (sc_store st3)
        = dict_update (map (apsnd (\<lambda>d. JObj (setdefault ''chunks_list'' (JList []) d))) rows) (ds_data (sc_store st2))"
      using upsert_data_plain [OF s1(1) q(3)] s1(2) by simp
    have m: "map_of (ds_data (sc_store st3)) k = (case map_of rows k of None \<Rightarrow> map_of (ds_data (sc_store st2)) k
        | Some row \<Rightarrow> Some (JObj (setdefault ''chunks_list'' (JList []) row)))" for k
    proof -
      have "dict_ok (map (apsnd (\<lambda>d. JObj (setdefault ''chunks_list'' (JList []) d))) rows)"
        using r(1) by (simp only: map_of_map_apsnd_keys)
      then show ?thesis unfolding d by (cases "map_of rows k") (simp_all only: map_of_dict_update map_of_apsnd option.map option.case)
    qed
    have "map_of rows k = None \<and> failed_row (ds_data (sc_store st2)) k row"
      if f: "failed_row (ds_data (sc_store st3)) k row" for k row
    proof (cases "map_of rows k")
      case None
      then show ?thesis using f by (simp add: failed_row_def m)
    next
      case (Some row1)
      then obtain p c where "row1 = build_pending_reset_update (re_now env) p c" using r(2) by blast
      then show ?thesis using f Some pending_not_failed by (auto simp: failed_row_def m reset_row_has_chunks)
    qed
    then show ?thesis
      using left adds_no_failedD(1) [OF q(1)] adds_no_failedD(1) [OF q(2)] dict_ok_dict_update [OF ok2]
      unfolding d st2_def by blast
  qed
qed

text \<open>The loop, from a position: what is not after it is already left.\<close>

lemma reset_loop:
  "exclusive_reset_loop n content i envs tok (position_of p) st = (Some (Inr True), st') \<Longrightarrow>
   \<forall>env\<in>set envs. quiet_page env \<Longrightarrow> dict_ok (ds_data (sc_store st)) \<Longrightarrow>
   (\<And>k row. failed_row (ds_data (sc_store st)) k row \<Longrightarrow> \<not> above p (row_key (k, JObj row)) \<Longrightarrow> left_failed content k row) \<Longrightarrow>
   failed_row (ds_data (sc_store st')) k row \<Longrightarrow> left_failed content k row"
proof (induction envs arbitrary: p st k row)
  case (Cons env envs)
  define st1 where "st1 = re_before env st"
  define st2 where "st2 = re_hydrate env st1"
  have q: "adds_no_failed (re_before env)" "adds_no_failed (re_hydrate env)" "quiet_page env"
    using Cons.prems(2) by (simp_all add: quiet_page_def)
  have ok: "dict_ok (ds_data (sc_store st1))" "dict_ok (ds_data (sc_store st2))"
    unfolding st2_def st1_def
    using adds_no_failedD(2) [OF q(1) Cons.prems(3)] adds_no_failedD(2) [OF q(2)] by blast+
  have before: "failed_row (ds_data (sc_store st2)) k row \<Longrightarrow> failed_row (ds_data (sc_store st1)) k row"
      "failed_row (ds_data (sc_store st1)) k row \<Longrightarrow> failed_row (ds_data (sc_store st)) k row" for k row
    unfolding st2_def st1_def using adds_no_failedD(1) [OF q(1)] adds_no_failedD(1) [OF q(2)] by blast+
  have own: "still_freeze_owner tok (sc_status st1)"
    using Cons.prems(1) by (simp add: Let_def st1_def split: if_splits)
  obtain docs nx where page: "next_failed_page n (ds_data (sc_store st1)) (ds_data (sc_store st2)) (position_of p) = Inr (docs, nx)"
    using Cons.prems(1) own by (auto simp: Let_def st1_def [symmetric] st2_def [symmetric] split: sum.splits)
  obtain m st3 where page_step: "(if docs = [] then (Inr 0, st2) else reset_failed_page content i env docs tok st2) = (Inr m, st3)"
    using Cons.prems(1) own page
    by (auto simp: Let_def st1_def [symmetric] st2_def [symmetric] split: sum.splits prod.splits if_splits)
  have rest: "if nx = CursorEnd then st' = st3
      else exclusive_reset_loop n content i envs tok nx st3 = (Some (Inr True), st')"
    using Cons.prems(1) own page page_step
    by (auto simp: Let_def st1_def [symmetric] st2_def [symmetric] split: if_splits)
  note pspec = failed_page_spec [OF page ok(1) before(1)]
  then have "dict_ok docs" by blast
  note after = reset_page_step [OF page_step q(3) ok(2) this]
  have settled: "left_failed content k row"
    if f: "failed_row (ds_data (sc_store st3)) k row"
      and r: "\<not> above p (row_key (k, JObj row))
        \<or> (\<exists>q. map_of docs k = Some q \<and> doc_processing_status_from_row (JObj row) = Inr q)" for k row
    using r
  proof
    assume "\<not> above p (row_key (k, JObj row))"
    then show ?thesis using Cons.prems(4) before after f by blast
  next
    assume "\<exists>q. map_of docs k = Some q \<and> doc_processing_status_from_row (JObj row) = Inr q"
    then show ?thesis using after f by blast
  qed
  show ?case
  proof (cases "nx = CursorEnd")
    case True
    then have "failed_row (ds_data (sc_store st3)) k row" using rest Cons.prems(5) by simp
    moreover have "nx \<noteq> position_of (Some l)" for l using True cursor_round_trip(2) by metis
    ultimately show ?thesis using pspec settled after by blast
  next
    case False
    then obtain l where l: "nx = position_of (Some l)"
      "\<And>k row. failed_row (ds_data (sc_store st2)) k row \<Longrightarrow> above p (row_key (k, JObj row)) \<Longrightarrow>
        (\<exists>q. map_of docs k = Some q \<and> doc_processing_status_from_row (JObj row) = Inr q)
            \<or> above (Some l) (row_key (k, JObj row))"
      using pspec by blast
    have "exclusive_reset_loop n content i envs tok (position_of (Some l)) st3 = (Some (Inr True), st')"
      using rest False l(1) by simp
    moreover have "left_failed content k row"
      if "failed_row (ds_data (sc_store st3)) k row" "\<not> above (Some l) (row_key (k, JObj row))" for k row
      using settled [OF that(1)] l(2) after that by blast
    ultimately show ?thesis using Cons.IH Cons.prems(2,5) after by (meson list.set_intros(2))
  qed
qed simp

text \<open>C3. A retry of the failed documents reaches all of them. When the exclusive reset says it is done, every document
  that is still failed either carries the journal of an unfinished operation or has no content to process:
  all the others were put back to pending, whatever the others do meanwhile that makes no document fail,
  and although each page it writes takes rows out of the set it sweeps over.\<close>

theorem reset_reaches_all:
  assumes "run_exclusive_failed_reset n content i envs tok st = (Some (Inr True), st')"
    "\<forall>env\<in>set envs. quiet_page env" "dict_ok (ds_data (sc_store st))"
    "failed_row (ds_data (sc_store st')) k row"
  shows "has_journal (obj_get row ''metadata'') \<or> (\<exists>c. content k = Inr c \<and> \<not> truthy c)"
proof -
  obtain s1 where e: "exclusive_reset_loop n content i envs tok (position_of None) (st\<lparr>sc_status := s1\<rparr>) = (Some (Inr True), st')"
    using assms(1) by (auto simp: run_exclusive_failed_reset_def position_of_def split: prod.splits bool.splits)
  have "left_failed content k row"
    by (rule reset_loop [OF e assms(2) _ _ assms(4)]) (use assms(3) in auto)
  then show ?thesis by (simp add: left_failed_def)
qed

definition no_others :: reset_page_env where
  "no_others = \<lparr>re_before = id, re_hydrate = id, re_write = id, re_commit = id,
     re_outcome = Published None Reloaded True, re_now = ''now''\<rparr>"

definition two_failed :: sched_state where
  "two_failed = \<lparr>sc_status = initialize_pipeline_status\<lparr>busy_owner := BareToken ''t''\<rparr>, sc_box = new_mailbox None 4 None,
     sc_store = \<lparr>ds_data = map (\<lambda>k. (k, JObj [(''status'', JStr ''failed''), (''created_at'', JStr ''2024''),
         (''updated_at'', JStr ''2024''), (''content_summary'', JStr ''s''), (''content_length'', JNum 4),
         (''file_path'', JStr ''a.pdf'')])) [''a'', ''b''],
       ds_file = NoDocFile, ds_flags = [False], ds_loaded = True\<rparr>\<rparr>"

definition only_a :: "pystr \<Rightarrow> ds_error + json" where
  "only_a k = Inr (if k = ''a'' then JObj [(''content'', JStr ''x'')] else JNull)"

theorem reset_reaches_all_witness:
  "(\<exists>c. only_a ''b'' = Inr c \<and> \<not> truthy c) \<and> fst (run_exclusive_failed_reset 1 only_a 0 [no_others, no_others, no_others] ''t'' two_failed)
     = Some (Inr True)"
proof -
  let ?run = "run_exclusive_failed_reset 1 only_a 0 [no_others, no_others, no_others] ''t'' two_failed"
  have f: "fst ?run = Some (Inr True)" by code_simp
  then obtain st' where r: "?run = (Some (Inr True), st')" by (metis prod.collapse)
  have "map_of (ds_data (sc_store (snd ?run))) ''b'' = map_of (ds_data (sc_store two_failed)) ''b''" by code_simp
  then obtain row where b: "map_of (ds_data (sc_store st')) ''b'' = Some (JObj row)"
      "row = [(''status'', JStr ''failed''), (''created_at'', JStr ''2024''),
         (''updated_at'', JStr ''2024''), (''content_summary'', JStr ''s''), (''content_length'', JNum 4),
         (''file_path'', JStr ''a.pdf'')]"
    by (simp add: r) (simp add: two_failed_def)
  have "failed_row (ds_data (sc_store st')) ''b'' row"
    by (simp add: failed_row_def b row_selected_def obj_get_def)
  moreover have "adds_no_failed id" by (simp add: adds_no_failed_def)
  then have "\<forall>env\<in>set [no_others, no_others, no_others]. quiet_page env" by (simp add: no_others_def quiet_page_def)
  moreover have "dict_ok (ds_data (sc_store two_failed))" by (simp add: two_failed_def)
  ultimately have "has_journal (obj_get row ''metadata'') \<or> (\<exists>c. only_a ''b'' = Inr c \<and> \<not> truthy c)"
    using reset_reaches_all [OF r] by blast
  then show ?thesis using f by (simp add: b(2) obj_get_def has_journal_def)
qed

end
