(* ===== verification/Retry.thy ===== *)
theory Retry
  imports ResetLaws
begin

text \<open>
  The retry of one failed document (\<^verbatim>\<open>src/lightrag/api/bimnemo/reintento.py\<close>). It takes the exclusive slot, as a
  deletion does, passes the one document to \<open>pending\<close> with the row of a reset, and gives the slot back
  whatever happens. What the others do meanwhile are arguments; the texts shown are left out, and so is
  the start of the run afterwards, which is a step of its own.
\<close>

datatype retry_answer = RetryQueued | RetryBusy | RetryNotFailed | RetryHalfDone | RetryNoText

fun retry_status :: "retry_answer \<Rightarrow> pystr" where
  "retry_status RetryQueued = ''queued''"
| "retry_status RetryBusy = ''busy''"
| "retry_status RetryNotFailed = ''nothing''"
| "retry_status RetryHalfDone = ''nothing''"
| "retry_status RetryNoText = ''nothing''"

record retry_env =
  rt_read :: interference
  rt_write :: interference
  rt_release :: interference
  rt_outcome :: write_outcome
  rt_now :: pystr

definition retry_operation :: "pystr \<Rightarrow> operation_info" where
  "retry_operation doc = \<lparr>op_kind = Some ''retry'', op_doc_id = None, op_doc_ids = Some [doc], op_scope = None\<rparr>"

text \<open>What the \<open>try\<close> does: the checks, in order, and the write.\<close>

definition retry_body ::
    "(pystr \<Rightarrow> ds_error + json) \<Rightarrow> retry_env \<Rightarrow> nat \<Rightarrow> pystr \<Rightarrow> sched_state
     \<Rightarrow> (sched_error + retry_answer) \<times> sched_state" where
  "retry_body content env i doc st =
     (case get_full_docs_by_ids (ds_data (sc_store st)) [doc] True [] of
        Inl err \<Rightarrow> (Inl (StoreError err), st)
      | Inr rows \<Rightarrow>
          (case map_of rows doc of
             None \<Rightarrow> (Inr RetryNotFailed, st)
           | Some p \<Rightarrow>
               if dp_status p \<noteq> JStr (status_value FAILED) then (Inr RetryNotFailed, st)
               else if custom_chunk_patch (dp_metadata p) \<noteq> None then (Inr RetryHalfDone, st)
               else (case content doc of
                       Inl err \<Rightarrow> (Inl (StoreError err), st)
                     | Inr c \<Rightarrow>
                         if \<not> truthy c then (Inr RetryNoText, st)
                         else (let st1 = rt_write env st
                               in (case upsert i (rt_outcome env) [(doc, build_pending_reset_update (rt_now env) p c)] (sc_store st1) of
                                     (Some err, s1) \<Rightarrow> (Inl (StoreError err), st1\<lparr>sc_store := s1\<rparr>)
                                   | (None, s1) \<Rightarrow> (Inr RetryQueued, st1\<lparr>sc_store := s1\<rparr>))))))"

definition release_retry :: "pystr \<Rightarrow> sched_state \<Rightarrow> sched_state" where
  "release_retry tok st =
     (case release_destructive_busy tok (Some (sc_status st)) of
        None \<Rightarrow> st
      | Some s1 \<Rightarrow> st\<lparr>sc_status := s1\<rparr>)"

definition reintentar_uno ::
    "proc_env \<Rightarrow> pystr \<Rightarrow> (pystr \<Rightarrow> ds_error + json) \<Rightarrow> retry_env \<Rightarrow> nat \<Rightarrow> pystr \<Rightarrow> sched_state
     \<Rightarrow> (sched_error + retry_answer) \<times> sched_state" where
  "reintentar_uno e tok content env i doc st =
     (case acquire_destructive_busy e tok ''retry'' (retry_operation doc) (Some (sc_status st)) of
        (Inr (True, _), Some s1) \<Rightarrow>
          (let (r, st1) = retry_body content env i doc (rt_read env (st\<lparr>sc_status := s1\<rparr>))
           in (r, release_retry tok (rt_release env st1)))
      | (_, Some s1) \<Rightarrow> (Inr RetryBusy, st\<lparr>sc_status := s1\<rparr>)
      | (_, None) \<Rightarrow> (Inr RetryBusy, st))"

subsection \<open>What it changes\<close>

text \<open>A row that can be retried: failed, without a journal of chunks, and with its text.\<close>

definition retriable :: "(pystr \<Rightarrow> ds_error + json) \<Rightarrow> json \<Rightarrow> pystr \<Rightarrow> bool" where
  "retriable content v doc \<longleftrightarrow>
     (\<exists>p c. doc_processing_status_from_row v = Inr p \<and> dp_status p = JStr ''failed'' \<and> \<not> has_journal (dp_metadata p)
        \<and> content doc = Inr c \<and> truthy c)"

lemma one_row:
  assumes "get_full_docs_by_ids d [doc] True [] = Inr rows"
  shows "map_of rows doc = Some p \<longleftrightarrow> obj_get d doc \<noteq> JNull \<and> doc_processing_status_from_row (obj_get d doc) = Inr p"
    "map_of rows doc = None \<longleftrightarrow> obj_get d doc = JNull"
proof -
  have "if doc \<in> set [doc] \<and> obj_get d doc \<noteq> JNull
        then \<exists>p. doc_processing_status_from_row (obj_get d doc) = Inr p \<and> map_of rows doc = Some p
        else map_of rows doc = map_of [] doc" using get_full_spec [OF assms] by blast
  then have "if obj_get d doc \<noteq> JNull then \<exists>p. doc_processing_status_from_row (obj_get d doc) = Inr p \<and> map_of rows doc = Some p
        else map_of rows doc = None" by (simp only: list.set insert_iff simp_thms map_of.simps)
  then show "map_of rows doc = Some p \<longleftrightarrow> obj_get d doc \<noteq> JNull \<and> doc_processing_status_from_row (obj_get d doc) = Inr p"
    "map_of rows doc = None \<longleftrightarrow> obj_get d doc = JNull"
    by (cases "obj_get d doc = JNull"; fastforce simp del: map_of_eq_Some_iff)+
qed

lemma retry_body_spec:
  assumes "retry_body content env i doc st = (Inr a, st')" "plain (rt_outcome env)"
  shows "if a = RetryQueued
    then retriable content (obj_get (ds_data (sc_store st)) doc) doc
      \<and> (\<exists>p c. doc_processing_status_from_row (obj_get (ds_data (sc_store st)) doc) = Inr p \<and> content doc = Inr c
          \<and> (\<forall>k. map_of (ds_data (sc_store st')) k = (if k = doc then Some (JObj (build_pending_reset_update (rt_now env) p c))
               else map_of (ds_data (sc_store (rt_write env st))) k)))
      \<and> sc_status st' = sc_status (rt_write env st)
    else \<not> retriable content (obj_get (ds_data (sc_store st)) doc) doc \<and> st' = st"
proof -
  let ?v = "obj_get (ds_data (sc_store st)) doc"
  obtain rows where rows: "get_full_docs_by_ids (ds_data (sc_store st)) [doc] True [] = Inr rows"
    using assms(1) by (auto simp: retry_body_def split: sum.splits)
  note one = one_row [OF rows]
  show ?thesis
  proof (cases "map_of rows doc")
    case None
    then have "?v = JNull" using one(2) by simp
    then have "\<not> retriable content ?v doc" by (simp add: retriable_def doc_processing_status_from_row_def)
    then show ?thesis using assms(1) rows None by (simp add: retry_body_def)
  next
    case (Some p)
    then have p: "doc_processing_status_from_row ?v = Inr p" using one(1) by simp
    have re: "retriable content ?v doc \<longleftrightarrow> dp_status p = JStr ''failed'' \<and> \<not> has_journal (dp_metadata p) \<and> (\<exists>c. content doc = Inr c \<and> truthy c)"
      using p by (auto simp: retriable_def)
    show ?thesis
    proof (cases "dp_status p = JStr ''failed'' \<and> \<not> has_journal (dp_metadata p)")
      case False
      then show ?thesis using assms(1) rows Some re by (auto simp: retry_body_def patch_None split: if_splits)
    next
      case True
      then obtain c where c: "content doc = Inr c"
        using assms(1) rows Some by (cases "content doc") (simp_all add: retry_body_def patch_None)
      show ?thesis
      proof (cases "truthy c")
        case False
        then show ?thesis using assms(1) rows Some True c re by (auto simp: retry_body_def patch_None)
      next
        case t: True
        define st1 where "st1 = rt_write env st"
        obtain s1 where u: "upsert i (rt_outcome env) [(doc, build_pending_reset_update (rt_now env) p c)] (sc_store st1) = (None, s1)"
          and r: "a = RetryQueued" "st' = st1\<lparr>sc_store := s1\<rparr>"
          using assms(1) rows Some True c t
          by (auto simp: retry_body_def patch_None Let_def st1_def split: prod.splits option.splits)
        have "map_of (ds_data s1) k = (if k = doc then Some (JObj (build_pending_reset_update (rt_now env) p c))
            else map_of (ds_data (sc_store st1)) k)" for k
          using upsert_data_plain [OF u assms(2)] by (simp add: reset_row_has_chunks map_of_dict_update)
        then show ?thesis using r re True c t p by (auto simp: st1_def)
      qed
    qed
  qed
qed

lemma released_token: "reservation_owner_token (busy_owner (sc_status (release_retry tok st))) \<noteq> Some tok"
  by (simp add: release_retry_def release_destructive_busy_def release_owned_reservation_def with_reservation_lock_def
      release_destructive_action_def reservation_owner_token_def)

lemma release_store [simp]: "sc_store (release_retry tok st) = sc_store st"
  by (simp add: release_retry_def split: option.split)

lemma retry_cases:
  assumes "reintentar_uno e tok content env i doc st = (r, st')"
  obtains (busy) s1 where "r = Inr RetryBusy" "st' = st\<lparr>sc_status := s1\<rparr>"
  | (run) s1 st1 where "retry_body content env i doc (rt_read env (st\<lparr>sc_status := s1\<rparr>)) = (r, st1)"
      "st' = release_retry tok (rt_release env st1)"
proof -
  obtain x ns where acq: "acquire_destructive_busy e tok ''retry'' (retry_operation doc) (Some (sc_status st)) = (x, ns)" by fastforce
  show thesis
  proof (cases ns)
    case None
    then have "r = Inr RetryBusy" "st' = st\<lparr>sc_status := sc_status st\<rparr>"
      using assms acq by (auto simp: reintentar_uno_def split: sum.splits prod.splits bool.splits)
    then show thesis by (rule busy)
  next
    case (Some s1)
    show thesis
    proof (cases "\<exists>m. x = Inr (True, m)")
      case True
      then show thesis using assms acq Some run by (auto simp: reintentar_uno_def Let_def split: prod.splits)
    next
      case False
      then have "r = Inr RetryBusy" "st' = st\<lparr>sc_status := s1\<rparr>"
        using assms acq Some by (auto simp: reintentar_uno_def split: sum.splits prod.splits bool.splits)
      then show thesis by (rule busy)
    qed
  qed
qed


definition retry_row :: "pystr \<Rightarrow> row_fields" where
  "retry_row status = [(''status'', JStr status), (''content_summary'', JStr ''s''), (''content_length'', JNum 1),
     (''created_at'', JStr ''1''), (''updated_at'', JStr ''1''), (''file_path'', JStr ''f'')]"

definition retry_world :: sched_state where
  "retry_world = \<lparr>sc_status = initialize_pipeline_status, sc_box = new_mailbox None 8 None,
     sc_store = \<lparr>ds_data = [(''a'', JObj (retry_row ''failed'')), (''b'', JObj (retry_row ''failed''))],
       ds_file = NoDocFile, ds_flags = [False], ds_loaded = True\<rparr>\<rparr>"

definition alone_env :: proc_env where
  "alone_env = \<lparr>my_pid = 1, my_start = None, has_psutil = True, probe = (\<lambda>_. ProcRunning), start_of = (\<lambda>_. None),
     is_multiprocess = False, on_linux = True\<rparr>"

definition calm_retry :: retry_env where
  "calm_retry = \<lparr>rt_read = id, rt_write = id, rt_release = id, rt_outcome = Published None Reloaded True, rt_now = ''2''\<rparr>"

lemma retry_world_acquires:
  "acquire_destructive_busy alone_env ''t'' ''retry'' (retry_operation ''a'') (Some initialize_pipeline_status)
   = (Inr (True, None), Some (initialize_pipeline_status\<lparr>busy := True, destructive_busy := True,
        operation_record := Some (retry_operation ''a''), busy_owner := OwnerRecord (make_owner_record alone_env ''t'' ''retry'')\<rparr>))"
  by (simp add: acquire_destructive_busy_def acquire_reservation_def reconcile_dead_pipeline_reservations_def
      reservation_recovery_enabled_def alone_env_def initialize_pipeline_status_def status_flag_def granted_def Let_def)

lemma retry_row_reads: "\<exists>p. doc_processing_status_from_row (JObj (retry_row ''failed'')) = Inr p \<and> dp_status p = JStr ''failed''
    \<and> \<not> has_journal (dp_metadata p)"
proof -
  obtain p where p: "doc_processing_status_from_row (JObj (retry_row ''failed'')) = Inr p"
    by (simp add: doc_processing_status_from_row_def from_stored_def required_fields_def normalize_status_row_def retry_row_def
        has_key_def setdefault_def obj_get_def Let_def)
  have "obj_get (retry_row ''failed'') ''status'' = JStr ''failed''" "obj_get (retry_row ''failed'') ''metadata'' = JNull"
    by (simp_all add: retry_row_def obj_get_def)
  then show ?thesis using p from_row_fields [OF p] by (simp add: has_journal_def is_mapping_def obj_get_def)
qed

lemma retry_queued: "fst (reintentar_uno alone_env ''t'' (\<lambda>_. Inr (JStr ''x'')) calm_retry 0 ''a'' retry_world) = Inr RetryQueued"
proof -
  obtain p where p: "doc_processing_status_from_row (JObj (retry_row ''failed'')) = Inr p" "dp_status p = JStr ''failed''"
    "\<not> has_journal (dp_metadata p)" using retry_row_reads by blast
  have "fst (retry_body (\<lambda>_. Inr (JStr ''x'')) calm_retry 0 ''a'' (retry_world\<lparr>sc_status := s\<rparr>)) = Inr RetryQueued" for s
    by (simp add: retry_body_def retry_world_def obj_get_def p keep_row_def patch_None calm_retry_def upsert_def
        index_done_callback_def publish_flags_def set_all_update_flags_def Let_def)
  then show ?thesis
    by (simp add: reintentar_uno_def retry_world_acquires [folded retry_world_def] calm_retry_def retry_world_def Let_def split_def)
qed


end
