(* ===== verification/KeyedLocks.thy ===== *)
theory KeyedLocks
  imports Reservations
begin

text \<open>
  The keyed locks of \<^verbatim>\<open>src/lightrag/kg/shared_storage.py\<close>. A context (\<open>_KeyedLockContext\<close>) takes the locks
  of several keys in order. Within a process the coroutines share one \<open>asyncio.Lock\<close> per key, which lives as
  long as it is referenced (\<open>KeyedUnifiedLock\<close>); between processes the record of the holder in a table of
  the server (\<open>KeyedHolderTable\<close>) is the lock, and the record of a dead process is taken over. The
  contexts of a coroutine are numbered; the object of a lock is a number into \<open>lock_objs\<close>; the uuids of the
  leases and the answers of the operating system are arguments. Logs and the debug counters are left out.
\<close>

subsection \<open>Identity of processes, as the server sees it\<close>

text \<open>\<open>clock_reads\<close>: the triples of reads of \<open>create_time\<close> that \<open>_start_delta\<close> would make for a process.\<close>

record probe_env =
  pr_proc :: proc_env
  clock_reads :: "nat \<Rightarrow> (rat option \<times> rat option \<times> rat option) list"

definition START_DELTA_RETRIES :: nat where
  "START_DELTA_RETRIES = 3"

definition NON_LINUX_START_DELTA_TOLERANCE :: rat where
  "NON_LINUX_START_DELTA_TOLERANCE = 1"

text \<open>\<open>int\<close> of a token of \<open>/proc\<close>: digits; anything else is the \<open>ValueError\<close>.\<close>

fun read_digits :: "nat \<Rightarrow> pystr \<Rightarrow> nat option" where
  "read_digits n [] = Some n"
| "read_digits n (c # cs) =
     (if 48 \<le> (of_char c :: nat) \<and> (of_char c :: nat) \<le> 57 then read_digits (n * 10 + (of_char c - 48)) cs else None)"

definition read_ticks :: "pystr \<Rightarrow> int option" where
  "read_ticks s = (if s = [] then None else map_option int (read_digits 0 s))"

fun stable_delta :: "(rat option \<times> rat option \<times> rat option) list \<Rightarrow> rat option" where
  "stable_delta [] = None"
| "stable_delta ((a0, d, a1) # later) =
     (case (a0, d, a1) of
        (Some x, Some y, Some z) \<Rightarrow> if z = x then Some (y - x) else stable_delta later
      | _ \<Rightarrow> None)"

definition start_delta :: "probe_env \<Rightarrow> nat option \<Rightarrow> rat option" where
  "start_delta e pid =
     (case pid of
        None \<Rightarrow> None
      | Some p \<Rightarrow>
          if on_linux (pr_proc e) then
            (case (start_of (pr_proc e) (my_pid (pr_proc e)), start_of (pr_proc e) p) of
               (Some own, Some target) \<Rightarrow>
                 (case (read_ticks target, read_ticks own) of
                    (Some t, Some o1) \<Rightarrow> Some (of_int (t - o1))
                  | _ \<Rightarrow> None)
             | _ \<Rightarrow> None)
          else stable_delta (take START_DELTA_RETRIES (clock_reads e p)))"

record holder_record =
  hr_pid :: "nat option"
  hr_lease :: pystr
  hr_delta :: "rat option"

definition holder_dead :: "probe_env \<Rightarrow> holder_record \<Rightarrow> bool" where
  "holder_dead e r =
     (case hr_pid r of
        None \<Rightarrow> False
      | Some p \<Rightarrow>
          if \<not> pid_alive (pr_proc e) p then True
          else (case (hr_delta r, start_delta e (Some p)) of
                  (Some d0, Some d1) \<Rightarrow>
                    if on_linux (pr_proc e) then d1 \<noteq> d0 else d1 > d0 + NON_LINUX_START_DELTA_TOLERANCE
                | _ \<Rightarrow> False))"

subsection \<open>The table of holders\<close>

text \<open>
  \<open>try_acquire\<close> locks the table twice and probes in between; the two sections are definitions of
  their own, since other requests act in between. \<open>try_claim\<close> is the second: it takes the slot
  only as the first section saw it.
\<close>

type_synonym holder_table = "(pystr, holder_record) pydict"

definition candidate :: "probe_env \<Rightarrow> nat option \<Rightarrow> pystr \<Rightarrow> holder_record" where
  "candidate e pid l = \<lparr>hr_pid = pid, hr_lease = l, hr_delta = start_delta e pid\<rparr>"

definition worth_claiming :: "probe_env \<Rightarrow> holder_record option \<Rightarrow> bool" where
  "worth_claiming e snap = (case snap of None \<Rightarrow> True | Some r \<Rightarrow> holder_dead e r)"

definition try_claim :: "pystr \<Rightarrow> holder_record option \<Rightarrow> holder_record \<Rightarrow> holder_table \<Rightarrow> bool \<times> holder_table" where
  "try_claim k snap cand h =
     (case (snap, map_of h k) of
        (None, None) \<Rightarrow> (True, AList.update k cand h)
      | (Some r, Some cur) \<Rightarrow> if hr_lease cur = hr_lease r then (True, AList.update k cand h) else (False, h)
      | _ \<Rightarrow> (False, h))"

definition try_acquire :: "probe_env \<Rightarrow> pystr \<Rightarrow> nat option \<Rightarrow> pystr \<Rightarrow> holder_table \<Rightarrow> bool \<times> holder_table" where
  "try_acquire e k pid l h =
     (let snap = map_of h k
      in if worth_claiming e snap then try_claim k snap (candidate e pid l) h else (False, h))"

definition release_holder :: "pystr \<Rightarrow> pystr \<Rightarrow> holder_table \<Rightarrow> bool \<times> holder_table" where
  "release_holder k l h =
     (case map_of h k of
        None \<Rightarrow> (False, h)
      | Some cur \<Rightarrow> if hr_lease cur = l then (True, AList.delete k h) else (False, h))"

definition holder_count :: "holder_table \<Rightarrow> nat" where
  "holder_count h = length h"

subsection \<open>The locks of a process\<close>

text \<open>
  An \<open>asyncio.Lock\<close> is granted in order of arrival: at once when it is free and nobody waits, else
  to the first waiter when it is free. A release of a free one raises and changes nothing.
\<close>

record aio_lock =
  al_locked :: bool
  al_waiters :: "nat list"

definition new_aio_lock :: aio_lock where
  "new_aio_lock = \<lparr>al_locked = False, al_waiters = []\<rparr>"

record keyed_locks =
  async_lock :: "(pystr, nat) pydict"
  async_lock_count :: "(pystr, int) pydict"
  lock_objs :: "nat \<Rightarrow> aio_lock"
  next_obj :: nat

definition init_keyed_locks :: keyed_locks where
  "init_keyed_locks = \<lparr>async_lock = [], async_lock_count = [], lock_objs = (\<lambda>_. new_aio_lock), next_obj = 0\<rparr>"

definition aio_set :: "nat \<Rightarrow> aio_lock \<Rightarrow> keyed_locks \<Rightarrow> keyed_locks" where
  "aio_set i l T = T\<lparr>lock_objs := (lock_objs T)(i := l)\<rparr>"

definition aio_acquire :: "nat \<Rightarrow> nat \<Rightarrow> keyed_locks \<Rightarrow> bool \<times> keyed_locks" where
  "aio_acquire n i T =
     (let l = lock_objs T i
      in if \<not> al_locked l \<and> al_waiters l = [] then (True, aio_set i (l\<lparr>al_locked := True\<rparr>) T)
         else (False, aio_set i (l\<lparr>al_waiters := al_waiters l @ [n]\<rparr>) T))"

definition aio_woken :: "nat \<Rightarrow> nat \<Rightarrow> keyed_locks \<Rightarrow> bool" where
  "aio_woken n i T \<longleftrightarrow> \<not> al_locked (lock_objs T i) \<and> (\<exists>ws. al_waiters (lock_objs T i) = n # ws)"

definition aio_take :: "nat \<Rightarrow> keyed_locks \<Rightarrow> keyed_locks" where
  "aio_take i T = aio_set i \<lparr>al_locked = True, al_waiters = tl (al_waiters (lock_objs T i))\<rparr> T"

definition aio_abandon :: "nat \<Rightarrow> nat \<Rightarrow> keyed_locks \<Rightarrow> keyed_locks" where
  "aio_abandon n i T = aio_set i ((lock_objs T i)\<lparr>al_waiters := remove1 n (al_waiters (lock_objs T i))\<rparr>) T"

definition aio_release :: "nat \<Rightarrow> keyed_locks \<Rightarrow> keyed_locks" where
  "aio_release i T = aio_set i ((lock_objs T i)\<lparr>al_locked := False\<rparr>) T"

definition get_combined_key :: "pystr \<Rightarrow> pystr \<Rightarrow> pystr" where
  "get_combined_key ns k = ns @ '':'' @ k"

definition get_or_create_async_lock :: "pystr \<Rightarrow> keyed_locks \<Rightarrow> nat \<times> keyed_locks" where
  "get_or_create_async_lock k T =
     (let (i, T1) = (case map_of (async_lock T) k of
                       Some i \<Rightarrow> (i, T)
                     | None \<Rightarrow> (next_obj T,
                         T\<lparr>async_lock := AList.update k (next_obj T) (async_lock T),
                           lock_objs := (lock_objs T)(next_obj T := new_aio_lock), next_obj := Suc (next_obj T)\<rparr>));
          c = (case map_of (async_lock_count T1) k of None \<Rightarrow> 0 | Some c \<Rightarrow> c)
      in (i, T1\<lparr>async_lock_count := AList.update k (c + 1) (async_lock_count T1)\<rparr>))"

definition release_async_lock :: "pystr \<Rightarrow> keyed_locks \<Rightarrow> keyed_locks" where
  "release_async_lock k T =
     (case map_of (async_lock_count T) k of
        None \<Rightarrow> T
      | Some c \<Rightarrow>
          if c - 1 \<le> 0 then
            T\<lparr>async_lock_count := AList.delete k (async_lock_count T), async_lock := AList.delete k (async_lock T)\<rparr>
          else T\<lparr>async_lock_count := AList.update k (c - 1) (async_lock_count T)\<rparr>)"

text \<open>\<open>get_lock_status\<close>: the keys held anywhere and the keys referenced in this process.\<close>

definition get_lock_status :: "bool \<Rightarrow> holder_table \<Rightarrow> keyed_locks \<Rightarrow> nat \<times> nat" where
  "get_lock_status multi h T = (if multi then holder_count h else 0, length (async_lock_count T))"

subsection \<open>A context\<close>

text \<open>
  \<open>le_gate\<close>: the context has the \<open>asyncio.Lock\<close> (the lock itself with one process, \<open>async_gate_acquired\<close> with
  several). The phases are the places where a context awaits or asks the server: \<open>CtxQueued\<close> awaits
  the \<open>asyncio.Lock\<close> of its last entry, \<open>CtxPolling\<close> sleeps between two requests with its uuid,
  \<open>CtxAsking\<close> has a request in the server that saw the given record. \<open>CtxReleasing\<close> is the exit and the rollback:
  both undo the entries from the last to the first.
\<close>

record lock_entry =
  le_key :: pystr
  le_obj :: nat
  le_gate :: bool
  le_lease :: "pystr option"
  le_entered :: bool

datatype lock_phase =
    CtxFree | CtxEntering | CtxQueued | CtxPolling pystr | CtxAsking pystr "holder_record option"
  | CtxInside | CtxReleasing

record lock_ctx =
  lc_keys :: "pystr list"
  lc_ul :: "lock_entry list"
  lc_phase :: lock_phase

definition free_ctx :: lock_ctx where
  "free_ctx = \<lparr>lc_keys = [], lc_ul = [], lc_phase = CtxFree\<rparr>"

definition open_ctx :: "pystr \<Rightarrow> pystr list \<Rightarrow> lock_ctx" where
  "open_ctx ns ks = \<lparr>lc_keys = map (get_combined_key ns) (sort ks), lc_ul = [], lc_phase = CtxEntering\<rparr>"

definition set_last :: "('a \<Rightarrow> 'a) \<Rightarrow> 'a list \<Rightarrow> 'a list" where
  "set_last f xs = (if xs = [] then [] else butlast xs @ [f (List.last xs)])"

text \<open>The \<open>asyncio.Lock\<close> of the last entry is taken: with one process that is the lock, else ask the server.\<close>

definition gate_taken :: "bool \<Rightarrow> pystr \<Rightarrow> lock_ctx \<Rightarrow> lock_ctx" where
  "gate_taken multi l c =
     c\<lparr>lc_ul := set_last (\<lambda>en. en\<lparr>le_gate := True, le_entered := \<not> multi\<rparr>) (lc_ul c),
       lc_phase := (if multi then CtxPolling l else CtxEntering)\<rparr>"

definition next_key :: "bool \<Rightarrow> pystr \<Rightarrow> nat \<Rightarrow> keyed_locks \<Rightarrow> lock_ctx \<Rightarrow> keyed_locks \<times> lock_ctx" where
  "next_key multi l n T c =
     (case lc_keys c of
        [] \<Rightarrow> (T, c\<lparr>lc_phase := CtxInside\<rparr>)
      | k # ks \<Rightarrow>
          (let (i, T1) = get_or_create_async_lock k T;
               c1 = c\<lparr>lc_keys := ks, lc_ul := lc_ul c @ [\<lparr>le_key = k, le_obj = i, le_gate = False, le_lease = None, le_entered = False\<rparr>]\<rparr>;
               (got, T2) = aio_acquire n i T1
           in (T2, if got then gate_taken multi l c1 else c1\<lparr>lc_phase := CtxQueued\<rparr>)))"

definition wake_up :: "bool \<Rightarrow> pystr \<Rightarrow> keyed_locks \<Rightarrow> lock_ctx \<Rightarrow> keyed_locks \<times> lock_ctx" where
  "wake_up multi l T c = (aio_take (le_obj (List.last (lc_ul c))) T, gate_taken multi l c)"

definition lease_taken :: "pystr \<Rightarrow> lock_ctx \<Rightarrow> lock_ctx" where
  "lease_taken l c =
     c\<lparr>lc_ul := set_last (\<lambda>en. en\<lparr>le_lease := Some l, le_entered := True\<rparr>) (lc_ul c), lc_phase := CtxEntering\<rparr>"

text \<open>The acquisition of the last entry is cancelled or fails: undo what it had, then roll back.\<close>

definition give_up :: "nat \<Rightarrow> keyed_locks \<Rightarrow> lock_ctx \<Rightarrow> keyed_locks \<times> lock_ctx" where
  "give_up n T c =
     (let i = le_obj (List.last (lc_ul c));
          T1 = (if lc_phase c = CtxQueued then aio_abandon n i T else aio_release i T)
      in (T1, c\<lparr>lc_ul := set_last (\<lambda>en. en\<lparr>le_gate := False\<rparr>) (lc_ul c), lc_phase := CtxReleasing\<rparr>))"

text \<open>
  \<open>rollback_single_entry\<close>, \<open>release_single_entry\<close> with \<open>UnifiedLock.__aexit__\<close>; \<open>answers\<close>: the server answers
  the release. When it does not, the \<open>asyncio.Lock\<close> is released all the same and the error is logged.
\<close>

definition release_entry ::
    "bool \<Rightarrow> bool \<Rightarrow> lock_entry \<Rightarrow> holder_table \<Rightarrow> keyed_locks \<Rightarrow> holder_table \<times> keyed_locks" where
  "release_entry multi answers en h T =
     (let (h1, T1) =
        (if \<not> le_entered en then (h, T)
         else (if multi \<and> answers then (case le_lease en of None \<Rightarrow> h | Some l \<Rightarrow> snd (release_holder (le_key en) l h)) else h,
               aio_release (le_obj en) T))
      in (h1, release_async_lock (le_key en) T1))"

definition release_last ::
    "bool \<Rightarrow> bool \<Rightarrow> holder_table \<Rightarrow> keyed_locks \<Rightarrow> lock_ctx \<Rightarrow> holder_table \<times> keyed_locks \<times> lock_ctx" where
  "release_last multi answers h T c =
     (if lc_ul c = [] then (h, T, free_ctx)
      else (let (h1, T1) = release_entry multi answers (List.last (lc_ul c)) h T
            in (h1, T1, c\<lparr>lc_ul := butlast (lc_ul c)\<rparr>)))"

end
