(* ===== verification/KeyedGates.thy ===== *)
theory KeyedGates
  imports KeyedLocks
begin

text \<open>
  What the contexts of one process keep of its table of \<open>asyncio.Lock\<close>s. A context is seen as the list
  of its entries, each with its key, the number of its lock and whether it has it, and as waiting or
  not. \<open>refs_ok\<close> is the contract of the reference counts, \<open>gates_ok\<close> that of the locks themselves.
\<close>

type_synonym gate_view = "pystr \<times> nat \<times> bool"

abbreviation v_key :: "gate_view \<Rightarrow> pystr" where "v_key v \<equiv> fst v"
abbreviation v_obj :: "gate_view \<Rightarrow> nat" where "v_obj v \<equiv> fst (snd v)"
abbreviation v_has :: "gate_view \<Rightarrow> bool" where "v_has v \<equiv> snd (snd v)"

definition slots :: "(nat \<Rightarrow> gate_view list) \<Rightarrow> (nat \<times> nat) set" where
  "slots U = {(n, i). i < length (U n)}"

definition view_at :: "(nat \<Rightarrow> gate_view list) \<Rightarrow> nat \<times> nat \<Rightarrow> gate_view" where
  "view_at U x = U (fst x) ! snd x"

definition refs :: "(nat \<Rightarrow> gate_view list) \<Rightarrow> pystr \<Rightarrow> (nat \<times> nat) set" where
  "refs U k = {x \<in> slots U. v_key (view_at U x) = k}"

text \<open>\<open>A\<close> and \<open>N\<close>: the lock and the count of a key; \<open>m\<close>: the number of the next lock.\<close>

definition counts_ok ::
    "(pystr \<Rightarrow> nat option) \<Rightarrow> (pystr \<Rightarrow> int option) \<Rightarrow> nat \<Rightarrow> (nat \<Rightarrow> gate_view list) \<Rightarrow> bool" where
  "counts_ok A N m U \<longleftrightarrow>
     (\<forall>k. N k = (if refs U k = {} then None else Some (int (card (refs U k)))))
     \<and> (\<forall>k. A k = None \<longleftrightarrow> refs U k = {})
     \<and> (\<forall>x\<in>slots U. A (v_key (view_at U x)) = Some (v_obj (view_at U x)))
     \<and> (\<forall>k k' i. A k = Some i \<longrightarrow> A k' = Some i \<longrightarrow> k = k')
     \<and> (\<forall>k i. A k = Some i \<longrightarrow> i < m)"

definition refs_ok :: "keyed_locks \<Rightarrow> (nat \<Rightarrow> gate_view list) \<Rightarrow> bool" where
  "refs_ok T U \<longleftrightarrow>
     finite (slots U) \<and> dict_ok (async_lock T) \<and> dict_ok (async_lock_count T)
     \<and> counts_ok (map_of (async_lock T)) (map_of (async_lock_count T)) (next_obj T) U"

text \<open>\<open>L\<close>: the locks; a lock is locked when one slot has it, and those wait for it whose last entry names it.\<close>

definition having :: "(nat \<Rightarrow> gate_view list) \<Rightarrow> ((nat \<times> nat) \<times> nat) set" where
  "having U = {(x, i). x \<in> slots U \<and> v_has (view_at U x) \<and> v_obj (view_at U x) = i}"

definition held_ok :: "(nat \<Rightarrow> bool) \<Rightarrow> (nat \<Rightarrow> gate_view list) \<Rightarrow> bool" where
  "held_ok L U \<longleftrightarrow> (\<forall>i. L i \<longleftrightarrow> i \<in> snd ` having U) \<and> inj_on snd (having U)"

definition waits_ok :: "(nat \<Rightarrow> nat list) \<Rightarrow> (nat \<Rightarrow> gate_view list) \<Rightarrow> (nat \<Rightarrow> bool) \<Rightarrow> bool" where
  "waits_ok W U Q \<longleftrightarrow>
     (\<forall>i. distinct (W i) \<and> (\<forall>n. n \<in> set (W i) \<longleftrightarrow> Q n \<and> U n \<noteq> [] \<and> v_obj (List.last (U n)) = i))"

definition gates_ok :: "keyed_locks \<Rightarrow> (nat \<Rightarrow> gate_view list) \<Rightarrow> (nat \<Rightarrow> bool) \<Rightarrow> bool" where
  "gates_ok T U Q \<longleftrightarrow>
     refs_ok T U \<and> held_ok (\<lambda>i. al_locked (lock_objs T i)) U \<and> waits_ok (\<lambda>i. al_waiters (lock_objs T i)) U Q"

subsection \<open>One entry more, one less, one changed\<close>

named_theorems slot_simps "how the slots change with one context"

lemma slots_add [slot_simps]: "slots (U(n := U n @ [v])) = insert (n, length (U n)) (slots U)"
  by (auto simp: slots_def less_Suc_eq split: if_splits)

lemma slots_drop [slot_simps]: "slots (U(n := butlast (U n))) = slots U - {(n, length (U n) - 1)}"
  by (auto simp: slots_def split: if_splits)

lemma slots_set [slot_simps]: "slots (U(n := (U n)[j := v])) = slots U"
  by (auto simp: slots_def split: if_splits)

lemma new_slot [simp]: "(n, length (U n)) \<notin> slots U"
  by (simp add: slots_def)

lemma view_add [slot_simps]:
  "x \<in> slots U \<Longrightarrow> view_at (U(n := U n @ [v])) x = view_at U x"
  "view_at (U(n := U n @ [v])) (n, length (U n)) = v"
  by (auto simp: slots_def view_at_def nth_append)

lemma view_drop [slot_simps]:
  "x \<in> slots U \<Longrightarrow> x \<noteq> (n, length (U n) - 1) \<Longrightarrow> view_at (U(n := butlast (U n))) x = view_at U x"
  by (cases x) (auto simp: slots_def view_at_def nth_butlast)

lemma view_set [slot_simps]:
  "view_at (U(n := (U n)[j := v])) x = (if x = (n, j) \<and> x \<in> slots U then v else view_at U x)"
  by (cases x) (auto simp: view_at_def slots_def nth_list_update list_update_beyond)

lemma refs_add [slot_simps]:
  "refs (U(n := U n @ [v])) k = (if v_key v = k then insert (n, length (U n)) (refs U k) else refs U k)"
  by (auto simp: refs_def slot_simps)

lemma refs_drop [slot_simps]:
  "refs (U(n := butlast (U n))) k = refs U k - {(n, length (U n) - 1)}"
  by (auto simp: refs_def slot_simps)

lemma refs_set:
  "(n, j) \<in> slots U \<Longrightarrow> v_key v = v_key (view_at U (n, j)) \<Longrightarrow> refs (U(n := (U n)[j := v])) k = refs U k"
  by (auto simp: refs_def slot_simps)

lemma view_last: "U n \<noteq> [] \<Longrightarrow> view_at U (n, length (U n) - 1) = List.last (U n)"
  by (simp add: view_at_def last_conv_nth)

lemma last_slot: "U n \<noteq> [] \<Longrightarrow> (n, length (U n) - 1) \<in> slots U"
  by (simp add: slots_def)

lemma new_slot_refs [simp]: "(n, length (U n)) \<notin> refs U k"
  by (simp add: refs_def)

lemma refs_slots: "refs U k \<subseteq> slots U"
  by (auto simp: refs_def)

subsection \<open>The reference counts\<close>

lemma counts_set:
  assumes "counts_ok A N m U" "(n, j) \<in> slots U"
    "v_key v = v_key (view_at U (n, j))" "v_obj v = v_obj (view_at U (n, j))"
  shows "counts_ok A N m (U(n := (U n)[j := v]))"
  using assms unfolding counts_ok_def by (simp add: refs_set slot_simps)

lemma counts_known:
  assumes ok: "counts_ok A N m U" and A: "A k = Some i" and fin: "finite (refs U k)"
  shows "counts_ok A (N(k \<mapsto> int (card (refs U k)) + 1)) m (U(n := U n @ [(k, i, g)]))"
proof -
  let ?V = "U(n := U n @ [(k, i, g)])" and ?x = "(n, length (U n))"
  have "A k = None \<longleftrightarrow> refs U k = {}" using ok unfolding counts_ok_def by blast
  then have e: "refs U k \<noteq> {}" using A by simp
  have r: "refs ?V k' = (if k' = k then insert ?x (refs U k) else refs U k')" for k' by (simp add: refs_add)
  have old: "A k' = None \<longleftrightarrow> refs U k' = {}" "N k' = (if refs U k' = {} then None else Some (int (card (refs U k'))))" for k'
    using ok unfolding counts_ok_def by blast+
  have "card (insert ?x (refs U k)) = Suc (card (refs U k))" using fin by simp
  then have 1: "\<forall>k'. (N(k \<mapsto> int (card (refs U k)) + 1)) k' = (if refs ?V k' = {} then None else Some (int (card (refs ?V k'))))"
    unfolding r by (simp add: old(2))
  have 2: "\<forall>k'. A k' = None \<longleftrightarrow> refs ?V k' = {}" unfolding r using e by (simp add: old(1))
  have 3: "A (v_key (view_at ?V y)) = Some (v_obj (view_at ?V y))" if "y \<in> slots ?V" for y
  proof (cases "y = ?x")
    case True
    then show ?thesis using A by (simp only: view_add fst_conv snd_conv)
  next
    case False
    then have "y \<in> slots U" using that by (simp only: slots_add insert_iff simp_thms)
    then show ?thesis using ok unfolding counts_ok_def by (simp only: view_add)
  qed
  show ?thesis using 1 2 3 ok unfolding counts_ok_def by blast
qed

lemma counts_new:
  assumes ok: "counts_ok A N m U" and A: "A k = None"
  shows "counts_ok (A(k \<mapsto> m)) (N(k \<mapsto> 1)) (Suc m) (U(n := U n @ [(k, m, g)]))"
proof -
  have none: "refs U k = {}" using ok A unfolding counts_ok_def by blast
  then have key: "\<forall>x\<in>slots U. v_key (view_at U x) \<noteq> k" by (auto simp: refs_def)
  have small: "A k' = Some i \<Longrightarrow> i < m" for k' i using ok unfolding counts_ok_def by blast
  show ?thesis unfolding counts_ok_def
  proof (intro conjI)
    show "\<forall>k' i. (A(k \<mapsto> m)) k' = Some i \<longrightarrow> i < Suc m" using small by (auto simp: less_Suc_eq)
    show "\<forall>k' k'' i. (A(k \<mapsto> m)) k' = Some i \<longrightarrow> (A(k \<mapsto> m)) k'' = Some i \<longrightarrow> k' = k''"
    proof (intro allI impI)
      fix k' k'' i
      assume 1: "(A(k \<mapsto> m)) k' = Some i" and 2: "(A(k \<mapsto> m)) k'' = Some i"
      have "A k' = Some i \<Longrightarrow> A k'' = Some i \<Longrightarrow> k' = k''" using ok unfolding counts_ok_def by blast
      then show "k' = k''" using 1 2 small [of k' i] small [of k'' i] by (simp split: if_splits)
    qed
  qed (use ok none key in \<open>auto simp: counts_ok_def slot_simps\<close>)
qed

lemma counts_drop:
  assumes ok: "counts_ok A N m U" and ne: "U n \<noteq> []" and k: "k = v_key (List.last (U n))"
    and fin: "finite (refs U k)"
  shows "N k = Some (int (card (refs U k)))"
    and "card (refs U k) \<le> 1 \<Longrightarrow> counts_ok (A(k := None)) (N(k := None)) m (U(n := butlast (U n)))"
    and "1 < card (refs U k) \<Longrightarrow> counts_ok A (N(k \<mapsto> int (card (refs U k)) - 1)) m (U(n := butlast (U n)))"
proof -
  let ?x = "(n, length (U n) - 1)"
  have v: "view_at U ?x = List.last (U n)" and sl: "?x \<in> slots U" using ne view_last [of U n] last_slot [of U n] by blast+
  have x: "?x \<in> refs U k" unfolding refs_def using v sl k by simp
  then have some: "refs U k \<noteq> {}" and pos: "0 < card (refs U k)" using fin by (auto simp: card_gt_0_iff)
  show "N k = Some (int (card (refs U k)))" using ok some unfolding counts_ok_def by simp
  have others: "refs U k' - {?x} = refs U k'" if "k' \<noteq> k" for k'
    using that v k by (auto simp: refs_def)
  have left: "card (refs U k - {?x}) = card (refs U k) - 1" using x by simp
  have keep: "A (v_key (view_at U y)) = Some (v_obj (view_at U y))" if "y \<in> slots U" for y
    using that ok unfolding counts_ok_def by blast
  have inj: "\<forall>k k' i. A k = Some i \<longrightarrow> A k' = Some i \<longrightarrow> k = k'" "\<forall>k i. A k = Some i \<longrightarrow> i < m"
    using ok unfolding counts_ok_def by blast+
  have old: "N k' = (if refs U k' = {} then None else Some (int (card (refs U k'))))" "A k' = None \<longleftrightarrow> refs U k' = {}" for k'
    using ok unfolding counts_ok_def by blast+
  have r: "refs (U(n := butlast (U n))) k' = (if k' = k then refs U k - {?x} else refs U k')" for k'
    using others by (simp add: refs_drop)
  show "counts_ok (A(k := None)) (N(k := None)) m (U(n := butlast (U n)))" if "card (refs U k) \<le> 1"
  proof -
    have gone: "refs U k - {?x} = {}" using left that fin by simp
    then have "v_key (view_at U y) \<noteq> k" if "y \<in> slots U" "y \<noteq> ?x" for y
      using that by (auto simp: refs_def)
    then have "\<forall>y\<in>slots (U(n := butlast (U n))). (A(k := None)) (v_key (view_at (U(n := butlast (U n))) y))
        = Some (v_obj (view_at (U(n := butlast (U n))) y))" using keep by (auto simp: slot_simps)
    then show ?thesis unfolding counts_ok_def r using gone old inj by simp
  qed
  show "counts_ok A (N(k \<mapsto> int (card (refs U k)) - 1)) m (U(n := butlast (U n)))" if "1 < card (refs U k)"
  proof -
    have "refs U k - {?x} \<noteq> {}" using left that by (metis card.empty not_less_eq_eq One_nat_def diff_is_0_eq linorder_not_less)
    moreover have "\<forall>y\<in>slots (U(n := butlast (U n))). A (v_key (view_at (U(n := butlast (U n))) y))
        = Some (v_obj (view_at (U(n := butlast (U n))) y))" using keep by (auto simp: slot_simps)
    ultimately show ?thesis unfolding counts_ok_def r using old inj left that some by (simp add: of_nat_diff)
  qed
qed

lemma refs_ok_objs [simp]: "refs_ok (aio_set i l T) U = refs_ok T U"
  by (simp add: refs_ok_def aio_set_def)

lemma refs_ok_init: "refs_ok init_keyed_locks (\<lambda>_. [])"
  by (simp add: refs_ok_def counts_ok_def init_keyed_locks_def slots_def refs_def)

lemma refs_ok_set:
  "refs_ok T U \<Longrightarrow> (n, j) \<in> slots U \<Longrightarrow> v_key v = v_key (view_at U (n, j)) \<Longrightarrow> v_obj v = v_obj (view_at U (n, j))
   \<Longrightarrow> refs_ok T (U(n := (U n)[j := v]))"
  unfolding refs_ok_def by (simp add: counts_set slots_set)

lemma refs_finite: "refs_ok T U \<Longrightarrow> finite (refs U k)"
  unfolding refs_ok_def by (meson finite_subset refs_slots)

lemma map_of_update_fun: "map_of (AList.update k v d) = (map_of d)(k \<mapsto> v)"
  by (rule ext) (simp add: dict_simps)

lemma map_of_delete_fun: "map_of (AList.delete k d) = (map_of d)(k := None)"
  by (rule ext) (simp add: dict_simps)

lemma get_or_create_cases:
  assumes ok: "refs_ok T U" and get: "get_or_create_async_lock k T = (i, T1)"
  obtains (known) "map_of (async_lock T) k = Some i"
      "T1 = T\<lparr>async_lock_count := AList.update k (int (card (refs U k)) + 1) (async_lock_count T)\<rparr>"
    | (new) "map_of (async_lock T) k = None" "i = next_obj T" "refs U k = {}"
      "T1 = T\<lparr>async_lock := AList.update k (next_obj T) (async_lock T),
         lock_objs := (lock_objs T)(next_obj T := new_aio_lock), next_obj := Suc (next_obj T),
         async_lock_count := AList.update k 1 (async_lock_count T)\<rparr>"
proof (cases "map_of (async_lock T) k")
  case (Some i')
  have "map_of (async_lock T) k = None \<longleftrightarrow> refs U k = {}" using ok unfolding refs_ok_def counts_ok_def by blast
  then have "refs U k \<noteq> {}" using Some by simp
  then have n: "map_of (async_lock_count T) k = Some (int (card (refs U k)))"
    using ok unfolding refs_ok_def counts_ok_def by simp
  have "get_or_create_async_lock k T = (i', T\<lparr>async_lock_count := AList.update k (int (card (refs U k)) + 1) (async_lock_count T)\<rparr>)"
    unfolding get_or_create_async_lock_def Some option.case prod.case Let_def n ..
  then show thesis using get Some by (intro known) simp_all
next
  case None
  have e: "refs U k = {}" using ok None unfolding refs_ok_def counts_ok_def by blast
  then have n: "map_of (async_lock_count T) k = None" using ok unfolding refs_ok_def counts_ok_def by simp
  have "get_or_create_async_lock k T = (next_obj T, T\<lparr>async_lock := AList.update k (next_obj T) (async_lock T),
         lock_objs := (lock_objs T)(next_obj T := new_aio_lock), next_obj := Suc (next_obj T),
         async_lock_count := AList.update k 1 (async_lock_count T)\<rparr>)"
    using None n by (simp add: get_or_create_async_lock_def)
  then show thesis using get None e by (intro new) simp_all
qed

lemma refs_ok_add:
  assumes ok: "refs_ok T U" and get: "get_or_create_async_lock k T = (i, T1)"
  shows "refs_ok T1 (U(n := U n @ [(k, i, g)]))"
proof (rule get_or_create_cases [OF ok get])
  assume known: "map_of (async_lock T) k = Some i"
    "T1 = T\<lparr>async_lock_count := AList.update k (int (card (refs U k)) + 1) (async_lock_count T)\<rparr>"
  then show ?thesis using ok refs_finite [OF ok, of k] unfolding refs_ok_def
    by (simp add: slots_add map_of_update_fun counts_known dict_ok_update)
next
  assume "map_of (async_lock T) k = None" "i = next_obj T" "refs U k = {}"
    "T1 = T\<lparr>async_lock := AList.update k (next_obj T) (async_lock T),
       lock_objs := (lock_objs T)(next_obj T := new_aio_lock), next_obj := Suc (next_obj T),
       async_lock_count := AList.update k 1 (async_lock_count T)\<rparr>"
  then show ?thesis using ok unfolding refs_ok_def
    by (simp add: slots_add map_of_update_fun counts_new dict_ok_update)
qed

lemma refs_ok_drop:
  assumes ok: "refs_ok T U" and ne: "U n \<noteq> []"
  shows "refs_ok (release_async_lock (v_key (List.last (U n))) T) (U(n := butlast (U n)))"
proof -
  let ?k = "v_key (List.last (U n))"
  have c: "counts_ok (map_of (async_lock T)) (map_of (async_lock_count T)) (next_obj T) U"
    using ok by (simp add: refs_ok_def)
  note d = counts_drop [OF c ne refl refs_finite [OF ok]]
  show ?thesis
  proof (cases "card (refs U ?k) \<le> 1")
    case True
    then show ?thesis using ok d(1) d(2) [OF True] unfolding refs_ok_def release_async_lock_def
      by (simp add: slots_drop map_of_delete_fun dict_ok_delete)
  next
    case False
    then show ?thesis using ok d(1) d(3) unfolding refs_ok_def release_async_lock_def
      by (simp add: slots_drop map_of_update_fun dict_ok_update)
  qed
qed

subsection \<open>The locks\<close>

lemma having_add: "having (U(n := U n @ [(k, i, False)])) = having U"
proof -
  have "view_at (U(n := U n @ [(k, i, False)])) y = (if y = (n, length (U n)) then (k, i, False) else view_at U y)"
    if "y \<in> insert (n, length (U n)) (slots U)" for y
    using that view_add(2) [of U n "(k, i, False)"] view_add(1) [of y U n "(k, i, False)"] by auto
  then show ?thesis unfolding having_def slots_add by (auto split: if_splits)
qed

lemma having_drop: "\<not> v_has (List.last (U n)) \<Longrightarrow> having (U(n := butlast (U n))) = having U"
proof (cases "U n = []")
  case True
  then have "U(n := butlast (U n)) = U" by auto
  then show ?thesis by simp
next
  case False
  assume "\<not> v_has (List.last (U n))"
  then have "\<not> v_has (view_at U (n, length (U n) - 1))" using False view_last [of U n] by simp
  then show ?thesis using view_drop [of _ U n] unfolding having_def slots_drop by fastforce
qed

lemma having_grant:
  assumes "(n, j) \<in> slots U" "v_has v" "\<not> v_has (view_at U (n, j))"
  shows "having (U(n := (U n)[j := v])) = insert ((n, j), v_obj v) (having U)"
  using assms unfolding having_def slots_set view_set by (auto split: if_splits)

lemma having_release:
  assumes "(n, j) \<in> slots U" "\<not> v_has v"
  shows "having (U(n := (U n)[j := v])) = having U - {((n, j), v_obj (view_at U (n, j)))}"
  using assms unfolding having_def slots_set view_set by (auto split: if_splits)

lemma held_grant:
  assumes "held_ok L U" "(n, j) \<in> slots U" "v_has v" "\<not> v_has (view_at U (n, j))" "\<not> L (v_obj v)"
  shows "held_ok (L(v_obj v := True)) (U(n := (U n)[j := v]))"
  using assms unfolding held_ok_def having_grant [OF assms(2-4)] by (simp add: inj_on_insert image_iff)

lemma held_release:
  assumes ok: "held_ok L U" and x: "(n, j) \<in> slots U" and v: "\<not> v_has v" "v_has (view_at U (n, j))"
    and i: "v_obj (view_at U (n, j)) = i"
  shows "held_ok (L(i := False)) (U(n := (U n)[j := v]))"
proof -
  have mem: "((n, j), i) \<in> having U" using x v i by (simp add: having_def)
  have inj: "inj_on snd (having U)" using ok by (simp add: held_ok_def)
  have "snd ` (having U - {((n, j), i)}) = snd ` having U - {i}"
    using inj mem by (subst inj_on_image_set_diff [OF inj]) auto
  moreover have "inj_on snd (having U - {((n, j), i)})" using inj by (rule inj_on_subset) blast
  ultimately show ?thesis using ok unfolding held_ok_def having_release [OF x v(1)] i by simp
qed

subsection \<open>Who waits\<close>

lemma waits_calm:
  "waits_ok W U Q \<Longrightarrow> \<not> Q n \<Longrightarrow> waits_ok W (U(n := us)) Q"
  by (auto simp: waits_ok_def)

lemma waits_join:
  assumes "waits_ok W U Q" "\<not> Q n" "U n \<noteq> []" "v_obj (List.last (U n)) = i"
  shows "waits_ok (W(i := W i @ [n])) U (Q(n := True))"
  using assms by (auto simp: waits_ok_def)

lemma waits_leave:
  assumes "waits_ok W U Q" "v_obj (List.last (U n)) = i"
  shows "waits_ok (W(i := remove1 n (W i))) U (Q(n := False))"
  using assms by (auto simp: waits_ok_def)

lemma remove_head: "W i = n # ws \<Longrightarrow> remove1 n (W i) = tl (W i)"
  by simp

subsection \<open>The operations\<close>

lemma objs_set [simp]: "lock_objs (aio_set i l T) = (lock_objs T)(i := l)"
  by (simp add: aio_set_def)

lemma aio_fields:
  "(\<lambda>x. al_locked (lock_objs (aio_set i l T) x)) = (\<lambda>x. al_locked (lock_objs T x))(i := al_locked l)"
  "(\<lambda>x. al_waiters (lock_objs (aio_set i l T) x)) = (\<lambda>x. al_waiters (lock_objs T x))(i := al_waiters l)"
  by auto

lemma release_objs [simp]: "lock_objs (release_async_lock k T) = lock_objs T"
  by (simp add: release_async_lock_def split: option.split)

lemma gates_init: "gates_ok init_keyed_locks (\<lambda>_. []) (\<lambda>_. False)"
  using refs_ok_init
  by (simp add: gates_ok_def held_ok_def waits_ok_def having_def slots_def init_keyed_locks_def new_aio_lock_def)

lemma fresh_lock:
  assumes "gates_ok T U Q" "next_obj T \<le> i"
  shows "lock_objs T i = new_aio_lock"
proof -
  have c: "counts_ok (map_of (async_lock T)) (map_of (async_lock_count T)) (next_obj T) U"
    using assms(1) by (simp add: gates_ok_def refs_ok_def)
  have small: "v_obj (view_at U x) < next_obj T" if "x \<in> slots U" for x
    using c that unfolding counts_ok_def by blast
  have "\<not> al_locked (lock_objs T i)"
    using assms small unfolding gates_ok_def held_ok_def having_def by fastforce
  moreover have "al_waiters (lock_objs T i) = []"
  proof (rule ccontr)
    assume "al_waiters (lock_objs T i) \<noteq> []"
    then obtain n where "n \<in> set (al_waiters (lock_objs T i))" by fastforce
    then have "U n \<noteq> []" "v_obj (List.last (U n)) = i"
      using assms(1) unfolding gates_ok_def waits_ok_def by blast+
    then show False using small [OF last_slot [of U n]] view_last [of U n] assms(2) by simp
  qed
  ultimately show ?thesis by (simp add: new_aio_lock_def)
qed

lemma gates_add:
  assumes ok: "gates_ok T U Q" and calm: "\<not> Q n" and get: "get_or_create_async_lock k T = (i, T1)"
  shows "gates_ok T1 (U(n := U n @ [(k, i, False)])) Q"
proof -
  have refs: "refs_ok T U" using ok by (simp add: gates_ok_def)
  have "lock_objs T1 = lock_objs T"
    by (rule get_or_create_cases [OF refs get]) (use fresh_lock [OF ok order_refl] in auto)
  then show ?thesis using ok refs_ok_add [OF refs get] calm
    unfolding gates_ok_def held_ok_def having_add by (simp add: waits_calm)
qed

lemma gates_drop:
  assumes ok: "gates_ok T U Q" and calm: "\<not> Q n" and ne: "U n \<noteq> []" and no: "\<not> v_has (List.last (U n))"
  shows "gates_ok (release_async_lock (v_key (List.last (U n))) T) (U(n := butlast (U n))) Q"
  using ok refs_ok_drop [of T U n] ne calm
  unfolding gates_ok_def held_ok_def having_drop [of U n, OF no] by (simp add: waits_calm)

lemma set_view_last: "us \<noteq> [] \<Longrightarrow> butlast us @ [v] = us[length us - 1 := v]"
  by (metis append_butlast_last_id length_butlast list_update_length)

lemma gates_grant:
  assumes ok: "gates_ok T U Q" and calm: "\<not> Q n" and ne: "U n \<noteq> []" and i: "List.last (U n) = (k, i, False)"
    and free: "\<not> al_locked (lock_objs T i)"
  shows "gates_ok (aio_set i ((lock_objs T i)\<lparr>al_locked := True\<rparr>) T) (U(n := butlast (U n) @ [(k, i, True)])) Q"
proof -
  let ?j = "length (U n) - 1" and ?L = "\<lambda>x. al_locked (lock_objs T x)"
  have v: "view_at U (n, ?j) = (k, i, False)" and x: "(n, ?j) \<in> slots U"
    using ne view_last [of U n] last_slot [of U n] i by simp_all
  have "refs_ok T (U(n := (U n)[?j := (k, i, True)]))"
    using ok x v by (intro refs_ok_set) (simp_all add: gates_ok_def)
  moreover have "held_ok (?L(i := True)) (U(n := (U n)[?j := (k, i, True)]))"
    using ok x v free held_grant [of ?L U n ?j "(k, i, True)"] by (simp add: gates_ok_def)
  moreover have "waits_ok (\<lambda>x. al_waiters (lock_objs T x)) (U(n := (U n)[?j := (k, i, True)])) Q"
    using ok calm by (intro waits_calm) (simp_all add: gates_ok_def)
  ultimately show ?thesis unfolding gates_ok_def aio_fields set_view_last [OF ne]
    by (simp add: fun_upd_idem [of "\<lambda>x. al_waiters (lock_objs T x)"])
qed

lemma gates_release:
  assumes ok: "gates_ok T U Q" and calm: "\<not> Q n" and ne: "U n \<noteq> []" and i: "List.last (U n) = (k, i, True)"
  shows "gates_ok (aio_release i T) (U(n := butlast (U n) @ [(k, i, False)])) Q"
proof -
  let ?j = "length (U n) - 1" and ?L = "\<lambda>x. al_locked (lock_objs T x)"
  have v: "view_at U (n, ?j) = (k, i, True)" and x: "(n, ?j) \<in> slots U"
    using ne view_last [of U n] last_slot [of U n] i by simp_all
  have "refs_ok T (U(n := (U n)[?j := (k, i, False)]))"
    using ok x v by (intro refs_ok_set) (simp_all add: gates_ok_def)
  moreover have "held_ok (?L(i := False)) (U(n := (U n)[?j := (k, i, False)]))"
    using ok x v held_release [of ?L U n ?j "(k, i, False)" i] by (simp add: gates_ok_def)
  moreover have "waits_ok (\<lambda>x. al_waiters (lock_objs T x)) (U(n := (U n)[?j := (k, i, False)])) Q"
    using ok calm by (intro waits_calm) (simp_all add: gates_ok_def)
  ultimately show ?thesis unfolding gates_ok_def aio_release_def aio_fields set_view_last [OF ne]
    by (simp add: fun_upd_idem [of "\<lambda>x. al_waiters (lock_objs T x)"])
qed

lemma gates_join:
  assumes "gates_ok T U Q" "\<not> Q n" "U n \<noteq> []" "v_obj (List.last (U n)) = i"
  shows "gates_ok (aio_set i ((lock_objs T i)\<lparr>al_waiters := al_waiters (lock_objs T i) @ [n]\<rparr>) T) U (Q(n := True))"
  using assms waits_join [of "\<lambda>i. al_waiters (lock_objs T i)" U Q n i]
  unfolding gates_ok_def aio_fields by (simp add: fun_upd_idem del: fun_upd_apply)

lemma gates_leave:
  assumes "gates_ok T U Q" "v_obj (List.last (U n)) = i"
  shows "gates_ok (aio_abandon n i T) U (Q(n := False))"
  using assms waits_leave [of "\<lambda>i. al_waiters (lock_objs T i)" U Q n i]
  unfolding gates_ok_def aio_abandon_def aio_fields by (simp add: fun_upd_idem del: fun_upd_apply)

lemma gates_wake:
  assumes ok: "gates_ok T U Q" and w: "aio_woken n i T" and ne: "U n \<noteq> []" and i: "List.last (U n) = (k, i, False)"
  shows "gates_ok (aio_take i T) (U(n := butlast (U n) @ [(k, i, True)])) (Q(n := False))"
proof -
  have "v_obj (List.last (U n)) = i" using i by simp
  note left = gates_leave [OF ok this]
  have "al_locked (lock_objs (aio_abandon n i T) i) = False" using w by (simp add: aio_woken_def aio_abandon_def)
  then have "gates_ok (aio_set i ((lock_objs (aio_abandon n i T) i)\<lparr>al_locked := True\<rparr>) (aio_abandon n i T))
      (U(n := butlast (U n) @ [(k, i, True)])) (Q(n := False))"
    using gates_grant [OF left _ ne i] by simp
  moreover have "aio_set i ((lock_objs (aio_abandon n i T) i)\<lparr>al_locked := True\<rparr>) (aio_abandon n i T) = aio_take i T"
    using w by (cases "lock_objs T i") (auto simp: aio_take_def aio_abandon_def aio_set_def aio_woken_def)
  ultimately show ?thesis by simp
qed

text \<open>Two slots of one process cannot have the lock of the same key.\<close>

lemma one_has:
  assumes ok: "gates_ok T U Q" and x: "x \<in> slots U" "v_has (view_at U x)" and y: "y \<in> slots U" "v_has (view_at U y)"
    and k: "v_key (view_at U x) = v_key (view_at U y)"
  shows "x = y"
proof -
  have c: "counts_ok (map_of (async_lock T)) (map_of (async_lock_count T)) (next_obj T) U" and inj: "inj_on snd (having U)"
    using ok by (simp_all add: gates_ok_def refs_ok_def held_ok_def)
  have "Some (v_obj (view_at U x)) = Some (v_obj (view_at U y))"
    using c x(1) y(1) k unfolding counts_ok_def by metis
  then have "(x, v_obj (view_at U x)) \<in> having U" "(y, v_obj (view_at U x)) \<in> having U"
    using x y by (auto simp: having_def)
  then show ?thesis using inj unfolding inj_on_def by fastforce
qed

end
