(* ===== verification/KeyedContexts.thy ===== *)
theory KeyedContexts
  imports KeyedGates
begin

text \<open>
  Every operation of a context keeps the contract of its process: \<open>ctx_shape\<close> says which entries a context
  has in each phase, \<open>proc_ok\<close> puts the contexts of a process and its table of locks together.
\<close>

definition gate_view :: "lock_ctx \<Rightarrow> gate_view list" where
  "gate_view c = map (\<lambda>en. (le_key en, le_obj en, le_gate en)) (lc_ul c)"

definition entry_done :: "bool \<Rightarrow> lock_entry \<Rightarrow> bool" where
  "entry_done multi en \<longleftrightarrow> le_entered en \<and> le_gate en \<and> (multi \<longleftrightarrow> le_lease en \<noteq> None)"

definition entry_new :: "lock_entry \<Rightarrow> bool" where
  "entry_new en \<longleftrightarrow> \<not> le_entered en \<and> \<not> le_gate en \<and> le_lease en = None"

definition entry_polling :: "lock_entry \<Rightarrow> bool" where
  "entry_polling en \<longleftrightarrow> \<not> le_entered en \<and> le_gate en \<and> le_lease en = None"

text \<open>All entries but the last have their lock; \<open>P\<close> holds of the last.\<close>

definition taken_but :: "bool \<Rightarrow> (lock_entry \<Rightarrow> bool) \<Rightarrow> lock_entry list \<Rightarrow> bool" where
  "taken_but multi P us \<longleftrightarrow> us \<noteq> [] \<and> (\<forall>en\<in>set (butlast us). entry_done multi en) \<and> P (List.last us)"

definition ctx_shape :: "bool \<Rightarrow> lock_ctx \<Rightarrow> bool" where
  "ctx_shape multi c =
     (case lc_phase c of
        CtxFree \<Rightarrow> lc_ul c = []
      | CtxEntering \<Rightarrow> (\<forall>en\<in>set (lc_ul c). entry_done multi en)
      | CtxQueued \<Rightarrow> taken_but multi entry_new (lc_ul c)
      | CtxPolling l \<Rightarrow> multi \<and> taken_but multi entry_polling (lc_ul c)
      | CtxAsking l s \<Rightarrow> multi \<and> taken_but multi entry_polling (lc_ul c)
      | CtxInside \<Rightarrow> (\<forall>en\<in>set (lc_ul c). entry_done multi en)
      | CtxReleasing \<Rightarrow> lc_ul c = [] \<or> taken_but multi (\<lambda>en. entry_done multi en \<or> entry_new en) (lc_ul c))"

definition proc_ok :: "bool \<Rightarrow> keyed_locks \<Rightarrow> (nat \<Rightarrow> lock_ctx) \<Rightarrow> bool" where
  "proc_ok multi T C \<longleftrightarrow>
     gates_ok T (\<lambda>n. gate_view (C n)) (\<lambda>n. lc_phase (C n) = CtxQueued) \<and> (\<forall>n. ctx_shape multi (C n))"

lemma view_upd: "(\<lambda>m. gate_view ((C(n := c)) m)) = (\<lambda>m. gate_view (C m))(n := gate_view c)"
  by auto

lemma queue_upd:
  "(\<lambda>m. lc_phase ((C(n := c)) m) = CtxQueued) = (\<lambda>m. lc_phase (C m) = CtxQueued)(n := (lc_phase c = CtxQueued))"
  by auto

lemma shape_upd: "(\<forall>m. ctx_shape multi ((C(n := c)) m)) \<longleftrightarrow> ctx_shape multi c \<and> (\<forall>m. m \<noteq> n \<longrightarrow> ctx_shape multi (C m))"
  by auto

lemma set_last_simps [simp]:
  "set_last f [] = []" "set_last f (xs @ [x]) = xs @ [f x]" "length (set_last f xs) = length xs"
  "set_last f xs = [] \<longleftrightarrow> xs = []" "butlast (set_last f xs) = butlast xs"
  "xs \<noteq> [] \<Longrightarrow> List.last (set_last f xs) = f (List.last xs)"
  by (auto simp: set_last_def)

lemma view_ctx [simp]:
  "gate_view (c\<lparr>lc_phase := p\<rparr>) = gate_view c" "gate_view (c\<lparr>lc_keys := ks\<rparr>) = gate_view c"
  "gate_view free_ctx = []" "gate_view c = [] \<longleftrightarrow> lc_ul c = []"
  by (simp_all add: gate_view_def free_ctx_def)

lemma view_last_entry:
  "lc_ul c \<noteq> [] \<Longrightarrow> List.last (gate_view c)
     = (le_key (List.last (lc_ul c)), le_obj (List.last (lc_ul c)), le_gate (List.last (lc_ul c)))"
  by (simp add: gate_view_def last_map)

lemma view_butlast: "butlast (gate_view c) = map (\<lambda>en. (le_key en, le_obj en, le_gate en)) (butlast (lc_ul c))"
  by (simp add: gate_view_def map_butlast)

lemma view_set_last:
  assumes "lc_ul c \<noteq> []"
  shows "gate_view (c\<lparr>lc_ul := set_last f (lc_ul c)\<rparr>)
    = butlast (gate_view c) @ [(le_key (f (List.last (lc_ul c))), le_obj (f (List.last (lc_ul c))), le_gate (f (List.last (lc_ul c))))]"
  using assms by (simp add: gate_view_def set_last_def map_butlast)

lemma view_same:
  assumes "\<And>en. le_key (f en) = le_key en" "\<And>en. le_obj (f en) = le_obj en" "\<And>en. le_gate (f en) = le_gate en"
  shows "gate_view (c\<lparr>lc_ul := set_last f (lc_ul c)\<rparr>) = gate_view c"
proof (cases "lc_ul c = []")
  case True
  then show ?thesis by (simp add: gate_view_def)
next
  case False
  then have "gate_view c \<noteq> []" by simp
  then have "gate_view c = butlast (gate_view c) @ [List.last (gate_view c)]" by simp
  then show ?thesis unfolding view_set_last [OF False] assms view_last_entry [OF False] by (rule sym)
qed

text \<open>A change that neither takes nor gives back an \<open>asyncio.Lock\<close>.\<close>

lemma proc_phase:
  assumes "proc_ok multi T C" "gate_view c = gate_view (C n)" "lc_phase (C n) \<noteq> CtxQueued" "lc_phase c \<noteq> CtxQueued"
    "ctx_shape multi c"
  shows "proc_ok multi T (C(n := c))"
  using assms unfolding proc_ok_def view_upd queue_upd shape_upd by (simp add: fun_upd_idem del: fun_upd_apply)

lemma proc_free: "proc_ok multi T C \<Longrightarrow> ctx_shape multi (C n)"
  by (simp add: proc_ok_def)

lemma proc_gates: "proc_ok multi T C \<Longrightarrow> gates_ok T (\<lambda>n. gate_view (C n)) (\<lambda>n. lc_phase (C n) = CtxQueued)"
  by (simp add: proc_ok_def)

lemma proc_init: "proc_ok multi init_keyed_locks (\<lambda>_. free_ctx)"
  using gates_init by (simp add: proc_ok_def ctx_shape_def) (simp add: free_ctx_def)

lemma proc_open:
  "proc_ok multi T C \<Longrightarrow> lc_phase (C n) = CtxFree \<Longrightarrow> proc_ok multi T (C(n := open_ctx ns ks))"
  using proc_free [of multi T C n]
  by (intro proc_phase) (simp_all add: open_ctx_def ctx_shape_def gate_view_def)

lemma shape_taken:
  assumes "\<forall>en\<in>set us. entry_done multi en" "entry_new en" "lc_ul c = us @ [en]"
  shows "ctx_shape multi (gate_taken multi l c)"
  using assms by (cases multi) (simp_all add: gate_taken_def ctx_shape_def taken_but_def entry_new_def entry_polling_def entry_done_def)

lemma taken_view:
  "lc_ul c \<noteq> [] \<Longrightarrow> gate_view (gate_taken multi l c)
     = butlast (gate_view c) @ [(le_key (List.last (lc_ul c)), le_obj (List.last (lc_ul c)), True)]"
  using view_set_last [of c "\<lambda>en. en\<lparr>le_gate := True, le_entered := \<not> multi\<rparr>"] by (simp add: gate_taken_def)

lemma taken_phase [simp]: "lc_phase (gate_taken multi l c) = (if multi then CtxPolling l else CtxEntering)"
  by (simp add: gate_taken_def)

lemma proc_next:
  assumes ok: "proc_ok multi T C" and ph: "lc_phase (C n) = CtxEntering"
    and nk: "next_key multi l n T (C n) = (T', c')"
  shows "proc_ok multi T' (C(n := c'))"
proof (cases "lc_keys (C n)")
  case Nil
  then have "T' = T" "c' = (C n)\<lparr>lc_phase := CtxInside\<rparr>" using nk by (simp_all add: next_key_def)
  then show ?thesis using ok ph proc_free [OF ok, of n] by (auto intro!: proc_phase simp: ctx_shape_def)
next
  case (Cons k ks)
  let ?U = "\<lambda>n. gate_view (C n)" and ?Q = "\<lambda>n. lc_phase (C n) = CtxQueued"
  obtain i T1 where get: "get_or_create_async_lock k T = (i, T1)" by fastforce
  define en where "en = \<lparr>le_key = k, le_obj = i, le_gate = False, le_lease = None, le_entered = False\<rparr>"
  define c1 where "c1 = (C n)\<lparr>lc_keys := ks, lc_ul := lc_ul (C n) @ [en]\<rparr>"
  have ul: "lc_ul c1 = lc_ul (C n) @ [en]" and v1: "gate_view c1 = ?U n @ [(k, i, False)]"
    by (simp_all add: c1_def gate_view_def en_def)
  have full: "\<forall>en\<in>set (lc_ul (C n)). entry_done multi en" using proc_free [OF ok, of n] ph by (simp add: ctx_shape_def)
  have new: "entry_new en" by (simp add: en_def entry_new_def)
  have g1: "gates_ok T1 (?U(n := ?U n @ [(k, i, False)])) ?Q"
    using gates_add [OF proc_gates [OF ok] _ get] ph by simp
  have rest: "\<forall>m. m \<noteq> n \<longrightarrow> ctx_shape multi (C m)" using ok by (simp add: proc_ok_def)
  have step: "next_key multi l n T (C n) =
      (let (got, T2) = aio_acquire n i T1 in (T2, if got then gate_taken multi l c1 else c1\<lparr>lc_phase := CtxQueued\<rparr>))"
    unfolding next_key_def Cons list.case get Let_def prod.case c1_def en_def ..
  show ?thesis
  proof (cases "\<not> al_locked (lock_objs T1 i) \<and> al_waiters (lock_objs T1 i) = []")
    case True
    then have c: "c' = gate_taken multi l c1" and T': "T' = aio_set i ((lock_objs T1 i)\<lparr>al_locked := True\<rparr>) T1"
      using nk unfolding step by (simp_all add: aio_acquire_def Let_def)
    have "gates_ok T' (?U(n := ?U n @ [(k, i, True)])) ?Q"
      using gates_grant [OF g1, of n k i] True ph T' by simp
    moreover have "gate_view c' = ?U n @ [(k, i, True)]" using c ul v1 by (simp add: taken_view en_def)
    moreover have "ctx_shape multi c'" unfolding c by (rule shape_taken [OF full new ul])
    ultimately show ?thesis using rest ph c unfolding proc_ok_def view_upd queue_upd shape_upd
      by (simp add: fun_upd_idem del: fun_upd_apply)
  next
    case False
    then have c: "c' = c1\<lparr>lc_phase := CtxQueued\<rparr>"
      and T': "T' = aio_set i ((lock_objs T1 i)\<lparr>al_waiters := al_waiters (lock_objs T1 i) @ [n]\<rparr>) T1"
      using nk unfolding step by (auto simp: aio_acquire_def Let_def split: if_splits)
    have "gates_ok T' (?U(n := ?U n @ [(k, i, False)])) (?Q(n := True))"
      using gates_join [OF g1, of n i] ph T' by simp
    moreover have "ctx_shape multi c'" using full new ul c by (simp add: ctx_shape_def taken_but_def)
    ultimately show ?thesis using rest c v1 unfolding proc_ok_def view_upd queue_upd shape_upd by simp
  qed
qed

lemma proc_wake:
  assumes ok: "proc_ok multi T C" and ph: "lc_phase (C n) = CtxQueued"
    and w: "aio_woken n (le_obj (List.last (lc_ul (C n)))) T" and up: "wake_up multi l T (C n) = (T', c')"
  shows "proc_ok multi T' (C(n := c'))"
proof -
  let ?U = "\<lambda>n. gate_view (C n)" and ?e = "List.last (lc_ul (C n))"
  have sh: "taken_but multi entry_new (lc_ul (C n))" using proc_free [OF ok, of n] ph by (simp add: ctx_shape_def)
  then have ne: "lc_ul (C n) \<noteq> []" and new: "entry_new ?e" by (simp_all add: taken_but_def)
  have l: "List.last (?U n) = (le_key ?e, le_obj ?e, False)" using view_last_entry [OF ne] new by (simp add: entry_new_def)
  have c: "c' = gate_taken multi l (C n)" "T' = aio_take (le_obj ?e) T" using up by (simp_all add: wake_up_def)
  have "gates_ok T' (?U(n := butlast (?U n) @ [(le_key ?e, le_obj ?e, True)])) ((\<lambda>n. lc_phase (C n) = CtxQueued)(n := False))"
    using gates_wake [OF proc_gates [OF ok] w _ l] ne c by simp
  moreover have "ctx_shape multi c'" unfolding c
    by (rule shape_taken [where us = "butlast (lc_ul (C n))" and en = ?e]) (use sh ne in \<open>auto simp: taken_but_def\<close>)
  ultimately show ?thesis using ok c unfolding proc_ok_def view_upd queue_upd shape_upd
    by (simp add: taken_view [OF ne])
qed

lemma proc_give_up:
  assumes ok: "proc_ok multi T C" and ph: "lc_phase (C n) = CtxQueued \<or> lc_phase (C n) = CtxPolling l \<or> lc_phase (C n) = CtxAsking l s"
    and up: "give_up n T (C n) = (T', c')"
  shows "proc_ok multi T' (C(n := c'))"
proof -
  let ?U = "\<lambda>n. gate_view (C n)" and ?Q = "\<lambda>n. lc_phase (C n) = CtxQueued" and ?e = "List.last (lc_ul (C n))"
  have sh: "taken_but multi (if ?Q n then entry_new else entry_polling) (lc_ul (C n))"
    using proc_free [OF ok, of n] ph by (auto simp: ctx_shape_def)
  then have ne: "lc_ul (C n) \<noteq> []" by (simp add: taken_but_def)
  have c: "c' = (C n)\<lparr>lc_ul := set_last (\<lambda>en. en\<lparr>le_gate := False\<rparr>) (lc_ul (C n)), lc_phase := CtxReleasing\<rparr>"
    and T': "T' = (if ?Q n then aio_abandon n (le_obj ?e) T else aio_release (le_obj ?e) T)"
    using up by (simp_all add: give_up_def Let_def)
  have v: "gate_view c' = butlast (?U n) @ [(le_key ?e, le_obj ?e, False)]"
    using view_set_last [OF ne, of "\<lambda>en. en\<lparr>le_gate := False\<rparr>"] by (simp add: c)
  have "gates_ok T' (?U(n := butlast (?U n) @ [(le_key ?e, le_obj ?e, False)])) (?Q(n := False))"
  proof (cases "?Q n")
    case True
    then have l: "List.last (?U n) = (le_key ?e, le_obj ?e, False)"
      using view_last_entry [OF ne] sh by (simp add: taken_but_def entry_new_def)
    then have "butlast (?U n) @ [(le_key ?e, le_obj ?e, False)] = ?U n"
      using ne by (metis append_butlast_last_id view_ctx(4))
    then show ?thesis using gates_leave [OF proc_gates [OF ok], of n "le_obj ?e"] l True T'
      by (simp add: fun_upd_idem del: fun_upd_apply)
  next
    case False
    then have "List.last (?U n) = (le_key ?e, le_obj ?e, True)"
      using view_last_entry [OF ne] sh by (simp add: taken_but_def entry_polling_def)
    then show ?thesis using gates_release [OF proc_gates [OF ok], of n "le_key ?e" "le_obj ?e"] False T' ne
      by (simp add: fun_upd_idem del: fun_upd_apply)
  qed
  moreover have "ctx_shape multi c'" using sh ne
    by (simp add: c ctx_shape_def taken_but_def entry_new_def entry_polling_def split: if_splits)
  ultimately show ?thesis using ok c v unfolding proc_ok_def view_upd queue_upd shape_upd by simp
qed

lemma proc_lease:
  assumes ok: "proc_ok multi T C" and ph: "lc_phase (C n) = CtxAsking l s"
  shows "proc_ok multi T (C(n := lease_taken l (C n)))"
proof (rule proc_phase [OF ok])
  show "gate_view (lease_taken l (C n)) = gate_view (C n)"
    using view_same [of "\<lambda>en. en\<lparr>le_lease := Some l, le_entered := True\<rparr>" "C n"] by (simp add: lease_taken_def)
  have "ctx_shape multi (C n)" by (rule proc_free [OF ok])
  then have sh: "multi" "taken_but multi entry_polling (lc_ul (C n))" unfolding ctx_shape_def ph lock_phase.case by blast+
  then show "ctx_shape multi (lease_taken l (C n))"
    by (auto simp: lease_taken_def ctx_shape_def taken_but_def set_last_def entry_polling_def entry_done_def)
qed (use ph in \<open>simp_all add: lease_taken_def\<close>)

lemma proc_release:
  assumes ok: "proc_ok multi T C" and ph: "lc_phase (C n) = CtxReleasing"
    and rel: "release_last multi ans h T (C n) = (h', T', c')"
  shows "proc_ok multi T' (C(n := c'))"
proof (cases "lc_ul (C n) = []")
  case True
  then show ?thesis using rel ok ph by (auto simp: release_last_def intro!: proc_phase simp: ctx_shape_def free_ctx_def gate_view_def)
next
  case False
  let ?U = "\<lambda>n. gate_view (C n)" and ?Q = "\<lambda>n. lc_phase (C n) = CtxQueued" and ?e = "List.last (lc_ul (C n))"
  have sh: "taken_but multi (\<lambda>en. entry_done multi en \<or> entry_new en) (lc_ul (C n))"
    using proc_free [OF ok, of n] ph False by (simp add: ctx_shape_def)
  have Q: "\<not> ?Q n" using ph by simp
  have c: "c' = (C n)\<lparr>lc_ul := butlast (lc_ul (C n))\<rparr>"
    and T': "T' = release_async_lock (le_key ?e) (if le_entered ?e then aio_release (le_obj ?e) T else T)"
    using rel False by (auto simp: release_last_def release_entry_def Let_def split: prod.splits if_splits)
  have v: "gate_view c' = butlast (?U n)" by (simp add: c gate_view_def map_butlast)
  let ?T1 = "if le_entered ?e then aio_release (le_obj ?e) T else T"
  have g1: "gates_ok ?T1 (?U(n := butlast (?U n) @ [(le_key ?e, le_obj ?e, False)])) ?Q"
  proof (cases "le_entered ?e")
    case True
    then have "List.last (?U n) = (le_key ?e, le_obj ?e, True)"
      using view_last_entry [OF False] sh by (auto simp: taken_but_def entry_done_def entry_new_def)
    then show ?thesis using gates_release [OF proc_gates [OF ok] Q] True False by simp
  next
    case False2: False
    then have "List.last (?U n) = (le_key ?e, le_obj ?e, False)"
      using view_last_entry [OF False] sh by (auto simp: taken_but_def entry_done_def entry_new_def)
    then have "butlast (?U n) @ [(le_key ?e, le_obj ?e, False)] = ?U n"
      using False by (metis append_butlast_last_id view_ctx(4))
    then show ?thesis using proc_gates [OF ok] False2 by (simp add: fun_upd_idem del: fun_upd_apply)
  qed
  have "gates_ok T' (?U(n := butlast (?U n))) ?Q"
    using gates_drop [OF g1, of n] Q T' by simp
  moreover have "ctx_shape multi c'"
  proof (cases "butlast (lc_ul (C n)) = []")
    case True
    then show ?thesis using ph by (simp add: c ctx_shape_def)
  next
    case False
    then show ?thesis using sh ph by (auto simp: c ctx_shape_def taken_but_def dest: in_set_butlastD)
  qed
  ultimately show ?thesis using ok c v ph unfolding proc_ok_def view_upd queue_upd shape_upd
    by (simp add: fun_upd_idem del: fun_upd_apply)
qed

lemma proc_ask:
  assumes ok: "proc_ok multi T C" and ph: "lc_phase (C n) = CtxPolling l"
  shows "proc_ok multi T (C(n := (C n)\<lparr>lc_phase := CtxAsking l s\<rparr>))"
proof (rule proc_phase [OF ok])
  have "ctx_shape multi (C n)" by (rule proc_free [OF ok])
  then show "ctx_shape multi ((C n)\<lparr>lc_phase := CtxAsking l s\<rparr>)" unfolding ctx_shape_def ph by (cases multi) simp_all
qed (use ph in simp_all)

lemma proc_refused:
  assumes ok: "proc_ok multi T C" and ph: "lc_phase (C n) = CtxAsking l s"
  shows "proc_ok multi T (C(n := (C n)\<lparr>lc_phase := CtxPolling l\<rparr>))"
proof (rule proc_phase [OF ok])
  have "ctx_shape multi (C n)" by (rule proc_free [OF ok])
  then show "ctx_shape multi ((C n)\<lparr>lc_phase := CtxPolling l\<rparr>)" unfolding ctx_shape_def ph by (cases multi) simp_all
qed (use ph in simp_all)

lemma proc_leave:
  assumes ok: "proc_ok multi T C" and ph: "lc_phase (C n) = CtxInside"
  shows "proc_ok multi T (C(n := (C n)\<lparr>lc_phase := CtxReleasing\<rparr>))"
proof (rule proc_phase [OF ok])
  have "ctx_shape multi (C n)" by (rule proc_free [OF ok])
  then show "ctx_shape multi ((C n)\<lparr>lc_phase := CtxReleasing\<rparr>)" unfolding ctx_shape_def ph
    by (auto simp: taken_but_def dest: in_set_butlastD)
qed (use ph in simp_all)

lemmas proc_calm = proc_open proc_ask proc_refused proc_leave proc_lease

text \<open>In one process, one entry of one context has the lock of a key.\<close>

lemma proc_unique:
  assumes ok: "proc_ok multi T C" and i: "i < length (lc_ul (C n))" "le_gate (lc_ul (C n) ! i)"
    and j: "j < length (lc_ul (C m))" "le_gate (lc_ul (C m) ! j)"
    and k: "le_key (lc_ul (C n) ! i) = le_key (lc_ul (C m) ! j)"
  shows "n = m \<and> i = j"
proof -
  have "(n, i) = (m, j)"
    by (rule one_has [OF proc_gates [OF ok]]) (use i j k in \<open>simp_all add: slots_def view_at_def gate_view_def\<close>)
  then show ?thesis by simp
qed

lemma proc_last_only:
  assumes ok: "proc_ok multi T C" and ne: "lc_ul (C n) \<noteq> []" and l: "le_gate (List.last (lc_ul (C n)))"
    and en: "en \<in> set (butlast (lc_ul (C n)))" "le_gate en"
  shows "le_key en \<noteq> le_key (List.last (lc_ul (C n)))"
proof
  assume k: "le_key en = le_key (List.last (lc_ul (C n)))"
  let ?us = "lc_ul (C n)"
  obtain i where i: "i < length ?us - 1" "en = ?us ! i"
    using en(1) by (metis in_set_conv_nth length_butlast nth_butlast)
  have "n = n \<and> i = length ?us - 1"
    by (rule proc_unique [OF ok]) (use i ne l en(2) k in \<open>simp_all add: last_conv_nth\<close>)
  then show False using i by simp
qed

lemma gate_locked:
  assumes ok: "proc_ok multi T C" and en: "en \<in> set (lc_ul (C n))"
  shows "map_of (async_lock T) (le_key en) = Some (le_obj en)" "le_gate en \<Longrightarrow> al_locked (lock_objs T (le_obj en))"
proof -
  let ?U = "\<lambda>n. gate_view (C n)"
  have g: "refs_ok T ?U" "held_ok (\<lambda>i. al_locked (lock_objs T i)) ?U" using proc_gates [OF ok] by (simp_all add: gates_ok_def)
  obtain i where i: "i < length (lc_ul (C n))" "en = lc_ul (C n) ! i" using en by (metis in_set_conv_nth)
  have x: "(n, i) \<in> slots ?U" "view_at ?U (n, i) = (le_key en, le_obj en, le_gate en)"
    using i by (simp_all add: slots_def view_at_def gate_view_def)
  have "\<forall>x\<in>slots ?U. map_of (async_lock T) (v_key (view_at ?U x)) = Some (v_obj (view_at ?U x))"
    using g(1) unfolding refs_ok_def counts_ok_def by blast
  then show "map_of (async_lock T) (le_key en) = Some (le_obj en)" using x by fastforce
  show "al_locked (lock_objs T (le_obj en))" if "le_gate en"
  proof -
    have "((n, i), le_obj en) \<in> having ?U" using x that by (simp add: having_def)
    then have "le_obj en \<in> snd ` having ?U" by force
    then show ?thesis using g(2) unfolding held_ok_def by blast
  qed
qed

lemma shape_entered: "ctx_shape multi c \<Longrightarrow> en \<in> set (lc_ul c) \<Longrightarrow> le_entered en \<Longrightarrow> entry_done multi en"
  unfolding ctx_shape_def taken_but_def
  by (cases "lc_ul c" rule: rev_cases)
    (auto simp: entry_new_def entry_polling_def split: lock_phase.splits)

end
