(* ===== verification/KeyedLockSteps.thy ===== *)
theory KeyedLockSteps
  imports KeyedContexts
begin

text \<open>
  The contexts of all processes and the table of holders together. \<open>lock_step\<close> has a rule per place where a
  context acts: any of them, in any process, may act next. A process may die at any moment, a request
  whose client died is still served, and the reply to a request may be lost.
\<close>

record lock_world =
  w_holders :: holder_table
  w_tables :: "nat \<Rightarrow> keyed_locks"
  w_ctx :: "nat \<Rightarrow> nat \<Rightarrow> lock_ctx"
  w_alive :: "nat set"
  w_born :: "nat set"
  w_drawn :: "pystr set"
  w_granted :: "pystr set"

text \<open>
  A process is a number that is never used again; \<open>pid_of\<close> is its process id and \<open>birth\<close> its start relative to
  the server's. \<open>truthful\<close>: what the operating system says of processes that live. It never says that one is
  gone or a zombie, and its start is read right or not at all. Nothing is assumed of the others.
\<close>

definition truthful :: "(nat \<Rightarrow> nat) \<Rightarrow> (nat \<Rightarrow> rat) \<Rightarrow> nat set \<Rightarrow> probe_env \<Rightarrow> bool" where
  "truthful pid_of birth A e \<longleftrightarrow>
     (\<forall>q\<in>A. pid_alive (pr_proc e) (pid_of q) \<and> start_delta e (Some (pid_of q)) \<in> {None, Some (birth q)})"

definition first_world :: "nat set \<Rightarrow> lock_world" where
  "first_world A = \<lparr>w_holders = [], w_tables = (\<lambda>_. init_keyed_locks), w_ctx = (\<lambda>_ _. free_ctx),
     w_alive = A, w_born = A, w_drawn = {}, w_granted = {}\<rparr>"

definition put :: "nat \<Rightarrow> nat \<Rightarrow> keyed_locks \<times> lock_ctx \<Rightarrow> lock_world \<Rightarrow> lock_world" where
  "put p n Tc w = w\<lparr>w_tables := (w_tables w)(p := fst Tc), w_ctx := (w_ctx w)(p := (w_ctx w p)(n := snd Tc))\<rparr>"

definition put_ctx :: "nat \<Rightarrow> nat \<Rightarrow> lock_ctx \<Rightarrow> lock_world \<Rightarrow> lock_world" where
  "put_ctx p n c w = put p n (w_tables w p, c) w"

definition last_entry :: "lock_ctx \<Rightarrow> lock_entry" where
  "last_entry c = List.last (lc_ul c)"

definition asks :: "nat \<Rightarrow> nat \<Rightarrow> lock_world \<Rightarrow> holder_record option" where
  "asks p n w = map_of (w_holders w) (le_key (last_entry (w_ctx w p n)))"

inductive lock_step :: "bool \<Rightarrow> (nat \<Rightarrow> nat) \<Rightarrow> (nat \<Rightarrow> rat) \<Rightarrow> lock_world \<Rightarrow> lock_world \<Rightarrow> bool"
  for multi pid_of birth where
  enter: "p \<in> w_alive w \<Longrightarrow> lc_phase (w_ctx w p n) = CtxFree
    \<Longrightarrow> lock_step multi pid_of birth w (put_ctx p n (open_ctx ns ks) w)"
| take_next: "p \<in> w_alive w \<Longrightarrow> lc_phase (w_ctx w p n) = CtxEntering \<Longrightarrow> l \<notin> w_drawn w
    \<Longrightarrow> next_key multi l n (w_tables w p) (w_ctx w p n) = Tc
    \<Longrightarrow> lock_step multi pid_of birth w (put p n Tc (w\<lparr>w_drawn := insert l (w_drawn w)\<rparr>))"
| wake: "p \<in> w_alive w \<Longrightarrow> lc_phase (w_ctx w p n) = CtxQueued \<Longrightarrow> l \<notin> w_drawn w
    \<Longrightarrow> aio_woken n (le_obj (last_entry (w_ctx w p n))) (w_tables w p)
    \<Longrightarrow> wake_up multi l (w_tables w p) (w_ctx w p n) = Tc
    \<Longrightarrow> lock_step multi pid_of birth w (put p n Tc (w\<lparr>w_drawn := insert l (w_drawn w)\<rparr>))"
| ask: "p \<in> w_alive w \<Longrightarrow> lc_phase (w_ctx w p n) = CtxPolling l \<Longrightarrow> truthful pid_of birth (w_alive w) e
    \<Longrightarrow> worth_claiming e (asks p n w)
    \<Longrightarrow> lock_step multi pid_of birth w (put_ctx p n ((w_ctx w p n)\<lparr>lc_phase := CtxAsking l (asks p n w)\<rparr>) w)"
| claim: "lc_phase (w_ctx w p n) = CtxAsking l snap \<Longrightarrow> truthful pid_of birth (w_alive w) e
    \<Longrightarrow> try_claim (le_key (last_entry (w_ctx w p n))) snap (candidate e (Some (pid_of p)) l) (w_holders w) = (True, h)
    \<Longrightarrow> lock_step multi pid_of birth w
          (put_ctx p n (lease_taken l (w_ctx w p n)) (w\<lparr>w_holders := h, w_granted := insert l (w_granted w)\<rparr>))"
| claim_lost: "lc_phase (w_ctx w p n) = CtxAsking l snap \<Longrightarrow> truthful pid_of birth (w_alive w) e
    \<Longrightarrow> try_claim (le_key (last_entry (w_ctx w p n))) snap (candidate e (Some (pid_of p)) l) (w_holders w) = (True, h)
    \<Longrightarrow> give_up n (w_tables w p) (w_ctx w p n) = Tc
    \<Longrightarrow> lock_step multi pid_of birth w (put p n Tc (w\<lparr>w_holders := h, w_granted := insert l (w_granted w)\<rparr>))"
| claim_refused: "lc_phase (w_ctx w p n) = CtxAsking l snap
    \<Longrightarrow> try_claim (le_key (last_entry (w_ctx w p n))) snap (candidate e (Some (pid_of p)) l) (w_holders w) = (False, h)
    \<Longrightarrow> lock_step multi pid_of birth w (put_ctx p n ((w_ctx w p n)\<lparr>lc_phase := CtxPolling l\<rparr>) w)"
| abandon: "p \<in> w_alive w
    \<Longrightarrow> lc_phase (w_ctx w p n) = CtxQueued \<or> lc_phase (w_ctx w p n) = CtxPolling l \<or> lc_phase (w_ctx w p n) = CtxAsking l snap
    \<Longrightarrow> give_up n (w_tables w p) (w_ctx w p n) = Tc
    \<Longrightarrow> lock_step multi pid_of birth w (put p n Tc w)"
| leave: "p \<in> w_alive w \<Longrightarrow> lc_phase (w_ctx w p n) = CtxInside
    \<Longrightarrow> lock_step multi pid_of birth w (put_ctx p n ((w_ctx w p n)\<lparr>lc_phase := CtxReleasing\<rparr>) w)"
| release: "p \<in> w_alive w \<Longrightarrow> lc_phase (w_ctx w p n) = CtxReleasing
    \<Longrightarrow> release_last multi answers (w_holders w) (w_tables w p) (w_ctx w p n) = (h, Tc)
    \<Longrightarrow> lock_step multi pid_of birth w (put p n Tc (w\<lparr>w_holders := h\<rparr>))"
| die: "lock_step multi pid_of birth w (w\<lparr>w_alive := w_alive w - {p}\<rparr>)"
| spawn: "p \<notin> w_born w \<Longrightarrow> multi
    \<Longrightarrow> lock_step multi pid_of birth w (w\<lparr>w_alive := insert p (w_alive w), w_born := insert p (w_born w)\<rparr>)"

inductive_cases lock_stepE: "lock_step multi pid_of birth w w'"

text \<open>With one process only one ever lives.\<close>

inductive lock_reach :: "bool \<Rightarrow> (nat \<Rightarrow> nat) \<Rightarrow> (nat \<Rightarrow> rat) \<Rightarrow> lock_world \<Rightarrow> bool" for multi pid_of birth where
  boot: "(if multi then finite A else A = {p}) \<Longrightarrow> lock_reach multi pid_of birth (first_world A)"
| run_on: "lock_reach multi pid_of birth w \<Longrightarrow> lock_step multi pid_of birth w w' \<Longrightarrow> lock_reach multi pid_of birth w'"

subsection \<open>Every process keeps its contract\<close>

definition procs_ok :: "bool \<Rightarrow> lock_world \<Rightarrow> bool" where
  "procs_ok multi w \<longleftrightarrow>
     (\<forall>p. proc_ok multi (w_tables w p) (w_ctx w p)) \<and> w_alive w \<subseteq> w_born w
     \<and> (\<forall>p n. p \<notin> w_born w \<longrightarrow> w_ctx w p n = free_ctx) \<and> (\<not> multi \<longrightarrow> (\<forall>p\<in>w_alive w. \<forall>q\<in>w_alive w. p = q))"

lemma put_simps [simp]:
  "w_holders (put p n Tc w) = w_holders w" "w_alive (put p n Tc w) = w_alive w" "w_born (put p n Tc w) = w_born w"
  "w_drawn (put p n Tc w) = w_drawn w" "w_granted (put p n Tc w) = w_granted w"
  "w_ctx (put p n Tc w) = (w_ctx w)(p := (w_ctx w p)(n := snd Tc))" "w_tables (put p n Tc w) = (w_tables w)(p := fst Tc)"
  by (simp_all add: put_def)

lemma put_same [simp]:
  "procs_ok multi (w\<lparr>w_holders := h\<rparr>) = procs_ok multi w" "procs_ok multi (w\<lparr>w_drawn := d\<rparr>) = procs_ok multi w"
  "procs_ok multi (w\<lparr>w_granted := g\<rparr>) = procs_ok multi w"
  by (simp_all add: procs_ok_def)

lemma procs_put:
  assumes "procs_ok multi w" "p \<in> w_born w" "proc_ok multi (fst Tc) ((w_ctx w p)(n := snd Tc))"
  shows "procs_ok multi (put p n Tc w)"
  using assms by (auto simp: procs_ok_def)

lemma busy_born: "procs_ok multi w \<Longrightarrow> lc_phase (w_ctx w p n) \<noteq> CtxFree \<Longrightarrow> p \<in> w_born w"
  unfolding procs_ok_def free_ctx_def by (metis lock_ctx.select_convs(3))

lemma asking_multi: "procs_ok multi w \<Longrightarrow> lc_phase (w_ctx w p n) = CtxAsking l s \<Longrightarrow> multi"
  using proc_free [of multi "w_tables w p" "w_ctx w p" n] by (simp add: procs_ok_def ctx_shape_def)

lemma procs_step:
  assumes ok: "procs_ok multi w" and st: "lock_step multi pid_of birth w w'"
  shows "procs_ok multi w'"
proof -
  have proc: "proc_ok multi (w_tables w p) (w_ctx w p)" for p using ok by (simp add: procs_ok_def)
  have born: "p \<in> w_alive w \<Longrightarrow> p \<in> w_born w" for p using ok by (auto simp: procs_ok_def)
  note b = busy_born [OF ok]
  show ?thesis using st
  proof cases
    case (enter p n ns ks)
    then show ?thesis using ok born proc_open [OF proc] unfolding put_ctx_def by (simp add: procs_put)
  next
    case (take_next p n l Tc)
    then show ?thesis using ok born proc_next [OF proc, of p n l "fst Tc" "snd Tc"] by (simp add: procs_put)
  next
    case (wake p n l Tc)
    then show ?thesis using ok born proc_wake [OF proc, of p n l "fst Tc" "snd Tc"] by (simp add: procs_put last_entry_def)
  next
    case (ask p n l e)
    then show ?thesis using ok born proc_ask [OF proc, of p n l] unfolding put_ctx_def by (simp add: procs_put)
  next
    case (claim p n l snap e h)
    then show ?thesis using ok b [of p n] proc_lease [OF proc, of p n l snap] by (simp add: procs_put put_ctx_def)
  next
    case (claim_lost p n l snap e h Tc)
    then show ?thesis using ok b [of p n] proc_give_up [OF proc, of p n l snap "fst Tc" "snd Tc"] by (simp add: procs_put)
  next
    case (claim_refused p n l snap e h)
    then show ?thesis using ok b [of p n] proc_refused [OF proc, of p n l snap] unfolding put_ctx_def by (simp add: procs_put)
  next
    case (abandon p n l snap Tc)
    then show ?thesis using ok born proc_give_up [OF proc, of p n l snap "fst Tc" "snd Tc"] by (simp add: procs_put)
  next
    case (leave p n)
    then show ?thesis using ok born proc_leave [OF proc, of p n] unfolding put_ctx_def by (simp add: procs_put)
  next
    case (release p n answers h Tc)
    then show ?thesis using ok born proc_release [OF proc, of p n answers "w_holders w" h "fst Tc" "snd Tc"] by (simp add: procs_put)
  next
    case (die p)
    then show ?thesis using ok by (auto simp: procs_ok_def)
  next
    case (spawn p)
    then show ?thesis using ok by (auto simp: procs_ok_def)
  qed
qed

end
