(* ===== verification/KeyedLockLaws.thy ===== *)
theory KeyedLockLaws
  imports KeyedLockSteps
begin

text \<open>
  Between processes: the record of a live holder stays in the table until it releases it. From that and
  the contract of each process, the keyed locks implement one mutex per key, whatever the interleaving,
  deaths and lost replies.
\<close>

subsection \<open>Leases\<close>

text \<open>\<open>h\<close>: the table; \<open>H\<close>: the leases held, with process, context and key; \<open>P\<close>: the uuids with which contexts ask;
  \<open>S\<close>: the records that requests under way have seen.\<close>

definition held_part ::
    "(nat \<Rightarrow> nat) \<Rightarrow> (nat \<Rightarrow> rat) \<Rightarrow> (pystr \<Rightarrow> holder_record option) \<Rightarrow> nat set \<Rightarrow> (nat \<times> nat \<times> pystr \<times> pystr) set \<Rightarrow> bool" where
  "held_part pid_of birth h A H \<longleftrightarrow>
     (\<forall>p n k l. (p, n, k, l) \<in> H \<longrightarrow> p \<in> A \<longrightarrow>
        (\<exists>r. h k = Some r \<and> hr_lease r = l \<and> hr_pid r = Some (pid_of p) \<and> hr_delta r \<in> {None, Some (birth p)}))"

definition unique_part ::
    "(pystr \<Rightarrow> holder_record option) \<Rightarrow> (nat \<times> nat \<times> pystr \<times> pystr) set \<Rightarrow> (nat \<times> nat \<times> pystr) set
     \<Rightarrow> pystr set \<Rightarrow> pystr set \<Rightarrow> bool" where
  "unique_part h H P drawn given \<longleftrightarrow>
     (\<forall>k r. h k = Some r \<longrightarrow> hr_lease r \<in> given)
     \<and> (\<forall>k k' r r'. h k = Some r \<longrightarrow> h k' = Some r' \<longrightarrow> hr_lease r = hr_lease r' \<longrightarrow> k = k')
     \<and> (\<forall>p n k l. (p, n, k, l) \<in> H \<longrightarrow> l \<in> given)
     \<and> (\<forall>p n k p' n' k' l. (p, n, k, l) \<in> H \<longrightarrow> (p', n', k', l) \<in> H \<longrightarrow> p = p' \<and> n = n' \<and> k = k')
     \<and> (\<forall>p n l. (p, n, l) \<in> P \<longrightarrow> l \<in> drawn - given)
     \<and> (\<forall>p n p' n' l. (p, n, l) \<in> P \<longrightarrow> (p', n', l) \<in> P \<longrightarrow> p = p' \<and> n = n')
     \<and> given \<subseteq> drawn"

definition seen_part ::
    "nat set \<Rightarrow> (nat \<times> nat \<times> pystr \<times> pystr) set \<Rightarrow> (nat \<times> nat \<times> holder_record) set \<Rightarrow> pystr set \<Rightarrow> bool" where
  "seen_part A H S given \<longleftrightarrow>
     (\<forall>p n r. (p, n, r) \<in> S \<longrightarrow> hr_lease r \<in> given \<and> (\<forall>q m k l. (q, m, k, l) \<in> H \<longrightarrow> q \<in> A \<longrightarrow> l \<noteq> hr_lease r))"

lemma held_mono: "held_part pid_of birth h A H \<Longrightarrow> A' \<subseteq> A \<Longrightarrow> H' \<subseteq> H \<Longrightarrow> held_part pid_of birth h A' H'"
  unfolding held_part_def by blast

lemma uniqueD:
  assumes "unique_part h H P drawn given"
  shows "h k = Some r \<Longrightarrow> hr_lease r \<in> given"
    and "h k = Some r \<Longrightarrow> h k' = Some r' \<Longrightarrow> hr_lease r = hr_lease r' \<Longrightarrow> k = k'"
    and "(p, n, k, l) \<in> H \<Longrightarrow> l \<in> given"
    and "(p, n, k, l) \<in> H \<Longrightarrow> (p', n', k', l) \<in> H \<Longrightarrow> p = p' \<and> n = n' \<and> k = k'"
    and "(p, n, l) \<in> P \<Longrightarrow> l \<in> drawn \<and> l \<notin> given"
    and "(p, n, l) \<in> P \<Longrightarrow> (p', n', l) \<in> P \<Longrightarrow> p = p' \<and> n = n'"
    and "given \<subseteq> drawn"
  using assms unfolding unique_part_def by (blast | metis)+

lemma uniqueI:
  assumes "\<And>k r. h k = Some r \<Longrightarrow> hr_lease r \<in> given"
    and "\<And>k k' r r'. h k = Some r \<Longrightarrow> h k' = Some r' \<Longrightarrow> hr_lease r = hr_lease r' \<Longrightarrow> k = k'"
    and "\<And>p n k l. (p, n, k, l) \<in> H \<Longrightarrow> l \<in> given"
    and "\<And>p n k p' n' k' l. (p, n, k, l) \<in> H \<Longrightarrow> (p', n', k', l) \<in> H \<Longrightarrow> p = p' \<and> n = n' \<and> k = k'"
    and "\<And>p n l. (p, n, l) \<in> P \<Longrightarrow> l \<in> drawn \<and> l \<notin> given"
    and "\<And>p n p' n' l. (p, n, l) \<in> P \<Longrightarrow> (p', n', l) \<in> P \<Longrightarrow> p = p' \<and> n = n'"
    and "given \<subseteq> drawn"
  shows "unique_part h H P drawn given"
  unfolding unique_part_def Diff_iff by (intro conjI allI impI) (fact assms | (drule (1) assms(4), blast) | (drule (1) assms(6), blast) | (drule assms(5), blast))+

lemma unique_mono:
  assumes u: "unique_part h H P d g" and "H' \<subseteq> H" "P' \<subseteq> P"
  shows "unique_part h H' P' d g"
  by (rule uniqueI; (drule subsetD [OF assms(2)] | drule subsetD [OF assms(3)])?;
      (drule subsetD [OF assms(2)] | drule subsetD [OF assms(3)])?; (rule uniqueD [OF u]; assumption)?)

lemma seen_mono: "seen_part A H S g \<Longrightarrow> A' \<subseteq> A \<Longrightarrow> H' \<subseteq> H \<Longrightarrow> S' \<subseteq> S \<Longrightarrow> seen_part A' H' S' g"
  unfolding seen_part_def by blast

lemma unique_draw:
  assumes u: "unique_part h H P d g" and l: "l \<notin> d" and P': "P' \<subseteq> insert (p, n, l) P"
  shows "unique_part h H P' (insert l d) g"
proof (rule uniqueI)
  note D = uniqueD [OF u]
  have fresh: "(q, m, l) \<notin> P" for q m using D(5) l by blast
  show "l' \<in> insert l d \<and> l' \<notin> g" if "(q, m, l') \<in> P'" for q m l'
    using that P' D(5) D(7) l by blast
  show "q = q' \<and> m = m'" if "(q, m, l') \<in> P'" "(q', m', l') \<in> P'" for q m q' m' l'
    using that P' D(6) [of q m l' q' m'] fresh by blast
  show "g \<subseteq> insert l d" using D(7) by blast
qed (use uniqueD [OF u] in auto)

lemma unique_forget:
  assumes u: "unique_part h H P d g" and h': "\<And>k'. h' k' = (if k' = k then None else h k')"
  shows "unique_part h' H P d g"
  by (rule uniqueI) (use h' uniqueD [OF u] in \<open>auto split: if_splits\<close>)

lemma live_not_dead:
  assumes "truthful pid_of birth A e" "q \<in> A" "hr_pid r = Some (pid_of q)" "hr_delta r \<in> {None, Some (birth q)}"
  shows "\<not> holder_dead e r"
proof -
  have "pid_alive (pr_proc e) (pid_of q)" "start_delta e (Some (pid_of q)) \<in> {None, Some (birth q)}"
    using assms(1,2) by (auto simp: truthful_def)
  then show ?thesis using assms(3,4)
    by (auto simp: holder_dead_def NON_LINUX_START_DELTA_TOLERANCE_def)
qed

text \<open>What a request saw and found dead is held by nobody who lives.\<close>

lemma seen_ask:
  assumes h: "held_part pid_of birth h A H" and u: "unique_part h H P d g" and s: "seen_part A H S g"
    and e: "truthful pid_of birth A e" and r: "h k = Some r" "holder_dead e r"
  shows "seen_part A H (insert (p, n, r) S) g"
proof -
  have "l \<noteq> hr_lease r" if q: "(q, m, k', l) \<in> H" "q \<in> A" for q m k' l
  proof
    assume l: "l = hr_lease r"
    obtain r' where r': "h k' = Some r'" "hr_lease r' = l" "hr_pid r' = Some (pid_of q)" "hr_delta r' \<in> {None, Some (birth q)}"
      using h q unfolding held_part_def by meson
    then have "k' = k" using uniqueD(2) [OF u r'(1) r(1)] l by simp
    then show False using r r' live_not_dead [OF e q(2)] by auto
  qed
  moreover have "hr_lease r \<in> g" by (rule uniqueD(1) [OF u r(1)])
  ultimately show ?thesis using s unfolding seen_part_def by blast
qed

lemma held_claim:
  assumes h: "held_part pid_of birth h A H" and s: "seen_part A H S g"
    and e: "truthful pid_of birth A e" and snap: "\<And>r. snap = Some r \<Longrightarrow> (p, n, r) \<in> S"
    and free: "snap = None \<Longrightarrow> h k = None"
    and same: "\<And>r. snap = Some r \<Longrightarrow> \<exists>cur. h k = Some cur \<and> hr_lease cur = hr_lease r"
  shows "held_part pid_of birth (h(k \<mapsto> candidate e (Some (pid_of p)) l)) A (insert (p, n, k, l) H)"
    and "\<And>q m l'. (q, m, k, l') \<in> H \<Longrightarrow> q \<notin> A"
proof -
  show none: "q \<notin> A" if qH: "(q, m, k, l') \<in> H" for q m l'
  proof
    assume "q \<in> A"
    then obtain r' where r': "h k = Some r'" "hr_lease r' = l'" using h qH unfolding held_part_def by meson
    then obtain r where r: "snap = Some r" "hr_lease r' = hr_lease r" using free same by (cases snap) auto
    then show False using s snap qH \<open>q \<in> A\<close> r' unfolding seen_part_def by blast
  qed
  have "start_delta e (Some (pid_of p)) \<in> {None, Some (birth p)}" if "p \<in> A" using e that unfolding truthful_def by blast
  then show "held_part pid_of birth (h(k \<mapsto> candidate e (Some (pid_of p)) l)) A (insert (p, n, k, l) H)"
    using h none unfolding held_part_def candidate_def by fastforce
qed

lemma unique_claim:
  assumes u: "unique_part h H P d g" and l: "(p, n, l) \<in> P" "hr_lease c = l"
    and P': "P' \<subseteq> P - {(p, n, l)}" and H': "H' \<subseteq> insert (p, n, k, l) H"
  shows "unique_part (h(k \<mapsto> c)) H' P' d (insert l g)"
proof (rule uniqueI)
  note D = uniqueD [OF u]
  have new: "l \<notin> g" "l \<in> d" using D(5) [OF l(1)] by blast+
  have old: "hr_lease r \<noteq> l" if "h k' = Some r" for k' r using D(1) [OF that] new by blast
  have fresh: "(q, m, k', l) \<notin> H" for q m k' using D(3) new by blast
  show "hr_lease r \<in> insert l g" if "(h(k \<mapsto> c)) k' = Some r" for k' r
    using that D(1) l(2) by (auto split: if_splits)
  show "k1 = k2" if "(h(k \<mapsto> c)) k1 = Some r" "(h(k \<mapsto> c)) k2 = Some r'" "hr_lease r = hr_lease r'" for k1 k2 r r'
    using that old [of k1 r] old [of k2 r'] D(2) [of k1 r k2 r'] l(2) by (auto split: if_splits)
  show "l' \<in> insert l g" if "(q, m, k', l') \<in> H'" for q m k' l'
    using that H' D(3) by blast
  show "q = q' \<and> m = m' \<and> k' = k''" if 1: "(q, m, k', l') \<in> H'" "(q', m', k'', l') \<in> H'" for q m k' q' m' k'' l'
  proof (cases "l' = l")
    case True
    then have "(q, m, k', l') = (p, n, k, l)" "(q', m', k'', l') = (p, n, k, l)" using 1 H' fresh by blast+
    then show ?thesis by simp
  next
    case False
    then have "(q, m, k', l') \<in> H" "(q', m', k'', l') \<in> H" using 1 H' by blast+
    then show ?thesis by (rule D(4))
  qed
  show "l' \<in> d \<and> l' \<notin> insert l g" if "(q, m, l') \<in> P'" for q m l'
    using that P' D(5) [of q m l'] D(6) [OF l(1), of q m] by blast
  show "q = q' \<and> m = m'" if "(q, m, l') \<in> P'" "(q', m', l') \<in> P'" for q m q' m' l'
    using that P' D(6) [of q m l' q' m'] by blast
  show "insert l g \<subseteq> d" using D(7) new by blast
qed

lemma seen_claim:
  assumes s: "seen_part A H S g" and l: "l \<notin> g" and H': "H' \<subseteq> insert (p, n, k, l) H" and S': "S' \<subseteq> S"
  shows "seen_part A H' S' (insert l g)"
  using s l H' S' unfolding seen_part_def by blast

text \<open>A holder gives back its own record.\<close>

lemma lease_released:
  assumes h: "held_part pid_of birth h A H" and u: "unique_part h H P d g"
    and l: "(p, n, k, l) \<in> H" and cur: "h k = Some r" "hr_lease r = l"
    and H': "H' \<subseteq> {x \<in> H. \<forall>l'. x \<noteq> (p, n, k, l')}" and h': "\<And>k'. h' k' = (if k' = k then None else h k')"
  shows "held_part pid_of birth h' A H'"
  unfolding held_part_def
proof (intro allI impI)
  fix q m k' l'
  assume q: "(q, m, k', l') \<in> H'" "q \<in> A"
  then have qH: "(q, m, k', l') \<in> H" "(q, m, k') \<noteq> (p, n, k)" using H' by auto
  obtain r' where r': "h k' = Some r'" "hr_lease r' = l'" "hr_pid r' = Some (pid_of q)" "hr_delta r' \<in> {None, Some (birth q)}"
    using h qH(1) q(2) unfolding held_part_def by meson
  have "k' \<noteq> k"
  proof
    assume "k' = k"
    then have "l' = l" using r' cur by simp
    then have "q = p \<and> m = n \<and> k' = k" using uniqueD(4) [OF u, of q m k' l' p n k] qH(1) l by simp
    then show False using qH(2) by simp
  qed
  then show "\<exists>r. h' k' = Some r \<and> hr_lease r = l' \<and> hr_pid r = Some (pid_of q) \<and> hr_delta r \<in> {None, Some (birth q)}"
    using r' h' by simp
qed

subsection \<open>The leases of the contexts\<close>

definition ctx_leases :: "lock_ctx \<Rightarrow> (pystr \<times> pystr) set" where
  "ctx_leases c = {(k, l). \<exists>en\<in>set (lc_ul c). le_entered en \<and> le_key en = k \<and> le_lease en = Some l}"

definition ctx_asks :: "lock_ctx \<Rightarrow> pystr set" where
  "ctx_asks c = (case lc_phase c of CtxPolling l \<Rightarrow> {l} | CtxAsking l s \<Rightarrow> {l} | _ \<Rightarrow> {})"

definition ctx_saw :: "lock_ctx \<Rightarrow> holder_record set" where
  "ctx_saw c = (case lc_phase c of CtxAsking l s \<Rightarrow> set_option s | _ \<Rightarrow> {})"

definition all_leases :: "lock_world \<Rightarrow> (nat \<times> nat \<times> pystr \<times> pystr) set" where
  "all_leases w = {(p, n, k, l). (k, l) \<in> ctx_leases (w_ctx w p n)}"

definition all_asks :: "lock_world \<Rightarrow> (nat \<times> nat \<times> pystr) set" where
  "all_asks w = {(p, n, l). l \<in> ctx_asks (w_ctx w p n)}"

definition all_saw :: "lock_world \<Rightarrow> (nat \<times> nat \<times> holder_record) set" where
  "all_saw w = {(p, n, r). r \<in> ctx_saw (w_ctx w p n)}"

definition leases_ok :: "(nat \<Rightarrow> nat) \<Rightarrow> (nat \<Rightarrow> rat) \<Rightarrow> lock_world \<Rightarrow> bool" where
  "leases_ok pid_of birth w \<longleftrightarrow>
     dict_ok (w_holders w)
     \<and> held_part pid_of birth (map_of (w_holders w)) (w_alive w) (all_leases w)
     \<and> unique_part (map_of (w_holders w)) (all_leases w) (all_asks w) (w_drawn w) (w_granted w)
     \<and> seen_part (w_alive w) (all_leases w) (all_saw w) (w_granted w)"

lemma set_set_last: "set (set_last f xs) \<subseteq> set xs \<union> {f (List.last xs)}"
  by (auto simp: set_last_def dest: in_set_butlastD)

lemma leases_opened [simp]: "ctx_leases (open_ctx ns ks) = {}" "ctx_leases free_ctx = {}"
  by (simp_all add: ctx_leases_def open_ctx_def free_ctx_def)

lemma leases_field [simp]: "ctx_leases (c\<lparr>lc_phase := ph\<rparr>) = ctx_leases c" "ctx_leases (c\<lparr>lc_keys := ks\<rparr>) = ctx_leases c"
  by (simp_all add: ctx_leases_def)

lemma leases_new: "le_lease en = None \<Longrightarrow> lc_ul c' = lc_ul c @ [en] \<Longrightarrow> ctx_leases c' = ctx_leases c"
  by (auto simp: ctx_leases_def)

lemma leases_set_last:
  assumes "lc_ul c' = set_last f (lc_ul c)" "le_key (f en) = le_key en"
    and "en = List.last (lc_ul c)" "lc_ul c \<noteq> []" "le_lease (f en) \<noteq> None \<longrightarrow> le_lease (f en) = le_lease en \<and> le_entered (f en) = le_entered en"
  shows "ctx_leases c' \<subseteq> ctx_leases c"
  using assms set_set_last [of f "lc_ul c"] last_in_set [of "lc_ul c"] by (fastforce simp: ctx_leases_def)

lemma leases_gate_taken:
  "lc_ul c \<noteq> [] \<Longrightarrow> le_lease (List.last (lc_ul c)) = None \<Longrightarrow> ctx_leases (gate_taken multi l c) \<subseteq> ctx_leases c"
  by (rule leases_set_last [where f = "\<lambda>en. en\<lparr>le_gate := True, le_entered := \<not> multi\<rparr>" and en = "List.last (lc_ul c)"])
    (simp_all add: gate_taken_def)

lemma asks_gate_taken: "ctx_asks (gate_taken multi l c) \<subseteq> {l}" "ctx_saw (gate_taken multi l c) = {}"
  by (simp_all add: ctx_asks_def ctx_saw_def)

lemma leases_next:
  assumes "next_key multi l n T c = (T', c')"
  shows "ctx_leases c' \<subseteq> ctx_leases c" "ctx_asks c' \<subseteq> {l}" "ctx_saw c' = {}"
proof -
  have "ctx_leases c' \<subseteq> ctx_leases c \<and> ctx_asks c' \<subseteq> {l} \<and> ctx_saw c' = {}"
  proof (cases "lc_keys c")
    case Nil
    then show ?thesis using assms by (auto simp: next_key_def ctx_asks_def ctx_saw_def)
  next
    case (Cons k ks)
    obtain i T1 where get: "get_or_create_async_lock k T = (i, T1)" by fastforce
    obtain got T2 where acq: "aio_acquire n i T1 = (got, T2)" by fastforce
    define en where "en = \<lparr>le_key = k, le_obj = i, le_gate = False, le_lease = None, le_entered = False\<rparr>"
    define c1 where "c1 = c\<lparr>lc_keys := ks, lc_ul := lc_ul c @ [en]\<rparr>"
    have c': "c' = (if got then gate_taken multi l c1 else c1\<lparr>lc_phase := CtxQueued\<rparr>)"
      using assms by (auto simp: next_key_def Cons get acq c1_def en_def Let_def)
    have "ctx_leases c1 = ctx_leases c" by (rule leases_new [of en]) (simp_all add: c1_def en_def)
    moreover have "ctx_leases (gate_taken multi l c1) \<subseteq> ctx_leases c1"
      by (rule leases_gate_taken) (simp_all add: c1_def en_def)
    ultimately show ?thesis using asks_gate_taken [of multi l c1] by (simp add: c' ctx_asks_def ctx_saw_def)
  qed
  then show "ctx_leases c' \<subseteq> ctx_leases c" "ctx_asks c' \<subseteq> {l}" "ctx_saw c' = {}" by blast+
qed

lemma leases_give_up:
  "lc_ul c \<noteq> [] \<Longrightarrow> give_up n T c = (T', c') \<Longrightarrow> ctx_leases c' \<subseteq> ctx_leases c \<and> ctx_asks c' = {} \<and> ctx_saw c' = {}"
  using leases_set_last [where f = "\<lambda>en. en\<lparr>le_gate := False\<rparr>" and c = c and c' = c' and en = "List.last (lc_ul c)"]
  by (auto simp: give_up_def Let_def ctx_asks_def ctx_saw_def)

lemma leases_taken:
  "ctx_leases (lease_taken l c) \<subseteq> insert (le_key (last_entry c), l) (ctx_leases c)"
  "ctx_asks (lease_taken l c) = {}" "ctx_saw (lease_taken l c) = {}"
  using set_set_last [of "\<lambda>en. en\<lparr>le_lease := Some l, le_entered := True\<rparr>" "lc_ul c"]
  by (fastforce simp: lease_taken_def ctx_leases_def last_entry_def ctx_asks_def ctx_saw_def)+

subsection \<open>Every step keeps them\<close>

text \<open>A context changes and takes no new lease.\<close>

lemma leases_put:
  assumes "ctx_leases (snd Tc) \<subseteq> ctx_leases (w_ctx w p n)"
  shows "all_leases (put p n Tc w) \<subseteq> all_leases w"
  using assms by (auto simp: all_leases_def split: if_splits)

lemma asks_put: "all_asks (put p n Tc w) = {x \<in> all_asks w. (fst x, fst (snd x)) \<noteq> (p, n)} \<union> {p} \<times> {n} \<times> ctx_asks (snd Tc)"
  by (auto simp: all_asks_def split: if_splits)

lemma saw_put: "all_saw (put p n Tc w) = {x \<in> all_saw w. (fst x, fst (snd x)) \<noteq> (p, n)} \<union> {p} \<times> {n} \<times> ctx_saw (snd Tc)"
  by (auto simp: all_saw_def split: if_splits)

lemma leases_calm:
  assumes ok: "leases_ok pid_of birth w" and l: "ctx_leases (snd Tc) \<subseteq> ctx_leases (w_ctx w p n)"
    and a: "ctx_asks (snd Tc) \<subseteq> ctx_asks (w_ctx w p n)" and s: "ctx_saw (snd Tc) \<subseteq> ctx_saw (w_ctx w p n)"
  shows "leases_ok pid_of birth (put p n Tc w)"
proof -
  have "all_asks (put p n Tc w) \<subseteq> all_asks w" using a by (auto simp: asks_put) (auto simp: all_asks_def)
  moreover have "all_saw (put p n Tc w) \<subseteq> all_saw w" using s by (auto simp: saw_put) (auto simp: all_saw_def)
  ultimately show ?thesis using ok leases_put [of Tc w p n, OF l]
    unfolding leases_ok_def put_simps by (blast intro: held_mono unique_mono seen_mono)
qed

lemma leases_draw:
  assumes ok: "leases_ok pid_of birth w" and l: "ctx_leases (snd Tc) \<subseteq> ctx_leases (w_ctx w p n)"
    and a: "ctx_asks (snd Tc) \<subseteq> {l}" and s: "ctx_saw (snd Tc) = {}" and new: "l \<notin> w_drawn w"
  shows "leases_ok pid_of birth (put p n Tc (w\<lparr>w_drawn := insert l (w_drawn w)\<rparr>))"
proof -
  let ?w = "put p n Tc (w\<lparr>w_drawn := insert l (w_drawn w)\<rparr>)"
  have same: "all_leases (w\<lparr>w_drawn := d\<rparr>) = all_leases w" "all_asks (w\<lparr>w_drawn := d\<rparr>) = all_asks w"
    "all_saw (w\<lparr>w_drawn := d\<rparr>) = all_saw w" for d
    by (simp_all add: all_leases_def all_asks_def all_saw_def)
  have H: "all_leases ?w \<subseteq> all_leases w" using leases_put [of Tc "w\<lparr>w_drawn := insert l (w_drawn w)\<rparr>" p n] l same by simp
  have P: "all_asks ?w \<subseteq> insert (p, n, l) (all_asks w)" using a unfolding asks_put same by auto
  have S: "all_saw ?w \<subseteq> all_saw w" using s unfolding saw_put same by auto
  have parts: "held_part pid_of birth (map_of (w_holders w)) (w_alive w) (all_leases w)"
    "unique_part (map_of (w_holders w)) (all_leases w) (all_asks w) (w_drawn w) (w_granted w)"
    "seen_part (w_alive w) (all_leases w) (all_saw w) (w_granted w)" "dict_ok (w_holders w)"
    using ok by (simp_all add: leases_ok_def)
  have "unique_part (map_of (w_holders w)) (all_leases ?w) (all_asks ?w) (insert l (w_drawn w)) (w_granted w)"
    using unique_mono [OF unique_draw [OF parts(2) new P] H order_refl] .
  then show ?thesis using held_mono [OF parts(1) order_refl H] seen_mono [OF parts(3) order_refl H S] parts(4)
    unfolding leases_ok_def put_simps by simp
qed

lemma claim_spec:
  assumes "try_claim k snap cand h = (True, h')"
  shows "h' = AList.update k cand h" "snap = None \<Longrightarrow> map_of h k = None"
    "snap = Some r \<Longrightarrow> \<exists>cur. map_of h k = Some cur \<and> hr_lease cur = hr_lease r"
  using assms by (auto simp: try_claim_def split: option.splits if_splits)

lemma all_field:
  "all_leases (w\<lparr>w_holders := h, w_granted := g\<rparr>) = all_leases w" "all_asks (w\<lparr>w_holders := h, w_granted := g\<rparr>) = all_asks w"
  "all_saw (w\<lparr>w_holders := h, w_granted := g\<rparr>) = all_saw w" "all_leases (w\<lparr>w_holders := h\<rparr>) = all_leases w"
  "all_asks (w\<lparr>w_holders := h\<rparr>) = all_asks w" "all_saw (w\<lparr>w_holders := h\<rparr>) = all_saw w"
  by (simp_all add: all_leases_def all_asks_def all_saw_def)

lemma leases_claim:
  assumes ok: "leases_ok pid_of birth w" and ph: "lc_phase (w_ctx w p n) = CtxAsking l snap"
    and e: "truthful pid_of birth (w_alive w) e"
    and cl: "try_claim k snap (candidate e (Some (pid_of p)) l) (w_holders w) = (True, h)"
    and c: "ctx_leases (snd Tc) \<subseteq> insert (k, l) (ctx_leases (w_ctx w p n))" "ctx_asks (snd Tc) = {}" "ctx_saw (snd Tc) = {}"
  shows "leases_ok pid_of birth (put p n Tc (w\<lparr>w_holders := h, w_granted := insert l (w_granted w)\<rparr>))"
    and "\<And>q m l'. (q, m, k, l') \<in> all_leases w \<Longrightarrow> q \<notin> w_alive w"
proof -
  let ?w = "put p n Tc (w\<lparr>w_holders := h, w_granted := insert l (w_granted w)\<rparr>)"
  let ?cand = "candidate e (Some (pid_of p)) l"
  have parts: "held_part pid_of birth (map_of (w_holders w)) (w_alive w) (all_leases w)"
    "unique_part (map_of (w_holders w)) (all_leases w) (all_asks w) (w_drawn w) (w_granted w)"
    "seen_part (w_alive w) (all_leases w) (all_saw w) (w_granted w)" "dict_ok (w_holders w)"
    using ok by (simp_all add: leases_ok_def)
  note cs = claim_spec [OF cl]
  have asks: "(p, n, l) \<in> all_asks w" using ph by (simp add: all_asks_def ctx_asks_def)
  have saw: "(p, n, r) \<in> all_saw w" if "snap = Some r" for r using ph that by (simp add: all_saw_def ctx_saw_def)
  have H: "all_leases ?w \<subseteq> insert (p, n, k, l) (all_leases w)" using c(1) by (auto simp: all_leases_def split: if_splits)
  have P: "all_asks ?w \<subseteq> all_asks w - {(p, n, l)}" using c(2) unfolding asks_put all_field by auto
  have S: "all_saw ?w \<subseteq> all_saw w" using c(3) unfolding saw_put all_field by auto
  have new: "l \<notin> w_granted w" using uniqueD(5) [OF parts(2) asks] by blast
  note hc = held_claim [OF parts(1) parts(3) e saw cs(2) cs(3)]
  show "q \<notin> w_alive w" if "(q, m, k, l') \<in> all_leases w" for q m l' using hc(2) [OF _ _ _ that] by simp
  have "held_part pid_of birth (map_of h) (w_alive w) (all_leases ?w)"
    using held_mono [OF hc(1) order_refl H] unfolding cs(1) map_of_update_fun by simp
  moreover have "unique_part (map_of h) (all_leases ?w) (all_asks ?w) (w_drawn w) (insert l (w_granted w))"
    using unique_claim [OF parts(2) asks _ P H, of ?cand] unfolding cs(1) map_of_update_fun by (simp add: candidate_def)
  moreover have "seen_part (w_alive w) (all_leases ?w) (all_saw ?w) (insert l (w_granted w))"
    by (rule seen_claim [OF parts(3) new H S])
  ultimately show "leases_ok pid_of birth ?w" using parts(4) cs(1)
    unfolding leases_ok_def put_simps by (simp add: dict_ok_update)
qed

lemma leases_ask:
  assumes ok: "leases_ok pid_of birth w" and ph: "lc_phase (w_ctx w p n) = CtxPolling l"
    and e: "truthful pid_of birth (w_alive w) e" and worth: "worth_claiming e (asks p n w)"
  shows "leases_ok pid_of birth (put_ctx p n ((w_ctx w p n)\<lparr>lc_phase := CtxAsking l (asks p n w)\<rparr>) w)"
proof -
  let ?w = "put_ctx p n ((w_ctx w p n)\<lparr>lc_phase := CtxAsking l (asks p n w)\<rparr>) w"
  have parts: "held_part pid_of birth (map_of (w_holders w)) (w_alive w) (all_leases w)"
    "unique_part (map_of (w_holders w)) (all_leases w) (all_asks w) (w_drawn w) (w_granted w)"
    "seen_part (w_alive w) (all_leases w) (all_saw w) (w_granted w)" "dict_ok (w_holders w)"
    using ok by (simp_all add: leases_ok_def)
  have H: "all_leases ?w \<subseteq> all_leases w" unfolding put_ctx_def by (rule leases_put) simp
  have P: "all_asks ?w \<subseteq> all_asks w"
    using ph unfolding put_ctx_def asks_put by (auto simp: all_asks_def ctx_asks_def)
  have "seen_part (w_alive w) (all_leases w) (all_saw ?w) (w_granted w)"
  proof (cases "asks p n w")
    case None
    then have "all_saw ?w \<subseteq> all_saw w" unfolding put_ctx_def saw_put by (auto simp: ctx_saw_def)
    then show ?thesis using seen_mono [OF parts(3)] by blast
  next
    case (Some r)
    then have S: "all_saw ?w \<subseteq> insert (p, n, r) (all_saw w)" unfolding put_ctx_def saw_put by (auto simp: ctx_saw_def)
    have "seen_part (w_alive w) (all_leases w) (insert (p, n, r) (all_saw w)) (w_granted w)"
      by (rule seen_ask [OF parts(1,2,3) e]) (use Some worth in \<open>simp_all add: asks_def worth_claiming_def\<close>)
    then show ?thesis using seen_mono S by blast
  qed
  then show ?thesis using held_mono [OF parts(1) order_refl H] unique_mono [OF parts(2) H P] parts(4)
      seen_mono [OF _ order_refl H order_refl]
    unfolding leases_ok_def put_ctx_def put_simps by simp
qed

lemma release_last_spec:
  assumes "release_last multi answers h T c = (h', Tc)" "lc_ul c \<noteq> []"
  shows "lc_ul (snd Tc) = butlast (lc_ul c)" "lc_phase (snd Tc) = lc_phase c"
    "h' = (if le_entered (last_entry c) \<and> multi \<and> answers
           then (case le_lease (last_entry c) of None \<Rightarrow> h | Some l \<Rightarrow> snd (release_holder (le_key (last_entry c)) l h)) else h)"
  using assms unfolding last_entry_def by (auto simp: release_last_def release_entry_def Let_def split: prod.splits if_splits)

lemma release_holder_spec:
  "snd (release_holder k l h) = (if \<exists>r. map_of h k = Some r \<and> hr_lease r = l then AList.delete k h else h)"
  by (auto simp: release_holder_def split: option.splits)

lemma leases_release:
  assumes ok: "leases_ok pid_of birth w" and pr: "proc_ok multi (w_tables w p) (w_ctx w p)"
    and ph: "lc_phase (w_ctx w p n) = CtxReleasing"
    and rel: "release_last multi answers (w_holders w) (w_tables w p) (w_ctx w p n) = (h, Tc)"
  shows "leases_ok pid_of birth (put p n Tc (w\<lparr>w_holders := h\<rparr>))"
proof (cases "lc_ul (w_ctx w p n) = []")
  case True
  then have "snd Tc = free_ctx" "h = w_holders w" using rel by (auto simp: release_last_def)
  then show ?thesis using leases_calm [OF ok, of Tc p n] by (simp add: free_ctx_def ctx_asks_def ctx_saw_def ctx_leases_def)
next
  case False
  let ?c = "w_ctx w p n" and ?w = "put p n Tc (w\<lparr>w_holders := h\<rparr>)" and ?e = "last_entry (w_ctx w p n)"
  note rs = release_last_spec [OF rel False]
  have sub: "ctx_leases (snd Tc) \<subseteq> ctx_leases ?c"
    using rs(1) by (auto simp: ctx_leases_def dest: in_set_butlastD)
  have calm: "leases_ok pid_of birth (put p n Tc w)"
    using leases_calm [OF ok sub] rs(2) ph by (simp add: ctx_asks_def ctx_saw_def)
  show ?thesis
  proof (cases "h = w_holders w")
    case True
    then show ?thesis using calm by simp
  next
    case changed: False
    then obtain l r where en: "le_entered ?e" and l: "le_lease ?e = Some l"
      and r: "map_of (w_holders w) (le_key ?e) = Some r" "hr_lease r = l" and h: "h = AList.delete (le_key ?e) (w_holders w)"
      using rs(3) unfolding release_holder_spec by (auto split: if_splits option.splits)
    let ?k = "le_key ?e"
    have parts: "held_part pid_of birth (map_of (w_holders w)) (w_alive w) (all_leases w)"
      "unique_part (map_of (w_holders w)) (all_leases w) (all_asks w) (w_drawn w) (w_granted w)"
      "seen_part (w_alive w) (all_leases w) (all_saw w) (w_granted w)" "dict_ok (w_holders w)"
      using ok by (simp_all add: leases_ok_def)
    have mem: "?e \<in> set (lc_ul ?c)" using False by (simp add: last_entry_def)
    have gate: "le_gate x" if "x \<in> set (lc_ul ?c)" "le_entered x" for x
      using shape_entered [OF proc_free [OF pr, of n] that] by (simp add: entry_done_def)
    have held: "(p, n, ?k, l) \<in> all_leases w" using mem en l by (auto simp: all_leases_def ctx_leases_def)
    have only: "(?k, l') \<notin> ctx_leases (snd Tc)" for l'
      using proc_last_only [OF pr False] gate [OF mem en] gate rs(1)
      by (auto simp: ctx_leases_def last_entry_def dest: in_set_butlastD)
    have H: "all_leases ?w \<subseteq> {x \<in> all_leases w. \<forall>l'. x \<noteq> (p, n, ?k, l')}"
      using sub only by (auto simp: all_leases_def split: if_splits)
    have P: "all_asks ?w \<subseteq> all_asks w" and S: "all_saw ?w \<subseteq> all_saw w"
      using rs(2) ph unfolding asks_put saw_put all_field by (auto simp: ctx_asks_def ctx_saw_def)
    have H': "all_leases ?w \<subseteq> all_leases w" using H by blast
    have del: "map_of h k' = (if k' = ?k then None else map_of (w_holders w) k')" for k'
      unfolding h by (simp add: dict_simps)
    have "held_part pid_of birth (map_of h) (w_alive w) (all_leases ?w)"
      by (rule lease_released [OF parts(1,2) held r H del])
    moreover have "unique_part (map_of h) (all_leases ?w) (all_asks ?w) (w_drawn w) (w_granted w)"
      by (rule unique_mono [OF unique_forget [OF parts(2) del] H' P])
    moreover have "dict_ok h" unfolding h using parts(4) by (rule dict_ok_delete)
    ultimately show ?thesis using seen_mono [OF parts(3) order_refl H' S]
      unfolding leases_ok_def put_simps by simp
  qed
qed

lemma leases_step:
  assumes ok: "leases_ok pid_of birth w" and pr: "procs_ok multi w" and st: "lock_step multi pid_of birth w w'"
  shows "leases_ok pid_of birth w'"
proof -
  have proc: "proc_ok multi (w_tables w p) (w_ctx w p)" for p using pr by (simp add: procs_ok_def)
  have shape: "ctx_shape multi (w_ctx w p n)" for p n by (rule proc_free [OF proc])
  note quiet = ctx_asks_def ctx_saw_def put_ctx_def
  show ?thesis using st
  proof cases
    case (enter p n ns ks)
    then show ?thesis using leases_calm [OF ok, of "(w_tables w p, open_ctx ns ks)" p n] unfolding put_ctx_def
      by (simp add: ctx_asks_def ctx_saw_def open_ctx_def ctx_leases_def)
  next
    case (take_next p n l Tc)
    then show ?thesis using leases_draw [OF ok, of Tc p n l] leases_next [of multi l n "w_tables w p" "w_ctx w p n" "fst Tc" "snd Tc"] by simp
  next
    case (wake p n l Tc)
    have sh: "taken_but multi entry_new (lc_ul (w_ctx w p n))" using shape [of p n] wake(3) unfolding ctx_shape_def by simp
    have "snd Tc = gate_taken multi l (w_ctx w p n)" using wake(6) by (auto simp: wake_up_def)
    then show ?thesis using leases_draw [OF ok, of Tc p n l] wake sh leases_gate_taken [of "w_ctx w p n" multi l]
        asks_gate_taken [of multi l "w_ctx w p n"] by (simp add: taken_but_def entry_new_def)
  next
    case (ask p n l e)
    then show ?thesis using leases_ask [OF ok] by simp
  next
    case (claim p n l snap e h)
    then show ?thesis using leases_claim(1) [OF ok claim(2) claim(3) claim(4)] leases_taken [of l "w_ctx w p n"]
      unfolding put_ctx_def by simp
  next
    case (claim_lost p n l snap e h Tc)
    have "taken_but multi entry_polling (lc_ul (w_ctx w p n))" using shape [of p n] unfolding ctx_shape_def claim_lost(2) lock_phase.case by blast
    then have "ctx_leases (snd Tc) \<subseteq> ctx_leases (w_ctx w p n) \<and> ctx_asks (snd Tc) = {} \<and> ctx_saw (snd Tc) = {}"
      using leases_give_up [of "w_ctx w p n" n "w_tables w p" "fst Tc" "snd Tc"] claim_lost(5) by (simp add: taken_but_def)
    then show ?thesis using leases_claim(1) [OF ok claim_lost(2) claim_lost(3) claim_lost(4), of Tc] claim_lost(1) by blast
  next
    case (claim_refused p n l snap e h)
    then show ?thesis using leases_calm [OF ok, of "(w_tables w p, (w_ctx w p n)\<lparr>lc_phase := CtxPolling l\<rparr>)" p n]
      by (simp add: quiet)
  next
    case (abandon p n l snap Tc)
    have "lc_ul (w_ctx w p n) \<noteq> []" using shape [of p n] abandon(3) unfolding ctx_shape_def by (auto simp: taken_but_def)
    then show ?thesis using leases_calm [OF ok, of Tc p n] leases_give_up [of "w_ctx w p n" n "w_tables w p" "fst Tc" "snd Tc"] abandon
      by simp
  next
    case (leave p n)
    then show ?thesis using leases_calm [OF ok, of "(w_tables w p, (w_ctx w p n)\<lparr>lc_phase := CtxReleasing\<rparr>)" p n]
      by (simp add: quiet)
  next
    case (release p n answers h Tc)
    then show ?thesis using leases_release [OF ok proc] by simp
  next
    case (die p)
    have "all_leases w' = all_leases w" "all_asks w' = all_asks w" "all_saw w' = all_saw w"
      by (simp_all add: die all_leases_def all_asks_def all_saw_def)
    then show ?thesis using ok unfolding leases_ok_def die
      by (auto intro: held_mono [where A = "w_alive w"] seen_mono [where A = "w_alive w"])
  next
    case (spawn p)
    have free: "w_ctx w p n = free_ctx" for n using pr spawn(2) by (simp add: procs_ok_def)
    have same: "all_leases w' = all_leases w" "all_asks w' = all_asks w" "all_saw w' = all_saw w"
      by (simp_all add: spawn all_leases_def all_asks_def all_saw_def)
    have "(p, n, k, l) \<notin> all_leases w" for n k l by (simp add: all_leases_def free)
    then show ?thesis using ok same unfolding leases_ok_def held_part_def seen_part_def spawn by auto
  qed
qed

definition lock_ok :: "bool \<Rightarrow> (nat \<Rightarrow> nat) \<Rightarrow> (nat \<Rightarrow> rat) \<Rightarrow> lock_world \<Rightarrow> bool" where
  "lock_ok multi pid_of birth w \<longleftrightarrow> procs_ok multi w \<and> leases_ok pid_of birth w"

lemma lock_ok_boot: "(if multi then finite A else A = {p}) \<Longrightarrow> lock_ok multi pid_of birth (first_world A)"
  using proc_init
  by (auto simp: lock_ok_def procs_ok_def leases_ok_def first_world_def held_part_def unique_part_def seen_part_def
      all_leases_def all_asks_def all_saw_def ctx_asks_def ctx_saw_def free_ctx_def ctx_leases_def)

lemma lock_ok_step: "lock_ok multi pid_of birth w \<Longrightarrow> lock_step multi pid_of birth w w' \<Longrightarrow> lock_ok multi pid_of birth w'"
  by (auto simp: lock_ok_def intro: procs_step leases_step)

lemma lock_ok_reach: "lock_reach multi pid_of birth w \<Longrightarrow> lock_ok multi pid_of birth w"
  by (induction rule: lock_reach.induct) (auto intro: lock_ok_boot lock_ok_step)

end
