(* ===== verification/Refinement.thy ===== *)
theory Refinement
  imports Main
begin

text \<open>
  An implementation refines its specification: it keeps an invariant, and each of its steps is a step of the
  specification or changes nothing there.
\<close>

locale simulation =
  fixes inv :: "'s \<Rightarrow> bool" and abs :: "'s \<Rightarrow> 'a"
    and cstep :: "'s \<Rightarrow> 's \<Rightarrow> bool" and astep :: "'a \<Rightarrow> 'a \<Rightarrow> bool"
  assumes keeps: "inv s \<Longrightarrow> cstep s s' \<Longrightarrow> inv s'"
    and simulates: "inv s \<Longrightarrow> cstep s s' \<Longrightarrow> abs s' = abs s \<or> astep (abs s) (abs s')"
begin

lemma keeps_run: "cstep\<^sup>*\<^sup>* s s' \<Longrightarrow> inv s \<Longrightarrow> inv s'"
  by (induction rule: rtranclp_induct) (auto intro: keeps)

lemma run_refines: "cstep\<^sup>*\<^sup>* s s' \<Longrightarrow> inv s \<Longrightarrow> astep\<^sup>*\<^sup>* (abs s) (abs s')"
proof (induction rule: rtranclp_induct)
  case (step t t')
  then have "inv t" using keeps_run by blast
  then show ?case using step simulates [of t t'] by (auto intro: rtranclp.rtrancl_into_rtrancl)
qed simp

text \<open>What the specification keeps, the implementation keeps.\<close>

lemma run_keeps:
  assumes "cstep\<^sup>*\<^sup>* s s'" "inv s" "P (abs s)" "\<And>a a'. P a \<Longrightarrow> astep a a' \<Longrightarrow> P a'"
  shows "P (abs s')"
proof -
  have "astep\<^sup>*\<^sup>* (abs s) (abs s')" by (rule run_refines [OF assms(1,2)])
  then show ?thesis by (induction rule: rtranclp_induct) (use assms(3,4) in auto)
qed

end

end
