(* ===== verification/KeyedMutex.thy ===== *)
theory KeyedMutex
  imports KeyedLockLaws Refinement
begin

text \<open>
  What the keyed locks promise, as a mutex per key, and that they implement it. \<open>who_holds\<close> reads the mutexes
  off a state: the keys that the contexts of live processes have.
\<close>

type_synonym lock_task = "nat \<times> nat"

inductive mutex_step :: "(pystr \<times> lock_task) set \<Rightarrow> (pystr \<times> lock_task) set \<Rightarrow> bool" where
  take_free: "\<forall>t'. (k, t') \<notin> M \<Longrightarrow> mutex_step M (insert (k, t) M)"
| give_back: "mutex_step M (M - {(k, t)})"
| crash: "mutex_step M {x \<in> M. fst (snd x) \<noteq> p}"

definition exclusive :: "(pystr \<times> lock_task) set \<Rightarrow> bool" where
  "exclusive M \<longleftrightarrow> (\<forall>k t t'. (k, t) \<in> M \<longrightarrow> (k, t') \<in> M \<longrightarrow> t = t')"

lemma mutex_exclusive: "exclusive M \<Longrightarrow> mutex_step M M' \<Longrightarrow> exclusive M'"
  by (erule mutex_step.cases) (auto simp: exclusive_def)

definition keys_of :: "lock_entry list \<Rightarrow> pystr set" where
  "keys_of us = le_key ` {en \<in> set us. le_entered en}"

definition ctx_keys :: "lock_ctx \<Rightarrow> pystr set" where
  "ctx_keys c = keys_of (lc_ul c)"

lemma keys_of_simps [simp]:
  "keys_of [] = {}" "keys_of (us @ [en]) = (if le_entered en then insert (le_key en) (keys_of us) else keys_of us)"
  by (auto simp: keys_of_def)

definition who_holds :: "lock_world \<Rightarrow> (pystr \<times> lock_task) set" where
  "who_holds w = {(k, p, n). p \<in> w_alive w \<and> k \<in> ctx_keys (w_ctx w p n)}"

lemma keys_field [simp]: "ctx_keys (c\<lparr>lc_phase := ph\<rparr>) = ctx_keys c" "ctx_keys (c\<lparr>lc_keys := ks\<rparr>) = ctx_keys c"
  "ctx_keys free_ctx = {}" "ctx_keys (open_ctx ns ks) = {}"
  by (simp_all add: ctx_keys_def free_ctx_def open_ctx_def)

lemma keys_set_last:
  assumes "lc_ul c' = set_last f (lc_ul c)" "lc_ul c \<noteq> []" "\<And>en. le_key (f en) = le_key en" "\<not> le_entered (List.last (lc_ul c))"
  shows "ctx_keys c' = (if le_entered (f (List.last (lc_ul c))) then insert (le_key (List.last (lc_ul c))) (ctx_keys c) else ctx_keys c)"
  using assms by (cases "lc_ul c" rule: rev_cases) (simp_all add: ctx_keys_def)

lemma holds_put:
  "who_holds (put p n Tc w) = {x \<in> who_holds w. snd x \<noteq> (p, n)} \<union> (if p \<in> w_alive w then ctx_keys (snd Tc) \<times> {(p, n)} else {})"
  by (auto simp: who_holds_def split: if_splits)

lemma holds_field [simp]:
  "who_holds (w\<lparr>w_holders := h\<rparr>) = who_holds w" "who_holds (w\<lparr>w_drawn := d\<rparr>) = who_holds w"
  "who_holds (w\<lparr>w_granted := g\<rparr>) = who_holds w" "who_holds (w\<lparr>w_holders := h, w_granted := g\<rparr>) = who_holds w"
  by (simp_all add: who_holds_def)

lemma holds_at:
  "(k, q, m) \<in> who_holds (put p n Tc w) \<longleftrightarrow>
     (if (q, m) = (p, n) then p \<in> w_alive w \<and> k \<in> ctx_keys (snd Tc) else (k, q, m) \<in> who_holds w)"
  by (auto simp: who_holds_def)

lemma holds_here: "(k, p, n) \<in> who_holds w \<longleftrightarrow> p \<in> w_alive w \<and> k \<in> ctx_keys (w_ctx w p n)"
  by (simp add: who_holds_def)

lemma holds_same: "ctx_keys (snd Tc) = ctx_keys (w_ctx w p n) \<Longrightarrow> who_holds (put p n Tc w) = who_holds w"
  by (rule set_eqI) (simp only: split_paired_all holds_at, simp add: holds_here)

lemma holds_insert:
  "ctx_keys (snd Tc) = insert k (ctx_keys (w_ctx w p n))
   \<Longrightarrow> who_holds (put p n Tc w) = (if p \<in> w_alive w then insert (k, p, n) (who_holds w) else who_holds w)"
  by (rule set_eqI) (simp only: split_paired_all holds_at, auto simp: holds_here)

lemma holds_remove:
  "ctx_keys (snd Tc) = ctx_keys (w_ctx w p n) - {k} \<Longrightarrow> who_holds (put p n Tc w) = who_holds w - {(k, p, n)}"
  by (rule set_eqI) (simp only: split_paired_all holds_at, auto simp: holds_here)

lemma keys_gate_taken:
  "lc_ul c \<noteq> [] \<Longrightarrow> \<not> le_entered (List.last (lc_ul c))
   \<Longrightarrow> ctx_keys (gate_taken multi l c) = (if multi then ctx_keys c else insert (le_key (List.last (lc_ul c))) (ctx_keys c))"
  using keys_set_last [of "gate_taken multi l c" "\<lambda>en. en\<lparr>le_gate := True, le_entered := \<not> multi\<rparr>" c] by (simp add: gate_taken_def)

lemma keys_give_up:
  "lc_ul c \<noteq> [] \<Longrightarrow> \<not> le_entered (List.last (lc_ul c)) \<Longrightarrow> give_up n T c = Tc \<Longrightarrow> ctx_keys (snd Tc) = ctx_keys c"
  using keys_set_last [of "snd Tc" "\<lambda>en. en\<lparr>le_gate := False\<rparr>" c] by (auto simp: give_up_def Let_def)

lemma keys_taken:
  "lc_ul c \<noteq> [] \<Longrightarrow> \<not> le_entered (List.last (lc_ul c)) \<Longrightarrow> ctx_keys (lease_taken l c) = insert (le_key (last_entry c)) (ctx_keys c)"
  using keys_set_last [of "lease_taken l c" "\<lambda>en. en\<lparr>le_lease := Some l, le_entered := True\<rparr>" c]
  by (simp add: lease_taken_def last_entry_def)

lemma keys_next:
  assumes "next_key multi l n T c = (T', c')"
  shows "ctx_keys c' = ctx_keys c \<or>
    (\<not> multi \<and> (\<exists>k ks i T1. lc_keys c = k # ks \<and> get_or_create_async_lock k T = (i, T1) \<and> \<not> al_locked (lock_objs T1 i)
       \<and> ctx_keys c' = insert k (ctx_keys c)))"
proof (cases "lc_keys c")
  case Nil
  then show ?thesis using assms by (auto simp: next_key_def)
next
  case (Cons k ks)
  obtain i T1 where get: "get_or_create_async_lock k T = (i, T1)" by fastforce
  obtain got T2 where acq: "aio_acquire n i T1 = (got, T2)" by fastforce
  define en where "en = \<lparr>le_key = k, le_obj = i, le_gate = False, le_lease = None, le_entered = False\<rparr>"
  define c1 where "c1 = c\<lparr>lc_keys := ks, lc_ul := lc_ul c @ [en]\<rparr>"
  have c': "c' = (if got then gate_taken multi l c1 else c1\<lparr>lc_phase := CtxQueued\<rparr>)"
    using assms by (auto simp: next_key_def Cons get acq c1_def en_def Let_def)
  have "ctx_keys c1 = ctx_keys c" by (simp add: c1_def en_def ctx_keys_def)
  moreover have "ctx_keys (gate_taken multi l c1) = (if multi then ctx_keys c1 else insert k (ctx_keys c1))"
    using keys_gate_taken [of c1 multi l] by (simp add: c1_def en_def)
  moreover have "got \<Longrightarrow> \<not> al_locked (lock_objs T1 i)" using acq by (auto simp: aio_acquire_def Let_def split: if_splits)
  ultimately show ?thesis using get Cons by (simp add: c')
qed

lemma keys_release:
  assumes ok: "proc_ok multi T C" and rel: "release_last multi answers h T (C n) = (h', Tc)"
  shows "ctx_keys (snd Tc) = ctx_keys (C n) \<or> (\<exists>k. ctx_keys (snd Tc) = ctx_keys (C n) - {k})"
proof (cases "lc_ul (C n) = []")
  case True
  then show ?thesis using rel by (auto simp: release_last_def ctx_keys_def free_ctx_def)
next
  case False
  let ?e = "List.last (lc_ul (C n))" and ?us = "lc_ul (C n)"
  have ul: "?us = butlast ?us @ [?e]" using False by simp
  have snd: "lc_ul (snd Tc) = butlast ?us" using release_last_spec(1) [OF rel False] .
  have gate: "le_gate x" if "x \<in> set ?us" "le_entered x" for x
    using shape_entered [OF proc_free [OF ok, of n] that] by (simp add: entry_done_def)
  have keys: "ctx_keys (C n) = (if le_entered ?e then insert (le_key ?e) (ctx_keys (snd Tc)) else ctx_keys (snd Tc))"
    unfolding ctx_keys_def snd by (subst ul) simp
  have "le_key ?e \<notin> ctx_keys (snd Tc)" if e: "le_entered ?e"
  proof
    assume "le_key ?e \<in> ctx_keys (snd Tc)"
    then obtain en where en: "en \<in> set (butlast ?us)" "le_entered en" "le_key en = le_key ?e"
      by (auto simp: ctx_keys_def keys_of_def snd)
    then show False using proc_last_only [OF ok False gate [OF last_in_set [OF False] e] en(1) gate [OF in_set_butlastD [OF en(1)] en(2)]]
      by simp
  qed
  then show ?thesis using keys by (cases "le_entered ?e") auto
qed

subsection \<open>The mutexes are implemented\<close>

lemma key_taken:
  assumes ok: "proc_ok multi T C" and k: "k \<in> ctx_keys (C m)"
  obtains i where "map_of (async_lock T) k = Some i" "al_locked (lock_objs T i)"
proof -
  obtain en where en: "en \<in> set (lc_ul (C m))" "le_entered en" "le_key en = k"
    using k by (auto simp: ctx_keys_def keys_of_def)
  have "le_gate en" using shape_entered [OF proc_free [OF ok] en(1,2)] by (simp add: entry_done_def)
  then show thesis using that gate_locked [OF ok en(1)] en(3) by blast
qed

lemma key_free:
  assumes ok: "proc_ok multi T C" and get: "get_or_create_async_lock k T = (i, T1)" and free: "\<not> al_locked (lock_objs T1 i)"
  shows "k \<notin> ctx_keys (C m)"
proof
  assume "k \<in> ctx_keys (C m)"
  then obtain i' where i': "map_of (async_lock T) k = Some i'" "al_locked (lock_objs T i')" by (rule key_taken [OF ok])
  then have "i = i' \<and> lock_objs T1 = lock_objs T" using get by (auto simp: get_or_create_async_lock_def)
  then show False using free i' by simp
qed

lemma holds_lease:
  assumes pr: "procs_ok True w" and k: "(k, q, m) \<in> who_holds w"
  shows "q \<in> w_alive w \<and> (\<exists>l. (q, m, k, l) \<in> all_leases w)"
proof -
  obtain en where en: "en \<in> set (lc_ul (w_ctx w q m))" "le_entered en" "le_key en = k" and q: "q \<in> w_alive w"
    using k by (auto simp: who_holds_def ctx_keys_def keys_of_def)
  have "ctx_shape True (w_ctx w q m)" using pr proc_free unfolding procs_ok_def by blast
  then obtain l where "le_lease en = Some l" using shape_entered [OF _ en(1,2)] by (auto simp: entry_done_def)
  then show ?thesis using en q by (auto simp: all_leases_def ctx_leases_def)
qed

lemma mutex_simulates:
  assumes ok: "lock_ok multi pid_of birth w" and st: "lock_step multi pid_of birth w w'"
  shows "who_holds w' = who_holds w \<or> mutex_step (who_holds w) (who_holds w')"
proof -
  have pr: "procs_ok multi w" and le: "leases_ok pid_of birth w" using ok by (simp_all add: lock_ok_def)
  have proc: "proc_ok multi (w_tables w p) (w_ctx w p)" for p using pr by (simp add: procs_ok_def)
  have shape: "ctx_shape multi (w_ctx w p n)" for p n by (rule proc_free [OF proc])
  have one: "p = q" if "\<not> multi" "p \<in> w_alive w" "q \<in> w_alive w" for p q using pr that by (simp add: procs_ok_def)
  have takes: ?thesis if "w' = put p n Tc v" "who_holds v = who_holds w" "w_alive v = w_alive w" "w_ctx v = w_ctx w"
      "ctx_keys (snd Tc) = insert k (ctx_keys (w_ctx w p n))" "\<And>t. (k, t) \<notin> who_holds w" for p n Tc k v
    using that holds_insert [of Tc k v p n] by (auto intro: take_free)
  have stays: ?thesis if "w' = put p n Tc v" "who_holds v = who_holds w" "w_ctx v = w_ctx w"
      "ctx_keys (snd Tc) = ctx_keys (w_ctx w p n)" for p n Tc v
    using that holds_same [of Tc v p n] by simp
  show ?thesis using st
  proof cases
    case (enter p n ns ks)
    have "lc_ul (w_ctx w p n) = []" using shape [of p n] enter(3) unfolding ctx_shape_def by simp
    then have "ctx_keys (w_ctx w p n) = {}" by (simp add: ctx_keys_def)
    then show ?thesis using stays [of p n "(w_tables w p, open_ctx ns ks)" w] enter(1) by (simp add: put_ctx_def)
  next
    case (take_next p n l Tc)
    have nk: "next_key multi l n (w_tables w p) (w_ctx w p n) = (fst Tc, snd Tc)" using take_next(5) by simp
    from keys_next [OF nk] show ?thesis
    proof (elim disjE conjE exE)
      assume "ctx_keys (snd Tc) = ctx_keys (w_ctx w p n)"
      then show ?thesis using stays [OF take_next(1)] by simp
    next
      fix k ks i T1
      assume m: "\<not> multi" and get: "get_or_create_async_lock k (w_tables w p) = (i, T1)" and "\<not> al_locked (lock_objs T1 i)"
        and keys: "ctx_keys (snd Tc) = insert k (ctx_keys (w_ctx w p n))"
      then have "k \<notin> ctx_keys (w_ctx w p m)" for m using key_free [OF proc get] by blast
      then have "(k, t) \<notin> who_holds w" for t using one [OF m take_next(2)] by (auto simp: who_holds_def)
      then show ?thesis using takes [OF take_next(1)] keys by simp
    qed
  next
    case (wake p n l Tc)
    let ?c = "w_ctx w p n" and ?e = "last_entry (w_ctx w p n)"
    have sh: "taken_but multi entry_new (lc_ul ?c)" using shape [of p n] wake(3) unfolding ctx_shape_def by simp
    then have ne: "lc_ul ?c \<noteq> []" and new: "\<not> le_entered ?e" and mem: "?e \<in> set (lc_ul ?c)"
      by (simp_all add: taken_but_def entry_new_def last_entry_def)
    have Tc: "snd Tc = gate_taken multi l ?c" using wake(6) by (auto simp: wake_up_def)
    have keys: "ctx_keys (snd Tc) = (if multi then ctx_keys ?c else insert (le_key ?e) (ctx_keys ?c))"
      unfolding Tc last_entry_def by (rule keys_gate_taken [OF ne]) (use new in \<open>simp add: last_entry_def\<close>)
    have free: "le_key ?e \<notin> ctx_keys (w_ctx w p m)" for m
    proof
      assume "le_key ?e \<in> ctx_keys (w_ctx w p m)"
      then obtain i where "map_of (async_lock (w_tables w p)) (le_key ?e) = Some i" "al_locked (lock_objs (w_tables w p) i)"
        by (rule key_taken [OF proc])
      then show False using gate_locked(1) [OF proc mem] wake(5) by (simp add: aio_woken_def)
    qed
    show ?thesis
    proof (cases multi)
      case True
      then show ?thesis using stays [OF wake(1)] keys by simp
    next
      case False
      then have "(le_key ?e, t) \<notin> who_holds w" for t using one [OF False wake(2)] free by (auto simp: who_holds_def)
      then show ?thesis using takes [OF wake(1)] keys False by simp
    qed
  next
    case (ask p n l e)
    then show ?thesis using stays [of p n "(w_tables w p, (w_ctx w p n)\<lparr>lc_phase := CtxAsking l (asks p n w)\<rparr>)" w] by (simp add: put_ctx_def)
  next
    case (claim p n l snap e h)
    let ?c = "w_ctx w p n" and ?e = "last_entry (w_ctx w p n)"
    have sh: "multi \<and> taken_but multi entry_polling (lc_ul ?c)" using shape [of p n] unfolding ctx_shape_def claim(2) lock_phase.case .
    then have ne: "lc_ul ?c \<noteq> []" and new: "\<not> le_entered (List.last (lc_ul ?c))" by (simp_all add: taken_but_def entry_polling_def)
    have keys: "ctx_keys (lease_taken l ?c) = insert (le_key ?e) (ctx_keys ?c)" by (rule keys_taken [OF ne new])
    have "(le_key ?e, t) \<notin> who_holds w" for t
    proof
      assume "(le_key ?e, t) \<in> who_holds w"
      then obtain l' where "fst t \<in> w_alive w" "(fst t, snd t, le_key ?e, l') \<in> all_leases w"
        using holds_lease [of w "le_key ?e" "fst t" "snd t"] pr sh by auto
      then show False using leases_claim(2) [OF le claim(2) claim(3) claim(4), of "(w_tables w p, lease_taken l ?c)"] leases_taken [of l ?c]
        by auto
    qed
    then show ?thesis using takes [OF claim(1) [unfolded put_ctx_def]] keys by simp
  next
    case (claim_lost p n l snap e h Tc)
    have "taken_but multi entry_polling (lc_ul (w_ctx w p n))" using shape [of p n] unfolding ctx_shape_def claim_lost(2) lock_phase.case by blast
    then have "ctx_keys (snd Tc) = ctx_keys (w_ctx w p n)"
      by (intro keys_give_up [OF _ _ claim_lost(5)]) (simp_all add: taken_but_def entry_polling_def)
    then show ?thesis using stays [OF claim_lost(1)] by simp
  next
    case (claim_refused p n l snap e h)
    then show ?thesis using stays [of p n "(w_tables w p, (w_ctx w p n)\<lparr>lc_phase := CtxPolling l\<rparr>)" w] by (simp add: put_ctx_def)
  next
    case (abandon p n l snap Tc)
    have "lc_ul (w_ctx w p n) \<noteq> [] \<and> \<not> le_entered (List.last (lc_ul (w_ctx w p n)))"
      using shape [of p n] abandon(3) unfolding ctx_shape_def by (auto simp: taken_but_def entry_new_def entry_polling_def)
    then have "ctx_keys (snd Tc) = ctx_keys (w_ctx w p n)" by (intro keys_give_up [OF _ _ abandon(4)]) simp_all
    then show ?thesis using stays [OF abandon(1)] by simp
  next
    case (leave p n)
    then show ?thesis using stays [of p n "(w_tables w p, (w_ctx w p n)\<lparr>lc_phase := CtxReleasing\<rparr>)" w] by (simp add: put_ctx_def)
  next
    case (release p n answers h Tc)
    from keys_release [OF proc release(4)] show ?thesis
    proof (elim disjE exE)
      assume "ctx_keys (snd Tc) = ctx_keys (w_ctx w p n)"
      then show ?thesis using stays [OF release(1)] by simp
    next
      fix k assume "ctx_keys (snd Tc) = ctx_keys (w_ctx w p n) - {k}"
      then have "who_holds w' = who_holds w - {(k, p, n)}"
        using holds_remove [of Tc "w\<lparr>w_holders := h\<rparr>" p n k] release(1) by simp
      then show ?thesis using give_back by simp
    qed
  next
    case (die p)
    have "who_holds w' = {x \<in> who_holds w. fst (snd x) \<noteq> p}" by (auto simp: die who_holds_def)
    then show ?thesis using crash by simp
  next
    case (spawn p)
    have "w_ctx w p n = free_ctx" for n using pr spawn(2) by (simp add: procs_ok_def)
    then have "who_holds w' = who_holds w" by (auto simp: spawn who_holds_def)
    then show ?thesis by simp
  qed
qed

interpretation keyed: simulation "lock_ok multi pid_of birth" who_holds "lock_step multi pid_of birth" mutex_step
  for multi pid_of birth
  by unfold_locales (erule (1) lock_ok_step, erule (1) mutex_simulates)

lemma lock_reach_run:
  "lock_reach multi pid_of birth w
   \<Longrightarrow> \<exists>w0. lock_ok multi pid_of birth w0 \<and> who_holds w0 = {} \<and> (lock_step multi pid_of birth)\<^sup>*\<^sup>* w0 w"
proof (induction rule: lock_reach.induct)
  case (boot A p)
  have "who_holds (first_world A) = {}" by (simp add: who_holds_def first_world_def ctx_keys_def free_ctx_def)
  then show ?case using lock_ok_boot [OF boot] by blast
next
  case (run_on w w')
  then show ?case by (auto intro: rtranclp.rtrancl_into_rtrancl)
qed

lemma reach_exclusive:
  assumes "lock_reach multi pid_of birth w"
  shows "exclusive (who_holds w)"
proof -
  obtain w0 where w0: "lock_ok multi pid_of birth w0" "who_holds w0 = {}" "(lock_step multi pid_of birth)\<^sup>*\<^sup>* w0 w"
    using lock_reach_run [OF assms] by blast
  have "exclusive (who_holds w0)" using w0(2) by (simp add: exclusive_def)
  then show ?thesis using keyed.run_keeps [where P = exclusive, OF w0(3,1)] mutex_exclusive by blast
qed

lemma inside_holds:
  assumes r: "lock_reach multi pid_of birth w"
    and p: "p \<in> w_alive w" "lc_phase (w_ctx w p n) = CtxInside" "en \<in> set (lc_ul (w_ctx w p n))"
    and q: "q \<in> w_alive w" "lc_phase (w_ctx w q m) = CtxInside" "en' \<in> set (lc_ul (w_ctx w q m))"
    and k: "le_key en = le_key en'"
  shows "p = q \<and> n = m"
proof -
  have ex: "exclusive (who_holds w)" by (rule reach_exclusive [OF r])
  have shape: "ctx_shape multi (w_ctx w p n)" for p n
    using lock_ok_reach [OF r] proc_free unfolding lock_ok_def procs_ok_def by blast
  have "\<forall>en\<in>set (lc_ul (w_ctx w p n)). entry_done multi en" using shape [of p n] unfolding ctx_shape_def p(2) lock_phase.case .
  moreover have "\<forall>en\<in>set (lc_ul (w_ctx w q m)). entry_done multi en" using shape [of q m] unfolding ctx_shape_def q(2) lock_phase.case .
  ultimately have "le_entered en" "le_entered en'" using p(3) q(3) by (auto simp: entry_done_def)
  then have "le_key en \<in> ctx_keys (w_ctx w p n)" "le_key en' \<in> ctx_keys (w_ctx w q m)"
    unfolding ctx_keys_def keys_of_def using p(3) q(3) by blast+
  then have "(le_key en, p, n) \<in> who_holds w" "(le_key en, q, m) \<in> who_holds w"
    unfolding holds_here using p(1) q(1) k by simp_all
  then show ?thesis using ex unfolding exclusive_def by blast
qed

subsection \<open>A run\<close>

text \<open>Two contexts of one process want the key \<open>k\<close>: the first gets it, the second waits.\<close>

definition run_env :: probe_env where
  "run_env = \<lparr>pr_proc = \<lparr>my_pid = 1, my_start = None, has_psutil = True, probe = (\<lambda>_. ProcRunning),
     start_of = (\<lambda>_. Some ''5''), is_multiprocess = True, on_linux = True\<rparr>, clock_reads = (\<lambda>_. [])\<rparr>"

definition run1 :: lock_world where
  "run1 = put_ctx 0 0 (open_ctx ''n'' [''k'']) (first_world {0})"

definition run2 :: lock_world where
  "run2 = put 0 0 (next_key True ''a'' 0 (w_tables run1 0) (w_ctx run1 0 0)) (run1\<lparr>w_drawn := insert ''a'' (w_drawn run1)\<rparr>)"

definition run3 :: lock_world where
  "run3 = put_ctx 0 1 (open_ctx ''n'' [''k'']) run2"

definition run4 :: lock_world where
  "run4 = put 0 1 (next_key True ''b'' 1 (w_tables run3 0) (w_ctx run3 0 1)) (run3\<lparr>w_drawn := insert ''b'' (w_drawn run3)\<rparr>)"

definition run5 :: lock_world where
  "run5 = put_ctx 0 0 ((w_ctx run4 0 0)\<lparr>lc_phase := CtxAsking ''a'' None\<rparr>) run4"

definition run6 :: lock_world where
  "run6 = put_ctx 0 0 (lease_taken ''a'' (w_ctx run5 0 0))
     (run5\<lparr>w_holders := [(''n:k'', \<lparr>hr_pid = Some 7, hr_lease = ''a'', hr_delta = Some 0\<rparr>)], w_granted := insert ''a'' (w_granted run5)\<rparr>)"

definition run7 :: lock_world where
  "run7 = put 0 0 (next_key True ''c'' 0 (w_tables run6 0) (w_ctx run6 0 0)) (run6\<lparr>w_drawn := insert ''c'' (w_drawn run6)\<rparr>)"

lemmas run_ops = put_ctx_def put_def open_ctx_def first_world_def free_ctx_def next_key_def get_or_create_async_lock_def
  init_keyed_locks_def new_aio_lock_def aio_acquire_def aio_set_def gate_taken_def lease_taken_def set_last_def get_combined_key_def

lemma run_env_truthful: "truthful (\<lambda>_. 7) (\<lambda>_. 0) {0} run_env"
  by (simp add: truthful_def run_env_def pid_alive_def start_delta_def read_ticks_def)

lemma run1_values: "w_ctx run1 0 0 = \<lparr>lc_keys = [''n:k''], lc_ul = [], lc_phase = CtxEntering\<rparr>" "w_tables run1 0 = init_keyed_locks"
  "w_alive run1 = {0}" "w_drawn run1 = {}" "w_holders run1 = []" "w_granted run1 = {}" "w_ctx run1 0 (Suc 0) = free_ctx"
  by (simp_all add: run1_def run_ops)

lemma run2_values:
  "w_ctx run2 0 0 = \<lparr>lc_keys = [], lc_ul = [\<lparr>le_key = ''n:k'', le_obj = 0, le_gate = True, le_lease = None, le_entered = False\<rparr>], lc_phase = CtxPolling ''a''\<rparr>"
  "w_tables run2 0 = \<lparr>async_lock = [(''n:k'', 0)], async_lock_count = [(''n:k'', 1)],
     lock_objs = (\<lambda>_. new_aio_lock)(0 := \<lparr>al_locked = True, al_waiters = []\<rparr>), next_obj = 1\<rparr>"
  "w_alive run2 = {0}" "w_drawn run2 = {''a''}" "w_holders run2 = []" "w_granted run2 = {}" "w_ctx run2 0 (Suc 0) = free_ctx"
  by (simp_all add: run2_def run1_values) (simp_all add: run_ops)

lemma run3_values:
  "w_ctx run3 0 0 = w_ctx run2 0 0" "w_ctx run3 0 (Suc 0) = \<lparr>lc_keys = [''n:k''], lc_ul = [], lc_phase = CtxEntering\<rparr>"
  "w_tables run3 0 = w_tables run2 0" "w_alive run3 = {0}" "w_drawn run3 = {''a''}" "w_holders run3 = []" "w_granted run3 = {}"
  by (simp_all add: run3_def run2_values put_ctx_def) (simp_all add: run_ops)

lemma run4_values:
  "w_ctx run4 0 0 = w_ctx run2 0 0"
  "w_ctx run4 0 (Suc 0) = \<lparr>lc_keys = [], lc_ul = [\<lparr>le_key = ''n:k'', le_obj = 0, le_gate = False, le_lease = None, le_entered = False\<rparr>], lc_phase = CtxQueued\<rparr>"
  "w_alive run4 = {0}" "w_drawn run4 = {''a'', ''b''}" "w_holders run4 = []" "w_granted run4 = {}"
  "async_lock (w_tables run4 0) = [(''n:k'', 0)]" "async_lock_count (w_tables run4 0) = [(''n:k'', 2)]"
  "lock_objs (w_tables run4 0) 0 = \<lparr>al_locked = True, al_waiters = [Suc 0]\<rparr>"
  by (simp_all add: run4_def run3_values run2_values) (auto simp: run_ops)

lemma run6_values:
  "w_ctx run6 0 0 = \<lparr>lc_keys = [], lc_ul = [\<lparr>le_key = ''n:k'', le_obj = 0, le_gate = True, le_lease = Some ''a'', le_entered = True\<rparr>], lc_phase = CtxEntering\<rparr>"
  "w_alive run6 = {0}" "w_drawn run6 = {''a'', ''b''}"
  by (simp_all add: run6_def run5_def run4_values run2_values put_ctx_def lease_taken_def set_last_def)

abbreviation run_reach :: "lock_world \<Rightarrow> bool" where
  "run_reach \<equiv> lock_reach True (\<lambda>_. 7) (\<lambda>_. 0)"

lemma reach1: "run_reach run1"
proof -
  have "run_reach (first_world {0})" by (rule lock_reach.boot) simp
  then show ?thesis unfolding run1_def
    by (rule lock_reach.run_on [OF _ lock_step.enter]) (simp_all add: first_world_def free_ctx_def)
qed

lemma reach2: "run_reach run2"
  unfolding run2_def by (rule lock_reach.run_on [OF reach1 lock_step.take_next]) (simp_all add: run1_values)

lemma reach3: "run_reach run3"
  unfolding run3_def by (rule lock_reach.run_on [OF reach2 lock_step.enter]) (simp_all add: run2_values free_ctx_def)

lemma reach4: "run_reach run4"
  unfolding run4_def One_nat_def by (rule lock_reach.run_on [OF reach3 lock_step.take_next]) (simp_all add: run3_values)

lemma step5: "lock_step True (\<lambda>_. 7) (\<lambda>_. 0) run4 run5"
proof -
  have "asks 0 0 run4 = None" by (simp add: asks_def run4_values)
  then show ?thesis unfolding run5_def
    using lock_step.ask [of 0 run4 0 "''a''" "\<lambda>_. 7" "\<lambda>_. 0" run_env True] run_env_truthful
    by (simp add: run4_values run2_values worth_claiming_def)
qed

lemma step6: "lock_step True (\<lambda>_. 7) (\<lambda>_. 0) run5 run6"
  unfolding run6_def
  by (rule lock_step.claim [where snap = None and e = run_env])
    (use run_env_truthful in \<open>simp_all add: run5_def run4_values run2_values put_ctx_def try_claim_def candidate_def last_entry_def
       start_delta_def run_env_def read_ticks_def\<close>)

lemma reach6: "run_reach run6"
  by (rule lock_reach.run_on [OF lock_reach.run_on [OF reach4 step5] step6])

lemma reach7: "run_reach run7"
  unfolding run7_def by (rule lock_reach.run_on [OF reach6 lock_step.take_next]) (simp_all add: run6_values)

lemma run7_values:
  "w_ctx run7 0 0 = \<lparr>lc_keys = [], lc_ul = [\<lparr>le_key = ''n:k'', le_obj = 0, le_gate = True, le_lease = Some ''a'', le_entered = True\<rparr>], lc_phase = CtxInside\<rparr>"
  "w_alive run7 = {0}"
  by (simp_all add: run7_def run6_values next_key_def)

text \<open>One process: two contexts with different keys, both inside.\<close>

definition solo_next :: "nat \<Rightarrow> pystr \<Rightarrow> lock_world \<Rightarrow> lock_world" where
  "solo_next n l w = put 0 n (next_key False l n (w_tables w 0) (w_ctx w 0 n)) (w\<lparr>w_drawn := insert l (w_drawn w)\<rparr>)"

definition solo2 :: lock_world where
  "solo2 = solo_next 0 ''a'' (put_ctx 0 0 (open_ctx ''n'' [''k'']) (first_world {0}))"

definition solo3 :: lock_world where "solo3 = solo_next 0 ''b'' solo2"

definition solo5 :: lock_world where
  "solo5 = solo_next (Suc 0) ''c'' (put_ctx 0 (Suc 0) (open_ctx ''n'' [''j'']) solo3)"

definition solo6 :: lock_world where "solo6 = solo_next (Suc 0) ''d'' solo5"

abbreviation solo_reach :: "lock_world \<Rightarrow> bool" where
  "solo_reach \<equiv> lock_reach False (\<lambda>_. 7) (\<lambda>_. 0)"

lemma solo_step:
  "solo_reach w \<Longrightarrow> 0 \<in> w_alive w \<Longrightarrow> lc_phase (w_ctx w 0 n) = CtxEntering \<Longrightarrow> l \<notin> w_drawn w \<Longrightarrow> solo_reach (solo_next n l w)"
  unfolding solo_next_def by (rule lock_reach.run_on [OF _ lock_step.take_next]) simp_all

lemma solo_open:
  "solo_reach w \<Longrightarrow> 0 \<in> w_alive w \<Longrightarrow> w_ctx w 0 n = free_ctx \<Longrightarrow> solo_reach (put_ctx 0 n (open_ctx ''n'' ks) w)"
  by (rule lock_reach.run_on [OF _ lock_step.enter]) (simp_all add: free_ctx_def)

lemma solo2_values:
  "w_ctx solo2 0 0 = \<lparr>lc_keys = [], lc_ul = [\<lparr>le_key = ''n:k'', le_obj = 0, le_gate = True, le_lease = None, le_entered = True\<rparr>], lc_phase = CtxEntering\<rparr>"
  "w_tables solo2 0 = \<lparr>async_lock = [(''n:k'', 0)], async_lock_count = [(''n:k'', 1)],
     lock_objs = (\<lambda>_. new_aio_lock)(0 := \<lparr>al_locked = True, al_waiters = []\<rparr>), next_obj = 1\<rparr>"
  "w_alive solo2 = {0}" "w_drawn solo2 = {''a''}" "w_ctx solo2 0 (Suc 0) = free_ctx"
  by (simp_all add: solo2_def solo_next_def) (simp_all add: run_ops)

lemma solo3_values:
  "w_ctx solo3 0 0 = (w_ctx solo2 0 0)\<lparr>lc_phase := CtxInside\<rparr>" "w_tables solo3 0 = w_tables solo2 0"
  "w_alive solo3 = {0}" "w_drawn solo3 = {''a'', ''b''}" "w_ctx solo3 0 (Suc 0) = free_ctx"
  by (simp_all add: solo3_def solo_next_def solo2_values next_key_def insert_commute)

lemma solo5_values:
  "w_ctx solo5 0 0 = w_ctx solo3 0 0" "w_alive solo5 = {0}" "w_drawn solo5 = {''a'', ''b'', ''c''}"
  "w_ctx solo5 0 (Suc 0) = \<lparr>lc_keys = [], lc_ul = [\<lparr>le_key = ''n:j'', le_obj = 1, le_gate = True, le_lease = None, le_entered = True\<rparr>], lc_phase = CtxEntering\<rparr>"
  by (simp_all add: solo5_def solo_next_def solo3_values solo2_values put_ctx_def insert_commute) (simp_all add: run_ops)

lemma solo6_values:
  "lc_phase (w_ctx solo6 0 0) = CtxInside" "lc_phase (w_ctx solo6 0 (Suc 0)) = CtxInside" "w_alive solo6 = {0}"
  by (simp_all add: solo6_def solo_next_def solo5_values solo3_values next_key_def)

lemma solo6: "solo_reach solo6"
proof -
  have "solo_reach (first_world {0})" by (rule lock_reach.boot) simp
  then have "solo_reach (put_ctx 0 0 (open_ctx ''n'' [''k'']) (first_world {0}))"
    by (rule solo_open) (simp_all add: first_world_def)
  then have "solo_reach solo2" unfolding solo2_def
    by (rule solo_step) (simp_all add: put_ctx_def first_world_def open_ctx_def)
  then have 3: "solo_reach solo3" unfolding solo3_def by (rule solo_step) (simp_all add: solo2_values)
  have "solo_reach (put_ctx 0 (Suc 0) (open_ctx ''n'' [''j'']) solo3)"
    by (rule solo_open [OF 3]) (simp_all add: solo3_values)
  then have "solo_reach solo5" unfolding solo5_def
    by (rule solo_step) (simp_all add: put_ctx_def solo3_values open_ctx_def)
  then show ?thesis unfolding solo6_def by (rule solo_step) (simp_all add: solo5_values)
qed

subsection \<open>The properties\<close>

lemma empty_dict: "\<forall>k. map_of d k = None \<Longrightarrow> d = []"
  by (cases d) (auto split: if_splits)

text \<open>C15. The keyed locks refine one mutex per key: whatever contexts, processes, deaths and lost replies there
  are, with one process or several, the keys that live contexts have change as the specification
  allows, by taking a free key, by giving back an own key, or by the death of a process.\<close>

theorem keyed_locks_refine_mutex:
  assumes "lock_reach multi pid_of birth w" and "lock_step multi pid_of birth w w'"
  shows "mutex_step\<^sup>*\<^sup>* {} (who_holds w) \<and> (who_holds w' = who_holds w \<or> mutex_step (who_holds w) (who_holds w'))"
proof -
  obtain w0 where w0: "lock_ok multi pid_of birth w0" "who_holds w0 = {}" "(lock_step multi pid_of birth)\<^sup>*\<^sup>* w0 w"
    using lock_reach_run [OF assms(1)] by blast
  show ?thesis using keyed.run_refines [OF w0(3,1)] w0(2) mutex_simulates [OF lock_ok_reach [OF assms(1)] assms(2)] by simp
qed

lemma keyed_locks_refine_mutex_witness:
  "mutex_step\<^sup>*\<^sup>* {} (who_holds run5) \<and> (who_holds run6 = who_holds run5 \<or> mutex_step (who_holds run5) (who_holds run6))"
  by (rule keyed_locks_refine_mutex [OF lock_reach.run_on [OF reach4 step5] step6])

text \<open>C14. Mutual exclusion: two contexts of live processes that are inside have no key in common, in any reachable
  state, with deaths, reclaimed leases, cancellations and lost replies.\<close>

theorem keyed_mutual_exclusion:
  assumes "lock_reach multi pid_of birth w" and "(p, n) \<noteq> (q, m)"
    and "p \<in> w_alive w" "lc_phase (w_ctx w p n) = CtxInside"
    and "q \<in> w_alive w" "lc_phase (w_ctx w q m) = CtxInside"
  shows "set (map le_key (lc_ul (w_ctx w p n))) \<inter> set (map le_key (lc_ul (w_ctx w q m))) = {}"
  using inside_holds [OF assms(1,3,4) _ assms(5,6)] assms(2) unfolding set_map by blast

lemma keyed_mutual_exclusion_witness:
  "set (map le_key (lc_ul (w_ctx solo6 0 0))) \<inter> set (map le_key (lc_ul (w_ctx solo6 0 (Suc 0)))) = {}"
  by (rule keyed_mutual_exclusion [OF solo6]) (simp_all add: solo6_values)

text \<open>C17. The table of locks of a process is exactly what is referenced: a key has a lock and a count there
  if and only if some context holds or awaits it, the count is the number of these references, and
  nothing remains when no context refers to anything.\<close>

theorem locks_live_exactly:
  assumes "lock_reach multi pid_of birth w"
  defines "R \<equiv> \<lambda>p k. {(n, i). i < length (lc_ul (w_ctx w p n)) \<and> le_key (lc_ul (w_ctx w p n) ! i) = k}"
  shows "map_of (async_lock_count (w_tables w p)) k = (if R p k = {} then None else Some (int (card (R p k))))
    \<and> (map_of (async_lock (w_tables w p)) k = None \<longleftrightarrow> R p k = {}) \<and> finite (R p k)
    \<and> ((\<forall>n. lc_ul (w_ctx w p n) = []) \<longrightarrow> async_lock (w_tables w p) = [] \<and> async_lock_count (w_tables w p) = [])"
proof -
  let ?U = "\<lambda>n. gate_view (w_ctx w p n)" and ?T = "w_tables w p"
  have ok: "refs_ok ?T ?U" using lock_ok_reach [OF assms(1)] unfolding lock_ok_def procs_ok_def proc_ok_def gates_ok_def by blast
  have R: "R p k = refs ?U k" for k
    unfolding R_def refs_def by (auto simp: slots_def view_at_def gate_view_def)
  have c: "\<forall>k. map_of (async_lock_count ?T) k = (if refs ?U k = {} then None else Some (int (card (refs ?U k))))"
    "\<forall>k. map_of (async_lock ?T) k = None \<longleftrightarrow> refs ?U k = {}"
    using ok unfolding refs_ok_def counts_ok_def by blast+
  have "async_lock ?T = [] \<and> async_lock_count ?T = []" if "\<forall>n. lc_ul (w_ctx w p n) = []"
  proof -
    have "refs ?U k = {}" for k using that by (auto simp: refs_def slots_def gate_view_def)
    then have "\<forall>k. map_of (async_lock ?T) k = None" "\<forall>k. map_of (async_lock_count ?T) k = None" using c by simp_all
    then show ?thesis by (simp add: empty_dict)
  qed
  then show ?thesis using c refs_finite [OF ok] unfolding R by simp
qed

lemma locks_live_exactly_witness:
  "map_of (async_lock_count (w_tables run4 0)) ''n:k''
     = Some (int (card {(n, i). i < length (lc_ul (w_ctx run4 0 n)) \<and> le_key (lc_ul (w_ctx run4 0 n) ! i) = ''n:k''}))
   \<and> map_of (async_lock_count (w_tables run4 0)) ''n:k'' = Some 2"
proof -
  let ?R = "{(n, i). i < length (lc_ul (w_ctx run4 0 n)) \<and> le_key (lc_ul (w_ctx run4 0 n) ! i) = ''n:k''}"
  have "(0, 0) \<in> ?R" by (simp add: run4_values run2_values)
  then have "?R \<noteq> {}" by blast
  then show ?thesis using locks_live_exactly [OF reach4, of 0 "''n:k''"] by (simp add: run4_values)
qed

end
