(* ===== verification/KeyedProgress.thy ===== *)
theory KeyedProgress
  imports KeyedMutex
begin

text \<open>
  The keys of a context are taken in order, so contexts never wait for each other in a circle: while any
  waits, one of them can go on. A key that a caller gives twice breaks this.
\<close>

definition keys_in_order :: "lock_ctx \<Rightarrow> pystr list" where
  "keys_in_order c = map le_key (lc_ul c) @ lc_keys c"

lemma append_le: "(xs :: pystr) @ ys \<le> xs @ zs \<longleftrightarrow> ys \<le> zs"
  by (induction xs) simp_all

lemma combined_mono: "sorted ks \<Longrightarrow> sorted (map (get_combined_key ns) ks)"
  by (induction ks) (auto simp: get_combined_key_def append_le)

lemma order_open: "sorted (keys_in_order (open_ctx ns ks))"
  using combined_mono [of "sort ks" ns] by (simp add: keys_in_order_def open_ctx_def)

lemma order_phase [simp]: "keys_in_order (c\<lparr>lc_phase := ph\<rparr>) = keys_in_order c"
  by (simp add: keys_in_order_def)

lemma map_key_set_last:
  assumes "\<And>en. le_key (f en) = le_key en"
  shows "map le_key (set_last f us) = map le_key us"
  using assms by (cases us rule: rev_cases) simp_all

lemma order_gate_taken [simp]: "keys_in_order (gate_taken multi l c) = keys_in_order c"
  by (simp add: keys_in_order_def gate_taken_def map_key_set_last)

lemma order_lease_taken [simp]: "keys_in_order (lease_taken l c) = keys_in_order c"
  by (simp add: keys_in_order_def lease_taken_def map_key_set_last)

lemma order_give_up: "give_up n T c = Tc \<Longrightarrow> keys_in_order (snd Tc) = keys_in_order c"
  by (auto simp: keys_in_order_def give_up_def Let_def map_key_set_last)

lemma order_next:
  assumes "next_key multi l n T c = Tc"
  shows "keys_in_order (snd Tc) = keys_in_order c"
proof (cases "lc_keys c")
  case Nil
  then show ?thesis using assms by (auto simp: next_key_def)
next
  case (Cons k ks)
  obtain i T1 where get: "get_or_create_async_lock k T = (i, T1)" by fastforce
  obtain got T2 where acq: "aio_acquire n i T1 = (got, T2)" by fastforce
  define c1 where "c1 = c\<lparr>lc_keys := ks, lc_ul := lc_ul c @ [\<lparr>le_key = k, le_obj = i, le_gate = False, le_lease = None, le_entered = False\<rparr>]\<rparr>"
  have "snd Tc = (if got then gate_taken multi l c1 else c1\<lparr>lc_phase := CtxQueued\<rparr>)"
    using assms by (auto simp: next_key_def Cons get acq c1_def Let_def)
  moreover have "keys_in_order c1 = keys_in_order c" by (simp add: c1_def keys_in_order_def Cons)
  ultimately show ?thesis by simp
qed

lemma sorted_butlast_append: "sorted (map f us @ ks) \<Longrightarrow> sorted (map f (butlast us) @ ks)"
  by (cases us rule: rev_cases) (auto simp: sorted_append)

lemma order_release:
  assumes "release_last multi answers h T c = (h', Tc)" "sorted (keys_in_order c)"
  shows "sorted (keys_in_order (snd Tc))"
proof (cases "lc_ul c = []")
  case True
  then show ?thesis using assms by (auto simp: release_last_def keys_in_order_def free_ctx_def)
next
  case False
  then have "snd Tc = c\<lparr>lc_ul := butlast (lc_ul c)\<rparr>" using assms(1)
    by (auto simp: release_last_def split: prod.splits)
  then show ?thesis using assms(2) by (simp add: keys_in_order_def sorted_butlast_append)
qed

lemma order_step:
  assumes "\<And>p n. sorted (keys_in_order (w_ctx w p n))" and st: "lock_step multi pid_of birth w w'"
  shows "sorted (keys_in_order (w_ctx w' p n))"
  using st
proof cases
  case (release q m answers h Tc)
  then show ?thesis using assms(1) order_release [OF release(4) assms(1)] by simp
qed (use assms(1) order_open order_next order_give_up in \<open>force simp: put_ctx_def wake_up_def\<close>)+

lemma order_reach: "lock_reach multi pid_of birth w \<Longrightarrow> sorted (keys_in_order (w_ctx w p n))"
proof (induction arbitrary: p n rule: lock_reach.induct)
  case (boot A q)
  then show ?case by (simp add: first_world_def free_ctx_def keys_in_order_def)
next
  case (run_on w w')
  then show ?case using order_step by blast
qed

lemma alive_finite: "lock_reach multi pid_of birth w \<Longrightarrow> finite (w_alive w)"
proof (induction rule: lock_reach.induct)
  case (boot A p)
  then show ?case by (simp add: first_world_def split: if_splits)
next
  case (run_on w w')
  from run_on(2) show ?case by cases (use run_on.IH in \<open>simp_all add: put_ctx_def\<close>)
qed

subsection \<open>Who waits for whom\<close>

abbreviation waiting :: "lock_ctx \<Rightarrow> bool" where
  "waiting c \<equiv> lc_phase c = CtxQueued \<or> (\<exists>l. lc_phase c = CtxPolling l)"

lemma waiting_shape:
  assumes "ctx_shape multi c" "waiting c"
  shows "lc_ul c \<noteq> []" "\<not> le_entered (last_entry c)" "le_gate (last_entry c) \<Longrightarrow> \<exists>l. lc_phase c = CtxPolling l"
proof -
  have "lc_ul c \<noteq> [] \<and> \<not> le_entered (last_entry c) \<and> (le_gate (last_entry c) \<longrightarrow> (\<exists>l. lc_phase c = CtxPolling l))"
    using assms(2)
  proof (elim disjE exE)
    assume "lc_phase c = CtxQueued"
    then show ?thesis using assms(1) by (simp add: ctx_shape_def taken_but_def entry_new_def last_entry_def)
  next
    fix l assume "lc_phase c = CtxPolling l"
    then show ?thesis using assms(1) by (simp add: ctx_shape_def taken_but_def entry_polling_def last_entry_def)
  qed
  then show "lc_ul c \<noteq> []" "\<not> le_entered (last_entry c)" "le_gate (last_entry c) \<Longrightarrow> \<exists>l. lc_phase c = CtxPolling l" by blast+
qed

text \<open>With distinct keys, every entry but the last has a smaller key than the last.\<close>

lemma earlier_smaller:
  assumes s: "sorted (keys_in_order c)" and d: "distinct (keys_in_order c)" and ne: "lc_ul c \<noteq> []"
    and en: "en \<in> set (lc_ul c)" "en \<noteq> last_entry c"
  shows "le_key en < le_key (last_entry c)"
proof -
  have "lc_ul c = butlast (lc_ul c) @ [last_entry c]" using ne by (simp add: last_entry_def)
  moreover from this have "en \<in> set (butlast (lc_ul c))" using en by (metis UnE empty_iff list.set(1,2) set_append insertE)
  ultimately have "sorted (map le_key (butlast (lc_ul c)) @ [le_key (last_entry c)])"
    "distinct (map le_key (butlast (lc_ul c)) @ [le_key (last_entry c)])"
    using s d unfolding keys_in_order_def
    by (metis (no_types, lifting) list.simps(8) list.simps(9) map_append sorted_append, metis (no_types, lifting) distinct_append list.simps(8) list.simps(9) map_append)
  then show ?thesis using \<open>en \<in> set (butlast (lc_ul c))\<close> by (simp add: sorted_append) (metis image_eqI le_neq_trans)
qed


lemma run4_others: "(p, n) \<notin> {(0, 0), (0, Suc 0)} \<Longrightarrow> w_ctx run4 p n = free_ctx"
  by (auto simp: run4_def run3_def run2_def run1_def put_ctx_def first_world_def)

lemma run4_waiting: "(p, n) \<in> {(0, 0), (0, Suc 0)} \<Longrightarrow> waiting (w_ctx run4 p n) \<and> distinct (keys_in_order (w_ctx run4 p n))"
  by (auto simp: run4_values run2_values keys_in_order_def)


text \<open>
  The keys of \<open>aedit_relation\<close> and \<open>adelete_by_relation\<close> are \<open>sorted([source_entity, target_entity])\<close>, and neither
  refuses a relation of an entity with itself. Its context then waits for a lock that it has itself.
\<close>

lemma key_given_twice:
  assumes get: "get_or_create_async_lock k T = (i, T1)" and free: "\<not> al_locked (lock_objs T1 i)" "al_waiters (lock_objs T1 i) = []"
    and c: "c = \<lparr>lc_keys = [k, k], lc_ul = [], lc_phase = CtxEntering\<rparr>"
  shows "\<exists>T2 c2 T3 c3. next_key False l n T c = (T2, c2) \<and> next_key False l' n T2 c2 = (T3, c3)
    \<and> lc_phase c3 = CtxQueued \<and> le_obj (last_entry c3) = i \<and> al_locked (lock_objs T3 i)
    \<and> (\<exists>en\<in>set (lc_ul c3). le_gate en \<and> le_obj en = i)"
proof -
  have T1: "map_of (async_lock T1) k = Some i" "\<exists>j. map_of (async_lock_count T1) k = Some j"
    using get by (auto simp: get_or_create_async_lock_def dict_simps split: option.splits)
  then obtain j where j: "map_of (async_lock_count T1) k = Some j" by blast
  let ?T2 = "aio_set i ((lock_objs T1 i)\<lparr>al_locked := True\<rparr>) T1"
  have 1: "next_key False l n T c = (?T2, \<lparr>lc_keys = [k], lc_ul = [\<lparr>le_key = k, le_obj = i, le_gate = True, le_lease = None, le_entered = True\<rparr>], lc_phase = CtxEntering\<rparr>)"
    using free by (simp add: c next_key_def get aio_acquire_def gate_taken_def set_last_def)
  have 2: "get_or_create_async_lock k ?T2 = (i, ?T2\<lparr>async_lock_count := AList.update k (j + 1) (async_lock_count T1)\<rparr>)"
    using T1(1) j by (simp add: get_or_create_async_lock_def aio_set_def)
  show ?thesis unfolding 1 by (auto simp: next_key_def 2 aio_acquire_def Let_def last_entry_def)
qed

end
