(* ===== verification/GlobalSlots.thy ===== *)
theory GlobalSlots
  imports Reservations
begin

text \<open>
  The limit on concurrent calls across all worker processes and the statistics of their queues
  (\<^verbatim>\<open>src/lightrag/kg/shared_storage.py\<close>). A group has leases, one per slot in use, and a record per process that
  polls for a slot. Every operation but the reads for display holds the keyed lock of the group, so it is one
  step. The text of a process id, used as a key, is the id; a key of the statistics is the pair of queue and
  process. Times are exact, lease ids and what the operating system says are arguments.
\<close>

definition DEFAULT_GLOBAL_SLOT_HEARTBEAT_TTL :: rat where "DEFAULT_GLOBAL_SLOT_HEARTBEAT_TTL = 20"
definition DEFAULT_GLOBAL_SLOT_SUSPECT_GRACE :: rat where "DEFAULT_GLOBAL_SLOT_SUSPECT_GRACE = 20"
definition DEFAULT_GLOBAL_SLOT_WAITER_STALE_TTL :: rat where "DEFAULT_GLOBAL_SLOT_WAITER_STALE_TTL = 1"
definition DEFAULT_QUEUE_STATS_STALE_TTL :: rat where "DEFAULT_QUEUE_STATS_STALE_TTL = 15"

record slot_lease =
  sl_pid :: "nat option"
  sl_updated :: rat
  sl_suspect :: "rat option"

record slot_waiter =
  sw_pid :: "nat option"
  sw_start :: rat
  sw_poll :: rat

record slot_state =
  leases :: "(pystr, slot_lease) pydict"
  waiters :: "(nat, slot_waiter) pydict"

type_synonym slot_namespace = "(pystr, slot_state) pydict"

definition get_global_concurrency_limit :: "(pystr, int) pydict option \<Rightarrow> pystr option \<Rightarrow> int option" where
  "get_global_concurrency_limit limits gp =
     (case (limits, gp) of
        (Some ls, Some g) \<Rightarrow> if g = [] \<or> ls = [] then None else map_of ls g
      | _ \<Rightarrow> None)"

definition is_global_concurrency_limited :: "(pystr, int) pydict option \<Rightarrow> pystr option \<Rightarrow> bool" where
  "is_global_concurrency_limited limits gp =
     (case get_global_concurrency_limit limits gp of None \<Rightarrow> False | Some l \<Rightarrow> l > 0)"

definition empty_gate_state :: slot_state where
  "empty_gate_state = \<lparr>leases = [], waiters = []\<rparr>"

definition load_gate_state :: "slot_namespace \<Rightarrow> pystr \<Rightarrow> slot_state" where
  "load_gate_state ns g = (case map_of ns g of None \<Rightarrow> empty_gate_state | Some st \<Rightarrow> st)"

subsection \<open>Reclaiming\<close>

text \<open>What one lease becomes, with the flag \<open>changed\<close> and the process whose lease was reclaimed.\<close>

definition reap_lease :: "proc_env \<Rightarrow> rat \<Rightarrow> slot_lease \<Rightarrow> slot_lease option \<times> bool \<times> nat option" where
  "reap_lease e now l =
     (if (case sl_pid l of None \<Rightarrow> True | Some p \<Rightarrow> \<not> pid_alive e p) then (None, True, sl_pid l)
      else if now - sl_updated l > DEFAULT_GLOBAL_SLOT_HEARTBEAT_TTL then
        (case sl_suspect l of
           None \<Rightarrow> (Some (l\<lparr>sl_suspect := Some now\<rparr>), True, None)
         | Some since \<Rightarrow>
             if now - since > DEFAULT_GLOBAL_SLOT_SUSPECT_GRACE then (None, True, sl_pid l) else (Some l, False, None))
      else (Some (l\<lparr>sl_suspect := None\<rparr>), sl_suspect l \<noteq> None, None))"

fun reap_leases ::
    "proc_env \<Rightarrow> rat \<Rightarrow> (pystr, slot_lease) pydict \<Rightarrow> (pystr, slot_lease) pydict \<times> nat \<times> bool \<times> nat list" where
  "reap_leases e now [] = ([], 0, False, [])"
| "reap_leases e now ((i, l) # rest) =
     (let (l', ch, gone) = reap_lease e now l;
          (kept, live, ch', pids) = reap_leases e now rest
      in (case l' of
            None \<Rightarrow> (kept, live, ch \<or> ch', (case gone of None \<Rightarrow> pids | Some p \<Rightarrow> p # pids))
          | Some l1 \<Rightarrow> ((i, l1) # kept, Suc live, ch \<or> ch', pids)))"

definition stays_waiter :: "proc_env \<Rightarrow> rat \<Rightarrow> nat list \<Rightarrow> slot_waiter \<Rightarrow> bool" where
  "stays_waiter e now reclaimed w \<longleftrightarrow>
     (case sw_pid w of None \<Rightarrow> False | Some p \<Rightarrow> p \<notin> set reclaimed \<and> pid_alive e p)
     \<and> now - sw_poll w \<le> DEFAULT_GLOBAL_SLOT_WAITER_STALE_TTL"

definition reap_gate_state :: "proc_env \<Rightarrow> rat \<Rightarrow> slot_state \<Rightarrow> slot_state \<times> nat \<times> bool" where
  "reap_gate_state e now st =
     (let (kept, live, ch, pids) = reap_leases e now (leases st);
          ws = filter (\<lambda>(k, w). stays_waiter e now pids w) (waiters st)
      in (\<lparr>leases = kept, waiters = ws\<rparr>, live, ch \<or> length ws \<noteq> length (waiters st)))"

subsection \<open>Slots\<close>

fun longest_loop :: "nat \<Rightarrow> rat option \<Rightarrow> rat option \<Rightarrow> slot_waiter list \<Rightarrow> rat option \<times> rat option" where
  "longest_loop pid mine others [] = (mine, others)"
| "longest_loop pid mine others (w # ws) =
     (if sw_pid w = Some pid then longest_loop pid (Some (sw_start w)) others ws
      else if (case others of None \<Rightarrow> True | Some m \<Rightarrow> sw_start w < m) then longest_loop pid mine (Some (sw_start w)) ws
      else longest_loop pid mine others ws)"

definition is_longest_live_waiter :: "slot_state \<Rightarrow> nat \<Rightarrow> bool" where
  "is_longest_live_waiter st pid =
     (case longest_loop pid None None (values (waiters st)) of
        (None, others) \<Rightarrow> False
      | (Some mine, None) \<Rightarrow> True
      | (Some mine, Some m) \<Rightarrow> mine \<le> m)"

text \<open>\<open>works\<close>: the shared storage answers; every exception is logged and answered as a full group.\<close>

definition acquire_global_slot ::
    "proc_env \<Rightarrow> bool \<Rightarrow> int option \<Rightarrow> rat \<Rightarrow> pystr \<Rightarrow> pystr \<Rightarrow> bool \<Rightarrow> slot_namespace
     \<Rightarrow> (pystr option \<times> bool) \<times> slot_namespace" where
  "acquire_global_slot e works limit now new g track ns =
     (if (case limit of None \<Rightarrow> True | Some l \<Rightarrow> l \<le> 0) \<or> \<not> works then ((None, False), ns)
      else (let (st, in_use, changed) = reap_gate_state e now (load_gate_state ns g); pid = my_pid e
            in if the limit \<le> int in_use then
                 (if \<not> track then ((None, False), if changed then AList.update g st ns else ns)
                  else (let w = (case map_of (waiters st) pid of
                                   None \<Rightarrow> \<lparr>sw_pid = Some pid, sw_start = now, sw_poll = now\<rparr>
                                 | Some w0 \<Rightarrow> w0\<lparr>sw_poll := now\<rparr>);
                            st1 = st\<lparr>waiters := AList.update pid w (waiters st)\<rparr>
                        in ((None, is_longest_live_waiter st1 pid), AList.update g st1 ns)))
               else (let st1 = st\<lparr>leases := AList.update new \<lparr>sl_pid = Some pid, sl_updated = now, sl_suspect = None\<rparr> (leases st),
                                  waiters := AList.delete pid (waiters st)\<rparr>
                     in ((Some new, True), AList.update g st1 ns))))"

definition try_acquire_global_slot ::
    "proc_env \<Rightarrow> bool \<Rightarrow> int option \<Rightarrow> rat \<Rightarrow> pystr \<Rightarrow> pystr \<Rightarrow> slot_namespace \<Rightarrow> pystr option \<times> slot_namespace" where
  "try_acquire_global_slot e works limit now new g ns = apfst fst (acquire_global_slot e works limit now new g False ns)"

definition try_acquire_global_slot_tracked ::
    "proc_env \<Rightarrow> bool \<Rightarrow> int option \<Rightarrow> rat \<Rightarrow> pystr \<Rightarrow> pystr \<Rightarrow> slot_namespace \<Rightarrow> (pystr option \<times> bool) \<times> slot_namespace" where
  "try_acquire_global_slot_tracked e works limit now new g ns = acquire_global_slot e works limit now new g True ns"

definition clear_slot_waiter :: "proc_env \<Rightarrow> bool \<Rightarrow> pystr \<Rightarrow> slot_namespace \<Rightarrow> slot_namespace" where
  "clear_slot_waiter e started g ns =
     (let st = load_gate_state ns g
      in if started \<and> has_key (waiters st) (my_pid e)
         then AList.update g (st\<lparr>waiters := AList.delete (my_pid e) (waiters st)\<rparr>) ns else ns)"

definition global_slot_waiters :: "bool \<Rightarrow> rat \<Rightarrow> pystr \<Rightarrow> slot_namespace \<Rightarrow> (nat option \<times> rat) list" where
  "global_slot_waiters started now g ns =
     (if \<not> started then []
      else sort_key (\<lambda>w. - snd w)
        (map (\<lambda>w. (sw_pid w, max 0 (now - sw_start w)))
           (filter (\<lambda>w. \<not> now - sw_poll w > DEFAULT_GLOBAL_SLOT_WAITER_STALE_TTL) (values (waiters (load_gate_state ns g))))))"

definition release_global_slot :: "pystr \<Rightarrow> pystr \<Rightarrow> slot_namespace \<Rightarrow> slot_namespace" where
  "release_global_slot g i ns =
     (let st = load_gate_state ns g
      in if has_key (leases st) i then AList.update g (st\<lparr>leases := AList.delete i (leases st)\<rparr>) ns else ns)"

fun renew_loop :: "nat \<Rightarrow> rat \<Rightarrow> pystr list \<Rightarrow> (pystr, slot_lease) pydict \<Rightarrow> (pystr, slot_lease) pydict \<times> bool" where
  "renew_loop pid now [] ls = (ls, False)"
| "renew_loop pid now (i # is) ls =
     (if has_key ls i then
        (fst (renew_loop pid now is (AList.update i \<lparr>sl_pid = Some pid, sl_updated = now, sl_suspect = None\<rparr> ls)), True)
      else renew_loop pid now is ls)"

definition renew_global_slots :: "proc_env \<Rightarrow> rat \<Rightarrow> pystr \<Rightarrow> pystr list \<Rightarrow> slot_namespace \<Rightarrow> slot_namespace" where
  "renew_global_slots e now g is ns =
     (if is = [] then ns
      else (let st = load_gate_state ns g; (ls, changed) = renew_loop (my_pid e) now is (leases st)
            in if changed then AList.update g (st\<lparr>leases := ls\<rparr>) ns else ns))"

definition reconcile_global_slots :: "proc_env \<Rightarrow> rat \<Rightarrow> pystr \<Rightarrow> slot_namespace \<Rightarrow> nat \<times> slot_namespace" where
  "reconcile_global_slots e now g ns =
     (let (st, live, changed) = reap_gate_state e now (load_gate_state ns g)
      in (live, if changed then AList.update g st ns else ns))"

definition global_concurrency_in_use :: "pystr \<Rightarrow> slot_namespace \<Rightarrow> nat" where
  "global_concurrency_in_use g ns = length (leases (load_gate_state ns g))"

subsection \<open>Statistics of the queues\<close>

text \<open>A snapshot: the process, the time and the counters of \<open>QUEUE_STATS_SUM_FIELDS\<close> by name.\<close>

record queue_stats =
  qs_pid :: "nat option"
  qs_updated :: rat
  qs_counters :: "(pystr, int) pydict"

type_synonym stats_namespace = "(pystr \<times> nat, queue_stats) pydict"

definition QUEUE_STATS_SUM_FIELDS :: "pystr list" where
  "QUEUE_STATS_SUM_FIELDS = [''queued'', ''running'', ''in_flight'', ''worker_count'', ''submitted_total'',
     ''completed_total'', ''failed_total'', ''cancelled_total'', ''rejected_total'', ''global_slot_waits'', ''physical_queued'']"

definition publish_queue_stats :: "proc_env \<Rightarrow> bool \<Rightarrow> pystr \<Rightarrow> queue_stats \<Rightarrow> stats_namespace \<Rightarrow> stats_namespace" where
  "publish_queue_stats e started q s ns = (if started then AList.update (q, my_pid e) s ns else ns)"

definition unpublish_queue_stats :: "proc_env \<Rightarrow> bool \<Rightarrow> pystr \<Rightarrow> stats_namespace \<Rightarrow> stats_namespace" where
  "unpublish_queue_stats e started q ns = (if started then AList.delete (q, my_pid e) ns else ns)"

definition stale_stats :: "proc_env \<Rightarrow> rat \<Rightarrow> queue_stats \<Rightarrow> bool" where
  "stale_stats e now s \<longleftrightarrow>
     (case qs_pid s of None \<Rightarrow> False | Some p \<Rightarrow> \<not> pid_alive e p) \<or> now - qs_updated s > DEFAULT_QUEUE_STATS_STALE_TTL"

text \<open>The first pass over the snapshots of a queue: those that count, by process, and those to remove.\<close>

definition live_stats :: "proc_env \<Rightarrow> rat \<Rightarrow> pystr \<Rightarrow> stats_namespace \<Rightarrow> (nat option, queue_stats) pydict" where
  "live_stats e now q ns =
     fold (\<lambda>(k, s) d. AList.update (qs_pid s) s d) (filter (\<lambda>(k, s). fst k = q \<and> \<not> stale_stats e now s) ns) []"

definition found_stale :: "proc_env \<Rightarrow> rat \<Rightarrow> pystr \<Rightarrow> stats_namespace \<Rightarrow> ((pystr \<times> nat) \<times> rat) list" where
  "found_stale e now q ns = map (apsnd qs_updated) (filter (\<lambda>(k, s). fst k = q \<and> stale_stats e now s) ns)"

text \<open>The second pass, under the lock: \<open>ns\<close> may have changed; a snapshot that was published anew stays.\<close>

definition drop_stale :: "((pystr \<times> nat) \<times> rat) list \<Rightarrow> stats_namespace \<Rightarrow> stats_namespace" where
  "drop_stale found ns =
     fold (\<lambda>(k, seen) ns. case map_of ns k of
             None \<Rightarrow> ns
           | Some s \<Rightarrow> if qs_updated s \<noteq> seen then ns else AList.delete k ns) found ns"

definition counter :: "pystr \<Rightarrow> queue_stats \<Rightarrow> int" where
  "counter f s = (case map_of (qs_counters s) f of None \<Rightarrow> 0 | Some n \<Rightarrow> n)"

record queue_totals =
  qt_counters :: "(pystr, int) pydict"
  qt_workers :: nat
  qt_per_worker :: "(nat option, queue_stats) pydict"

definition aggregate_queue_stats ::
    "proc_env \<Rightarrow> rat \<Rightarrow> pystr \<Rightarrow> stats_namespace \<Rightarrow> stats_namespace \<Rightarrow> queue_totals \<times> stats_namespace" where
  "aggregate_queue_stats e now q ns later =
     (let per_worker = live_stats e now q ns; found = found_stale e now q ns
      in (\<lparr>qt_counters = map (\<lambda>f. (f, sum_list (map (counter f) (values per_worker)))) QUEUE_STATS_SUM_FIELDS,
           qt_workers = length per_worker, qt_per_worker = per_worker\<rparr>,
          if found = [] then later else drop_stale found later))"

end
