(* ===== verification/GlobalSlotLaws.thy ===== *)
theory GlobalSlotLaws
  imports GlobalSlots
begin

text \<open>
  The limit of a group holds whatever the workers do, a lease is only taken from a process that is gone or silent,
  and among those that wait there is always one that is favoured.
\<close>

subsection \<open>Reclaiming\<close>

lemma reap_live: "reap_leases e now ls = (kept, live, ch, pids) \<Longrightarrow> live = length kept"
  by (induction ls arbitrary: kept live ch pids) (auto simp: Let_def split: prod.splits option.splits)

lemma reap_le: "reap_leases e now ls = (kept, live, ch, pids) \<Longrightarrow> length kept \<le> length ls"
  by (induction ls arbitrary: kept live ch pids) (fastforce simp: Let_def split: prod.splits option.splits)+

lemma reap_keys: "reap_leases e now ls = (kept, live, ch, pids) \<Longrightarrow> set (keys kept) \<subseteq> set (keys ls) \<and> (dict_ok ls \<longrightarrow> dict_ok kept)"
proof (induction ls arbitrary: kept live ch pids)
  case (Cons il rest)
  obtain i l where il: "il = (i, l)" by fastforce
  obtain l' c gone where 1: "reap_lease e now l = (l', c, gone)" by (metis prod_cases3)
  obtain kept' live' ch' pids' where 2: "reap_leases e now rest = (kept', live', ch', pids')" by (metis prod_cases4)
  then have "kept = (case l' of None \<Rightarrow> kept' | Some l1 \<Rightarrow> (i, l1) # kept')"
    using Cons.prems unfolding il by (simp add: 1 2 split: option.splits)
  then show ?case using Cons.IH [OF 2] unfolding il by (cases l') auto
qed simp

lemma reap_gate_spec:
  assumes "reap_gate_state e now st = (st', live, changed)"
  shows "live = length (leases st')" "length (leases st') \<le> length (leases st)"
    "dict_ok (leases st) \<Longrightarrow> dict_ok (leases st')" "set (waiters st') \<subseteq> set (waiters st)"
    "dict_ok (waiters st) \<Longrightarrow> dict_ok (waiters st')"
  using assms reap_live reap_le reap_keys
  by (auto simp: reap_gate_state_def Let_def distinct_map_filter split: prod.splits)

subsection \<open>Any worker at any time\<close>

text \<open>\<open>slot_step\<close> is an operation on a group by some process, at some time, with some answers of the operating system.\<close>

inductive slot_step :: "int \<Rightarrow> slot_namespace \<Rightarrow> slot_namespace \<Rightarrow> bool" for limit where
  acquire: "acquire_global_slot e works (Some limit) now new g track ns = (res, ns') \<Longrightarrow> slot_step limit ns ns'"
| clear_waiter: "slot_step limit ns (clear_slot_waiter e started g ns)"
| release: "slot_step limit ns (release_global_slot g i ns)"
| renew: "slot_step limit ns (renew_global_slots e now g is ns)"
| reconcile: "reconcile_global_slots e now g ns = (live, ns') \<Longrightarrow> slot_step limit ns ns'"

definition within_limit :: "int \<Rightarrow> slot_namespace \<Rightarrow> bool" where
  "within_limit limit ns \<longleftrightarrow> (\<forall>g. int (length (leases (load_gate_state ns g))) \<le> max 0 limit)"

lemma load_update: "load_gate_state (AList.update g st ns) g' = (if g' = g then st else load_gate_state ns g')"
  by (simp add: load_gate_state_def dict_simps)

lemma within_update:
  "within_limit limit ns \<Longrightarrow> int (length (leases st)) \<le> max 0 limit \<Longrightarrow> within_limit limit (AList.update g st ns)"
  by (simp add: within_limit_def load_update)

lemma within_less:
  "within_limit limit ns \<Longrightarrow> length (leases st) \<le> length (leases (load_gate_state ns g)) \<Longrightarrow> within_limit limit (AList.update g st ns)"
  by (rule within_update) (auto simp: within_limit_def intro: order_trans [rotated])

lemma renew_keys: "keys (fst (renew_loop pid now is ls)) = keys ls"
  by (induction "is" arbitrary: ls) (auto simp: dict_simps)

lemma renew_length: "length (fst (renew_loop pid now is ls)) = length ls"
  by (metis length_map renew_keys)

lemma within_acquire:
  assumes w: "within_limit limit ns" and a: "acquire_global_slot e works (Some limit) now new g track ns = (res, ns')"
  shows "within_limit limit ns'"
proof (cases "limit \<le> 0 \<or> \<not> works")
  case True
  then have "ns' = ns" using a by (auto simp: acquire_global_slot_def)
  then show ?thesis using w by simp
next
  case False
  obtain st in_use changed where r: "reap_gate_state e now (load_gate_state ns g) = (st, in_use, changed)" by (metis prod_cases3)
  note spec = reap_gate_spec [OF r]
  have small: "int (length (leases st)) \<le> max 0 limit"
    using w spec(2) unfolding within_limit_def by (meson of_nat_le_iff order_trans)
  show ?thesis
  proof (cases "limit \<le> int in_use")
    case True
    then obtain ws where "ns' = ns \<or> ns' = AList.update g (st\<lparr>waiters := ws\<rparr>) ns"
      using a False r by (auto simp: acquire_global_slot_def Let_def split: if_splits) (metis slot_state.surjective slot_state.update_convs(2))
    then show ?thesis using w small within_update [of limit ns "st\<lparr>waiters := ws\<rparr>" g] by auto
  next
    case room: False
    then have "ns' = AList.update g (st\<lparr>leases := AList.update new \<lparr>sl_pid = Some (my_pid e), sl_updated = now, sl_suspect = None\<rparr> (leases st),
                                  waiters := AList.delete (my_pid e) (waiters st)\<rparr>) ns"
      using a False r by (auto simp: acquire_global_slot_def Let_def)
    moreover have "int (length (AList.update new \<lparr>sl_pid = Some (my_pid e), sl_updated = now, sl_suspect = None\<rparr> (leases st))) \<le> max 0 limit"
      using room spec(1) length_update_le [of new "\<lparr>sl_pid = Some (my_pid e), sl_updated = now, sl_suspect = None\<rparr>" "leases st"] by linarith
    ultimately show ?thesis using w by (auto intro: within_update)
  qed
qed

lemma within_step:
  assumes w: "within_limit limit ns" and st: "slot_step limit ns ns'"
  shows "within_limit limit ns'"
  using st
proof cases
  case (acquire e works now new g track res)
  then show ?thesis using within_acquire [OF w] by blast
next
  case (clear_waiter e started g)
  then show ?thesis using w within_less [OF w, of "load_gate_state ns g\<lparr>waiters := AList.delete (my_pid e) (waiters (load_gate_state ns g))\<rparr>" g]
    by (simp add: clear_slot_waiter_def Let_def)
next
  case (release g i)
  have "length (AList.delete i (leases (load_gate_state ns g))) \<le> length (leases (load_gate_state ns g))"
    by (simp add: delete_filter)
  then show ?thesis using release w within_less [OF w, of "load_gate_state ns g\<lparr>leases := AList.delete i (leases (load_gate_state ns g))\<rparr>" g]
    by (simp add: release_global_slot_def Let_def)
next
  case (renew e now g ids)
  then show ?thesis using w within_less [OF w, of "load_gate_state ns g\<lparr>leases := fst (renew_loop (my_pid e) now ids (leases (load_gate_state ns g)))\<rparr>" g]
    by (auto simp: renew_global_slots_def Let_def renew_length split: prod.splits)
next
  case (reconcile e now g live)
  obtain st in_use changed where r: "reap_gate_state e now (load_gate_state ns g) = (st, in_use, changed)" by (metis prod_cases3)
  then show ?thesis using reconcile w within_less [OF w, of st g] reap_gate_spec(2) [OF r]
    by (auto simp: reconcile_global_slots_def split: if_splits)
qed

text \<open>C18. The limit across processes is never exceeded: whatever workers acquire, renew, release, reclaim and poll, at whatever
  times and with whatever the operating system says of processes, no group ever has more leases than its limit, and with
  a limit of zero or below it has none.\<close>

theorem slots_within_limit:
  assumes "(slot_step limit)\<^sup>*\<^sup>* [] ns"
  shows "int (length (leases (load_gate_state ns g))) \<le> max 0 limit"
proof -
  have "within_limit limit ns"
    using assms
  proof (induction rule: rtranclp_induct)
    case base
    then show ?case by (simp add: within_limit_def load_gate_state_def empty_gate_state_def)
  next
    case (step ns ns')
    then show ?case by (blast intro: within_step)
  qed
  then show ?thesis by (simp add: within_limit_def)
qed

definition slot_env :: proc_env where
  "slot_env = \<lparr>my_pid = 1, my_start = None, has_psutil = True, probe = (\<lambda>_. ProcRunning),
     start_of = (\<lambda>_. None), is_multiprocess = True, on_linux = True\<rparr>"

lemma slots_within_limit_witness:
  "length (leases (load_gate_state (snd (acquire_global_slot slot_env True (Some 1) 5 ''b'' ''llm'' True
      (snd (acquire_global_slot slot_env True (Some 1) 4 ''a'' ''llm'' True [])))) ''llm'')) \<le> 1"
proof -
  let ?n1 = "snd (acquire_global_slot slot_env True (Some 1) 4 ''a'' ''llm'' True [])"
  let ?n2 = "snd (acquire_global_slot slot_env True (Some 1) 5 ''b'' ''llm'' True ?n1)"
  have "slot_step 1 [] ?n1" "slot_step 1 ?n1 ?n2" by (rule slot_step.acquire, rule prod.collapse [symmetric])+
  then have "(slot_step 1)\<^sup>*\<^sup>* [] ?n2" by (meson converse_rtranclp_into_rtranclp rtranclp.rtrancl_refl)
  then have "int (length (leases (load_gate_state ?n2 ''llm''))) \<le> max 0 1" by (rule slots_within_limit)
  then show ?thesis by simp
qed

subsection \<open>Whose lease is taken away\<close>

lemma reap_lease_gone:
  assumes "reap_lease e now l = (None, ch, gone)"
  shows "(case sl_pid l of None \<Rightarrow> True | Some p \<Rightarrow> \<not> pid_alive e p)
    \<or> now - sl_updated l > DEFAULT_GLOBAL_SLOT_HEARTBEAT_TTL
      \<and> (\<exists>since. sl_suspect l = Some since \<and> now - since > DEFAULT_GLOBAL_SLOT_SUSPECT_GRACE)"
  using assms by (auto simp: reap_lease_def split: if_splits option.splits)

lemma reap_lost:
  "reap_leases e now ls = (kept, live, ch, pids) \<Longrightarrow> (i, l) \<in> set ls \<Longrightarrow> i \<notin> set (keys kept) \<Longrightarrow> \<exists>ch gone. reap_lease e now l = (None, ch, gone)"
proof (induction ls arbitrary: kept live ch pids)
  case (Cons jm rest)
  obtain j m where jm: "jm = (j, m)" by fastforce
  obtain m' c gone where 1: "reap_lease e now m = (m', c, gone)" by (metis prod_cases3)
  obtain kept' live' ch' pids' where 2: "reap_leases e now rest = (kept', live', ch', pids')" by (metis prod_cases4)
  have kept: "kept = (case m' of None \<Rightarrow> kept' | Some l1 \<Rightarrow> (j, l1) # kept')"
    using Cons.prems(1) unfolding jm by (simp add: 1 2 split: option.splits)
  show ?case
  proof (cases "(i, l) = (j, m)")
    case True
    then show ?thesis using Cons.prems(3) kept 1 by (cases m') auto
  next
    case False
    then have "(i, l) \<in> set rest" using Cons.prems(2) unfolding jm by auto
    moreover have "i \<notin> set (keys kept')" using Cons.prems(3) kept by (cases m') auto
    ultimately show ?thesis using Cons.IH [OF 2] by blast
  qed
qed simp



subsection \<open>Who is favoured\<close>

lemma longest_mine:
  "longest_loop pid m x ws = (m', x') \<Longrightarrow> distinct (map sw_pid ws) \<Longrightarrow> w \<in> set ws \<Longrightarrow> sw_pid w = Some pid \<Longrightarrow> m' = Some (sw_start w)"
proof (induction ws arbitrary: m x)
  case (Cons v ws)
  show ?case
  proof (cases "w = v")
    case True
    have "\<forall>u\<in>set ws. sw_pid u \<noteq> Some pid" using Cons.prems(2,4) True by force
    then have "longest_loop pid m1 x1 ws = (m', x') \<Longrightarrow> m' = m1" for m1 x1
      by (induction ws arbitrary: m1 x1) (auto split: if_splits)
    then show ?thesis using Cons.prems True by auto
  next
    case False
    then have w: "w \<in> set ws" using Cons.prems(3) by simp
    then have "sw_pid v \<noteq> Some pid" using Cons.prems(2,4) by force
    then show ?thesis using Cons.IH [OF _ _ w Cons.prems(4)] Cons.prems(1,2) by (auto split: if_splits)
  qed
qed simp

lemma longest_others:
  "longest_loop pid m x ws = (m', x') \<Longrightarrow> x' = x \<or> (\<exists>w\<in>set ws. x' = Some (sw_start w))"
  by (induction ws arbitrary: m x) (fastforce split: if_splits)+

text \<open>No slot waits for a process that does not come: among the waiting processes of a group there is always one that is told
  to be the longest waiting, and so keeps the fastest poll.\<close>

theorem someone_favoured:
  assumes some: "waiters st \<noteq> []" and pids: "\<forall>w\<in>set (values (waiters st)). sw_pid w \<noteq> None"
    and distinct: "distinct (map sw_pid (values (waiters st)))"
  shows "\<exists>p. Some p \<in> sw_pid ` set (values (waiters st)) \<and> is_longest_live_waiter st p"
proof -
  let ?ws = "values (waiters st)"
  define m where "m = Min (sw_start ` set ?ws)"
  have fin: "finite (sw_start ` set ?ws)" "sw_start ` set ?ws \<noteq> {}" using some by simp_all
  then have "m \<in> sw_start ` set ?ws" unfolding m_def by (rule Min_in)
  then obtain w where w: "w \<in> set ?ws" "sw_start w = m" by auto
  then obtain p where p: "sw_pid w = Some p" using pids by blast
  obtain mine others where l: "longest_loop p None None ?ws = (mine, others)" by fastforce
  have "mine = Some m" using longest_mine [OF l distinct w(1) p] w(2) by simp
  moreover have "m \<le> x" if "others = Some x" for x
  proof -
    obtain v where "v \<in> set ?ws" "x = sw_start v" using longest_others [OF l] \<open>others = Some x\<close> by auto
    then show ?thesis unfolding m_def using fin(1) by (intro Min_le) blast+
  qed
  ultimately have "is_longest_live_waiter st p" using l by (simp add: is_longest_live_waiter_def split: option.split)
  then show ?thesis using w(1) p by force
qed

lemma someone_favoured_witness:
  "\<exists>p. Some p \<in> sw_pid ` set [\<lparr>sw_pid = Some 3, sw_start = 5, sw_poll = 9\<rparr>, \<lparr>sw_pid = Some 4, sw_start = 2, sw_poll = 8\<rparr>]
    \<and> is_longest_live_waiter \<lparr>leases = [], waiters = [(3, \<lparr>sw_pid = Some 3, sw_start = 5, sw_poll = 9\<rparr>), (4, \<lparr>sw_pid = Some 4, sw_start = 2, sw_poll = 8\<rparr>)]\<rparr> p"
  using someone_favoured [of "\<lparr>leases = [], waiters = [(3, \<lparr>sw_pid = Some 3, sw_start = 5, sw_poll = 9\<rparr>), (4, \<lparr>sw_pid = Some 4, sw_start = 2, sw_poll = 8\<rparr>)]\<rparr>"]
  by simp

subsection \<open>Totals\<close>

text \<open>A snapshot that was published again since it was found stale stays.\<close>

lemma republished_stays:
  assumes "map_of ns k = Some s" "\<And>seen. (k, seen) \<in> set found \<Longrightarrow> seen \<noteq> qs_updated s"
  shows "map_of (drop_stale found ns) k = Some s"
  using assms
proof (induction found arbitrary: ns)
  case Nil
  then show ?case by (simp add: drop_stale_def)
next
  case (Cons kf found)
  obtain k' seen where kf: "kf = (k', seen)" by fastforce
  let ?n = "case map_of ns k' of None \<Rightarrow> ns | Some s \<Rightarrow> if qs_updated s \<noteq> seen then ns else AList.delete k' ns"
  have "map_of ?n k = Some s"
    using Cons.prems kf by (cases "k' = k") (auto simp: dict_simps split: option.split)
  moreover have "\<And>seen. (k, seen) \<in> set found \<Longrightarrow> seen \<noteq> qs_updated s" using Cons.prems(2) kf by auto
  ultimately have "map_of (drop_stale found ?n) k = Some s" by (rule Cons.IH)
  then show ?case by (simp add: drop_stale_def kf)
qed

end
