(* ===== verification/ParamSchema.thy ===== *)
theory ParamSchema
  imports PyText
begin

text \<open>
  The parameters of parser hints (\<^verbatim>\<open>src/lightrag/parser/param_schema.py\<close>) and the text in which the engine of a
  document and its parameters are stored (\<^verbatim>\<open>parser/routing.py\<close>, \<open>encode_parse_engine\<close>). Messages are
  constructors. \<open>local\<close>: \<open>MINERU_API_MODE\<close> is not \<open>official\<close>.
\<close>

datatype param_value = PInt int | PBool bool | PText pystr | PTexts "pystr list"

datatype page_error = BadPageShape pystr | NotPositivePages pystr | EndBeforeStart pystr | SeveralPagesLocally

datatype param_error =
    EmptyParameter | UnknownParameter pystr | PageListSplit pystr | NotForStrategy pystr | NotAFlag pystr
  | ForbiddenCharacter pystr | Repeated pystr | NotAnInteger pystr | BelowMinimum pystr int | NotABoolean pystr
  | OverlapNotBelowSize int int | LocalModeOnly pystr | NotAllowedValue pystr | EmptyValue pystr | BadPages "page_error list"
  | NoParameters pystr | UnbalancedParen pystr | TextAfterParen pystr

definition VALUE_FORBIDDEN :: pystr where
  "VALUE_FORBIDDEN = '',()]''"

subsection \<open>Scanning\<close>

text \<open>\<open>s.partition(c)\<close>: the parts before and after.\<close>

definition before :: "char \<Rightarrow> pystr \<Rightarrow> pystr" where
  "before c s = takeWhile (\<lambda>x. x \<noteq> c) s"

definition behind :: "char \<Rightarrow> pystr \<Rightarrow> pystr" where
  "behind c s = drop 1 (dropWhile (\<lambda>x. x \<noteq> c) s)"

lemma before_behind:
  assumes "c \<notin> set k"
  shows "before c (k @ c # v) = k" "behind c (k @ c # v) = v"
  using assms by (induction k) (auto simp: before_def behind_def)

text \<open>\<open>acc\<close> is the part read so far, reversed.\<close>

fun split_level :: "pystr \<Rightarrow> nat \<Rightarrow> pystr \<Rightarrow> pystr \<Rightarrow> pystr list" where
  "split_level seps d acc [] = [rev acc]"
| "split_level seps d acc (c # cs) =
     (if c = CHR ''('' then split_level seps (Suc d) (c # acc) cs
      else if c = CHR '')'' then split_level seps (d - 1) (c # acc) cs
      else if d = 0 \<and> c \<in> set seps then rev acc # split_level seps d [] cs
      else split_level seps d (c # acc) cs)"

definition split_top_level :: "pystr \<Rightarrow> pystr \<Rightarrow> pystr list" where
  "split_top_level s seps = split_level seps 0 [] s"

text \<open>\<open>take_paren_block\<close> at the start of the text: what is inside, and the text behind the block.\<close>

fun paren_loop :: "nat \<Rightarrow> pystr \<Rightarrow> pystr \<Rightarrow> (pystr \<times> pystr) option" where
  "paren_loop d acc [] = None"
| "paren_loop d acc (c # cs) =
     (if c = CHR ''('' then paren_loop (Suc d) (c # acc) cs
      else if c = CHR '')'' then (if d = 1 then Some (rev acc, cs) else paren_loop (d - 1) (c # acc) cs)
      else paren_loop d (c # acc) cs)"

definition take_paren_block :: "pystr \<Rightarrow> (pystr \<times> pystr) option" where
  "take_paren_block s = (case s of [] \<Rightarrow> None | c # cs \<Rightarrow> if c = CHR ''('' then paren_loop 1 [] cs else None)"

subsection \<open>Chunk parameters\<close>

datatype param_kind = IntParam | BoolParam | TextParam | EnumParam "pystr list"

record param_spec =
  canonical :: pystr
  aliases :: "pystr list"
  param_kind :: param_kind
  targets :: pystr
  is_list :: bool
  min_value :: "int option"

definition spec_names :: "param_spec \<Rightarrow> pystr list" where
  "spec_names p = canonical p # aliases p"

definition ALL_CHUNK_SELECTORS :: pystr where
  "ALL_CHUNK_SELECTORS = ''FRVPC''"

definition CHUNK_PARAM_SPECS :: "param_spec list" where
  "CHUNK_PARAM_SPECS =
     [\<lparr>canonical = ''chunk_token_size'', aliases = [''chunk_ts''], param_kind = IntParam, targets = ALL_CHUNK_SELECTORS,
       is_list = False, min_value = Some 1\<rparr>,
      \<lparr>canonical = ''chunk_overlap_token_size'', aliases = [''chunk_ol''], param_kind = IntParam, targets = ''FRPC'',
       is_list = False, min_value = Some 0\<rparr>,
      \<lparr>canonical = ''drop_references'', aliases = [''drop_rf''], param_kind = BoolParam, targets = ''P'',
       is_list = False, min_value = None\<rparr>]"

definition spec_by_name :: "param_spec list \<Rightarrow> pystr \<Rightarrow> param_spec option" where
  "spec_by_name specs k = find (\<lambda>p. k \<in> set (spec_names p)) specs"

text \<open>\<open>int(value, 10)\<close>: spaces around, a sign, digits with single underscores between.\<close>

definition is_digit :: "char \<Rightarrow> bool" where
  "is_digit c \<longleftrightarrow> 48 \<le> (code c :: nat) \<and> (code c :: nat) \<le> 57"

fun read_int_digits :: "bool \<Rightarrow> int \<Rightarrow> pystr \<Rightarrow> int option" where
  "read_int_digits after_digit n [] = (if after_digit then Some n else None)"
| "read_int_digits after_digit n (c # cs) =
     (if is_digit c then read_int_digits True (n * 10 + int (code c - 48)) cs
      else if c = CHR ''_'' \<and> after_digit then read_int_digits False n cs
      else None)"

definition parse_int :: "pystr \<Rightarrow> int option" where
  "parse_int s =
     (case strip s of
        [] \<Rightarrow> None
      | c # cs \<Rightarrow>
          if c = CHR ''-'' then map_option uminus (read_int_digits False 0 cs)
          else if c = CHR ''+'' then read_int_digits False 0 cs
          else read_int_digits False 0 (c # cs))"

definition BOOL_TRUE :: "pystr list" where
  "BOOL_TRUE = [''1'', ''true'', ''yes'', ''on'', ''t'', ''y'']"

definition BOOL_FALSE :: "pystr list" where
  "BOOL_FALSE = [''0'', ''false'', ''no'', ''off'', ''f'', ''n'']"

definition parse_bool :: "pystr \<Rightarrow> bool option" where
  "parse_bool s =
     (if lower (strip s) \<in> set BOOL_TRUE then Some True
      else if lower (strip s) \<in> set BOOL_FALSE then Some False else None)"

record param_state =
  pa_result :: "(pystr, param_value) pydict"
  pa_lists :: "(pystr, pystr list) pydict"
  pa_errors :: "param_error list"
  pa_seen :: "pystr list"

definition new_params :: param_state where
  "new_params = \<lparr>pa_result = [], pa_lists = [], pa_errors = [], pa_seen = []\<rparr>"

definition add_error :: "param_error \<Rightarrow> param_state \<Rightarrow> param_state" where
  "add_error err st = st\<lparr>pa_errors := pa_errors st @ [err]\<rparr>"

text \<open>The key and the value of a segment; a bare flag has no value.\<close>

definition key_value :: "pystr \<Rightarrow> pystr \<times> pystr option" where
  "key_value s =
     (if CHR ''='' \<in> set s then (strip (before (CHR ''='') s), Some (strip (behind (CHR ''='') s))) else (s, None))"

definition chunk_segment :: "char \<Rightarrow> pystr \<Rightarrow> param_state \<Rightarrow> param_state" where
  "chunk_segment selector raw st =
     (let s = strip raw; (k, v) = key_value s
      in if s = [] then add_error EmptyParameter st
         else case spec_by_name CHUNK_PARAM_SPECS k of
             None \<Rightarrow> add_error (UnknownParameter k) st
           | Some p \<Rightarrow>
               if selector \<notin> set (targets p) then add_error (NotForStrategy (canonical p)) st
               else if v = None \<and> param_kind p \<noteq> BoolParam then add_error (NotAFlag (canonical p)) st
               else (let w = (case v of None \<Rightarrow> ''true'' | Some w \<Rightarrow> w)
                     in if \<exists>c\<in>set w. c \<in> set VALUE_FORBIDDEN then add_error (ForbiddenCharacter (canonical p)) st
                        else if canonical p \<in> set (pa_seen st) \<and> \<not> is_list p then add_error (Repeated (canonical p)) st
                        else (let st1 = st\<lparr>pa_seen := canonical p # pa_seen st\<rparr>
                              in if param_kind p = IntParam then
                                   (case parse_int w of
                                      None \<Rightarrow> add_error (NotAnInteger (canonical p)) st1
                                    | Some n \<Rightarrow>
                                        (case min_value p of
                                           Some m \<Rightarrow> if n < m then add_error (BelowMinimum (canonical p) m) st1
                                                     else st1\<lparr>pa_result := AList.update (canonical p) (PInt n) (pa_result st1)\<rparr>
                                         | None \<Rightarrow> st1\<lparr>pa_result := AList.update (canonical p) (PInt n) (pa_result st1)\<rparr>))
                                 else (case parse_bool w of
                                         None \<Rightarrow> add_error (NotABoolean (canonical p)) st1
                                       | Some b \<Rightarrow> st1\<lparr>pa_result := AList.update (canonical p) (PBool b) (pa_result st1)\<rparr>))))"

definition chunk_param_overlap_error :: "(pystr, param_value) pydict \<Rightarrow> param_error option" where
  "chunk_param_overlap_error ps =
     (case (map_of ps ''chunk_token_size'', map_of ps ''chunk_overlap_token_size'') of
        (Some (PInt sz), Some (PInt ov)) \<Rightarrow> if ov \<ge> sz then Some (OverlapNotBelowSize ov sz) else None
      | _ \<Rightarrow> None)"

definition parse_chunk_params :: "char \<Rightarrow> pystr \<Rightarrow> (pystr, param_value) pydict \<times> param_error list" where
  "parse_chunk_params selector s =
     (let st = fold (chunk_segment selector) (split_top_level s '','') new_params
      in (pa_result st, pa_errors st @ (case chunk_param_overlap_error (pa_result st) of None \<Rightarrow> [] | Some err \<Rightarrow> [err])))"

subsection \<open>Engine parameters\<close>

definition PARSER_ENGINE_LEGACY :: pystr where "PARSER_ENGINE_LEGACY = ''legacy''"
definition PARSER_ENGINE_NATIVE :: pystr where "PARSER_ENGINE_NATIVE = ''native''"
definition PARSER_ENGINE_MINERU :: pystr where "PARSER_ENGINE_MINERU = ''mineru''"
definition PARSER_ENGINE_DOCLING :: pystr where "PARSER_ENGINE_DOCLING = ''docling''"

definition engine_spec :: "pystr \<Rightarrow> pystr list \<Rightarrow> param_kind \<Rightarrow> bool \<Rightarrow> param_spec" where
  "engine_spec c as t l = \<lparr>canonical = c, aliases = as, param_kind = t, targets = [], is_list = l, min_value = None\<rparr>"

definition ENGINE_PARAM_SPECS :: "(pystr, param_spec list) pydict" where
  "ENGINE_PARAM_SPECS =
     [(PARSER_ENGINE_MINERU,
        [engine_spec ''page_range'' [''pr''] TextParam True,
         engine_spec ''language'' [] TextParam False,
         engine_spec ''local_parse_method'' [''local_pm''] (EnumParam [''auto'', ''txt'', ''ocr'']) False]),
      (PARSER_ENGINE_DOCLING, [engine_spec ''force_ocr'' [''ocr''] BoolParam False]),
      (PARSER_ENGINE_NATIVE, [engine_spec ''smart_heading'' [] BoolParam False])]"

definition engine_params_supported :: "pystr \<Rightarrow> bool" where
  "engine_params_supported e \<longleftrightarrow> has_key ENGINE_PARAM_SPECS e"

text \<open>\<open>^\d+(-\d+)?$\<close> of a text without line end.\<close>

definition page_segment :: "pystr \<Rightarrow> bool" where
  "page_segment s \<longleftrightarrow>
     (let l = before (CHR ''-'') s; r = behind (CHR ''-'') s
      in l \<noteq> [] \<and> (\<forall>c\<in>set l. is_digit c) \<and> (CHR ''-'' \<in> set s \<longrightarrow> r \<noteq> [] \<and> (\<forall>c\<in>set r. is_digit c)))"

definition page_number :: "pystr \<Rightarrow> int" where
  "page_number s = the (read_int_digits False 0 s)"

definition page_errors :: "pystr \<Rightarrow> page_error list" where
  "page_errors s =
     (if \<not> page_segment s then [BadPageShape s]
      else if CHR ''-'' \<in> set s then
        (let l = page_number (before (CHR ''-'') s); r = page_number (behind (CHR ''-'') s)
         in if l < 1 \<or> r < 1 then [NotPositivePages s] else if r < l then [EndBeforeStart s] else [])
      else if page_number s < 1 then [NotPositivePages s] else [])"

definition validate_page_range_segments :: "bool \<Rightarrow> pystr list \<Rightarrow> page_error list" where
  "validate_page_range_segments local segs =
     (let errs = concat (map page_errors segs)
      in if errs = [] \<and> length segs > 1 \<and> local then [SeveralPagesLocally] else errs)"

definition coerce_engine_value :: "bool \<Rightarrow> param_spec \<Rightarrow> pystr \<Rightarrow> param_error + param_value" where
  "coerce_engine_value local p s =
     (if canonical p = ''local_parse_method'' \<and> \<not> local then Inl (LocalModeOnly (canonical p))
      else case param_kind p of
          BoolParam \<Rightarrow> (case parse_bool s of None \<Rightarrow> Inl (NotABoolean (canonical p)) | Some b \<Rightarrow> Inr (PBool b))
        | EnumParam allowed \<Rightarrow> if s \<in> set allowed then Inr (PText s) else Inl (NotAllowedValue (canonical p))
        | _ \<Rightarrow>
            if s = [] then Inl (EmptyValue (canonical p))
            else if is_list p \<and> canonical p = ''page_range'' then
              (let segs = map strip (split_on (CHR '','') s); errs = validate_page_range_segments local segs
               in if errs \<noteq> [] then Inl (BadPages errs) else Inr (PText (join '','' segs)))
            else Inr (PText s))"

definition put_value :: "bool \<Rightarrow> param_spec \<Rightarrow> pystr \<Rightarrow> param_state \<Rightarrow> param_state" where
  "put_value local p s st =
     (case coerce_engine_value local p s of
        Inl err \<Rightarrow> add_error err st
      | Inr x \<Rightarrow> st\<lparr>pa_result := AList.update (canonical p) x (pa_result st)\<rparr>)"

definition engine_segment :: "bool \<Rightarrow> param_spec list \<Rightarrow> pystr \<Rightarrow> param_state \<Rightarrow> param_state" where
  "engine_segment local specs raw st =
     (let s = strip raw; (k, v) = key_value s
      in if s = [] then add_error EmptyParameter st
         else case spec_by_name specs k of
             None \<Rightarrow> add_error (if v = None \<and> page_segment s \<and> (spec_by_name specs ''page_range'' \<noteq> None \<or> spec_by_name specs ''pr'' \<noteq> None)
                                then PageListSplit s else UnknownParameter k) st
           | Some p \<Rightarrow>
               if v = None \<and> param_kind p \<noteq> BoolParam then add_error (NotAFlag (canonical p)) st
               else (let w = (case v of None \<Rightarrow> ''true'' | Some w \<Rightarrow> w)
                     in if \<exists>c\<in>set w. c \<in> set VALUE_FORBIDDEN then add_error (ForbiddenCharacter (canonical p)) st
                        else if is_list p then
                          st\<lparr>pa_lists := AList.update (canonical p)
                               ((case map_of (pa_lists st) (canonical p) of None \<Rightarrow> [] | Some ws \<Rightarrow> ws) @ [w]) (pa_lists st)\<rparr>
                        else if canonical p \<in> set (pa_seen st) then add_error (Repeated (canonical p)) st
                        else put_value local p w (st\<lparr>pa_seen := canonical p # pa_seen st\<rparr>)))"

definition join_lists :: "bool \<Rightarrow> param_spec list \<Rightarrow> param_state \<Rightarrow> param_state" where
  "join_lists local specs st =
     fold (\<lambda>(c, ws) st. case spec_by_name specs c of
             None \<Rightarrow> st | Some p \<Rightarrow> put_value local p (join '','' ws) st) (pa_lists st) st"

definition parse_engine_params :: "bool \<Rightarrow> pystr \<Rightarrow> pystr \<Rightarrow> (pystr, param_value) pydict \<times> param_error list" where
  "parse_engine_params local e s =
     (case map_of ENGINE_PARAM_SPECS e of
        None \<Rightarrow> ([], if strip s \<noteq> [] then [NoParameters e] else [])
      | Some specs \<Rightarrow>
          (let st = join_lists local specs (fold (engine_segment local specs) (split_top_level s '','') new_params)
           in (pa_result st, pa_errors st)))"

text \<open>\<open>str\<close> of a value (of a list: of texts without quotes, backslashes and unprintable characters).\<close>

fun show_nat :: "nat \<Rightarrow> pystr" where
  "show_nat n = (if n < 10 then [char_of (48 + n)] else show_nat (n div 10) @ [char_of (48 + n mod 10)])"

declare show_nat.simps [simp del]

definition show_int :: "int \<Rightarrow> pystr" where
  "show_int n = (if n < 0 then CHR ''-'' # show_nat (nat (- n)) else show_nat (nat n))"

fun show_value :: "param_value \<Rightarrow> pystr" where
  "show_value (PInt n) = show_int n"
| "show_value (PBool b) = (if b then ''True'' else ''False'')"
| "show_value (PText s) = s"
| "show_value (PTexts xs) = ''['' @ join '', '' (map (\<lambda>x. [CHR 39] @ x @ [CHR 39]) xs) @ '']''"

definition normal_value :: "param_spec \<Rightarrow> param_value \<Rightarrow> pystr" where
  "normal_value p x =
     (case x of
        PTexts xs \<Rightarrow> if is_list p then join '','' (map strip xs) else strip (show_value x)
      | _ \<Rightarrow> strip (show_value x))"

definition normal_param :: "bool \<Rightarrow> param_spec list \<Rightarrow> pystr \<times> param_value \<Rightarrow> param_state \<Rightarrow> param_state" where
  "normal_param local specs kx st =
     (case spec_by_name specs (fst kx) of
        None \<Rightarrow> add_error (UnknownParameter (fst kx)) st
      | Some p \<Rightarrow> put_value local p (normal_value p (snd kx)) st)"

definition normalize_engine_params ::
    "bool \<Rightarrow> pystr \<Rightarrow> (pystr, param_value) pydict \<Rightarrow> (pystr, param_value) pydict \<times> param_error list" where
  "normalize_engine_params local e ps =
     (if ps = [] then ([], [])
      else case map_of ENGINE_PARAM_SPECS e of
          None \<Rightarrow> ([], [NoParameters e])
        | Some specs \<Rightarrow>
            (let st = fold (normal_param local specs) ps new_params in (pa_result st, pa_errors st)))"

text \<open>The texts of one parameter of the normalised dict.\<close>

definition render_param :: "param_spec \<Rightarrow> param_value \<Rightarrow> pystr list" where
  "render_param p x =
     (if is_list p then map (\<lambda>s. canonical p @ ''='' @ s) (split_on (CHR '','') (show_value x))
      else if param_kind p = BoolParam then [canonical p @ ''='' @ (if x = PBool True then ''true'' else ''false'')]
      else [canonical p @ ''='' @ show_value x])"

definition render_engine_params ::
    "bool \<Rightarrow> pystr \<Rightarrow> (pystr, param_value) pydict \<Rightarrow> pystr \<times> param_error list" where
  "render_engine_params local e ps =
     (case normalize_engine_params local e ps of
        (plain, []) \<Rightarrow>
          (let specs = (case map_of ENGINE_PARAM_SPECS e of None \<Rightarrow> [] | Some specs \<Rightarrow> specs)
           in (join '','' (concat (map (\<lambda>(c, x). case spec_by_name specs c of None \<Rightarrow> [] | Some p \<Rightarrow> render_param p x)
                 (sort_key fst plain))), []))
      | (_, errs) \<Rightarrow> ([], errs))"

subsection \<open>The stored engine\<close>

definition normalize_parser_engine :: "pystr \<Rightarrow> pystr" where
  "normalize_parser_engine s = lower (strip (before (CHR ''-'') (before (CHR ''('') (strip s))))"

definition encode_parse_engine :: "bool \<Rightarrow> pystr \<Rightarrow> (pystr, param_value) pydict \<Rightarrow> param_error list + pystr" where
  "encode_parse_engine local e ps =
     (if ps = [] then Inr e
      else case render_engine_params local e ps of
          (inner, []) \<Rightarrow> Inr (if inner \<noteq> [] then e @ ''('' @ inner @ '')'' else e)
        | (_, errs) \<Rightarrow> Inl errs)"

definition decode_parse_engine :: "bool \<Rightarrow> pystr \<Rightarrow> pystr \<times> (pystr, param_value) pydict \<times> param_error list" where
  "decode_parse_engine local s =
     (let raw = strip s; e = normalize_parser_engine (before (CHR ''('') raw)
      in if raw = [] then ([], [], [])
         else if CHR ''('' \<notin> set raw then (normalize_parser_engine raw, [], [])
         else case take_paren_block (dropWhile (\<lambda>c. c \<noteq> CHR ''('') raw) of
             None \<Rightarrow> (e, [], [UnbalancedParen raw])
           | Some (inner, rest) \<Rightarrow>
               if strip rest \<noteq> [] then (e, [], [TextAfterParen raw])
               else (let (ps, errs) = parse_engine_params local e inner in (e, ps, errs)))"

end
