(* ===== verification/FileHints.thy ===== *)
theory FileHints
  imports ParamSchema StatusMeta
begin

text \<open>
  The hints in file names and the routing rules (\<^verbatim>\<open>src/lightrag/parser/routing.py\<close>, the capabilities of
  \<^verbatim>\<open>parser/registry.py\<close>) and the canonical name of a document (\<^verbatim>\<open>utils_pipeline.py\<close>). A name such as
  \<open>plan.[mineru-iet].pdf\<close> says which parser reads it and how; the hint is not part of the identity of the document.
  \<open>routing_env\<close>: the registered engines, what the environment variables say, the separators of the platform.
\<close>

record engine_info =
  ei_suffixes :: "pystr list"
  ei_selectable :: bool
  ei_configured :: bool
  ei_requirement :: "pystr option"

record routing_env =
  ro_engines :: "(pystr, engine_info) pydict"
  ro_local :: bool
  ro_heading :: bool
  ro_separators :: pystr
  ro_rules :: pystr

definition supported_parser_engines :: "routing_env \<Rightarrow> pystr list" where
  "supported_parser_engines v = keys (filter (\<lambda>(n, i). ei_selectable i) (ro_engines v))"

definition suffix_capabilities :: "routing_env \<Rightarrow> pystr \<Rightarrow> pystr list" where
  "suffix_capabilities v e = (case map_of (ro_engines v) e of None \<Rightarrow> [] | Some i \<Rightarrow> ei_suffixes i)"

definition available_engine_suffixes :: "routing_env \<Rightarrow> pystr list" where
  "available_engine_suffixes v = concat (map (ei_suffixes \<circ> snd) (filter (\<lambda>(n, i). ei_selectable i \<and> ei_configured i) (ro_engines v)))"

text \<open>\<open>_parse_env_suffixes\<close>: the suffixes of a list in a variable, and the malformed entries.\<close>

definition suffix_token :: "pystr \<Rightarrow> bool" where
  "suffix_token s \<longleftrightarrow> s \<noteq> [] \<and> (\<forall>c\<in>set s. is_digit c \<or> (97 \<le> (code c :: nat) \<and> (code c :: nat) \<le> 122))"

definition parse_env_suffixes :: "pystr \<Rightarrow> pystr list \<times> pystr list" where
  "parse_env_suffixes s =
     (let raw = filter (\<lambda>r. lstrip_char (CHR ''.'') (lower (strip r)) \<noteq> []) (split_on (CHR '','') s);
          tok = (\<lambda>r. lstrip_char (CHR ''.'') (lower (strip r)))
      in (map tok (filter (\<lambda>r. suffix_token (tok r)) raw), map strip (filter (\<lambda>r. \<not> suffix_token (tok r)) raw)))"

subsection \<open>Process options\<close>

definition PROCESS_OPTION_CHUNK_CHARS :: pystr where "PROCESS_OPTION_CHUNK_CHARS = ''FRVPC''"
definition SUPPORTED_PROCESS_OPTIONS :: pystr where "SUPPORTED_PROCESS_OPTIONS = ''ite!FRVPC''"

definition sanitize_process_options :: "pystr \<Rightarrow> pystr" where
  "sanitize_process_options s = filter (\<lambda>c. c \<in> set SUPPORTED_PROCESS_OPTIONS) s"

datatype option_error = UnsupportedCharacter char | SeveralChunkingModes pystr

definition seen_chunkers :: "pystr \<Rightarrow> pystr" where
  "seen_chunkers s = rev (remdups (rev (filter (\<lambda>c. c \<in> set PROCESS_OPTION_CHUNK_CHARS) s)))"

definition validate_process_options :: "pystr \<Rightarrow> option_error list" where
  "validate_process_options s =
     map UnsupportedCharacter (filter (\<lambda>c. c \<notin> set '' -'' \<and> c \<notin> set SUPPORTED_PROCESS_OPTIONS) s)
     @ (if length (seen_chunkers s) > 1 then [SeveralChunkingModes (seen_chunkers s)] else [])"

record process_options =
  po_raw :: pystr
  po_images :: bool
  po_tables :: bool
  po_equations :: bool
  po_skip_kg :: bool
  po_chunking :: char

definition parse_process_options :: "pystr \<Rightarrow> process_options" where
  "parse_process_options s =
     (let raw = sanitize_process_options s
      in \<lparr>po_raw = raw, po_images = CHR ''i'' \<in> set raw, po_tables = CHR ''t'' \<in> set raw, po_equations = CHR ''e'' \<in> set raw,
          po_skip_kg = CHR ''!'' \<in> set raw,
          po_chunking = (case find (\<lambda>c. c \<in> set PROCESS_OPTION_CHUNK_CHARS) raw of None \<Rightarrow> CHR ''F'' | Some c \<Rightarrow> c)\<rparr>)"

definition chunking_explicit :: "process_options \<Rightarrow> bool" where
  "chunking_explicit o1 \<longleftrightarrow> (\<exists>c\<in>set (po_raw o1). c \<in> set PROCESS_OPTION_CHUNK_CHARS)"

definition chunk_strategy_key :: "pystr \<Rightarrow> pystr" where
  "chunk_strategy_key s =
     (let c = po_chunking (parse_process_options s)
      in if c = CHR ''R'' then ''recursive_character'' else if c = CHR ''V'' then ''semantic_vector''
         else if c = CHR ''P'' then ''paragraph_semantic'' else ''fixed_token'')"

subsection \<open>Hints\<close>

datatype hint_error =
    HintEmpty | UnbalancedBlock | SeveralBlocks char | SeveralEngineBlocks | MisplacedBlock pystr
  | HintParam param_error | EmptyOptions | HintOption option_error | UnsupportedEngine pystr
  | UnsupportedSuffix pystr pystr | EndpointMissing pystr

type_synonym chunk_params = "(char, (pystr, param_value) pydict) pydict"

record block_state =
  bl_out :: pystr
  bl_engine :: "pystr option"
  bl_chunks :: "(char, pystr) pydict"
  bl_errors :: "hint_error list"

text \<open>\<open>dash\<close>: a dash was read; \<open>prev\<close>: the last character that is no space. \<open>n\<close> bounds the characters left.\<close>

fun blocks_loop :: "nat \<Rightarrow> bool \<Rightarrow> char option \<Rightarrow> pystr \<Rightarrow> block_state \<Rightarrow> block_state" where
  "blocks_loop 0 dash prev cs st = st"
| "blocks_loop (Suc n) dash prev [] st = st"
| "blocks_loop (Suc n) dash prev (c # cs) st =
     (if c = CHR ''('' then
        (case take_paren_block (c # cs) of
           None \<Rightarrow> st\<lparr>bl_errors := bl_errors st @ [UnbalancedBlock], bl_out := bl_out st @ c # cs\<rparr>
         | Some (block, rest) \<Rightarrow>
             blocks_loop n dash None rest
               (if dash \<and> (case prev of None \<Rightarrow> False | Some p \<Rightarrow> p \<in> set PROCESS_OPTION_CHUNK_CHARS) then
                  (if has_key (bl_chunks st) (the prev) then st\<lparr>bl_errors := bl_errors st @ [SeveralBlocks (the prev)]\<rparr>
                   else st\<lparr>bl_chunks := AList.update (the prev) block (bl_chunks st)\<rparr>)
                else if \<not> dash \<and> prev \<noteq> None then
                  (if bl_engine st \<noteq> None then st\<lparr>bl_errors := bl_errors st @ [SeveralEngineBlocks]\<rparr>
                   else st\<lparr>bl_engine := Some block\<rparr>)
                else st\<lparr>bl_errors := bl_errors st @ [MisplacedBlock block]\<rparr>))
      else blocks_loop n (dash \<or> c = CHR ''-'') (if c = CHR '' '' then prev else Some c) cs (st\<lparr>bl_out := bl_out st @ [c]\<rparr>))"

definition extract_param_blocks :: "pystr \<Rightarrow> block_state" where
  "extract_param_blocks s = blocks_loop (length s) False None s \<lparr>bl_out = [], bl_engine = None, bl_chunks = [], bl_errors = []\<rparr>"

definition parse_chunk_param_texts :: "(char, pystr) pydict \<Rightarrow> chunk_params \<times> param_error list" where
  "parse_chunk_param_texts ts =
     (filter (\<lambda>(c, ps). ps \<noteq> []) (map (\<lambda>(c, s). (c, fst (parse_chunk_params c s))) ts),
      concat (map (\<lambda>(c, s). snd (parse_chunk_params c s)) ts))"

definition split_engine_and_options :: "routing_env \<Rightarrow> pystr \<Rightarrow> pystr option \<times> pystr" where
  "split_engine_and_options v s =
     (let i = strip s
      in if i = [] then (None, [])
         else if hd i = CHR ''-'' then (None, strip (tl i))
         else if CHR ''-'' \<in> set i then
           (let e = normalize_parser_engine (before (CHR ''-'') i)
            in if e \<in> set (supported_parser_engines v) then (Some e, strip (behind (CHR ''-'') i)) else (None, []))
         else (let e = normalize_parser_engine i in if e \<in> set (supported_parser_engines v) then (Some e, []) else (None, [])))"

text \<open>\<open>Path(p).name\<close> and \<open>Path(p).suffix\<close>: the last part that is not empty and no dot.\<close>

fun split_any :: "pystr \<Rightarrow> pystr \<Rightarrow> pystr list" where
  "split_any seps [] = [[]]"
| "split_any seps (c # cs) =
     (if c \<in> set seps then [] # split_any seps cs
      else case split_any seps cs of [] \<Rightarrow> [[c]] | p # ps \<Rightarrow> (c # p) # ps)"

definition path_name :: "pystr \<Rightarrow> pystr \<Rightarrow> pystr" where
  "path_name seps s = (let ps = filter (\<lambda>p. p \<noteq> [] \<and> p \<noteq> ''.'') (split_any seps s) in if ps = [] then [] else List.last ps)"

text \<open>What is before and after the last occurrence.\<close>

definition rbefore :: "char \<Rightarrow> pystr \<Rightarrow> pystr" where
  "rbefore c s = rev (behind c (rev s))"

definition rbehind :: "char \<Rightarrow> pystr \<Rightarrow> pystr" where
  "rbehind c s = rev (before c (rev s))"

definition path_suffix :: "pystr \<Rightarrow> pystr \<Rightarrow> pystr" where
  "path_suffix seps s =
     (let n = path_name seps s
      in if CHR ''.'' \<in> set n \<and> rbefore (CHR ''.'') n \<noteq> [] \<and> rbehind (CHR ''.'') n \<noteq> [] then CHR ''.'' # rbehind (CHR ''.'') n else [])"

definition parser_suffix :: "routing_env \<Rightarrow> pystr \<Rightarrow> pystr" where
  "parser_suffix v s = lstrip_char (CHR ''.'') (lower (path_suffix (ro_separators v) s))"

definition parser_engine_supports_suffix :: "routing_env \<Rightarrow> pystr \<Rightarrow> pystr \<Rightarrow> bool" where
  "parser_engine_supports_suffix v e x \<longleftrightarrow> lstrip_char (CHR ''.'') (lower x) \<in> set (suffix_capabilities v e)"

definition parser_engine_endpoint_configured :: "routing_env \<Rightarrow> pystr \<Rightarrow> bool" where
  "parser_engine_endpoint_configured v e = (case map_of (ro_engines v) e of None \<Rightarrow> False | Some i \<Rightarrow> ei_configured i)"

definition parser_engine_endpoint_requirement :: "routing_env \<Rightarrow> pystr \<Rightarrow> pystr option" where
  "parser_engine_endpoint_requirement v e = (case map_of (ro_engines v) e of None \<Rightarrow> None | Some i \<Rightarrow> ei_requirement i)"

definition engine_is_usable :: "routing_env \<Rightarrow> pystr \<Rightarrow> pystr \<Rightarrow> bool \<Rightarrow> bool" where
  "engine_is_usable v e x require_endpoint \<longleftrightarrow>
     e \<in> set (supported_parser_engines v) \<and> parser_engine_supports_suffix v e x
     \<and> (require_endpoint \<longrightarrow> parser_engine_endpoint_configured v e)"

text \<open>The match of \<open>\.\[([^\]]*)\](\.[^.]+)$\<close> in a basename: what is before it, the bracket, the extension.\<close>

fun find_bracket :: "pystr \<Rightarrow> (pystr \<times> pystr) option" where
  "find_bracket [] = None"
| "find_bracket (c # cs) =
     (if c = CHR ''.'' \<and> cs \<noteq> [] \<and> hd cs = CHR ''['' \<and> CHR '']'' \<notin> set (tl cs) then Some ([], tl cs)
      else map_option (apfst (Cons c)) (find_bracket cs))"

definition hint_segment :: "pystr \<Rightarrow> (pystr \<times> pystr \<times> pystr) option" where
  "hint_segment n =
     (let stem = rbefore (CHR ''.'') n; ext = rbehind (CHR ''.'') n
      in if CHR ''.'' \<in> set n \<and> ext \<noteq> [] \<and> stem \<noteq> [] \<and> List.last stem = CHR '']'' then
           map_option (\<lambda>(pre, inner). (pre, inner, CHR ''.'' # ext)) (find_bracket (butlast stem))
         else None)"

record hint =
  hi_before :: pystr
  hi_ext :: pystr
  hi_engine :: pystr
  hi_options :: pystr
  hi_chunks :: chunk_params
  hi_params :: "(pystr, param_value) pydict"

definition filename_hint_match :: "routing_env \<Rightarrow> pystr \<Rightarrow> hint option" where
  "filename_hint_match v path =
     (case hint_segment (path_name (ro_separators v) path) of
        None \<Rightarrow> None
      | Some (pre, bracket, ext) \<Rightarrow>
          (let raw = strip bracket; b = extract_param_blocks raw; inner = strip (bl_out b);
               (e, opts) = split_engine_and_options v inner; (chunks, cerrs) = parse_chunk_param_texts (bl_chunks b);
               (eps, eerrs) = (case bl_engine b of None \<Rightarrow> ([], []) | Some s \<Rightarrow>
                  parse_engine_params (ro_local v) (case e of None \<Rightarrow> [] | Some e1 \<Rightarrow> e1) s)
           in if raw \<noteq> [] \<and> hd raw = CHR ''-'' \<and> strip (tl raw) = [] then None
              else if bl_errors b \<noteq> [] then None
              else if CHR ''-'' \<in> set inner \<and> hd inner \<noteq> CHR ''-'' \<and> strip (behind (CHR ''-'') inner) = [] then None
              else if opts \<noteq> [] \<and> validate_process_options opts \<noteq> [] then None
              else if cerrs @ eerrs \<noteq> [] then None
              else (case e of
                      Some e1 \<Rightarrow> Some \<lparr>hi_before = pre, hi_ext = ext, hi_engine = e1, hi_options = opts, hi_chunks = chunks, hi_params = eps\<rparr>
                    | None \<Rightarrow>
                        if opts \<noteq> [] \<or> chunks \<noteq> [] then
                          Some \<lparr>hi_before = pre, hi_ext = ext, hi_engine = [], hi_options = opts, hi_chunks = chunks, hi_params = eps\<rparr>
                        else None)))"

text \<open>The checks of an upload, in the order of the code.\<close>

definition validate_filename_hint :: "routing_env \<Rightarrow> bool \<Rightarrow> pystr \<Rightarrow> hint_error list" where
  "validate_filename_hint v require_endpoint path =
     (case hint_segment (path_name (ro_separators v) path) of
        None \<Rightarrow> []
      | Some (pre, bracket, ext) \<Rightarrow>
          if strip bracket = [] then [HintEmpty]
          else (let b = extract_param_blocks bracket; inner = bl_out b;
                    option_errors = (\<lambda>opts. if strip opts = [] then [EmptyOptions] else map HintOption (validate_process_options opts));
                    (e, errs) =
                      (if inner \<noteq> [] \<and> hd inner = CHR ''-'' then (None, option_errors (strip (tl inner)))
                       else if CHR ''-'' \<in> set inner then
                         (let e1 = normalize_parser_engine (before (CHR ''-'') inner)
                          in (Some e1, if e1 \<notin> set (supported_parser_engines v) then [UnsupportedEngine (before (CHR ''-'') inner)]
                                       else option_errors (behind (CHR ''-'') inner)))
                       else (let e1 = normalize_parser_engine inner
                             in (Some e1, if e1 \<notin> set (supported_parser_engines v) then [UnsupportedEngine inner] else [])));
                    supported = (case e of None \<Rightarrow> False | Some e1 \<Rightarrow> e1 \<in> set (supported_parser_engines v)); e2 = (case e of None \<Rightarrow> [] | Some e1 \<Rightarrow> e1)
                in bl_errors b @ map HintParam (snd (parse_chunk_param_texts (bl_chunks b))) @ errs
                   @ (case bl_engine b of None \<Rightarrow> [] | Some s \<Rightarrow> map HintParam (snd (parse_engine_params (ro_local v) e2 s)))
                   @ (if supported \<and> \<not> parser_engine_supports_suffix v e2 (parser_suffix v path) then [UnsupportedSuffix e2 (parser_suffix v path)] else [])
                   @ (case parser_engine_endpoint_requirement v e2 of
                        Some r \<Rightarrow> if supported \<and> require_endpoint \<and> r \<noteq> [] \<and> \<not> parser_engine_endpoint_configured v e2 then [EndpointMissing r] else []
                      | None \<Rightarrow> [])))"

definition filename_parser_directives :: "routing_env \<Rightarrow> pystr \<Rightarrow> pystr option \<times> pystr" where
  "filename_parser_directives v path =
     (case filename_hint_match v path of
        None \<Rightarrow> (None, []) | Some h \<Rightarrow> (if hi_engine h = [] then None else Some (hi_engine h), hi_options h))"

definition filename_chunk_params :: "routing_env \<Rightarrow> pystr \<Rightarrow> chunk_params" where
  "filename_chunk_params v path = (case filename_hint_match v path of None \<Rightarrow> [] | Some h \<Rightarrow> hi_chunks h)"

definition filename_engine_params :: "routing_env \<Rightarrow> pystr \<Rightarrow> (pystr, param_value) pydict" where
  "filename_engine_params v path = (case filename_hint_match v path of None \<Rightarrow> [] | Some h \<Rightarrow> hi_params h)"

definition canonicalize_parser_hinted_basename :: "routing_env \<Rightarrow> pystr \<Rightarrow> pystr" where
  "canonicalize_parser_hinted_basename v path =
     (case filename_hint_match v path of
        None \<Rightarrow> path_name (ro_separators v) path | Some h \<Rightarrow> hi_before h @ hi_ext h)"

definition normalize_document_file_path :: "routing_env \<Rightarrow> pystr \<Rightarrow> pystr" where
  "normalize_document_file_path v path =
     (let source = strip path; c = strip (canonicalize_parser_hinted_basename v source)
      in if source \<in> set PLACEHOLDER_DOCUMENT_SOURCES then ''unknown_source''
         else if c \<in> set PLACEHOLDER_DOCUMENT_SOURCES then ''unknown_source'' else c)"

definition has_known_document_source :: "pystr \<Rightarrow> bool" where
  "has_known_document_source s \<longleftrightarrow> s \<notin> set PLACEHOLDER_DOCUMENT_SOURCES"

end
