(* ===== verification/FileRouting.thy ===== *)
theory FileRouting
  imports FileHints
begin

text \<open>
  The routing rules of \<open>LIGHTRAG_PARSER\<close> and which parser, options and parameters a file gets
  (\<^verbatim>\<open>src/lightrag/parser/routing.py\<close>). \<open>glob\<close> is \<open>fnmatch.fnmatch\<close> on lower case texts.
\<close>

subsection \<open>Patterns\<close>

datatype glob_token = AnyText | AnyChar | OneOf bool pystr | Exactly char

text \<open>A bracket at the start of the text, without its opening: negated or not, the set, and what is behind.\<close>

definition glob_bracket :: "pystr \<Rightarrow> (bool \<times> pystr \<times> pystr) option" where
  "glob_bracket s =
     (let neg = s \<noteq> [] \<and> hd s = CHR ''!''; t = (if neg then tl s else s);
          first = (if t \<noteq> [] \<and> hd t = CHR '']'' then [hd t] else []); u = drop (length first) t
      in if CHR '']'' \<in> set u then Some (neg, first @ before (CHR '']'') u, behind (CHR '']'') u) else None)"

lemma behind_shorter: "c \<in> set s \<Longrightarrow> length (behind c s) < length s"
  by (induction s) (auto simp: behind_def)

lemma glob_bracket_shorter: "glob_bracket s = Some (neg, cs, rest) \<Longrightarrow> length rest < length s"
  using behind_shorter [of "CHR '']''"] by (fastforce simp: glob_bracket_def Let_def split: if_splits)

function glob_tokens :: "pystr \<Rightarrow> glob_token list" where
  "glob_tokens [] = []"
| "glob_tokens (c # cs) =
     (if c = CHR ''*'' then AnyText # glob_tokens cs
      else if c = CHR ''?'' then AnyChar # glob_tokens cs
      else if c = CHR ''['' then
        (case glob_bracket cs of None \<Rightarrow> Exactly c # glob_tokens cs | Some (neg, s, rest) \<Rightarrow> OneOf neg s # glob_tokens rest)
      else Exactly c # glob_tokens cs)"
  by pat_completeness auto
termination
  by (relation "measure length") (auto dest: glob_bracket_shorter)

fun in_ranges :: "char \<Rightarrow> pystr \<Rightarrow> bool" where
  "in_ranges x (a # d # b # s) \<longleftrightarrow>
     (if d = CHR ''-'' then (a \<le> x \<and> x \<le> b) \<or> in_ranges x s else x = a \<or> in_ranges x (d # b # s))"
| "in_ranges x s \<longleftrightarrow> x \<in> set s"

fun glob_match :: "glob_token list \<Rightarrow> pystr \<Rightarrow> bool" where
  "glob_match [] s \<longleftrightarrow> s = []"
| "glob_match (AnyText # ts) s \<longleftrightarrow> (\<exists>n\<in>set [0..<Suc (length s)]. glob_match ts (drop n s))"
| "glob_match (AnyChar # ts) s \<longleftrightarrow> s \<noteq> [] \<and> glob_match ts (tl s)"
| "glob_match (OneOf neg cs # ts) s \<longleftrightarrow> s \<noteq> [] \<and> in_ranges (hd s) cs \<noteq> neg \<and> glob_match ts (tl s)"
| "glob_match (Exactly c # ts) s \<longleftrightarrow> s \<noteq> [] \<and> hd s = c \<and> glob_match ts (tl s)"

definition glob :: "pystr \<Rightarrow> pystr \<Rightarrow> bool" where
  "glob s pat = glob_match (glob_tokens pat) s"

subsection \<open>Rules\<close>

definition iter_parser_rule_items :: "pystr \<Rightarrow> (nat \<times> pystr) list" where
  "iter_parser_rule_items rules =
     map (apsnd strip) (filter (\<lambda>(i, r). strip r \<noteq> []) (enumerate 1 (split_top_level rules '';,'')))"

definition rule_pattern_matches_engine :: "routing_env \<Rightarrow> pystr \<Rightarrow> pystr \<Rightarrow> bool" where
  "rule_pattern_matches_engine v pat e \<longleftrightarrow> (\<exists>x\<in>set (suffix_capabilities v e). glob x pat)"

definition rule_engine_and_options :: "pystr \<Rightarrow> pystr \<times> pystr" where
  "rule_engine_and_options s = (normalize_parser_engine (before (CHR ''-'') s), strip (behind (CHR ''-'') s))"

datatype rule_error =
    RuleShape | EmptyPattern | DottedPattern | EmptyEngine | RuleEngine pystr | MatchesNothing pystr | RuleEndpoint pystr
  | RuleHint hint_error | RuleParam param_error | RuleOption option_error

definition rule_errors :: "routing_env \<Rightarrow> pystr \<Rightarrow> rule_error list" where
  "rule_errors v item =
     (if CHR '':'' \<notin> set item then [RuleShape]
      else (let pat = lower (strip (before (CHR '':'') item)); eh = strip (behind (CHR '':'') item); b = extract_param_blocks eh;
                (e, opts) = rule_engine_and_options (bl_out b)
            in if pat = [] then [EmptyPattern]
               else if CHR ''.'' \<in> set pat then [DottedPattern]
               else if eh = [] then [EmptyEngine]
               else if e \<notin> set (supported_parser_engines v) then [RuleEngine eh]
               else (if rule_pattern_matches_engine v pat e then [] else [MatchesNothing e])
                 @ (case parser_engine_endpoint_requirement v e of
                      Some r \<Rightarrow> if r \<noteq> [] \<and> \<not> parser_engine_endpoint_configured v e then [RuleEndpoint r] else [] | None \<Rightarrow> [])
                 @ map RuleHint (bl_errors b)
                 @ (case bl_engine b of None \<Rightarrow> [] | Some s \<Rightarrow> map RuleParam (snd (parse_engine_params (ro_local v) e s)))
                 @ (if opts \<noteq> [] then map RuleOption (validate_process_options opts) else [])
                 @ map RuleParam (snd (parse_chunk_param_texts (bl_chunks b)))))"

definition validate_parser_routing_config :: "routing_env \<Rightarrow> (nat \<times> rule_error) list" where
  "validate_parser_routing_config v =
     (if strip (ro_rules v) = [] then []
      else concat (map (\<lambda>(i, item). map (Pair i) (rule_errors v item)) (iter_parser_rule_items (strip (ro_rules v)))))"

text \<open>The engine, options and parameters of the first rule that matches a file and can be used.\<close>

type_synonym directives = "pystr option \<times> pystr \<times> chunk_params \<times> (pystr, param_value) pydict"

definition rule_directives :: "routing_env \<Rightarrow> pystr \<Rightarrow> bool \<Rightarrow> pystr \<Rightarrow> directives option" where
  "rule_directives v suffix require_endpoint item =
     (if CHR '':'' \<notin> set item then None
      else (let b = extract_param_blocks (strip (behind (CHR '':'') item)); (e, opts) = rule_engine_and_options (bl_out b)
            in if \<not> glob suffix (lower (strip (before (CHR '':'') item))) then None
               else if engine_is_usable v e suffix require_endpoint then
                 Some (Some e, opts, fst (parse_chunk_param_texts (bl_chunks b)),
                   (case bl_engine b of None \<Rightarrow> [] | Some s \<Rightarrow> fst (parse_engine_params (ro_local v) e s)))
               else None))"

fun first_some :: "('a \<Rightarrow> 'b option) \<Rightarrow> 'a list \<Rightarrow> 'b option" where
  "first_some f [] = None"
| "first_some f (x # xs) = (case f x of None \<Rightarrow> first_some f xs | Some y \<Rightarrow> Some y)"

definition matching_rule_directives :: "routing_env \<Rightarrow> pystr \<Rightarrow> bool \<Rightarrow> directives" where
  "matching_rule_directives v path require_endpoint =
     (if strip (ro_rules v) = [] then (None, [], [], [])
      else case first_some (\<lambda>(i, item). rule_directives v (parser_suffix v path) require_endpoint item)
             (iter_parser_rule_items (strip (ro_rules v))) of
          None \<Rightarrow> (None, [], [], []) | Some d \<Rightarrow> d)"

subsection \<open>The directives of a file\<close>

definition seed_smart_heading_param :: "routing_env \<Rightarrow> pystr \<Rightarrow> pystr \<Rightarrow> (pystr, param_value) pydict \<Rightarrow> (pystr, param_value) pydict" where
  "seed_smart_heading_param v e path ps =
     (if e = PARSER_ENGINE_NATIVE \<and> \<not> has_key ps ''smart_heading'' \<and> parser_suffix v path = ''docx'' \<and> ro_heading v
      then AList.update ''smart_heading'' (PBool True) ps else ps)"

definition DEFAULT_ENGINE_BY_SUFFIX :: "(pystr, pystr) pydict" where
  "DEFAULT_ENGINE_BY_SUFFIX = [(''textpack'', PARSER_ENGINE_NATIVE)]"

record parser_directives =
  pd_engine :: pystr
  pd_options :: pystr
  pd_chunks :: chunk_params
  pd_params :: "(pystr, param_value) pydict"

definition merge_params :: "(pystr, param_value) pydict \<Rightarrow> (pystr, param_value) pydict \<Rightarrow> (pystr, param_value) pydict" where
  "merge_params low high = fold (\<lambda>(k, x). AList.update k x) high low"

definition overlay_chunks :: "chunk_params \<Rightarrow> chunk_params \<Rightarrow> chunk_params" where
  "overlay_chunks low high =
     (let get = (\<lambda>d c. case map_of d c of None \<Rightarrow> [] | Some ps \<Rightarrow> ps)
      in filter (\<lambda>(c, ps). ps \<noteq> []) (map (\<lambda>c. (c, merge_params (get low c) (get high c))) (remdups (keys low @ keys high))))"

definition resolve_parser_directives :: "routing_env \<Rightarrow> bool \<Rightarrow> pystr \<Rightarrow> hint_error list + parser_directives" where
  "resolve_parser_directives v require_endpoint path =
     (case validate_filename_hint v require_endpoint path of
        e # es \<Rightarrow> Inl (e # es)
      | [] \<Rightarrow>
          (let x = parser_suffix v path; usable = (\<lambda>e. engine_is_usable v e x require_endpoint);
               (hinted, hopts) = filename_parser_directives v path;
               (rule_e, ropts, rchunks, rparams) = matching_rule_directives v path require_endpoint;
               pick = (\<lambda>e. case e of None \<Rightarrow> None | Some n \<Rightarrow> if usable n then Some n else None);
               dflt = pick (map_of DEFAULT_ENGINE_BY_SUFFIX x);
               engine = (case pick hinted of Some n \<Rightarrow> n | None \<Rightarrow> (case rule_e of Some n \<Rightarrow> n | None \<Rightarrow>
                 (case dflt of Some n \<Rightarrow> n | None \<Rightarrow> PARSER_ENGINE_LEGACY)));
               p1 = (if rule_e = Some engine then merge_params [] rparams else []);
               p2 = (if hinted = Some engine then merge_params p1 (filename_engine_params v path) else p1)
           in Inr \<lparr>pd_engine = engine, pd_options = sanitize_process_options (if hopts \<noteq> [] then hopts else ropts),
                   pd_chunks = overlay_chunks rchunks (filename_chunk_params v path), pd_params = seed_smart_heading_param v engine path p2\<rparr>))"

text \<open>The parser of a stored document; \<open>reuse\<close> and \<open>passthrough\<close> are the handlers that parse nothing.\<close>

definition resolve_stored_document_parser_engine :: "routing_env \<Rightarrow> pystr \<Rightarrow> row_fields option \<Rightarrow> hint_error list + pystr" where
  "resolve_stored_document_parser_engine v path row =
     (let from_file = map_sum id pd_engine (resolve_parser_directives v True path)
      in case row of
          None \<Rightarrow> from_file
        | Some d \<Rightarrow>
            if d = [] then from_file
            else (let f = obj_get_or d ''parse_format'' (JStr ''raw'')
                  in if f = JStr ''lightrag'' then Inr ''reuse''
                     else if f \<noteq> JStr ''pending_parse'' then Inr ''passthrough''
                     else (let e = (case obj_get d ''parse_engine'' of JStr s \<Rightarrow> normalize_parser_engine s | _ \<Rightarrow> [])
                           in if e \<noteq> [] then Inr e else from_file)))"

end
