(* ===== verification/FileHintLaws.thy ===== *)
theory FileHintLaws
  imports FileRouting
begin

text \<open>
  A hint that an upload accepts is used: the lenient reader of hints, which every other place calls, reads what
  the strict check let through, and the parser named there is the one that reads the file.
\<close>

subsection \<open>Scanning a bracket\<close>

lemma block_step:
  assumes "take_paren_block (CHR ''('' # cs) = Some (block, rest)"
  shows "\<exists>st'. blocks_loop (Suc n) dash prev (CHR ''('' # cs) st = blocks_loop n dash None rest st'
    \<and> bl_out st' = bl_out st \<and> (\<exists>es. bl_errors st' = bl_errors st @ es)"
  unfolding blocks_loop.simps assms option.case prod.case if_True simp_thms
  by (rule exI, rule conjI, rule refl) simp

lemma blocks_grow:
  "\<exists>os es. bl_out (blocks_loop n dash prev cs st) = bl_out st @ os \<and> bl_errors (blocks_loop n dash prev cs st) = bl_errors st @ es"
proof (induction n arbitrary: dash prev cs st)
  case (Suc n)
  show ?case
  proof (cases cs)
    case (Cons c cs')
    show ?thesis
    proof (cases "c = CHR ''(''")
      case True
      show ?thesis
      proof (cases "take_paren_block (c # cs')")
        case None
        then show ?thesis using True Cons by simp
      next
        case (Some br)
        obtain block rest where br: "br = (block, rest)" by fastforce
        obtain st' es where st': "blocks_loop (Suc n) dash prev (c # cs') st = blocks_loop n dash None rest st'"
            "bl_out st' = bl_out st" "bl_errors st' = bl_errors st @ es"
          using block_step [of cs' block rest n dash prev st] True Some br by blast
        obtain os es' where "bl_out (blocks_loop n dash None rest st') = bl_out st' @ os"
            "bl_errors (blocks_loop n dash None rest st') = bl_errors st' @ es'"
          using Suc.IH by blast
        then have "bl_out (blocks_loop (Suc n) dash prev (c # cs') st) = bl_out st @ os"
            "bl_errors (blocks_loop (Suc n) dash prev (c # cs') st) = bl_errors st @ es @ es'"
          using st' by (simp_all del: blocks_loop.simps)
        then show ?thesis using Cons by blast
      qed
    next
      case False
      obtain os es' where "bl_out (blocks_loop n (dash \<or> c = CHR ''-'') (if c = CHR '' '' then prev else Some c) cs' (st\<lparr>bl_out := bl_out st @ [c]\<rparr>)) = (bl_out st @ [c]) @ os"
            "bl_errors (blocks_loop n (dash \<or> c = CHR ''-'') (if c = CHR '' '' then prev else Some c) cs' (st\<lparr>bl_out := bl_out st @ [c]\<rparr>)) = bl_errors st @ es'"
        using Suc.IH [of "dash \<or> c = CHR ''-''" "if c = CHR '' '' then prev else Some c" cs' "st\<lparr>bl_out := bl_out st @ [c]\<rparr>"] by auto
      then show ?thesis using Cons False by simp
    qed
  qed simp
qed simp

lemma bracket_head:
  assumes "bl_errors (extract_param_blocks s) = []" "s \<noteq> []"
  shows "bl_out (extract_param_blocks s) \<noteq> [] \<and> hd (bl_out (extract_param_blocks s)) = hd s"
proof -
  obtain c cs where s: "s = c # cs" using assms(2) by (cases s) auto
  let ?st = "\<lparr>bl_out = [], bl_engine = None, bl_chunks = [], bl_errors = []\<rparr> :: block_state"
  show ?thesis
  proof (cases "c = CHR ''(''")
    case True
    have "bl_errors (extract_param_blocks s) \<noteq> []"
    proof (cases "take_paren_block (c # cs)")
      case None
      then show ?thesis using True by (simp add: extract_param_blocks_def s)
    next
      case (Some br)
      obtain block rest where br: "br = (block, rest)" by fastforce
      have "extract_param_blocks s = blocks_loop (length cs) False None rest (?st\<lparr>bl_errors := [MisplacedBlock block]\<rparr>)"
        using True Some br by (simp add: extract_param_blocks_def s)
      then show ?thesis
        using blocks_grow [of "length cs" False None rest "?st\<lparr>bl_errors := [MisplacedBlock block]\<rparr>"] by auto
    qed
    then show ?thesis using assms(1) by simp
  next
    case False
    then have "extract_param_blocks s = blocks_loop (length cs) (c = CHR ''-'') (if c = CHR '' '' then None else Some c) cs (?st\<lparr>bl_out := [c]\<rparr>)"
      by (simp add: extract_param_blocks_def s)
    then show ?thesis
      using blocks_grow [of "length cs" "c = CHR ''-''" "if c = CHR '' '' then None else Some c" cs "?st\<lparr>bl_out := [c]\<rparr>"] s by auto
  qed
qed

subsection \<open>Spaces do not matter\<close>

lemma strip_rstrip: "strip (rstrip s) = strip s"
proof -
  define a where "a = takeWhile isspace s"
  define b where "b = dropWhile isspace s"
  have s: "s = a @ b" by (simp add: a_def b_def)
  have a: "\<forall>c\<in>set a. isspace c" using set_takeWhileD by (fastforce simp: a_def)
  show ?thesis
  proof (cases "b = []")
    case True
    then have "rstrip s = []" "lstrip s = []" using a by (simp_all add: rstrip_def lstrip_def s dropWhile_eq_Nil_conv)
    then show ?thesis by (simp only: strip_def) (simp add: rstrip_def lstrip_def)
  next
    case False
    then have hd: "\<not> isspace (hd b)" using hd_dropWhile [of isspace s] by (simp add: b_def)
    then have "\<exists>c\<in>set b. \<not> isspace c" using False by (meson hd_in_set)
    then have r: "rstrip s = a @ rstrip b" "rstrip b \<noteq> []"
      by (auto simp: s rstrip_def dropWhile_append dropWhile_eq_Nil_conv)
    have "hd (rstrip b) = hd b" using hd False r(2) unfolding rstrip_def
      by (metis append_self_conv hd_append2 rev_append rev_rev_ident takeWhile_dropWhile_id)
    then have "lstrip (rstrip s) = rstrip b" "lstrip s = b"
      using a r hd False by (auto simp: lstrip_def s dropWhile_append dropWhile_eq_Cons_conv dropWhile_eq_self_iff)
    then show ?thesis by (simp add: strip_def rstrip_def)
  qed
qed

lemma filter_strip:
  assumes "\<And>c. isspace c \<Longrightarrow> \<not> P c"
  shows "filter P (strip s) = filter P s"
proof -
  have d: "filter P (dropWhile isspace s) = filter P s" for s
    using assms by (induction s) auto
  show ?thesis
    by (simp add: strip_def rstrip_def lstrip_def rev_filter [symmetric] d)
qed

lemma no_space:
  "isspace c \<Longrightarrow> c \<noteq> CHR ''-'' \<and> c \<notin> set PROCESS_OPTION_CHUNK_CHARS"
  by (auto simp: isspace_def PROCESS_OPTION_CHUNK_CHARS_def)

lemma validate_strip:
  assumes "validate_process_options s = []"
  shows "validate_process_options (strip s) = []"
proof -
  have "seen_chunkers (strip s) = seen_chunkers s"
    using no_space by (simp add: seen_chunkers_def filter_strip)
  then show ?thesis using assms set_strip [of s]
    by (auto simp: validate_process_options_def filter_empty_conv split: if_splits)
qed

lemma rstrip_dash: "rstrip (x @ CHR ''-'' # y) = x @ CHR ''-'' # rstrip y"
  using no_space by (auto simp: rstrip_def dropWhile_append)

subsection \<open>The strict check and the lenient reader\<close>

lemma normalize_strip: "normalize_parser_engine (strip s) = normalize_parser_engine s"
  by (simp add: normalize_parser_engine_def)

lemma normalize_Nil: "normalize_parser_engine [] = []"
  by (simp add: normalize_parser_engine_def before_def strip_def lstrip_def rstrip_def lower_def)

lemma strip_Cons: "\<not> isspace c \<Longrightarrow> strip (c # s) = c # rstrip s"
  by (auto simp: strip_def lstrip_def rstrip_def dropWhile_append)

text \<open>What the strict reader takes for the parser and the options of the text left of a bracket.\<close>

definition read_hint :: "routing_env \<Rightarrow> pystr \<Rightarrow> pystr option \<Rightarrow> pystr \<Rightarrow> bool" where
  "read_hint v inner e opts \<longleftrightarrow>
     (if hd inner = CHR ''-'' then e = None \<and> opts = strip (tl inner) \<and> opts \<noteq> []
      else if CHR ''-'' \<in> set inner then
        e = Some (normalize_parser_engine (before (CHR ''-'') inner)) \<and> the e \<in> set (supported_parser_engines v)
        \<and> opts = strip (behind (CHR ''-'') inner) \<and> opts \<noteq> []
      else e = Some (normalize_parser_engine inner) \<and> the e \<in> set (supported_parser_engines v) \<and> opts = [])
     \<and> validate_process_options opts = []"

lemma read_lenient:
  assumes "read_hint v s e opts" "s \<noteq> []" "\<not> isspace (hd s)"
  shows "split_engine_and_options v (strip s) = (e, opts)"
    and "CHR ''-'' \<in> set (strip s) \<Longrightarrow> hd (strip s) \<noteq> CHR ''-'' \<Longrightarrow> strip (behind (CHR ''-'') (strip s)) \<noteq> []"
proof -
  obtain c r where s: "s = c # r" using assms(2) by (cases s) auto
  have c: "\<not> isspace c" using assms(3) s by simp
  have t: "strip s = c # rstrip r" by (simp add: s strip_Cons [OF c])
  have head: "hd (strip s) = hd s" by (simp only: t) (simp add: s)
  have parts: "before (CHR ''-'') (strip s) = before (CHR ''-'') s \<and> strip (behind (CHR ''-'') (strip s)) = strip (behind (CHR ''-'') s)
      \<and> CHR ''-'' \<in> set (strip s)" if "CHR ''-'' \<in> set s"
  proof -
    obtain x y where xy: "s = x @ CHR ''-'' # y" "CHR ''-'' \<notin> set x" using split_list_first \<open>CHR ''-'' \<in> set s\<close> by metis
    moreover have "lstrip s = s" using assms(3) by (simp add: lstrip_eq)
    ultimately have "strip s = x @ CHR ''-'' # rstrip y" by (simp add: strip_def rstrip_dash)
    then show ?thesis using xy by (simp add: before_behind strip_rstrip)
  qed
  have none: "CHR ''-'' \<notin> set (strip s)" if "CHR ''-'' \<notin> set s" using \<open>CHR ''-'' \<notin> set s\<close> set_strip by blast
  have split: "split_engine_and_options v (strip s) =
      (if c = CHR ''-'' then (None, strip r)
       else if CHR ''-'' \<in> set (strip s) then
         (let e = normalize_parser_engine (before (CHR ''-'') (strip s))
          in if e \<in> set (supported_parser_engines v) then (Some e, strip (behind (CHR ''-'') (strip s))) else (None, []))
       else (let e = normalize_parser_engine (strip s) in if e \<in> set (supported_parser_engines v) then (Some e, []) else (None, [])))"
    unfolding split_engine_and_options_def strip_idem Let_def by (simp add: t strip_rstrip)
  show "split_engine_and_options v (strip s) = (e, opts)"
  proof (cases "c = CHR ''-''")
    case True
    then show ?thesis using assms(1) unfolding split by (simp add: read_hint_def s)
  next
    case False
    then have "hd s \<noteq> CHR ''-''" by (simp add: s)
    then show ?thesis using assms(1) False parts none unfolding split read_hint_def Let_def
      by (cases "CHR ''-'' \<in> set s") (auto simp: normalize_strip)
  qed
  show "CHR ''-'' \<in> set (strip s) \<Longrightarrow> hd (strip s) \<noteq> CHR ''-'' \<Longrightarrow> strip (behind (CHR ''-'') (strip s)) \<noteq> []"
    using assms(1) parts none head unfolding read_hint_def by (cases "CHR ''-'' \<in> set s") (auto split: if_splits)
qed

definition option_text_errors :: "pystr \<Rightarrow> hint_error list" where
  "option_text_errors s = (if strip s = [] then [EmptyOptions] else map HintOption (validate_process_options s))"

definition strict_engine :: "routing_env \<Rightarrow> pystr \<Rightarrow> pystr option \<times> hint_error list" where
  "strict_engine v inner =
     (if inner \<noteq> [] \<and> hd inner = CHR ''-'' then (None, option_text_errors (strip (tl inner)))
      else if CHR ''-'' \<in> set inner then
        (let e = normalize_parser_engine (before (CHR ''-'') inner)
         in (Some e, if e \<notin> set (supported_parser_engines v) then [UnsupportedEngine (before (CHR ''-'') inner)]
                     else option_text_errors (behind (CHR ''-'') inner)))
      else (let e = normalize_parser_engine inner
            in (Some e, if e \<notin> set (supported_parser_engines v) then [UnsupportedEngine inner] else [])))"

lemma strict_engine_reads:
  assumes "strict_engine v s = (e, [])" "s \<noteq> []"
  shows "\<exists>opts. read_hint v s e opts" "e \<noteq> None \<Longrightarrow> the e \<in> set (supported_parser_engines v)"
  using assms by (auto simp: strict_engine_def option_text_errors_def read_hint_def Let_def validate_strip validate_process_options_def [of "[]"]
      seen_chunkers_def [of "[]"] split: if_splits)

text \<open>The strict check is made of these parts.\<close>

lemma validate_parts:
  assumes "validate_filename_hint v re path = []" "hint_segment (path_name (ro_separators v) path) = Some (pre, bracket, ext)"
    "strict_engine v (bl_out (extract_param_blocks bracket)) = (e, errs)"
  defines "b \<equiv> extract_param_blocks bracket" and "n \<equiv> (case e of None \<Rightarrow> [] | Some e1 \<Rightarrow> e1)"
    and "ok \<equiv> (case e of None \<Rightarrow> False | Some e1 \<Rightarrow> e1 \<in> set (supported_parser_engines v))"
  shows "strip bracket \<noteq> []" "bl_errors b = []" "snd (parse_chunk_param_texts (bl_chunks b)) = []" "errs = []"
    "bl_engine b = Some s \<Longrightarrow> snd (parse_engine_params (ro_local v) n s) = []"
    "ok \<Longrightarrow> parser_engine_supports_suffix v n (parser_suffix v path)"
    "parser_engine_endpoint_requirement v n = Some r \<Longrightarrow> ok \<Longrightarrow> re \<Longrightarrow> r \<noteq> [] \<Longrightarrow> parser_engine_endpoint_configured v n"
proof -
  have e: "strict_engine v (bl_out b) = (e, errs)" using assms(3) by (simp add: b_def)
  show ne: "strip bracket \<noteq> []" using assms(1,2) by (auto simp: validate_filename_hint_def)
  have all: "bl_errors b @ map HintParam (snd (parse_chunk_param_texts (bl_chunks b))) @ errs
      @ (case bl_engine b of None \<Rightarrow> [] | Some s \<Rightarrow> map HintParam (snd (parse_engine_params (ro_local v) n s)))
      @ (if ok \<and> \<not> parser_engine_supports_suffix v n (parser_suffix v path) then [UnsupportedSuffix n (parser_suffix v path)] else [])
      @ (case parser_engine_endpoint_requirement v n of
           Some r \<Rightarrow> if ok \<and> re \<and> r \<noteq> [] \<and> \<not> parser_engine_endpoint_configured v n then [EndpointMissing r] else []
         | None \<Rightarrow> []) = []"
    using assms(1) ne e
    unfolding validate_filename_hint_def assms(2) option.case prod.case b_def [symmetric] Let_def if_not_P [OF ne]
      strict_engine_def option_text_errors_def n_def ok_def
    by simp
  show "bl_errors b = []" "snd (parse_chunk_param_texts (bl_chunks b)) = []" "errs = []" using all by simp_all
  show "bl_engine b = Some s \<Longrightarrow> snd (parse_engine_params (ro_local v) n s) = []" using all by simp
  show "ok \<Longrightarrow> parser_engine_supports_suffix v n (parser_suffix v path)" using all by (auto split: if_splits)
  show "parser_engine_endpoint_requirement v n = Some r \<Longrightarrow> ok \<Longrightarrow> re \<Longrightarrow> r \<noteq> [] \<Longrightarrow> parser_engine_endpoint_configured v n"
    using all by (auto split: if_splits)
qed

lemma spaces_only: "strip s = [] \<Longrightarrow> \<forall>c\<in>set s. isspace c"
  using filter_strip [of "\<lambda>c. \<not> isspace c" s, symmetric] by (simp add: filter_empty_conv)

lemma dash_alone:
  assumes "strip s = s" "s \<noteq> []" "bl_errors (extract_param_blocks s) = []" "read_hint v (bl_out (extract_param_blocks s)) e opts"
  shows "\<not> (hd s = CHR ''-'' \<and> strip (tl s) = [])"
proof
  assume h: "hd s = CHR ''-'' \<and> strip (tl s) = []"
  then obtain r where s: "s = CHR ''-'' # r" "strip r = []" using assms(2) by (cases s) auto
  have "strip s = CHR ''-'' # rstrip r" using strip_Cons [of "CHR ''-''" r] no_space s(1) by blast
  then have "rstrip r = r" using assms(1) s(1) by simp
  moreover have "rstrip r = []" using spaces_only [OF s(2)] by (simp add: rstrip_def dropWhile_eq_Nil_conv)
  ultimately have "r = []" by simp
  then have "s = ''-''" by (simp add: s)
  then show False using assms(3,4) by (simp add: extract_param_blocks_def read_hint_def strip_def lstrip_def rstrip_def)
qed

lemma hint_read:
  assumes "validate_filename_hint v re path = []" "hint_segment (path_name (ro_separators v) path) = Some (pre, bracket, ext)"
    "strip bracket = bracket"
  shows "\<exists>e opts cs ps. filename_hint_match v path
        = Some \<lparr>hi_before = pre, hi_ext = ext, hi_engine = (case e of None \<Rightarrow> [] | Some n \<Rightarrow> n), hi_options = opts, hi_chunks = cs, hi_params = ps\<rparr>
      \<and> strict_engine v (bl_out (extract_param_blocks bracket)) = (e, []) \<and> (e = None \<longrightarrow> opts \<noteq> [])"
proof -
  define b where "b = extract_param_blocks bracket"
  obtain e errs where se: "strict_engine v (bl_out b) = (e, errs)" by fastforce
  note parts = validate_parts [OF assms(1,2) se [unfolded b_def], folded b_def]
  have ne: "bracket \<noteq> []" using parts(1) assms(3) by metis
  have out: "bl_out b \<noteq> []" "hd (bl_out b) = hd bracket" using bracket_head [OF _ ne] parts(2) by (simp_all add: b_def)
  have space: "\<not> isspace (hd (bl_out b))" using strip_ends [of bracket] assms(3) ne out(2) by simp
  obtain opts where r: "read_hint v (bl_out b) e opts"
    using strict_engine_reads(1) [of v "bl_out b" e] se parts(4) out(1) by auto
  note split = read_lenient [OF r out(1) space]
  have dash: "\<not> (hd bracket = CHR ''-'' \<and> strip (tl bracket) = [])"
    using dash_alone [OF assms(3) ne] r parts(2) by (simp add: b_def)
  have valid: "validate_process_options opts = []" "e = None \<Longrightarrow> opts \<noteq> []"
    using r by (auto simp: read_hint_def split: if_splits)
  define eng where "eng = (case bl_engine b of None \<Rightarrow> ([], []) | Some s \<Rightarrow> parse_engine_params (ro_local v) (case e of None \<Rightarrow> [] | Some e1 \<Rightarrow> e1) s)"
  have eng: "snd eng = []" using parts(5) by (auto simp: eng_def split: option.splits)
  have "filename_hint_match v path
        = Some \<lparr>hi_before = pre, hi_ext = ext, hi_engine = (case e of None \<Rightarrow> [] | Some n \<Rightarrow> n), hi_options = opts,
            hi_chunks = fst (parse_chunk_param_texts (bl_chunks b)), hi_params = fst eng\<rparr>"
    using dash parts(2,3) split valid eng ne
    unfolding filename_hint_match_def assms(2,3) option.case prod.case Let_def b_def [symmetric] split(1) eng_def [symmetric]
    by (cases "parse_chunk_param_texts (bl_chunks b)"; cases eng; cases e) auto
  then show ?thesis using se parts(4) valid(2) unfolding b_def by blast
qed


text \<open>Three engines, as the registry of the product has them.\<close>

definition sample_env :: routing_env where
  "sample_env =
     \<lparr>ro_engines = [(''native'', \<lparr>ei_suffixes = [''docx'', ''md''], ei_selectable = True, ei_configured = True, ei_requirement = None\<rparr>),
         (''legacy'', \<lparr>ei_suffixes = [''txt'', ''pdf'', ''docx''], ei_selectable = True, ei_configured = True, ei_requirement = None\<rparr>),
         (''mineru'', \<lparr>ei_suffixes = [''pdf''], ei_selectable = True, ei_configured = True, ei_requirement = Some ''URL''\<rparr>)],
      ro_local = True, ro_heading = True, ro_separators = ''/'', ro_rules = ''pdf:legacy''\<rparr>"

lemma sample_segment: "hint_segment (path_name (ro_separators sample_env) ''plan.[mineru-R].pdf'') = Some (''plan'', ''mineru-R'', ''.pdf'')"
  "strip ''mineru-R'' = ''mineru-R''" "[] \<notin> set (supported_parser_engines sample_env)"
  "list_all (\<lambda>(n, i). ei_configured i) (ro_engines sample_env)"
  by code_simp+

lemma sample_directives:
  "resolve_parser_directives sample_env True ''plan.[mineru-R].pdf''
     = Inr \<lparr>pd_engine = ''mineru'', pd_options = ''R'', pd_chunks = [], pd_params = []\<rparr>"
  by code_simp


text \<open>A name with two hints loses one each time it is made canonical.\<close>

lemma canonical_name_not_idempotent:
  "normalize_document_file_path sample_env ''plan.[native].[mineru].pdf'' = ''plan.[native].pdf''"
  "normalize_document_file_path sample_env ''plan.[native].pdf'' = ''plan.pdf''"
  by code_simp+

text \<open>The parser of a stored document can be refused, although the code says that this function never raises.\<close>

lemma stored_engine_may_raise:
  "resolve_stored_document_parser_engine sample_env ''plan.[native].pdf'' (Some [(''parse_format'', JStr ''pending_parse'')])
     = Inl [UnsupportedSuffix ''native'' ''pdf'']"
  by code_simp

end
