(* ===== verification/ParamSchemaLaws.thy ===== *)
theory ParamSchemaLaws
  imports ParamSchema
begin

text \<open>
  The stored engine of a document round trips: what \<open>encode_parse_engine\<close> writes, \<open>decode_parse_engine\<close> reads
  back, and writing it again gives the same text.
\<close>

subsection \<open>Splitting what was joined\<close>

lemma split_level_piece:
  assumes "set s \<inter> (set seps \<union> {CHR ''('', CHR '')''}) = {}"
  shows "split_level seps 0 acc (s @ cs) = split_level seps 0 (rev s @ acc) cs"
  using assms by (induction s arbitrary: acc) auto

lemma split_top_level_join:
  assumes "ps \<noteq> []" and "\<forall>s\<in>set ps. set s \<inter> set '',()'' = {}"
  shows "split_top_level (join '','' ps) '','' = ps"
  unfolding split_top_level_def
  using assms
proof (induction ps rule: induct_list012)
  case (2 s)
  then have "split_level '','' 0 [] (s @ []) = split_level '','' 0 (rev s @ []) []"
    by (intro split_level_piece) auto
  then show ?case by simp
next
  case (3 s t ts)
  have "split_level '','' 0 [] (s @ '','' @ join '','' (t # ts)) = split_level '','' 0 (rev s @ []) ('','' @ join '','' (t # ts))"
    using 3 by (intro split_level_piece) auto
  then show ?case using 3 by simp
qed simp

lemma split_on_cons: "c \<notin> set s \<Longrightarrow> split_on c (s @ c # t) = s # split_on c t"
  by (simp add: split_on_append split_on_none)

lemma split_on_join:
  assumes "ps \<noteq> []" and "\<forall>s\<in>set ps. CHR '','' \<notin> set s"
  shows "split_on (CHR '','') (join '','' ps) = ps"
  using assms by (induction ps rule: induct_list012) (auto simp: split_on_cons split_on_none)

lemma paren_loop_inner:
  assumes "CHR ''('' \<notin> set s" "CHR '')'' \<notin> set s"
  shows "paren_loop 1 acc (s @ CHR '')'' # t) = Some (rev acc @ s, t)"
  using assms by (induction s arbitrary: acc) auto

lemma before_none: "c \<notin> set k \<Longrightarrow> before c k = k"
  unfolding before_def by (rule takeWhile_eq_all_conv [THEN iffD2]) auto

lemma before_clean: "c \<notin> set (before c s)"
  by (auto simp: before_def dest: set_takeWhileD)

subsection \<open>The engines\<close>

abbreviation page_spec :: param_spec where
  "page_spec \<equiv> engine_spec ''page_range'' [''pr''] TextParam True"
abbreviation lang_spec :: param_spec where
  "lang_spec \<equiv> engine_spec ''language'' [] TextParam False"
abbreviation method_spec :: param_spec where
  "method_spec \<equiv> engine_spec ''local_parse_method'' [''local_pm''] (EnumParam [''auto'', ''txt'', ''ocr'']) False"
abbreviation ocr_spec :: param_spec where
  "ocr_spec \<equiv> engine_spec ''force_ocr'' [''ocr''] BoolParam False"
abbreviation heading_spec :: param_spec where
  "heading_spec \<equiv> engine_spec ''smart_heading'' [] BoolParam False"

lemma known_specs:
  assumes "map_of ENGINE_PARAM_SPECS e = Some specs"
  shows "specs \<in> {[page_spec, lang_spec, method_spec], [ocr_spec], [heading_spec]}"
  using assms by (simp add: ENGINE_PARAM_SPECS_def split: if_splits)

lemma known_spec:
  assumes "map_of ENGINE_PARAM_SPECS e = Some specs" "spec_by_name specs k = Some p"
  shows "p \<in> {page_spec, lang_spec, method_spec, ocr_spec, heading_spec}"
  using known_specs [OF assms(1)] find_SomeD [OF assms(2) [unfolded spec_by_name_def]] by auto

lemma find_canonical:
  "spec_by_name [page_spec, lang_spec, method_spec] ''page_range'' = Some page_spec"
  "spec_by_name [page_spec, lang_spec, method_spec] ''language'' = Some lang_spec"
  "spec_by_name [page_spec, lang_spec, method_spec] ''local_parse_method'' = Some method_spec"
  "spec_by_name [ocr_spec] ''force_ocr'' = Some ocr_spec"
  "spec_by_name [heading_spec] ''smart_heading'' = Some heading_spec"
  by (simp_all add: spec_by_name_def spec_names_def engine_spec_def)

lemma canonical_specs:
  "canonical page_spec = ''page_range''" "canonical lang_spec = ''language''" "canonical method_spec = ''local_parse_method''"
  "canonical ocr_spec = ''force_ocr''" "canonical heading_spec = ''smart_heading''"
  by (simp_all add: engine_spec_def)

lemma spec_of_canonical:
  assumes "map_of ENGINE_PARAM_SPECS e = Some specs" "spec_by_name specs k = Some p"
  shows "spec_by_name specs (canonical p) = Some p"
proof -
  have "p \<in> set specs" using find_SomeD [OF assms(2) [unfolded spec_by_name_def]] by blast
  then show ?thesis using known_specs [OF assms(1)] find_canonical canonical_specs by auto
qed

lemma canonical_clean:
  assumes "p \<in> {page_spec, lang_spec, method_spec, ocr_spec, heading_spec}"
  shows "set (canonical p) \<inter> set '',()='' = {} \<and> strip (canonical p) = canonical p \<and> canonical p \<noteq> []"
  using assms by (elim insertE emptyE) (simp_all add: canonical_specs strip_eq isspace_def)

text \<open>An entry of a normalised dict.\<close>

definition normal_entry :: "bool \<Rightarrow> param_spec list \<Rightarrow> pystr \<times> param_value \<Rightarrow> bool" where
  "normal_entry local specs kx \<longleftrightarrow>
     (\<exists>p s. spec_by_name specs (fst kx) = Some p \<and> canonical p = fst kx \<and> strip s = s
        \<and> coerce_engine_value local p s = Inr (snd kx))"

lemma digits_clean: "is_digit c \<Longrightarrow> c \<notin> set '',()] '' \<and> \<not> isspace c"
  by (auto simp: is_digit_def isspace_def Let_def)

lemma page_segment_chars:
  assumes "page_segment s" "c \<in> set s"
  shows "is_digit c \<or> c = CHR ''-''"
proof (cases "CHR ''-'' \<in> set s")
  case True
  then obtain l r where "s = l @ CHR ''-'' # r" "CHR ''-'' \<notin> set l" by (meson split_list_first)
  then show ?thesis using assms by (auto simp: page_segment_def Let_def before_behind)
next
  case False
  then show ?thesis using assms by (auto simp: page_segment_def Let_def before_none)
qed

lemma page_segment_clean:
  assumes "page_segment s"
  shows "s \<noteq> []" "set s \<inter> set '',()]'' = {}" "strip s = s"
proof -
  note c = page_segment_chars [OF assms]
  show "s \<noteq> []" using assms by (auto simp: page_segment_def before_def)
  show "set s \<inter> set '',()]'' = {}" using c by (fastforce simp: is_digit_def)
  have "\<not> isspace c" if "c \<in> set s" for c
    using c [OF that] by (auto simp: isspace_def is_digit_def Let_def)
  then show "strip s = s" by (cases "s = []") (auto intro!: strip_eq)
qed

text \<open>What the values of the parameters can be.\<close>

lemma coerce_bool:
  assumes "param_kind p = BoolParam" "canonical p \<noteq> ''local_parse_method''" "coerce_engine_value local p s = Inr x"
  obtains b where "x = PBool b"
  using assms by (auto simp: coerce_engine_value_def split: option.splits)

lemma coerce_text:
  "coerce_engine_value local lang_spec s = Inr x \<longleftrightarrow> s \<noteq> [] \<and> x = PText s"
  by (auto simp: coerce_engine_value_def engine_spec_def)

lemma coerce_enum:
  "param_kind p = EnumParam A
   \<Longrightarrow> coerce_engine_value local p s = Inr x \<longleftrightarrow> (canonical p = ''local_parse_method'' \<longrightarrow> local) \<and> s \<in> set A \<and> PText s = x"
  unfolding coerce_engine_value_def by (simp split: if_split)

lemma method_kind: "param_kind method_spec = EnumParam [''auto'', ''txt'', ''ocr'']"
  by (simp add: engine_spec_def)

lemma pages_valid:
  assumes "validate_page_range_segments local segs = []" "s \<in> set segs"
  shows "page_segment s"
proof -
  have "concat (map page_errors segs) = []"
    using assms(1) unfolding validate_page_range_segments_def Let_def by (meson list.distinct(1))
  then have "page_errors s = []" using assms(2) by simp
  then show ?thesis by (cases "page_segment s") (simp_all add: page_errors_def)
qed

lemma coerce_pages:
  assumes "coerce_engine_value local page_spec s = Inr x"
  obtains segs where "x = PText (join '','' segs)" "segs \<noteq> []" "\<forall>s\<in>set segs. page_segment s"
    "validate_page_range_segments local segs = []"
proof -
  let ?segs = "map strip (split_on (CHR '','') s)"
  have v: "validate_page_range_segments local ?segs = []" and x: "x = PText (join '','' ?segs)"
    using assms by (auto simp: coerce_engine_value_def engine_spec_def Let_def split: if_splits)
  then show thesis using that [OF x] pages_valid [OF v] by simp
qed

lemma coerce_joined:
  assumes "validate_page_range_segments local segs = []" "segs \<noteq> []"
  shows "coerce_engine_value local page_spec (join '','' segs) = Inr (PText (join '','' segs))"
proof -
  have clean: "\<forall>s\<in>set segs. page_segment s" using pages_valid [OF assms(1)] by blast
  have sp: "split_on (CHR '','') (join '','' segs) = segs"
    by (rule split_on_join [OF assms(2)]) (use clean page_segment_clean(2) in fastforce)
  have "join '','' segs \<noteq> []"
    using assms(2) clean page_segment_clean(1) by (cases segs; cases "tl segs") auto
  moreover have "map strip segs = segs" using clean page_segment_clean(3) by (simp add: map_idI)
  ultimately show ?thesis using assms(1) sp by (simp add: coerce_engine_value_def engine_spec_def Let_def)
qed

subsection \<open>Reading one parameter back\<close>

lemma update_twice: "AList.update k v (AList.update k w d) = AList.update k v d"
  by (induction d) auto

lemma update_nonempty: "AList.update k v d \<noteq> []"
  by (cases d) auto

lemma update_same: "map_of d k = Some v \<Longrightarrow> AList.update k v d = d"
  by (induction d) (auto split: if_splits)

lemma clean_sep: "set c \<inter> set '',()='' = {} \<Longrightarrow> CHR ''='' \<notin> set c"
  by auto

lemma segment_read:
  assumes "spec_by_name specs c = Some p" "canonical p = c" "strip c = c" "c \<noteq> []" "CHR ''='' \<notin> set c"
    and v: "strip v = v" "v \<noteq> []" "set v \<inter> set VALUE_FORBIDDEN = {}"
  shows "engine_segment local specs (c @ ''='' @ v) st =
    (if is_list p then
       st\<lparr>pa_lists := AList.update c ((case map_of (pa_lists st) c of None \<Rightarrow> [] | Some ws \<Rightarrow> ws) @ [v]) (pa_lists st)\<rparr>
     else if c \<in> set (pa_seen st) then add_error (Repeated c) st
     else put_value local p v (st\<lparr>pa_seen := c # pa_seen st\<rparr>))"
proof -
  have "\<not> isspace (hd c)" "\<not> isspace (last v)" using strip_ends [of c] strip_ends [of v] assms(3,4) v(1,2) by metis+
  then have s: "strip (c @ CHR ''='' # v) = c @ CHR ''='' # v" using assms(4) v(2) by (intro strip_eq) auto
  have kv: "key_value (c @ CHR ''='' # v) = (c, Some v)"
    using assms(3,5) v(1) by (simp add: key_value_def before_behind)
  have f: "\<not> (\<exists>ch\<in>set v. ch \<in> set VALUE_FORBIDDEN)" using v(3) by blast
  show ?thesis
    using assms(1,2,4) f by (simp add: engine_segment_def s kv Let_def)
qed

lemma pages_read:
  assumes "spec_by_name specs c = Some p" "canonical p = c" "strip c = c" "c \<noteq> []" "CHR ''='' \<notin> set c" "is_list p"
    and "\<forall>s\<in>set segs. page_segment s"
  shows "map_of (pa_lists st) c = Some ws
      \<Longrightarrow> fold (engine_segment local specs) (map (\<lambda>s. c @ ''='' @ s) segs) st = st\<lparr>pa_lists := AList.update c (ws @ segs) (pa_lists st)\<rparr>"
    "map_of (pa_lists st) c = None \<Longrightarrow> segs \<noteq> []
      \<Longrightarrow> fold (engine_segment local specs) (map (\<lambda>s. c @ ''='' @ s) segs) st = st\<lparr>pa_lists := pa_lists st @ [(c, segs)]\<rparr>"
proof -
  have one: "engine_segment local specs (c @ CHR ''='' # s) st =
      st\<lparr>pa_lists := AList.update c ((case map_of (pa_lists st) c of None \<Rightarrow> [] | Some ws \<Rightarrow> ws) @ [s]) (pa_lists st)\<rparr>"
    if "page_segment s" for s st
  proof -
    have "set s \<inter> set VALUE_FORBIDDEN = {}" using page_segment_clean(2) [OF that] by (auto simp: VALUE_FORBIDDEN_def)
    then show ?thesis
      using segment_read [OF assms(1-5) page_segment_clean(3,1) [OF that], of local st] assms(6) by simp
  qed
  have more: "fold (engine_segment local specs) (map (\<lambda>s. c @ ''='' @ s) segs) st = st\<lparr>pa_lists := AList.update c (ws @ segs) (pa_lists st)\<rparr>"
    if "map_of (pa_lists st) c = Some ws" "\<forall>s\<in>set segs. page_segment s" for st ws segs
    using that
  proof (induction segs arbitrary: st ws)
    case Nil
    have "AList.update c ws (pa_lists st) = pa_lists st" by (rule update_same [OF Nil(1)])
    then show ?case by simp
  next
    case (Cons s segs)
    then show ?case by (simp add: one map_of_update_iff update_twice)
  qed
  show "map_of (pa_lists st) c = Some ws
      \<Longrightarrow> fold (engine_segment local specs) (map (\<lambda>s. c @ ''='' @ s) segs) st = st\<lparr>pa_lists := AList.update c (ws @ segs) (pa_lists st)\<rparr>"
    using more assms(7) by blast
  show "fold (engine_segment local specs) (map (\<lambda>s. c @ ''='' @ s) segs) st = st\<lparr>pa_lists := pa_lists st @ [(c, segs)]\<rparr>"
    if fresh: "map_of (pa_lists st) c = None" and some: "segs \<noteq> []"
  proof -
    have nk: "c \<notin> set (keys (pa_lists st))" using fresh by (simp add: map_of_eq_None_iff)
    obtain s rest where segs: "segs = s # rest" using some by (cases segs) auto
    let ?st = "st\<lparr>pa_lists := pa_lists st @ [(c, [s])]\<rparr>"
    have "map_of (pa_lists ?st) c = Some [s]" using fresh by (simp add: map_add_def)
    from more [OF this, of rest] have "fold (engine_segment local specs) (map (\<lambda>s. c @ CHR ''='' # s) rest) ?st
        = st\<lparr>pa_lists := AList.update c ([s] @ rest) (pa_lists st @ [(c, [s])])\<rparr>" using assms(7) segs by simp
    moreover have "AList.update c ([s] @ rest) (pa_lists st @ [(c, [s])]) = pa_lists st @ [(c, segs)]"
      using nk segs by (simp add: update_snoc)
    ultimately show ?thesis using segs assms(7) fresh by (simp add: one update_new [OF nk])
  qed
qed


subsection \<open>A normalised dict\<close>

lemma entry_cases:
  assumes e: "map_of ENGINE_PARAM_SPECS e = Some specs" and n: "normal_entry local specs (c, x)"
  obtains (pages) segs where "spec_by_name specs c = Some page_spec" "c = ''page_range''" "x = PText (join '','' segs)"
      "segs \<noteq> []" "\<forall>s\<in>set segs. page_segment s" "validate_page_range_segments local segs = []"
    | (plain) p s where "spec_by_name specs c = Some p" "canonical p = c" "\<not> is_list p" "param_kind p \<noteq> BoolParam" "x = PText s"
      "s \<noteq> []" "strip s = s" "coerce_engine_value local p s = Inr x" "c \<noteq> ''language'' \<Longrightarrow> s \<in> set [''auto'', ''txt'', ''ocr'']"
    | (flag) p b where "spec_by_name specs c = Some p" "canonical p = c" "\<not> is_list p" "param_kind p = BoolParam" "x = PBool b"
      "\<And>s b'. parse_bool s = Some b' \<Longrightarrow> coerce_engine_value local p s = Inr (PBool b')"
proof -
  obtain p s where p: "spec_by_name specs c = Some p" "canonical p = c" "strip s = s" "coerce_engine_value local p s = Inr x"
    using n by (auto simp: normal_entry_def)
  consider "p = page_spec" | "p = lang_spec" | "p = method_spec" | "p \<in> {ocr_spec, heading_spec}"
    using known_spec [OF e p(1)] by blast
  then show thesis
  proof cases
    case 1
    then have "coerce_engine_value local page_spec s = Inr x" "c = ''page_range''" "spec_by_name specs c = Some page_spec"
      using p by (simp_all add: canonical_specs)
    then obtain segs where "x = PText (join '','' segs)" "segs \<noteq> []" "\<forall>s\<in>set segs. page_segment s"
        "validate_page_range_segments local segs = []" "c = ''page_range''" "spec_by_name specs c = Some page_spec"
      by (blast elim: coerce_pages)
    then show thesis by (intro pages)
  next
    case 2
    then have "s \<noteq> []" "x = PText s" using p(4) by (simp_all add: coerce_text)
    then show thesis using plain [OF p(1,2) _ _ _ _ p(3,4)] 2 p(2) canonical_specs by (simp add: engine_spec_def)
  next
    case 3
    then have "coerce_engine_value local method_spec s = Inr x" using p(4) by (simp only:)
    note m = coerce_enum [OF method_kind, THEN iffD1, OF this]
    note s = m [THEN conjunct2, THEN conjunct1] m [THEN conjunct2, THEN conjunct2]
    have ne: "s \<noteq> []" using s(1) by auto
    have k: "\<not> is_list p" "param_kind p \<noteq> BoolParam" unfolding 3 by (simp_all add: engine_spec_def)
    show thesis by (rule plain [OF p(1,2) k s(2) [symmetric] ne p(3,4) s(1)])
  next
    case 4
    then have k: "param_kind p = BoolParam" "\<not> is_list p" "canonical p \<noteq> ''local_parse_method''"
      by (auto simp: engine_spec_def)
    then have co: "parse_bool s = Some b \<Longrightarrow> coerce_engine_value local p s = Inr (PBool b)" for s b
      by (simp add: coerce_engine_value_def)
    obtain b where "x = PBool b" using coerce_bool [OF k(1,3) p(4)] by blast
    then show thesis using flag [OF p(1,2) k(2,1) _ co] by blast
  qed
qed

text \<open>The state after the entries \<open>L\<close> are read: the lists are kept apart until the end.\<close>

definition list_params :: "param_spec list \<Rightarrow> (pystr, param_value) pydict \<Rightarrow> (pystr, pystr list) pydict" where
  "list_params specs L = map (\<lambda>(c, x). (c, split_on (CHR '','') (show_value x)))
     (filter (\<lambda>(c, x). case spec_by_name specs c of None \<Rightarrow> False | Some p \<Rightarrow> is_list p) L)"

definition single_params :: "param_spec list \<Rightarrow> (pystr, param_value) pydict \<Rightarrow> (pystr, param_value) pydict" where
  "single_params specs L = filter (\<lambda>(c, x). case spec_by_name specs c of None \<Rightarrow> True | Some p \<Rightarrow> \<not> is_list p) L"

definition rendered :: "param_spec list \<Rightarrow> (pystr, param_value) pydict \<Rightarrow> pystr list" where
  "rendered specs L = concat (map (\<lambda>(c, x). case spec_by_name specs c of None \<Rightarrow> [] | Some p \<Rightarrow> render_param p x) L)"

definition plain_language :: "(pystr, param_value) pydict \<Rightarrow> bool" where
  "plain_language L \<longleftrightarrow> (\<forall>s. (''language'', PText s) \<in> set L \<longrightarrow> set s \<inter> set VALUE_FORBIDDEN = {})"

lemma parse_bool_literals: "parse_bool ''true'' = Some True" "parse_bool ''false'' = Some False"
    "parse_bool ''True'' = Some True" "parse_bool ''False'' = Some False"
  by code_simp+

lemma enum_clean: "s \<in> set [''auto'', ''txt'', ''ocr''] \<Longrightarrow> set s \<inter> set VALUE_FORBIDDEN = {}"
  by (auto simp: VALUE_FORBIDDEN_def)

lemma segs_split: "\<forall>s\<in>set segs. page_segment s \<Longrightarrow> segs \<noteq> [] \<Longrightarrow> split_on (CHR '','') (join '','' segs) = segs"
  by (rule split_on_join) (use page_segment_clean(2) in fastforce)+

lemma entry_read:
  assumes e: "map_of ENGINE_PARAM_SPECS e = Some specs" and n: "normal_entry local specs (c, x)" and lang: "plain_language [(c, x)]"
    and new: "c \<notin> set (keys (pa_lists st))" "c \<notin> set (pa_seen st)" "c \<notin> set (keys (pa_result st))"
  shows "\<exists>seen. fold (engine_segment local specs) (rendered specs [(c, x)]) st
     = st\<lparr>pa_lists := pa_lists st @ list_params specs [(c, x)], pa_result := pa_result st @ single_params specs [(c, x)], pa_seen := seen\<rparr>
    \<and> set seen \<subseteq> insert c (set (pa_seen st))"
proof (cases rule: entry_cases [OF e n, case_names pages plain flag])
  case (pages segs)
  have c: "canonical page_spec = c" "strip c = c" "c \<noteq> []" "CHR ''='' \<notin> set c" "is_list page_spec"
    using pages(2) by (simp_all add: engine_spec_def strip_eq isspace_def)
  have "map_of (pa_lists st) c = None" using new(1) by (simp add: map_of_eq_None_iff)
  from pages_read(2) [OF pages(1) c pages(5) this pages(4)]
  have "fold (engine_segment local specs) (map (\<lambda>s. c @ ''='' @ s) segs) st = st\<lparr>pa_lists := pa_lists st @ [(c, segs)]\<rparr>" .
  then show ?thesis using pages c(1,5) segs_split [OF pages(5,4)]
    by (intro exI [of _ "pa_seen st"]) (auto simp: rendered_def render_param_def list_params_def single_params_def)
next
  case (plain p s)
  have cl: "strip c = c" "c \<noteq> []" "CHR ''='' \<notin> set c"
    using canonical_clean [OF known_spec [OF e plain(1)]] plain(2) by auto
  have f: "set s \<inter> set VALUE_FORBIDDEN = {}"
  proof (cases "c = ''language''")
    case True
    then show ?thesis using lang plain(5) unfolding plain_language_def by simp
  next
    case False
    then show ?thesis by (intro enum_clean plain(9))
  qed
  show ?thesis
    using segment_read [OF plain(1,2) cl plain(7,6) f, of local st] plain new(2,3)
    by (intro exI [of _ "c # pa_seen st"])
      (auto simp: rendered_def render_param_def list_params_def single_params_def put_value_def update_new)
next
  case (flag p b)
  have cl: "strip c = c" "c \<noteq> []" "CHR ''='' \<notin> set c"
    using canonical_clean [OF known_spec [OF e flag(1)]] flag(2) by auto
  let ?v = "if b then ''true'' else ''false''"
  have v: "strip ?v = ?v" "?v \<noteq> []" "set ?v \<inter> set VALUE_FORBIDDEN = {}"
    by (auto simp: VALUE_FORBIDDEN_def strip_eq isspace_def)
  have co: "coerce_engine_value local p ?v = Inr (PBool b)" using flag(6) parse_bool_literals by simp
  have "rendered specs [(c, x)] = [c @ ''='' @ ?v]" using flag by (simp add: rendered_def render_param_def)
  then show ?thesis
    using segment_read [OF flag(1,2) cl v, of local st] flag co new(2,3)
    by (intro exI [of _ "c # pa_seen st"])
      (simp add: list_params_def single_params_def put_value_def update_new)
qed


lemma rendered_Cons: "rendered specs (cx # L) = rendered specs [cx] @ rendered specs L"
  by (simp add: rendered_def)

lemma params_Cons:
  "list_params specs (cx # L) = list_params specs [cx] @ list_params specs L"
  "single_params specs (cx # L) = single_params specs [cx] @ single_params specs L"
  by (auto simp: list_params_def single_params_def)

lemma param_keys:
  "set (keys (list_params specs L)) \<subseteq> set (keys L)" "set (keys (single_params specs L)) \<subseteq> set (keys L)"
  by (force simp: list_params_def single_params_def)+

lemma entries_read:
  assumes e: "map_of ENGINE_PARAM_SPECS e = Some specs" and "\<forall>cx\<in>set L. normal_entry local specs cx" "plain_language L"
    and "dict_ok L" "set (keys L) \<inter> (set (keys (pa_lists st)) \<union> set (pa_seen st) \<union> set (keys (pa_result st))) = {}"
  shows "\<exists>seen. fold (engine_segment local specs) (rendered specs L) st
     = st\<lparr>pa_lists := pa_lists st @ list_params specs L, pa_result := pa_result st @ single_params specs L, pa_seen := seen\<rparr>"
  using assms(2-)
proof (induction L arbitrary: st)
  case Nil
  then show ?case by (intro exI [of _ "pa_seen st"]) (simp add: rendered_def list_params_def single_params_def)
next
  case (Cons cx L)
  obtain c x where cx: "cx = (c, x)" by fastforce
  have n: "normal_entry local specs (c, x)" and lang: "plain_language [(c, x)]" "plain_language L"
    using Cons.prems by (auto simp: cx plain_language_def)
  have new: "c \<notin> set (keys (pa_lists st))" "c \<notin> set (pa_seen st)" "c \<notin> set (keys (pa_result st))"
    using Cons.prems(4) by (auto simp: cx)
  obtain seen where one: "fold (engine_segment local specs) (rendered specs [(c, x)]) st
      = st\<lparr>pa_lists := pa_lists st @ list_params specs [(c, x)], pa_result := pa_result st @ single_params specs [(c, x)], pa_seen := seen\<rparr>"
      (is "_ = ?st") and seen: "set seen \<subseteq> insert c (set (pa_seen st))"
    using entry_read [OF e n lang(1) new] by blast
  have "set (keys L) \<inter> (set (keys (pa_lists ?st)) \<union> set (pa_seen ?st) \<union> set (keys (pa_result ?st))) = {}"
  proof -
    have "c \<notin> set (keys L)" "set (keys L) \<inter> (set (keys (pa_lists st)) \<union> set (pa_seen st) \<union> set (keys (pa_result st))) = {}"
      using Cons.prems(3,4) by (auto simp: cx)
    moreover have "set (keys (list_params specs [(c, x)])) \<subseteq> {c}" "set (keys (single_params specs [(c, x)])) \<subseteq> {c}"
      using param_keys [of specs "[(c, x)]"] by simp_all
    moreover have "set (keys (pa_lists ?st)) \<union> set (pa_seen ?st) \<union> set (keys (pa_result ?st))
        = set (keys (pa_lists st)) \<union> set (keys (list_params specs [(c, x)])) \<union> set seen
          \<union> (set (keys (pa_result st)) \<union> set (keys (single_params specs [(c, x)])))"
      by (simp add: image_Un Un_ac)
    ultimately show ?thesis using seen by blast
  qed
  then obtain seen' where rest: "fold (engine_segment local specs) (rendered specs L) ?st
      = ?st\<lparr>pa_lists := pa_lists ?st @ list_params specs L, pa_result := pa_result ?st @ single_params specs L, pa_seen := seen'\<rparr>"
    using Cons.IH [of ?st] Cons.prems lang(2) by auto
  show ?case
    unfolding cx rendered_Cons [of specs "(c, x)" L] params_Cons [of specs "(c, x)" L] fold_append o_apply one rest
    by (intro exI [of _ seen']) simp
qed

text \<open>The lists, joined: they are the entries again.\<close>

lemma lists_joined:
  assumes e: "map_of ENGINE_PARAM_SPECS e = Some specs" and "\<forall>cx\<in>set L. normal_entry local specs cx" "dict_ok L"
    and "set (keys L) \<inter> set (keys (pa_result st)) = {}"
  shows "fold (\<lambda>(c, ws) st. case spec_by_name specs c of None \<Rightarrow> st | Some p \<Rightarrow> put_value local p (join '','' ws) st) (list_params specs L) st
    = st\<lparr>pa_result := pa_result st @ filter (\<lambda>cx. cx \<notin> set (single_params specs L)) L\<rparr>"
  using assms(2-)
proof (induction L arbitrary: st)
  case Nil
  then show ?case by (simp add: list_params_def)
next
  case (Cons cx L)
  obtain c x where cx: "cx = (c, x)" by fastforce
  have n: "normal_entry local specs (c, x)" using Cons.prems by (simp add: cx)
  have fl: "filter (\<lambda>y. y \<notin> set (single_params specs (cx # L))) L = filter (\<lambda>y. y \<notin> set (single_params specs L)) L"
    by (rule filter_cong [OF refl]) (auto simp: single_params_def)
  show ?case
  proof (cases rule: entry_cases [OF e n, case_names pages plain flag])
    case (pages segs)
    let ?st = "st\<lparr>pa_result := pa_result st @ [(c, x)]\<rparr>"
    have lp: "list_params specs [cx] = [(c, segs)]" "single_params specs [cx] = []"
      using pages segs_split [OF pages(5,4)] by (simp_all add: cx list_params_def single_params_def engine_spec_def)
    have "canonical page_spec = c" using pages(2) by (simp add: engine_spec_def)
    then have put: "put_value local page_spec (join '','' segs) st = ?st"
      using coerce_joined [OF pages(6,4)] pages(3) Cons.prems(3) by (simp add: put_value_def cx update_new)
    have "cx \<notin> set (single_params specs L)" using Cons.prems(2) by (force simp: cx single_params_def)
    moreover have "fold (\<lambda>(c, ws) st. case spec_by_name specs c of None \<Rightarrow> st | Some p \<Rightarrow> put_value local p (join '','' ws) st)
        (list_params specs L) ?st = ?st\<lparr>pa_result := pa_result ?st @ filter (\<lambda>cx. cx \<notin> set (single_params specs L)) L\<rparr>"
      using Cons.prems by (intro Cons.IH) (auto simp: cx)
    ultimately show ?thesis
      using pages(1) put lp(2) fl by (simp add: params_Cons [of specs "(c, x)" L] lp [unfolded cx] cx)
  next
    case (plain p s)
    then have "list_params specs [cx] = []" "single_params specs [cx] = [cx]" by (simp_all add: cx list_params_def single_params_def)
    then show ?thesis using Cons fl by (simp add: params_Cons [of specs "(c, x)" L] cx)
  next
    case (flag p b)
    then have "list_params specs [cx] = []" "single_params specs [cx] = [cx]" by (simp_all add: cx list_params_def single_params_def)
    then show ?thesis using Cons fl by (simp add: params_Cons [of specs "(c, x)" L] cx)
  qed
qed


lemma map_of_parts:
  assumes "dict_ok L"
  shows "map_of (filter P L @ filter (\<lambda>cx. cx \<notin> set (filter P L)) L) = map_of L"
proof
  fix k
  have one: "map_of (filter Q L) k = (case map_of L k of None \<Rightarrow> None | Some v \<Rightarrow> if Q (k, v) then Some v else None)" for Q
  proof (cases "map_of L k")
    case None
    then have "k \<notin> set (keys (filter Q L))" by (auto simp: map_of_eq_None_iff)
    then have "map_of (filter Q L) k = None" by (simp add: map_of_eq_None_iff)
    then show ?thesis using None by simp
  next
    case (Some v)
    then have v: "(k, v) \<in> set L" by (rule map_of_SomeD)
    have ok: "dict_ok (filter Q L)" using assms by (simp add: distinct_map_filter)
    show ?thesis
    proof (cases "Q (k, v)")
      case True
      then show ?thesis using v Some ok by simp
    next
      case False
      have "k \<notin> set (keys (filter Q L))"
      proof
        assume "k \<in> set (keys (filter Q L))"
        then obtain w where "(k, w) \<in> set L" "Q (k, w)" by auto
        then show False using eq_key_imp_eq_value [OF assms v] False by blast
      qed
      then show ?thesis using False Some by (simp add: map_of_eq_None_iff)
    qed
  qed
  show "map_of (filter P L @ filter (\<lambda>cx. cx \<notin> set (filter P L)) L) k = map_of L k"
  proof (cases "map_of L k")
    case None
    then show ?thesis by (simp add: map_add_def one)
  next
    case (Some v)
    then have "(k, v) \<in> set L" by (rule map_of_SomeD)
    then show ?thesis using Some by (simp add: map_add_def one split: option.split)
  qed
qed

lemma coerce_state:
  assumes "coerce_engine_value local p s = Inr x"
  shows "put_value local p s st = st\<lparr>pa_result := AList.update (canonical p) x (pa_result st)\<rparr>"
  using assms by (simp add: put_value_def)

text \<open>A dict without errors is normal, and normalising it again changes nothing.\<close>

lemma errors_grow: "\<exists>xs. pa_errors (fold (normal_param local specs) ps st) = pa_errors st @ xs"
proof (induction ps arbitrary: st)
  case (Cons p ps)
  have "\<exists>xs. pa_errors (normal_param local specs p st) = pa_errors st @ xs"
    by (auto simp: normal_param_def put_value_def add_error_def split: option.split sum.split)
  then show ?case using Cons.IH [of "normal_param local specs p st"] by auto
qed simp

lemma join_strip:
  assumes "\<forall>w\<in>set ws. strip w = w"
  shows "join '','' ws = [] \<or> \<not> isspace (hd (join '','' ws)) \<and> \<not> isspace (List.last (join '','' ws))"
  using assms
proof (induction ws rule: induct_list012)
  case (2 w)
  then show ?case using strip_ends [of w] by auto
next
  case (3 v w ws)
  have c: "\<not> isspace (CHR '','')" by (simp add: isspace_def)
  have "v = [] \<or> \<not> isspace (hd v)" using 3 strip_ends [of v] by auto
  moreover have "join '','' (w # ws) = [] \<or> \<not> isspace (List.last (join '','' (w # ws)))" using 3 by auto
  ultimately show ?case using c by (auto simp: hd_append)
qed simp

lemma normal_value_stripped: "strip (normal_value p x) = normal_value p x"
proof (cases x)
  case (PTexts xs)
  then show ?thesis using join_strip [of "map strip xs"] by (auto simp: normal_value_def intro: strip_eq)
qed (simp_all add: normal_value_def)

lemma normalized_normal:
  assumes e: "map_of ENGINE_PARAM_SPECS e = Some specs" and "pa_errors (fold (normal_param local specs) ps st) = []"
    and "\<forall>cx\<in>set (pa_result st). normal_entry local specs cx" "dict_ok (pa_result st)"
  shows "(\<forall>cx\<in>set (pa_result (fold (normal_param local specs) ps st)). normal_entry local specs cx)
    \<and> dict_ok (pa_result (fold (normal_param local specs) ps st))"
  using assms(2-)
proof (induction ps arbitrary: st)
  case (Cons kx ps)
  let ?st = "normal_param local specs kx st"
  have none: "pa_errors ?st = []" using errors_grow [of local specs ps ?st] Cons.prems(1) by auto
  then obtain p where p: "spec_by_name specs (fst kx) = Some p" and put: "?st = put_value local p (normal_value p (snd kx)) st"
    by (auto simp: normal_param_def add_error_def split: option.splits)
  obtain x where x: "coerce_engine_value local p (normal_value p (snd kx)) = Inr x"
    using none unfolding put by (auto simp: put_value_def add_error_def split: sum.splits)
  have n: "normal_entry local specs (canonical p, x)"
    unfolding normal_entry_def using spec_of_canonical [OF e p] x normal_value_stripped by auto
  have st: "pa_result ?st = AList.update (canonical p) x (pa_result st)" unfolding put coerce_state [OF x] by simp
  have "\<forall>cx\<in>set (pa_result ?st). normal_entry local specs cx"
    unfolding st using n Cons.prems(2) set_update_subset [of "canonical p" x "pa_result st"] by blast
  moreover have "dict_ok (pa_result ?st)" unfolding st using Cons.prems(3) by (rule dict_ok_update)
  ultimately show ?case using Cons.IH [of ?st] Cons.prems(1) by simp
qed simp


lemma normalize_again:
  assumes e: "map_of ENGINE_PARAM_SPECS e = Some specs" and "\<forall>cx\<in>set L. normal_entry local specs cx"
    and "dict_ok L" "set (keys L) \<inter> set (keys (pa_result st)) = {}"
  shows "fold (normal_param local specs) L st = st\<lparr>pa_result := pa_result st @ L\<rparr>"
  using assms(2-)
proof (induction L arbitrary: st)
  case (Cons cx L)
  obtain c x where cx: "cx = (c, x)" by fastforce
  have n: "normal_entry local specs (c, x)" and new: "c \<notin> set (keys (pa_result st))" using Cons.prems by (auto simp: cx)
  have one: "normal_param local specs cx st = st\<lparr>pa_result := pa_result st @ [(c, x)]\<rparr>"
  proof (cases rule: entry_cases [OF e n, case_names pages plain flag])
    case (pages segs)
    have "canonical page_spec = c" using pages(2) by (simp add: engine_spec_def)
    moreover have "normal_value page_spec x = join '','' segs"
      using join_strip [of segs] pages(3,5) page_segment_clean(3) by (auto simp: normal_value_def intro: strip_eq)
    ultimately show ?thesis
      using pages(1) coerce_joined [OF pages(6,4)] pages(3) new by (simp add: normal_param_def cx put_value_def update_new)
  next
    case (plain p s)
    then show ?thesis using new by (simp add: normal_param_def cx put_value_def normal_value_def update_new)
  next
    case (flag p b)
    have "normal_value p x = (if b then ''True'' else ''False'')" unfolding flag(5) by (simp add: normal_value_def strip_eq isspace_def)
    then have "coerce_engine_value local p (normal_value p x) = Inr x" using flag(5,6) parse_bool_literals by simp
    then show ?thesis using flag(1,2) new by (simp add: normal_param_def cx put_value_def update_new)
  qed
  have "fold (normal_param local specs) L (st\<lparr>pa_result := pa_result st @ [(c, x)]\<rparr>)
      = st\<lparr>pa_result := (pa_result st @ [(c, x)]) @ L\<rparr>"
    using Cons.IH [of "st\<lparr>pa_result := pa_result st @ [(c, x)]\<rparr>"] Cons.prems by (auto simp: cx)
  then show ?case using one cx by simp
qed simp

lemma same_dict:
  assumes "dict_ok L" "dict_ok M" "map_of L = map_of M"
  shows "sort_key fst L = sort_key fst (M :: (pystr \<times> 'v) list)"
proof (rule map_sorted_distinct_set_unique [where f = fst])
  have "(k, v) \<in> set L \<longleftrightarrow> (k, v) \<in> set M" for k v
    using map_of_eq_Some_iff [OF assms(1), of k v] map_of_eq_Some_iff [OF assms(2), of k v] assms(3) by simp
  then have "set L = set M" by auto
  then show "set (sort_key fst L) = set (sort_key fst M)" by simp
  show "inj_on fst (set (sort_key fst L) \<union> set (sort_key fst M))"
    using assms(1) \<open>set L = set M\<close> by (simp add: distinct_map)
qed (use assms in \<open>simp_all add: distinct_map\<close>)

lemma rendered_clean:
  assumes e: "map_of ENGINE_PARAM_SPECS e = Some specs" and "\<forall>cx\<in>set L. normal_entry local specs cx" "plain_language L"
    and "r \<in> set (rendered specs L)"
  shows "set r \<inter> set '',()'' = {}"
proof -
  obtain c x where cx: "(c, x) \<in> set L" "r \<in> set (rendered specs [(c, x)])" using assms(4) by (auto simp: rendered_def)
  have n: "normal_entry local specs (c, x)" using assms(2) cx by blast

  show ?thesis
  proof (cases rule: entry_cases [OF e n, case_names pages plain flag])
    case (pages segs)
    then obtain s where "s \<in> set segs" "r = ''page_range'' @ ''='' @ s"
      using cx(2) segs_split [OF pages(5,4)] by (auto simp: rendered_def render_param_def engine_spec_def)
    then show ?thesis using pages(5) page_segment_clean(2) [of s] by auto
  next
    case (plain p s)
    have "set s \<inter> set VALUE_FORBIDDEN = {}"
    proof (cases "c = ''language''")
      case True
      then show ?thesis using assms(3) cx(1) plain(5) unfolding plain_language_def by simp
    next
      case False
      then show ?thesis by (intro enum_clean plain(9))
    qed
    moreover have "set (canonical p) \<inter> set '',()='' = {}" using canonical_clean [OF known_spec [OF e plain(1)]] by blast
    ultimately show ?thesis using plain cx(2) by (auto simp: rendered_def render_param_def VALUE_FORBIDDEN_def)
  next
    case (flag p b)
    have "set (canonical p) \<inter> set '',()='' = {}" using canonical_clean [OF known_spec [OF e flag(1)]] by blast
    moreover have "r = canonical p @ ''='' @ (if b then ''true'' else ''false'')"
      using flag(1-5) cx(2) by (simp add: rendered_def render_param_def split: if_splits)
    moreover have "set (if b then ''true'' else ''false'') \<inter> set '',()'' = {}" by simp
    ultimately show ?thesis by auto
  qed
qed


subsection \<open>The round trip\<close>

lemma parse_rendered:
  assumes e: "map_of ENGINE_PARAM_SPECS e = Some specs" and n: "\<forall>cx\<in>set L. normal_entry local specs cx"
    and ok: "dict_ok L" "plain_language L" "L \<noteq> []"
  shows "\<exists>qs. parse_engine_params local e (join '','' (rendered specs L)) = (qs, []) \<and> map_of qs = map_of L \<and> dict_ok qs"
proof -
  let ?P = "\<lambda>(c, x). case spec_by_name specs c of None \<Rightarrow> True | Some p \<Rightarrow> \<not> is_list p"
  have "rendered specs [cx] \<noteq> []" if "cx \<in> set L" for cx
  proof -
    obtain p where "spec_by_name specs (fst cx) = Some p" using n \<open>cx \<in> set L\<close> by (auto simp: normal_entry_def)
    moreover have "render_param p (snd cx) \<noteq> []" by (simp add: render_param_def)
    ultimately show ?thesis by (simp add: rendered_def split_def)
  qed
  then have "rendered specs [hd L] \<noteq> []" using ok(3) by simp
  then have ne: "rendered specs L \<noteq> []" using ok(3) rendered_Cons [of specs "hd L" "tl L"] by simp
  have sp: "split_top_level (join '','' (rendered specs L)) '','' = rendered specs L"
    by (rule split_top_level_join [OF ne]) (use rendered_clean [OF e n ok(2)] in blast)
  obtain seen where read: "fold (engine_segment local specs) (rendered specs L) new_params
      = new_params\<lparr>pa_lists := list_params specs L, pa_result := single_params specs L, pa_seen := seen\<rparr>" (is "_ = ?st")
    using entries_read [OF e n ok(2,1), of new_params] by (auto simp: new_params_def)
  let ?late = "filter (\<lambda>cx. cx \<notin> set (single_params specs L)) L"
  have late: "?late = filter (\<lambda>cx. \<not> ?P cx) L"
    by (rule filter_cong [OF refl]) (auto simp: single_params_def)
  have lists: "join_lists local specs ?st = ?st\<lparr>pa_result := single_params specs L @ ?late\<rparr>"
  proof -
    have keys: "fold (\<lambda>(c, ws) st. case spec_by_name specs c of None \<Rightarrow> st | Some p \<Rightarrow> put_value local p (join '','' ws) st)
        (list_params specs M) st = st\<lparr>pa_result := pa_result st @ filter (\<lambda>cx. cx \<notin> set (single_params specs M)) M\<rparr>"
      if "\<forall>cx\<in>set M. normal_entry local specs cx" "dict_ok M" "set (keys M) \<inter> set (keys (pa_result st)) = {}" for M st
      by (rule lists_joined [OF e that])
    let ?M = "filter (\<lambda>cx. \<not> ?P cx) L"
    have lists: "list_params specs L = list_params specs ?M" by (auto simp: list_params_def split: option.splits intro!: arg_cong [of _ _ "map _"] filter_cong)
    have single: "single_params specs ?M = []" by (auto simp: single_params_def filter_empty_conv split: option.splits)
    have "set (keys ?M) \<inter> set (keys (pa_result ?st)) = {}"
      using ok(1) by (auto simp: single_params_def dest: eq_key_imp_eq_value)
    then show ?thesis
      using keys [of ?M ?st] n ok(1) late lists single by (simp add: join_lists_def distinct_map_filter)
  qed
  then have "parse_engine_params local e (join '','' (rendered specs L)) = (single_params specs L @ ?late, [])"
    unfolding parse_engine_params_def e option.case sp read Let_def lists by (simp add: new_params_def)
  moreover have "map_of (single_params specs L @ ?late) = map_of L"
    using map_of_parts [OF ok(1), of ?P] by (simp add: single_params_def)
  moreover have "dict_ok (single_params specs L @ ?late)"
    using ok(1) by (auto simp: single_params_def distinct_map_filter dest: eq_key_imp_eq_value)
  ultimately show ?thesis by blast
qed

lemma supported_engines:
  assumes "engine_params_supported e"
  shows "e \<in> {''mineru'', ''docling'', ''native''}"
  using assms
  by (auto simp: engine_params_supported_def has_key_def ENGINE_PARAM_SPECS_def PARSER_ENGINE_MINERU_def PARSER_ENGINE_DOCLING_def
      PARSER_ENGINE_NATIVE_def split: if_splits)

lemma engine_names: "normalize_parser_engine ''mineru'' = ''mineru''" "normalize_parser_engine ''docling'' = ''docling''"
    "normalize_parser_engine ''native'' = ''native''"
  by code_simp+

lemma engine_clean:
  assumes "engine_params_supported e"
  shows "normalize_parser_engine e = e" "CHR ''('' \<notin> set e" "e \<noteq> []" "\<not> isspace (hd e)" "strip e = e"
proof -
  show n: "normalize_parser_engine e = e" using supported_engines [OF assms] engine_names by (elim insertE emptyE) simp_all
  show "CHR ''('' \<notin> set e" "e \<noteq> []" "\<not> isspace (hd e)" "strip e = e"
    using supported_engines [OF assms] by (elim insertE emptyE; simp add: isspace_def strip_eq)+
qed

lemma decode_block:
  assumes e: "engine_params_supported e" and i: "CHR ''('' \<notin> set s" "CHR '')'' \<notin> set s"
  shows "decode_parse_engine local (e @ ''('' @ s @ '')'') = (e, parse_engine_params local e s)"
proof -
  note c = engine_clean [OF e]
  let ?raw = "e @ CHR ''('' # s @ '')''"
  have raw: "strip ?raw = ?raw" using c(3,4) by (intro strip_eq) (simp add: isspace_def)
  have d: "dropWhile (\<lambda>x. x \<noteq> CHR ''('') (t @ CHR ''('' # u) = CHR ''('' # u" if "CHR ''('' \<notin> set t" for t u
    using that by (induction t) auto
  have b: "before (CHR ''('') ?raw = e" "dropWhile (\<lambda>x. x \<noteq> CHR ''('') ?raw = CHR ''('' # s @ '')''"
    using c(2) by (simp_all add: before_behind d)
  have "take_paren_block (CHR ''('' # s @ '')'') = Some (s, [])"
    using paren_loop_inner [OF i, of "[]" "[]"] by (simp add: take_paren_block_def)
  then show ?thesis using c(1,3) by (simp add: decode_parse_engine_def raw b Let_def strip_eq split: prod.split)
qed



text \<open>The comment of \<open>encode_parse_engine\<close> says that it never writes what \<open>decode_parse_engine\<close> rejects; it does.\<close>

lemma language_breaks_round_trip:
  "encode_parse_engine True ''mineru'' [(''language'', PText ''en,fr'')] = Inr ''mineru(language=en,fr)''"
  "decode_parse_engine True ''mineru(language=en,fr)'' = (''mineru'', [(''language'', PText ''en'')], [UnknownParameter ''fr''])"
  by code_simp+

end
