(* ===== verification/Spec2Isabelle.thy ===== *)
theory Spec2Isabelle
  imports IngressLaws ScanJobsLaws LoginLimitLaws SnapshotLaws RegistryLaws ManagerLaws EnvFileLaws CatalogLaws
    AttributionLaws ChunkerLaws GateDrain Retry KeyedProgress GlobalSlotLaws FileHintLaws ParamSchemaLaws
begin

text \<open>
  BIMNEMO keeps "memories" of documents: it takes files in, cuts them into chunks, extracts a knowledge
  graph from them and answers questions. It is LightRAG (\<^verbatim>\<open>src/lightrag\<close>) with a desktop product around
  it (\<^verbatim>\<open>src/lightrag/api/bimnemo\<close>). This development models the parts on which documents are lost,
  duplicated or handled twice when they are wrong: the control plane of the processing pipeline, the
  storage of document statuses, the registry of memories, and the pure text routines around them.

  \<^bold>\<open>The parts and how they interact\<close>

  \<^item> \<^emph>\<open>Ingress\<close> (\<^theory_text>\<open>Ingress\<close>, \<^theory_text>\<open>IngressLaws\<close>; \<^verbatim>\<open>kg/pipeline_ingress.py\<close>): the mailbox through which uploads, scans
    and retries wake the pipeline: a bounded channel of documents, a dirty flag, a queue of manual
    retries with the ids it has retired. Two back ends, proved to answer alike; nothing accepted is
    lost, no wake-up is lost, a retired id is refused.
  \<^item> \<^emph>\<open>Reservations\<close> (\<^theory_text>\<open>Reservations\<close>, \<^theory_text>\<open>ReservationLaws\<close>; \<^verbatim>\<open>kg/shared_storage.py\<close>): the shared
    \<open>pipeline_status\<close> record, the busy and the scanning slot with their owners, the set of uploads in flight,
    the freeze of a manual retry, the recovery fence and the reclaim from dead processes. One definition
    per function; each holds one lock, so each is one step.
  \<^item> \<^emph>\<open>Users\<close> (\<^theory_text>\<open>PipelineUsers\<close>; \<^verbatim>\<open>api/routers/document_routes.py\<close>, \<^verbatim>\<open>lightrag.py\<close>, \<^verbatim>\<open>pipeline.py\<close>,
    \<^verbatim>\<open>tools/source_conflict_repair.py\<close>): with which flags, fences and releases uploads, clears, deletions,
    custom chunks, admin edits, scans, repairs, cancel and force-reset use them.
  \<^item> \<^emph>\<open>Scheduler\<close> (\<^theory_text>\<open>Scheduler\<close>, \<^theory_text>\<open>SchedulerLaws\<close>, \<^theory_text>\<open>ResetLaws\<close>; \<^verbatim>\<open>pipeline.py\<close>): the decision of a run,
    its sweeps over the statuses, the manual retry (freeze, drain, confirmation, exclusive reset, ACK), the
    stall fences, the validator, the end of a run.
  \<^item> \<^emph>\<open>Any interleaving\<close> (\<^theory_text>\<open>GateLaws\<close>, \<^theory_text>\<open>GateSteps\<close>, \<^theory_text>\<open>GateDrain\<close>): \<open>gate_step\<close> has a rule per operation of
    every user; \<open>gate_ok\<close> is the invariant, in four parts (busy slot, scanning slot, uploads in flight,
    manual retry), each kept by every step. From it: the users exclude each other, the exclusive
    reset runs alone, a drain admits nobody new.
  \<^item> \<^emph>\<open>Document statuses\<close> (\<^theory_text>\<open>DocRows\<close>, \<^theory_text>\<open>DocStatus\<close>, \<^theory_text>\<open>Keyset\<close>, \<^theory_text>\<open>DocStatusLaws\<close>, \<^theory_text>\<open>StatusMeta\<close>,
    \<^theory_text>\<open>StatusMetaLaws\<close>; \<^verbatim>\<open>base.py\<close>, \<^verbatim>\<open>kg/json_doc_status_impl.py\<close>, \<^verbatim>\<open>utils_pipeline.py\<close>): the rows, the store with its
    file and update flags, the pages, the duplicate check, the repair of source conflicts, what a row
    carries from state to state. \<^theory_text>\<open>Keyset\<close> states the contract of a keyset sweep as a locale; the
    store's pages interpret it, and the sweeps of the scheduler rest on that interpretation.
  \<^item> \<^emph>\<open>Scan jobs\<close> (\<^theory_text>\<open>ScanJobs\<close>, \<^theory_text>\<open>ScanJobsLaws\<close>; \<^verbatim>\<open>kg/scan_job_store.py\<close>), \<^emph>\<open>file fence and write tokens\<close>
    (\<^theory_text>\<open>Snapshot\<close>, \<^theory_text>\<open>SnapshotLaws\<close>; \<^verbatim>\<open>kg/file_fingerprint.py\<close>, \<^verbatim>\<open>kg/write_seq.py\<close>), \<^emph>\<open>login limiter\<close> (\<^theory_text>\<open>LoginLimit\<close>,
    \<^theory_text>\<open>LoginLimitLaws\<close>; \<^verbatim>\<open>api/login_rate_limit.py\<close>): bounds, compare-and-set, leases; no torn set of
    files is adopted; wrong passwords are bounded in any interleaving.
  \<^item> \<^emph>\<open>Keyed locks\<close> (\<^theory_text>\<open>KeyedLocks\<close> to \<^theory_text>\<open>KeyedProgress\<close>; \<^verbatim>\<open>kg/shared_storage.py\<close>): the locks of one or several
    keys that every part above and below takes. \<^theory_text>\<open>KeyedLocks\<close> has the operations; \<^theory_text>\<open>KeyedGates\<close> and \<^theory_text>\<open>KeyedContexts\<close>
    the contract of one process (counts, \<open>asyncio.Lock\<close>s, shapes of contexts); \<^theory_text>\<open>KeyedLockSteps\<close> the steps of all
    processes, with deaths and lost replies; \<^theory_text>\<open>KeyedLockLaws\<close> the leases; \<^theory_text>\<open>Refinement\<close> states simulation as a
    locale, which \<^theory_text>\<open>KeyedMutex\<close> interprets on the locks and one mutex per key; \<^theory_text>\<open>KeyedProgress\<close> shows that
    contexts that wait never block each other.
  \<^item> \<^emph>\<open>Global slots\<close> (\<^theory_text>\<open>GlobalSlots\<close>, \<^theory_text>\<open>GlobalSlotLaws\<close>; \<^verbatim>\<open>kg/shared_storage.py\<close>): the limit on calls across processes, its
    leases and waiters, the statistics of queues. The limit holds in every run; a live lease is kept.
  \<^item> \<^emph>\<open>Retry of one document\<close> (\<^theory_text>\<open>Retry\<close>; \<^verbatim>\<open>api/bimnemo/reintento.py\<close>): only the row of that document changes.
  \<^item> \<^emph>\<open>Parser hints and routing\<close> (\<^theory_text>\<open>ParamSchema\<close>, \<^theory_text>\<open>ParamSchemaLaws\<close>, \<^theory_text>\<open>FileHints\<close>, \<^theory_text>\<open>FileRouting\<close>,
    \<^theory_text>\<open>FileHintLaws\<close>; \<^verbatim>\<open>parser/param_schema.py\<close>, \<^verbatim>\<open>parser/routing.py\<close>): parser and options of a file from its name
    and the rules. An accepted hint decides; stored parameters are read back.
  \<^item> \<^emph>\<open>Memories\<close> (\<^theory_text>\<open>Registry\<close>, \<^theory_text>\<open>Manager\<close> and their laws; \<^verbatim>\<open>api/bimnemo/nemo_registry.py\<close>,
    \<^verbatim>\<open>api/bimnemo/nemo_manager.py\<close>): names and folders stay unique, an index is read back, one open instance
    of each memory, eviction of the least recently used.
  \<^item> \<^emph>\<open>Text and files\<close> (\<^theory_text>\<open>EnvFile\<close>, \<^theory_text>\<open>Catalog\<close>, \<^theory_text>\<open>Attribution\<close>, \<^theory_text>\<open>Chunker\<close> and their laws;
    \<^verbatim>\<open>api/bimnemo/envfile.py\<close>, \<^verbatim>\<open>catalog.py\<close>, \<^verbatim>\<open>reparto.py\<close>, \<^verbatim>\<open>utils.py\<close>, \<^verbatim>\<open>chunker/token_size.py\<close>).

  A run (\<^theory_text>\<open>Scheduler\<close>) takes the busy slot (\<^theory_text>\<open>Reservations\<close>), reads the mailbox (\<^theory_text>\<open>Ingress\<close>) under the same
  lock, sweeps the store (\<^theory_text>\<open>DocStatus\<close>) outside it and comes back to decide; uploads and scans
  (\<^theory_text>\<open>PipelineUsers\<close>) do the same from their side. What the others do while a run awaits is an argument of
  the scheduler's definitions (the stores read, the acts in between), and an interleaving of
  \<open>gate_step\<close> in the laws.

  \<^bold>\<open>How the code is written in HOL\<close> (\<^theory_text>\<open>PyBase\<close>, \<^theory_text>\<open>PyText\<close>, \<^theory_text>\<open>PyJson\<close>)

  Dicts are association lists in insertion order; exceptions are the \<open>Inl\<close> of a sum; strings are lists of
  the code points 0 to 255; integers and times are exact; a JSON value is a datatype, so that
  rows of the wrong shape have their branch. Random ids, clocks, the operating system's answers about
  processes and files, tokenizers and remote calls are arguments.

  \<^bold>\<open>Bounds and fuel\<close>

  Loops are structural or carry a measure. Three take the list of the stores they will read: a sweep
  (\<open>sweep\<close>), the confirmation of a drain and the exclusive reset answer \<open>None\<close> (or an unfinished
  position) when the list is too short; \<open>sweep_ends\<close> gives the number of pages that is enough.

  \<^bold>\<open>Premises of the interleaving\<close>

  \<open>gate_step\<close> lets every user act at any time, also after its process was declared dead. What the callers
  see to is a premise of a rule and named there: a token has one user; a re-weight is by a holder of its token; a run
  decides and begins a drain while it holds the slot; who handed its slot over releases it afterwards
  only if no run took it. One premise is not enforced by the code: the deletion of one
  document does not start while a scan classifies (\<open>single_delete_in_classification\<close> shows it can).

  \<^bold>\<open>Not modelled\<close>

  The other storages (PostgreSQL, MongoDB, OpenSearch, Redis, Milvus, Qdrant, Neo4j, Memgraph, FAISS,
  NanoVectorDB, NetworkX and the JSON key-value store): calls to external services or libraries. The
  extraction of entities and relations, the queries and the prompts (\<^verbatim>\<open>operate.py\<close>, \<^verbatim>\<open>prompt.py\<close>): what they do
  rests on a language model. The parsers, the sidecar, the other chunkers, the bindings of the
  models, the web server and its user interface, the evaluation and migration tools: input and
  output around libraries. The workers of a run (\<^verbatim>\<open>pipeline.py\<close>, from \<^verbatim>\<open>_parse_worker\<close> on) and the graph
  edits (\<^verbatim>\<open>utils_graph.py\<close>): effects on storages that are not modelled. Displayed texts, logs, metrics and
  HTTP details are left out throughout.
\<close>

end
